(* ===== verification/Prelude.thy ===== *)
theory Prelude
  imports Main "HOL-Library.Word"
begin

text \<open>
  Shared vocabulary of the development: the machine integers of
  \<open>kernel/src/include/stdint.h\<close>, the ways in which kernel code can fail to return, the
  sequencing of operations that may halt, byte-addressed memory, and little-endian
  encoding of integers. Lemmas on these are collected in \<open>mem_simps\<close> and
  \<open>res_simps\<close> for the component theories.
\<close>

unbundle bit_operations_syntax

section \<open>Machine integers\<close>

type_synonym u8 = "8 word"
type_synonym u16 = "16 word"
type_synonym u32 = "32 word"
type_synonym u64 = "64 word"

named_theorems mem_simps \<open>reading memory after writing it\<close>
named_theorems res_simps \<open>sequencing of operations that may halt\<close>

section \<open>Operations that may not return\<close>

text \<open>
  The kernel has no error unwinding: code that cannot continue prints a message and runs
  \<open>while(1);\<close>, spins on a mutex nobody will release, or loops for ever.  The tool
  \<open>echfs-utils\<close> calls \<open>abort()\<close>.  Each is a value of \<open>halt\<close>.
\<close>

datatype halt =
    Panic string      \<comment> \<open>an error message followed by \<open>while(1);\<close> or \<open>abort()\<close>\<close>
  | Deadlock          \<comment> \<open>\<open>acquire\<close> of a mutex that is already held\<close>
  | Diverges          \<comment> \<open>a search loop whose exit condition never becomes true\<close>
  | Overrun           \<comment> \<open>a write past the end of a fixed-size C array\<close>

definition bnd :: "'e + 'a \<Rightarrow> ('a \<Rightarrow> 'e + 'b) \<Rightarrow> 'e + 'b" where
  "bnd x f = (case x of Inl e \<Rightarrow> Inl e | Inr a \<Rightarrow> f a)"

lemma bnd_simps [simp, res_simps]:
  "bnd (Inl e) f = Inl e"
  "bnd (Inr a) f = f a"
  by (simp_all add: bnd_def)

lemma bnd_Inr_iff [res_simps]:
  "bnd x f = Inr y \<longleftrightarrow> (\<exists>a. x = Inr a \<and> f a = Inr y)"
  by (cases x) auto

lemma bnd_InrE:
  assumes "bnd x f = Inr y"
  obtains a where "x = Inr a" and "f a = Inr y"
  using assms by (auto simp: bnd_Inr_iff)

text \<open>A counted \<open>for\<close> loop whose body may halt.\<close>

primrec fold_res :: "('i \<Rightarrow> 's \<Rightarrow> 'e + 's) \<Rightarrow> 'i list \<Rightarrow> 's \<Rightarrow> 'e + 's" where
  "fold_res f [] s = Inr s"
| "fold_res f (i # is) s = bnd (f i s) (fold_res f is)"

lemma fold_res_append [simp]:
  "fold_res f (xs @ ys) s = bnd (fold_res f xs s) (fold_res f ys)"
  by (induction xs arbitrary: s) (simp_all add: bnd_def split: sum.splits)

lemma fold_res_invariant:
  assumes "fold_res f xs s = Inr t" and "P s"
    and "\<And>i s s'. i \<in> set xs \<Longrightarrow> f i s = Inr s' \<Longrightarrow> P s \<Longrightarrow> P s'"
  shows "P t"
  using assms
proof (induction xs arbitrary: s)
  case Nil
  then show ?case by simp
next
  case (Cons i xs)
  from Cons.prems(1) obtain s' where "f i s = Inr s'" "fold_res f xs s' = Inr t"
    by (auto simp: bnd_Inr_iff)
  with Cons show ?case by (metis list.set_intros)
qed

section \<open>Words as numbers\<close>

lemma unat_plus_one_less: "i < j \<Longrightarrow> unat (i + 1) = unat i + 1" for i j :: "'a::len word"
  by (metis add.commute add_0 inc_i inc_le unat_plus_simple unsigned_0 unsigned_1 word_gt_0)

lemma unat_minus_one_pos: "0 < j \<Longrightarrow> unat (j - 1) = unat j - 1" for j :: "'a::len word"
  by (simp add: unat_minus_one word_neq_0_conv)

lemma unat_add_less: "unat a + unat b < 2 ^ 64 \<Longrightarrow> unat (a + b) = unat a + unat b" for a b :: u64
  by (simp add: unat_word_ariths)

lemma unat_add_nat: "unat a + n < 2 ^ 64 \<Longrightarrow> unat (a + of_nat n) = unat a + n" for a :: u64
  by (simp add: unat_word_ariths unat_of_nat)

lemma unat_less_size: "unat a < 18446744073709551616" for a :: u64
  using unsigned_less[of a] by simp

lemma unat_of_nat_small: "n < 2 ^ 64 \<Longrightarrow> unat (of_nat n :: u64) = n"
  by (simp add: unat_of_nat)

lemma word_eq_of_nat: "unat x = n \<Longrightarrow> x = of_nat n" for x :: u64
  by auto

lemma unat_minus_of_nat:
  "n < 2 ^ 64 \<Longrightarrow> unat (d - of_nat n) = (if n \<le> unat d then unat d - n else unat d + 2 ^ 64 - n)" for d :: u64
  by (simp add: unat_sub_if' word_le_nat_alt unat_of_nat)

lemma scast_small: "unat w < 2 ^ 31 \<Longrightarrow> scast w = (of_nat (unat w) :: u64)" for w :: u32
proof -
  assume "unat w < 2 ^ 31"
  then have "int (unat w) < int (2 ^ 31)" by (simp only: of_nat_less_iff)
  then have u: "uint w < 2 ^ 31" by simp
  have "sint w = signed_take_bit 31 (uint w)" by (simp add: sint_uint)
  also have "\<dots> = uint w" using u by (intro signed_take_bit_int_eq_self) (auto intro: order.trans[of _ 0])
  finally have "sint w = uint w" .
  then have "scast w = (word_of_int (uint w) :: u64)" by (simp only: scast_eq)
  also have "\<dots> = of_nat (unat w)" by simp
  finally show ?thesis .
qed

section \<open>Byte-addressed memory\<close>

type_synonym memory = "u64 \<Rightarrow> u8"

definition load :: "memory \<Rightarrow> u64 \<Rightarrow> nat \<Rightarrow> u8 list" where
  "load m a n = map (\<lambda>i. m (a + of_nat i)) [0..<n]"

definition store :: "memory \<Rightarrow> u64 \<Rightarrow> u8 list \<Rightarrow> memory" where
  "store m a bs = (\<lambda>x. if unat (x - a) < length bs then bs ! unat (x - a) else m x)"

lemma length_load [simp]: "length (load m a n) = n"
  by (simp add: load_def)

lemma nth_load [simp]: "i < n \<Longrightarrow> load m a n ! i = m (a + of_nat i)"
  by (simp add: load_def)

lemma unat_add_diff [simp]: "unat (a + of_nat i - a) = i mod 2 ^ 64" for a :: u64
  by (simp add: unat_of_nat)

lemma offset_iff: "n < 2 ^ 64 \<Longrightarrow> x = p + of_nat n \<longleftrightarrow> unat (x - p) = n" for x p :: u64
  by (auto simp: unat_of_nat)

lemma store_in: "i < length bs \<Longrightarrow> i < 2 ^ 64 \<Longrightarrow> store m a bs (a + of_nat i) = bs ! i"
  by (simp add: store_def unat_of_nat)

lemma store_out: "length bs \<le> unat (x - a) \<Longrightarrow> store m a bs x = m x"
  by (simp add: store_def)

lemma load_store_same [mem_simps]:
  "length bs = n \<Longrightarrow> n \<le> 2 ^ 64 \<Longrightarrow> load (store m a bs) a n = bs"
  by (auto intro!: nth_equalityI simp: store_in)

lemma load_store_other:
  assumes "\<And>i. i < n \<Longrightarrow> length bs \<le> unat (a + of_nat i - b)"
  shows "load (store m b bs) a n = load m a n"
  using assms by (auto intro!: nth_equalityI simp: store_out)

lemma store_Nil [simp]: "store m p [] = m"
  by (simp add: store_def)

lemma store_single: "store m p [v] = m(p := v)"
  by (auto simp: store_def fun_eq_iff unat_eq_0)

lemma store_append:
  assumes "length xs + length ys \<le> 2 ^ 64"
  shows "store (store m p xs) (p + of_nat (length xs)) ys = store m p (xs @ ys)"
proof (cases "ys = []")
  case False
  then have lx: "length xs < 2 ^ 64" using assms by (cases ys) auto
  have off: "unat (x - (p + of_nat (length xs))) = (if length xs \<le> unat (x - p) then unat (x - p) - length xs
      else unat (x - p) + 2 ^ 64 - length xs)" for x
    using unat_minus_of_nat[OF lx, of "x - p"] by (simp only: diff_diff_eq)
  show ?thesis
  proof (rule ext)
    fix x
    show "store (store m p xs) (p + of_nat (length xs)) ys x = store m p (xs @ ys) x"
      using off[of x] assms unat_less_size[of "x - p"] by (auto simp: store_def nth_append)
  qed
qed (simp add: store_def)

lemma store_Cons:
  assumes "length xs < 2 ^ 64"
  shows "store (m(p := v)) (p + 1) xs = store m p (v # xs)"
  using store_append[of "[v]" xs m p] assms by (simp add: store_single)

lemma store_overwrite: "length xs = length ys \<Longrightarrow> store (store m p xs) p ys = store m p ys"
  by (simp add: store_def fun_eq_iff)

lemma store_update:
  "i < length xs \<Longrightarrow> i < 2 ^ 64 \<Longrightarrow> (store m p xs)(p + of_nat i := v) = store m p (xs[i := v])"
  using offset_iff[of i] by (auto simp: store_def fun_eq_iff nth_list_update)

section \<open>Little-endian integers\<close>

fun le_word :: "u8 list \<Rightarrow> u64" where
  "le_word [] = 0"
| "le_word (b # bs) = ucast b OR push_bit 8 (le_word bs)"

definition le_bytes :: "nat \<Rightarrow> u64 \<Rightarrow> u8 list" where
  "le_bytes n v = map (\<lambda>i. ucast (drop_bit (8 * i) v)) [0..<n]"

lemma length_le_bytes [simp]: "length (le_bytes n v) = n"
  by (simp add: le_bytes_def)

lemma nth_le_bytes [simp]: "i < n \<Longrightarrow> le_bytes n v ! i = ucast (drop_bit (8 * i) v)"
  by (simp add: le_bytes_def)

lemma bit_le_word:
  "bit (le_word bs) k \<longleftrightarrow> k < 64 \<and> k div 8 < length bs \<and> bit (bs ! (k div 8)) (k mod 8)"
proof (induction bs arbitrary: k)
  case Nil
  then show ?case by simp
next
  case (Cons b bs)
  show ?case
  proof (cases "k < 8")
    case True
    then show ?thesis by (simp add: bit_simps)
  next
    case False
    then obtain j where j: "k = 8 + j" by (metis add.commute le_add_diff_inverse2 linorder_not_less)
    have "\<not> bit b (8 + j)" using bit_imp_le_length[of b "8 + j"] by auto
    moreover have "(8 + j) div 8 = Suc (j div 8)" by simp
    ultimately show ?thesis using Cons.IH[of j] j by (auto simp: bit_simps)
  qed
qed

lemma le_word_bytes [simp]: "le_word (le_bytes 8 v) = v"
proof (rule bit_word_eqI)
  fix k assume "k < LENGTH(64)"
  then have "k < 64" by simp
  then show "bit (le_word (le_bytes 8 v)) k = bit v k"
    by (simp add: bit_le_word bit_simps less_mult_imp_div_less)
qed

definition read64 :: "memory \<Rightarrow> u64 \<Rightarrow> u64" where
  "read64 m a = le_word (load m a 8)"

definition write64 :: "memory \<Rightarrow> u64 \<Rightarrow> u64 \<Rightarrow> memory" where
  "write64 m a v = store m a (le_bytes 8 v)"

lemma read64_write64_same [simp, mem_simps]: "read64 (write64 m a v) a = v"
  by (simp add: read64_def write64_def load_store_same)

section \<open>Alignment\<close>

definition aligned :: "nat \<Rightarrow> u64 \<Rightarrow> bool" where
  "aligned n a \<longleftrightarrow> n dvd unat a"

lemma aligned_diff:
  assumes "aligned n a" and "aligned n b" and n: "n dvd 2 ^ 64"
  shows "aligned n (a - b)"
proof -
  have "n dvd unat a" "n dvd unat b" using assms by (auto simp: aligned_def)
  moreover have "n dvd unat a + 2 ^ 64 - unat b"
    using calculation n by (intro dvd_diff_nat dvd_add) auto
  ultimately show ?thesis
    by (auto simp: aligned_def unat_sub_if' intro: dvd_diff_nat)
qed

lemma aligned_add:
  assumes "aligned n a" and "aligned n b" and n: "n dvd 2 ^ 64"
  shows "aligned n (a + b)"
proof -
  have "n dvd unat a + unat b" using assms by (simp add: aligned_def)
  then show ?thesis
    using n by (auto simp: aligned_def unat_word_ariths dvd_mod)
qed

lemma aligned_add_ge:
  assumes "aligned n a" and "aligned n b" and "a \<noteq> b" and "n dvd 2 ^ 64" and "i < n"
  shows "n \<le> unat (a + of_nat i - b)"
proof -
  define d where "d = a - b"
  have d: "n dvd unat d" "unat d \<noteq> 0"
    using aligned_diff[OF assms(1,2,4)] assms(3) by (auto simp: d_def aligned_def unat_eq_0)
  then have lo: "n \<le> unat d" by (simp add: dvd_imp_le)
  from d assms(4) have "n dvd 2 ^ 64 - unat d" by (intro dvd_diff_nat) auto
  moreover have lt: "unat d < 2 ^ 64" using unsigned_less[of d] by simp
  ultimately have "n \<le> 2 ^ 64 - unat d" by (intro dvd_imp_le) auto
  with lt assms(5) have "unat d + i < 2 ^ 64" by linarith
  then have "unat (d + of_nat i) = unat d + i"
    by (subst unat_word_ariths) (simp add: unat_of_nat)
  moreover have eq: "a + of_nat i - b = d + of_nat i" by (simp add: d_def)
  ultimately show ?thesis unfolding eq using lo by simp
qed

lemma read64_write64_other [mem_simps]:
  assumes "a \<noteq> b" and "aligned 8 a" and "aligned 8 b"
  shows "read64 (write64 m b v) a = read64 m a"
  unfolding read64_def write64_def
  using assms by (subst load_store_other) (auto intro!: aligned_add_ge)

end
