(* ===== verification/Mutex.thy ===== *)
theory Mutex
  imports Prelude
begin

text \<open>
  The spin lock of \<open>kernel/src/include/mutex.h\<close> (\<open>acquire\<close> and \<open>release\<close> of
  \<open>kernel/src/asm/cpu.asm\<close>).
\<close>

type_synonym mutex_t = u64

definition MUTEX_BUSY :: mutex_t where "MUTEX_BUSY = 1"
definition MUTEX_FREE :: mutex_t where "MUTEX_FREE = 0"

text \<open>
  Run to completion by one processor: \<open>acquire\<close> spins while bit 0 is set, which on one
  processor never ends; else it sets bit 0.  \<open>release\<close> stores a zero byte.
\<close>

definition acquire :: "mutex_t \<Rightarrow> halt + mutex_t" where
  "acquire m = (if bit m 0 then Inl Deadlock else Inr (m OR 1))"

definition release :: "mutex_t \<Rightarrow> mutex_t" where
  "release m = m AND NOT 0xFF"

lemma acquire_release [simp]:
  "acquire MUTEX_FREE = Inr MUTEX_BUSY"
  "acquire MUTEX_BUSY = Inl Deadlock"
  "release MUTEX_BUSY = MUTEX_FREE"
  by (simp_all add: acquire_def release_def MUTEX_FREE_def MUTEX_BUSY_def)

end
