(* ===== verification/CString.thy ===== *)
theory CString
  imports Prelude
begin

text \<open>
  The kernel's C library, \<open>kernel/src/misc/string.c\<close>, over byte-addressed memory.  A
  pointer is a 64-bit address; a routine that writes returns the new memory (its C return
  value, the destination pointer, is the argument itself).  A loop that only a zero byte
  or a small enough number ends is a partial function: \<open>None\<close> is "does not return".
\<close>

section \<open>Memory blocks\<close>

definition memmove :: "memory \<Rightarrow> u64 \<Rightarrow> u64 \<Rightarrow> u64 \<Rightarrow> memory" where
  "memmove m destination source num =
    fold (\<lambda>i m. m(destination + of_nat i := m (source + of_nat i))) [0..<unat num] m"

definition memset :: "memory \<Rightarrow> u64 \<Rightarrow> u8 \<Rightarrow> u64 \<Rightarrow> memory" where
  "memset m ptr v num = fold (\<lambda>i m. m(ptr + of_nat i := v)) [0..<unat num] m"

text \<open>\<open>char\<close> is signed: the bytes are subtracted as two's-complement numbers.\<close>

primrec memcmp_loop :: "memory \<Rightarrow> u64 \<Rightarrow> u64 \<Rightarrow> nat \<Rightarrow> int" where
  "memcmp_loop m s1 s2 0 = 0"
| "memcmp_loop m s1 s2 (Suc n) =
    (if m s1 \<noteq> m s2 then sint (m s1) - sint (m s2)
     else memcmp_loop m (s1 + 1) (s2 + 1) n)"

definition memcmp :: "memory \<Rightarrow> u64 \<Rightarrow> u64 \<Rightarrow> u64 \<Rightarrow> int" where
  "memcmp m m1 m2 num = memcmp_loop m m1 m2 (unat num)"

section \<open>Strings\<close>

partial_function (option) strlen_from :: "memory \<Rightarrow> u64 \<Rightarrow> u64 \<Rightarrow> u64 option" where
  "strlen_from m str i = (if m (str + i) \<noteq> 0 then strlen_from m str (i + 1) else Some i)"

definition strlen :: "memory \<Rightarrow> u64 \<Rightarrow> u64 option" where
  "strlen m str = strlen_from m str 0"

definition strcpy :: "memory \<Rightarrow> u64 \<Rightarrow> u64 \<Rightarrow> memory option" where
  "strcpy m destination source =
    map_option (\<lambda>n. memmove m destination source (n + 1)) (strlen m source)"

definition strcmp :: "memory \<Rightarrow> u64 \<Rightarrow> u64 \<Rightarrow> int option" where
  "strcmp m s1 s2 =
    (case strlen m s1 of None \<Rightarrow> None | Some n1 \<Rightarrow>
     (case strlen m s2 of None \<Rightarrow> None | Some n2 \<Rightarrow>
      Some (if n1 = n2 then memcmp m s1 s2 n1 else -1)))"

text \<open>
  The letters compared are below 128, so comparing bytes as unsigned numbers gives the
  result of the C comparison of signed \<open>char\<close>s.
\<close>

definition lower_char :: "u8 \<Rightarrow> u8" where
  "lower_char c = (if 0x41 \<le> c \<and> c \<le> 0x5A then c + 0x20 else c)"

definition upper_char :: "u8 \<Rightarrow> u8" where
  "upper_char c = (if 0x61 \<le> c \<and> c \<le> 0x7A then c - 0x20 else c)"

definition map_chars :: "(u8 \<Rightarrow> u8) \<Rightarrow> memory \<Rightarrow> u64 \<Rightarrow> memory option" where
  "map_chars f m str =
    map_option (\<lambda>size. fold (\<lambda>i m. m(str + of_nat i := f (m (str + of_nat i)))) [0..<unat size] m)
      (strlen m str)"

definition lowercase :: "memory \<Rightarrow> u64 \<Rightarrow> memory option" where
  "lowercase m str = map_chars lower_char m str"

definition uppercase :: "memory \<Rightarrow> u64 \<Rightarrow> memory option" where
  "uppercase m str = map_chars upper_char m str"

section \<open>Numbers\<close>

definition digit_char :: "u64 \<Rightarrow> u8" where
  "digit_char tmp = (if sint tmp \<le> 9 then ucast (tmp + 0x30) else ucast (tmp - 10 + 0x41))"

text \<open>
  The digit loop of \<open>ltoa\<close> (\<open>do \<dots> while(number)\<close>) returns the memory and the index after
  the last digit.  A zero divider traps into the exception handler, which never returns.
\<close>

partial_function (option) ltoa_digits ::
  "memory \<Rightarrow> u64 \<Rightarrow> u64 \<Rightarrow> u64 \<Rightarrow> u64 \<Rightarrow> (memory \<times> u64) option" where
  "ltoa_digits m buffer i number divider =
    (if divider = 0 then None
     else let m = m(buffer + i := digit_char (number mod divider));
              number = number div divider;
              i = i + 1
          in if number \<noteq> 0 then ltoa_digits m buffer i number divider else Some (m, i))"

function ltoa_reverse :: "memory \<Rightarrow> u64 \<Rightarrow> u64 \<Rightarrow> u64 \<Rightarrow> memory" where
  "ltoa_reverse m buffer i2 i =
    (if i2 < i then
       let tmpchar = m (buffer + i2);
           m = m(buffer + i2 := m (buffer + i));
           m = m(buffer + i := tmpchar)
       in ltoa_reverse m buffer (i2 + 1) (i - 1)
     else m)"
  by pat_completeness auto
termination
proof (relation "measure (\<lambda>(m, buffer, i2, i). unat i - unat i2)", goal_cases)
  case (2 m buffer i2 i)
  then have "unat i2 < unat i" "0 < i" by (auto simp: word_less_nat_alt)
  then show ?case using unat_plus_one_less[OF 2(1)] by (simp add: unat_minus_one_pos)
qed simp

declare ltoa_reverse.simps [simp del]

text \<open>
  \<open>num\<close> is a \<open>long\<close>, \<open>radix\<close> an \<open>int\<close> that is sign-extended into the divider.  Negating the
  least \<open>long\<close> wraps to itself.
\<close>

definition ltoa :: "memory \<Rightarrow> u64 \<Rightarrow> u64 \<Rightarrow> u32 \<Rightarrow> memory option" where
  "ltoa m num buffer radix =
    (let is_negative = (sint num < 0 \<and> radix = 10);
         i = (if is_negative then 1 else 0);
         m = (if is_negative then m(buffer := 0x2D) else m);
         number = (if is_negative then num * (-1) else num)
     in case ltoa_digits m buffer i number (scast radix) of
          None \<Rightarrow> None
        | Some (m, i) \<Rightarrow>
            let m = m(buffer + i := 0)
            in case strlen m buffer of
                 None \<Rightarrow> None
               | Some n \<Rightarrow> Some (ltoa_reverse m buffer (if is_negative then 1 else 0) (n - 1)))"

definition itoa :: "memory \<Rightarrow> u32 \<Rightarrow> u64 \<Rightarrow> u32 \<Rightarrow> memory option" where
  "itoa m num buffer base = ltoa m (scast num AND 0xFFFFFFFF) buffer base"

text \<open>
  \<open>atoi\<close> walks from the last character to the first; \<open>n\<close> is the number of characters
  still to be read, the character read is \<open>str[i]\<close> with \<open>i\<close> below \<open>n\<close> by one.
\<close>

primrec atoi_loop :: "memory \<Rightarrow> u64 \<Rightarrow> nat \<Rightarrow> nat \<Rightarrow> u32 \<Rightarrow> u32 \<Rightarrow> u32" where
  "atoi_loop m str is_negative 0 v multiplier = v"
| "atoi_loop m str is_negative (Suc i) v multiplier =
    (if is_negative \<le> i then
       atoi_loop m str is_negative i
         (v + (scast (m (str + of_nat i)) - 0x30) * multiplier) (multiplier * 10)
     else v)"

definition atoi :: "memory \<Rightarrow> u64 \<Rightarrow> u32 option" where
  "atoi m str =
    (case strlen m str of None \<Rightarrow> None | Some n \<Rightarrow>
     let is_negative = (m str = 0x2D);
         v = atoi_loop m str (if is_negative then 1 else 0) (unat n) 0 1
     in Some (if is_negative then v * (-1) else v))"

section \<open>Blocks: the loops in closed form\<close>

lemma memset_loop:
  assumes "n \<le> 2 ^ 64"
  shows "fold (\<lambda>i m. m(p + of_nat i := v)) [0..<n] m = store m p (replicate n v)"
  using assms
proof (induction n)
  case 0
  then show ?case by (simp add: store_def)
next
  case (Suc n)
  then have "x = p + of_nat n \<longleftrightarrow> unat (x - p) = n" for x
    by (intro offset_iff) simp
  then show ?case using Suc
    by (auto simp: store_def fun_eq_iff less_Suc_eq nth_append simp flip: replicate_append_same)
qed

lemma memset_eq_store: "memset m p v n = store m p (replicate (unat n) v)"
  using unat_less_size[of n] by (simp add: memset_def memset_loop)

text \<open>
  \<open>memmove\<close> copies upwards.  It equals a simultaneous copy unless the destination starts
  inside the source block above its first byte.
\<close>

lemma memmove_loop:
  assumes "n \<le> 2 ^ 64" and "d = s \<or> n \<le> unat (d - s)"
  shows "fold (\<lambda>i m. m(d + of_nat i := m (s + of_nat i))) [0..<n] m = store m d (load m s n)"
  using assms
proof (induction n)
  case 0
  then show ?case by (simp add: store_def)
next
  case (Suc n)
  let ?m = "store m d (load m s n)"
  have IH: "fold (\<lambda>i m. m(d + of_nat i := m (s + of_nat i))) [0..<n] m = ?m"
    using Suc by (intro Suc.IH) auto
  have src: "?m (s + of_nat n) = m (s + of_nat n)"
  proof (cases "d = s")
    case True
    then show ?thesis using Suc.prems by (simp add: store_def unat_of_nat)
  next
    case False
    have "\<not> unat (s + of_nat n - d) < n"
    proof
      assume "unat (s + of_nat n - d) < n"
      then obtain j where j: "j < n" "s + of_nat n - d = of_nat j"
        using that[of "unat (s + of_nat n - d)"] by simp
      then have "d - s = of_nat (n - j)" by (simp add: of_nat_diff algebra_simps)
      then have "unat (d - s) = n - j" using Suc.prems(1) by (simp add: unat_of_nat)
      then show False using Suc.prems(2) False by simp
    qed
    then show ?thesis by (simp add: store_def)
  qed
  have "x = d + of_nat n \<longleftrightarrow> unat (x - d) = n" for x
    using Suc.prems(1) by (intro offset_iff) simp
  then have new: "?m(d + of_nat n := m (s + of_nat n)) = store m d (load m s (Suc n))"
    by (auto simp: store_def fun_eq_iff less_Suc_eq)
  have "fold (\<lambda>i m. m(d + of_nat i := m (s + of_nat i))) [0..<Suc n] m =
      ?m(d + of_nat n := ?m (s + of_nat n))"
    using IH by simp
  then show ?case unfolding src new .
qed

lemma memmove_eq_store:
  assumes "d = s \<or> unat n \<le> unat (d - s)"
  shows "memmove m d s n = store m d (load m s (unat n))"
  using assms unat_less_size[of n] by (simp add: memmove_def memmove_loop)

section \<open>C strings\<close>

text \<open>\<open>cstr m p xs\<close>: the zero-terminated string at \<open>p\<close> has the characters \<open>xs\<close>.\<close>

definition cstr :: "memory \<Rightarrow> u64 \<Rightarrow> u8 list \<Rightarrow> bool" where
  "cstr m p xs \<longleftrightarrow> length xs < 2 ^ 64 \<and> 0 \<notin> set xs \<and> load m p (length xs + 1) = xs @ [0]"

lemma cstr_char: "cstr m p xs \<Longrightarrow> i < length xs \<Longrightarrow> m (p + of_nat i) = xs ! i"
  unfolding cstr_def by (metis nth_append nth_load trans_less_add1)

lemma cstr_end: "cstr m p xs \<Longrightarrow> m (p + of_nat (length xs)) = 0"
  unfolding cstr_def by (metis less_add_one nth_append_length nth_load)

lemma cstrI:
  assumes "length xs < 2 ^ 64" and "0 \<notin> set xs" and "m (p + of_nat (length xs)) = 0"
    and "\<And>i. i < length xs \<Longrightarrow> m (p + of_nat i) = xs ! i"
  shows "cstr m p xs"
  using assms unfolding cstr_def
  by (auto intro!: nth_equalityI simp: nth_append less_Suc_eq)

lemma strlen_from_cstr:
  assumes "cstr m p xs" and "i \<le> length xs"
  shows "strlen_from m p (of_nat i) = Some (of_nat (length xs))"
  using assms(2)
proof (induction "length xs - i" arbitrary: i)
  case 0
  then show ?case using cstr_end[OF assms(1)] by (subst strlen_from.simps) simp
next
  case (Suc k)
  then have i: "i < length xs" by simp
  then have "m (p + of_nat i) \<noteq> 0"
    using cstr_char[OF assms(1)] assms(1) unfolding cstr_def by (metis nth_mem)
  moreover have "strlen_from m p (of_nat (Suc i)) = Some (of_nat (length xs))"
    using Suc i by (intro Suc.hyps) auto
  ultimately show ?case by (subst strlen_from.simps) (simp add: add.commute)
qed

lemma strlen_cstr: "cstr m p xs \<Longrightarrow> strlen m p = Some (of_nat (length xs))"
  using strlen_from_cstr[of m p xs 0] by (simp add: strlen_def)

end
