(* ===== verification/Pmm.thy ===== *)
theory Pmm
  imports Mutex CString
begin

text \<open>
  The physical memory manager, \<open>kernel/src/mm/pmm.c\<close>: a bitmap with one bit per
  4 KiB page frame (set: used), the page counters, and first-fit allocation.
\<close>

section \<open>State\<close>

record e820_t =
  e820_size :: u16
  e820_base :: u64
  e820_length :: u64
  e820_type :: u32
  acpi3_flags :: u32

text \<open>
  The bitmap is the raw memory behind the pointer \<open>pmm_bitmap = &end\<close>, indexed by a
  64-bit byte offset; only its first \<open>pmm_bitmap_size\<close> bytes are initialised.
\<close>

record pmm =
  pmm_mutex :: mutex_t
  pmm_bitmap :: "u64 \<Rightarrow> u8"
  pmm_bitmap_size :: u64
  total_pages :: u64
  used_pages :: u64
  highest_usable_address :: u64

section \<open>Marking pages\<close>

definition pmm_mark_page_free :: "u64 \<Rightarrow> 'a pmm_scheme \<Rightarrow> 'a pmm_scheme" where
  "pmm_mark_page_free addr s =
    (let byte = (addr div 4096) div 8;
         bt = unat ((addr div 4096) mod 8);
         flag = NOT (push_bit bt (1 :: u8))
     in if pmm_bitmap s byte AND push_bit bt 1 = 0 then s
        else s\<lparr>pmm_bitmap := (pmm_bitmap s)(byte := pmm_bitmap s byte AND flag),
               used_pages := used_pages s - 1\<rparr>)"

definition pmm_mark_page_used :: "u64 \<Rightarrow> 'a pmm_scheme \<Rightarrow> 'a pmm_scheme" where
  "pmm_mark_page_used addr s =
    (let byte = (addr div 4096) div 8;
         bt = unat ((addr div 4096) mod 8);
         flag = push_bit bt (1 :: u8)
     in if pmm_bitmap s byte AND push_bit bt 1 \<noteq> 0 then s
        else s\<lparr>pmm_bitmap := (pmm_bitmap s)(byte := pmm_bitmap s byte OR flag),
               used_pages := used_pages s + 1\<rparr>)"

definition pmm_get_page :: "'a pmm_scheme \<Rightarrow> u64 \<Rightarrow> bool" where
  "pmm_get_page s addr =
    (if highest_usable_address s \<le> addr then True
     else let byte = (addr div 4096) div 8;
              bt = unat ((addr div 4096) mod 8);
              flag = push_bit bt (1 :: u8)
          in pmm_bitmap s byte AND flag \<noteq> 0)"

section \<open>Searching and allocating\<close>

partial_function (option) pmm_find_page_from :: "'a pmm_scheme \<Rightarrow> u64 \<Rightarrow> u64 option" where
  "pmm_find_page_from s page =
    (if pmm_get_page s page then
       (let page' = page + 4096
        in if highest_usable_address s - 4096 \<le> page' then Some 0
           else pmm_find_page_from s page')
     else Some page)"

definition pmm_find_page :: "'a pmm_scheme \<Rightarrow> u64 option" where
  "pmm_find_page s = pmm_find_page_from s 0"

partial_function (option) pmm_find_in_range ::
  "'a pmm_scheme \<Rightarrow> u64 \<Rightarrow> u64 \<Rightarrow> u64 option" where
  "pmm_find_in_range s page end_addr =
    (if pmm_get_page s page then
       (let page' = page + 4096
        in if end_addr \<le> page' \<or> highest_usable_address s - 4096 \<le> page' then Some 0
           else pmm_find_in_range s page' end_addr)
     else Some page)"

definition pmm_alloc_page :: "'a pmm_scheme \<Rightarrow> halt + (u64 \<times> 'a pmm_scheme)" where
  "pmm_alloc_page s =
    bnd (acquire (pmm_mutex s)) (\<lambda>mx.
      let s = s\<lparr>pmm_mutex := mx\<rparr> in
      case pmm_find_page s of
        None \<Rightarrow> Inl Diverges
      | Some page \<Rightarrow>
          if page = 0 then Inr (0, s)
          else let s = pmm_mark_page_used page s
               in Inr (page, s\<lparr>pmm_mutex := release (pmm_mutex s)\<rparr>))"

definition pmm_free_page :: "u64 \<Rightarrow> 'a pmm_scheme \<Rightarrow> halt + 'a pmm_scheme" where
  "pmm_free_page page s =
    bnd (acquire (pmm_mutex s)) (\<lambda>mx.
      let s = pmm_mark_page_free page (s\<lparr>pmm_mutex := mx\<rparr>)
      in Inr (s\<lparr>pmm_mutex := release (pmm_mutex s)\<rparr>))"

section \<open>Initialisation from the firmware memory map\<close>

definition e820_add_entry :: "e820_t \<Rightarrow> 'a pmm_scheme \<Rightarrow> 'a pmm_scheme" where
  "e820_add_entry e s =
    (if e820_length e = 0 then s
     else if 24 \<le> e820_size e \<and> acpi3_flags e AND 1 = 0 then s
     else
       let pages0 = (e820_length e + 4095) div 4096;
           pages = (if e820_type e \<noteq> 1 then pages0 + 1 else pages0);
           s = (if e820_type e = 1 \<and> highest_usable_address s < e820_base e + e820_length e
                then s\<lparr>highest_usable_address := e820_base e + e820_length e - 1\<rparr> else s);
           s = s\<lparr>total_pages := total_pages s + pages\<rparr>;
           s = (if e820_type e \<noteq> 1 then s\<lparr>used_pages := used_pages s + pages\<rparr> else s)
       in fold (\<lambda>i s.
            if e820_type e = 1 then
              let used = used_pages s;
                  s = pmm_mark_page_free (e820_base e + of_nat i * 4096) s
              in s\<lparr>used_pages := used\<rparr>
            else pmm_mark_page_used (e820_base e + of_nat i * 4096) s)
          [0..<unat pages] s)"

text \<open>
  \<open>pmm_init\<close>: the map is an array of 32-byte slots, \<open>e820 i\<close> the \<open>i\<close>-th.  The size of
  the bitmap is taken from the last slot.  The logging calls are left out.
\<close>

definition pmm_init_entry :: "e820_t \<Rightarrow> 'a pmm_scheme \<Rightarrow> 'a pmm_scheme" where
  "pmm_init_entry e s =
    (if e820_type e \<noteq> 0 \<and> e820_type e \<le> 5 then e820_add_entry e s else s)"

definition pmm_init :: "(u64 \<Rightarrow> e820_t) \<Rightarrow> u64 \<Rightarrow> 'a pmm_scheme \<Rightarrow> halt + 'a pmm_scheme" where
  "pmm_init e820 e820_map_entries s =
    (let e820_last = e820 (e820_map_entries - 1);
         last_address = e820_base e820_last + e820_length e820_last;
         size = ((last_address + 4096 - 1) div 4096 + 7) div 8;
         s = s\<lparr>pmm_bitmap_size := size,
               pmm_bitmap := memset (pmm_bitmap s) 0 0xFF size\<rparr>;
         s = fold (\<lambda>i. pmm_init_entry (e820 (of_nat i))) [0..<unat e820_map_entries] s
     in if (total_pages s * 4096) div 1024 div 1024 < 16
        then Inl (Panic ''Windozz requires at least 16 MB of memory to boot.'')
        else Inr (fold (\<lambda>i. pmm_mark_page_used (push_bit 12 (of_nat i))) [0..<2048] s))"


section \<open>The bitmap as a set of used page frames\<close>

definition page_used :: "'a pmm_scheme \<Rightarrow> u64 \<Rightarrow> bool" where
  "page_used s pn \<longleftrightarrow> bit (pmm_bitmap s (pn div 8)) (unat (pn mod 8))"

lemma and_flag_eq_0 [simp]: "(x AND 2 ^ n = 0) \<longleftrightarrow> \<not> bit x n" for x :: u8
  by (simp add: bit_iff_and_push_bit_not_eq_0)

lemma bit_index_inject:
  "pn div 8 = qn div 8 \<and> unat (pn mod 8) = unat (qn mod 8) \<longleftrightarrow> pn = qn" for pn qn :: u64
  by (metis word_mod_div_equality word_unat_eq_iff)

lemma mod_8_less [simp]: "unat (pn mod 8) < 8" for pn :: u64
  by (simp add: unat_mod)

lemma page_used_mark_used [simp]:
  "page_used (pmm_mark_page_used addr s) pn \<longleftrightarrow> pn = addr div 4096 \<or> page_used s pn"
  using bit_index_inject[of pn "addr div 4096"] mod_8_less[of pn]
  by (cases "pn = addr div 4096")
    (auto simp: pmm_mark_page_used_def page_used_def Let_def bit_simps simp del: mod_8_less)

lemma page_used_mark_free [simp]:
  "page_used (pmm_mark_page_free addr s) pn \<longleftrightarrow> pn \<noteq> addr div 4096 \<and> page_used s pn"
  using bit_index_inject[of pn "addr div 4096"] mod_8_less[of pn]
  by (cases "pn = addr div 4096")
    (auto simp: pmm_mark_page_free_def page_used_def Let_def bit_simps simp del: mod_8_less)

lemma pmm_get_page_iff:
  "pmm_get_page s addr \<longleftrightarrow> highest_usable_address s \<le> addr \<or> page_used s (addr div 4096)"
  by (auto simp: pmm_get_page_def page_used_def Let_def)


text \<open>Marking touches the bitmap and the counter only.\<close>

lemma pmm_mark_page_used_frame:
  "\<exists>b u. pmm_mark_page_used addr s = s\<lparr>pmm_bitmap := b, used_pages := u\<rparr>"
  by (rule exI[of _ "pmm_bitmap (pmm_mark_page_used addr s)"],
      rule exI[of _ "used_pages (pmm_mark_page_used addr s)"])
    (simp add: pmm_mark_page_used_def Let_def)

lemma pmm_mark_page_free_frame:
  "\<exists>b u. pmm_mark_page_free addr s = s\<lparr>pmm_bitmap := b, used_pages := u\<rparr>"
  by (rule exI[of _ "pmm_bitmap (pmm_mark_page_free addr s)"],
      rule exI[of _ "used_pages (pmm_mark_page_free addr s)"])
    (simp add: pmm_mark_page_free_def Let_def)

lemma pmm_mark_fields [simp]:
  "pmm_mutex (pmm_mark_page_used addr s) = pmm_mutex s"
  "pmm_mutex (pmm_mark_page_free addr s) = pmm_mutex s"
  "highest_usable_address (pmm_mark_page_used addr s) = highest_usable_address s"
  "highest_usable_address (pmm_mark_page_free addr s) = highest_usable_address s"
  "pmm_bitmap_size (pmm_mark_page_used addr s) = pmm_bitmap_size s"
  "pmm_bitmap_size (pmm_mark_page_free addr s) = pmm_bitmap_size s"
  "total_pages (pmm_mark_page_used addr s) = total_pages s"
  "total_pages (pmm_mark_page_free addr s) = total_pages s"
  by (simp_all add: pmm_mark_page_used_def pmm_mark_page_free_def Let_def)

lemma page_used_updates [simp]:
  "page_used (s\<lparr>pmm_mutex := x\<rparr>) = page_used s"
  "page_used (s\<lparr>used_pages := u\<rparr>) = page_used s"
  "page_used (s\<lparr>total_pages := u\<rparr>) = page_used s"
  "page_used (s\<lparr>highest_usable_address := h\<rparr>) = page_used s"
  by (simp_all add: page_used_def fun_eq_iff)

section \<open>Page accounting\<close>

definition used_set :: "'a pmm_scheme \<Rightarrow> u64 set" where
  "used_set s = {pn. page_used s pn}"

lemma used_set_mark [simp]:
  "used_set (pmm_mark_page_used addr s) = insert (addr div 4096) (used_set s)"
  "used_set (pmm_mark_page_free addr s) = used_set s - {addr div 4096}"
  by (auto simp: used_set_def)

lemma used_pages_mark_used:
  "used_pages (pmm_mark_page_used addr s) =
     used_pages s + (if page_used s (addr div 4096) then 0 else 1)"
  by (simp add: pmm_mark_page_used_def page_used_def Let_def)

lemma used_pages_mark_free:
  "used_pages (pmm_mark_page_free addr s) =
     used_pages s - (if page_used s (addr div 4096) then 1 else 0)"
  by (simp add: pmm_mark_page_free_def page_used_def Let_def)

definition uncounted :: "'a pmm_scheme \<Rightarrow> u64" where
  "uncounted s = used_pages s - of_nat (card (used_set s))"

lemma uncounted_mark [simp]:
  "uncounted (pmm_mark_page_used addr s) = uncounted s"
  "uncounted (pmm_mark_page_free addr s) = uncounted s"
proof -
  show "uncounted (pmm_mark_page_used addr s) = uncounted s"
    by (simp add: uncounted_def used_pages_mark_used card_insert_if) (simp add: used_set_def)
  show "uncounted (pmm_mark_page_free addr s) = uncounted s"
  proof (cases "page_used s (addr div 4096)")
    case True
    then have "addr div 4096 \<in> used_set s" by (simp add: used_set_def)
    then have "card (used_set s) = Suc (card (used_set s - {addr div 4096}))"
      by (metis card_Suc_Diff1 finite)
    then show ?thesis using True by (simp add: uncounted_def used_pages_mark_free)
  next
    case False
    then show ?thesis
      by (simp add: uncounted_def used_pages_mark_free) (simp add: used_set_def)
  qed
qed

section \<open>First fit\<close>

lemma pmm_find_page_from_cong:
  assumes ret: "pmm_find_page_from s page = Some r"
    and eq: "pmm_get_page s = pmm_get_page t" "highest_usable_address s = highest_usable_address t"
  shows "pmm_find_page_from t page = Some r"
proof -
  have "pmm_get_page s = pmm_get_page t \<longrightarrow> highest_usable_address s = highest_usable_address t
      \<longrightarrow> pmm_find_page_from t page = Some r"
  proof (rule pmm_find_page_from.raw_induct[OF _ ret], intro impI)
    fix f s page r
    assume IH: "\<And>s p r. f s p = Some r \<Longrightarrow> pmm_get_page s = pmm_get_page t \<longrightarrow>
        highest_usable_address s = highest_usable_address t \<longrightarrow> pmm_find_page_from t p = Some r"
      and eq: "(if pmm_get_page s page then let page' = page + 4096
        in if highest_usable_address s - 4096 \<le> page' then Some 0 else f s page'
        else Some page) = Some r"
      and st: "pmm_get_page s = pmm_get_page t"
        "highest_usable_address s = highest_usable_address t"
    then show "pmm_find_page_from t page = Some r"
      by (subst pmm_find_page_from.simps) (auto simp: Let_def split: if_splits)
  qed
  then show ?thesis using eq by simp
qed

lemma pmm_find_page_mutex [simp]: "pmm_find_page (s\<lparr>pmm_mutex := x\<rparr>) = pmm_find_page s"
proof -
  have eq: "pmm_get_page (s\<lparr>pmm_mutex := x\<rparr>) = pmm_get_page s"
    by (simp add: pmm_get_page_iff fun_eq_iff)
  have "pmm_find_page_from (s\<lparr>pmm_mutex := x\<rparr>) 0 = Some r \<longleftrightarrow> pmm_find_page_from s 0 = Some r" for r
    using pmm_find_page_from_cong[of "s\<lparr>pmm_mutex := x\<rparr>" 0 r s]
      pmm_find_page_from_cong[of s 0 r "s\<lparr>pmm_mutex := x\<rparr>"] eq by auto
  then show ?thesis
    unfolding pmm_find_page_def by (metis option.exhaust)
qed


lemma aligned_next:
  assumes "aligned 4096 p" and "aligned 4096 q" and "p < q"
  shows "unat p + 4096 \<le> unat q"
proof -
  obtain i j where "unat p = 4096 * i" "unat q = 4096 * j"
    using assms(1,2) by (auto simp: aligned_def elim!: dvdE)
  with assms(3) show ?thesis by (simp add: word_less_nat_alt)
qed

lemma aligned_plus_page: "aligned 4096 p \<Longrightarrow> aligned 4096 (p + 4096)"
  by (rule aligned_add) (simp_all add: aligned_def)

definition scan_result :: "'a pmm_scheme \<Rightarrow> u64 \<Rightarrow> u64 \<Rightarrow> bool" where
  "scan_result s page r \<longleftrightarrow>
    (r = 0 \<and> pmm_get_page s page \<and>
      (\<forall>q. aligned 4096 q \<longrightarrow> page \<le> q \<longrightarrow> q < highest_usable_address s - 4096 \<longrightarrow> pmm_get_page s q)) \<or>
    (\<not> pmm_get_page s r \<and> aligned 4096 r \<and> page \<le> r \<and>
      (r = page \<or> r < highest_usable_address s - 4096) \<and>
      (\<forall>q. aligned 4096 q \<longrightarrow> page \<le> q \<longrightarrow> q < r \<longrightarrow> pmm_get_page s q))"

lemma pmm_find_page_from_spec:
  assumes "aligned 4096 page" and "4096 \<le> highest_usable_address s"
    and "page = 0 \<or> page < highest_usable_address s - 4096"
  shows "\<exists>r. pmm_find_page_from s page = Some r \<and> scan_result s page r"
  using assms
proof (induction "unat (highest_usable_address s) - unat page" arbitrary: page rule: less_induct)
  case less
  let ?h = "highest_usable_address s"
  show ?case
  proof (cases "pmm_get_page s page")
    case False
    then show ?thesis using less.prems
      by (subst pmm_find_page_from.simps) (auto simp: scan_result_def)
  next
    case used: True
    have h: "unat (?h - 4096) = unat ?h - 4096"
      using less.prems(2) by (simp add: unat_sub word_le_nat_alt)
    have le: "unat page + 4096 \<le> unat ?h"
      using less.prems(2,3) h by (auto simp: word_less_nat_alt word_le_nat_alt)
    have lt: "unat page + 4096 < 2 ^ 64"
      using le unat_less_size[of ?h] by simp
    have next': "unat (page + 4096) = unat page + 4096"
      using lt by (simp add: unat_word_ariths)
    have al: "aligned 4096 (page + 4096)" by (rule aligned_plus_page) (rule less.prems)
    have step: "page + 4096 \<le> q" if "aligned 4096 q" "page \<le> q" "q \<noteq> page" for q
    proof -
      have "page < q" using that(2,3) by simp
      from aligned_next[OF less.prems(1) that(1) this] show ?thesis
        using next' by (simp add: word_le_nat_alt)
    qed
    show ?thesis
    proof (cases "?h - 4096 \<le> page + 4096")
      case True
      then have "scan_result s page 0"
        using used by (auto simp: scan_result_def dest: order.trans[OF True step])
      then show ?thesis using used True
        by (subst pmm_find_page_from.simps) (auto simp: Let_def)
    next
      case False
      then have "\<exists>r. pmm_find_page_from s (page + 4096) = Some r \<and> scan_result s (page + 4096) r"
        using less.prems al le next' by (intro less.hyps) auto
      then obtain r where r: "pmm_find_page_from s (page + 4096) = Some r"
        "scan_result s (page + 4096) r" by blast
      have "page \<le> page + 4096" using next' by (simp add: word_le_nat_alt)
      then have "scan_result s page r"
        using r(2) used False order.trans[of page "page + 4096" r] unfolding scan_result_def
        by (auto dest: step)
      moreover have "pmm_find_page_from s page = Some r"
        using used False r(1) by (subst pmm_find_page_from.simps) (simp add: Let_def)
      ultimately show ?thesis by blast
    qed
  qed
qed

section \<open>Allocation\<close>

definition pmm_ready :: "'a pmm_scheme \<Rightarrow> bool" where
  "pmm_ready s \<longleftrightarrow>
     pmm_mutex s = MUTEX_FREE \<and> 4096 \<le> highest_usable_address s \<and> page_used s 0"

lemma pmm_alloc_page_ready:
  assumes "pmm_ready s"
  obtains (none) "pmm_alloc_page s = Inr (0, s\<lparr>pmm_mutex := MUTEX_BUSY\<rparr>)"
      "\<And>q. aligned 4096 q \<Longrightarrow> q < highest_usable_address s - 4096 \<Longrightarrow> pmm_get_page s q"
    | (page) p where "pmm_alloc_page s = Inr (p, (pmm_mark_page_used p s)\<lparr>pmm_mutex := MUTEX_FREE\<rparr>)"
      "p \<noteq> 0" "\<not> pmm_get_page s p" "aligned 4096 p" "p < highest_usable_address s - 4096"
      "\<And>q. aligned 4096 q \<Longrightarrow> q < p \<Longrightarrow> pmm_get_page s q"
proof -
  have rdy: "pmm_mutex s = MUTEX_FREE" "4096 \<le> highest_usable_address s" "page_used s 0"
    using assms by (auto simp: pmm_ready_def)
  obtain r where r: "pmm_find_page s = Some r" "scan_result s 0 r"
    using pmm_find_page_from_spec[of 0 s] rdy unfolding pmm_find_page_def
    by (auto simp: aligned_def)
  have u0: "pmm_get_page s 0" using rdy(3) by (simp add: pmm_get_page_iff)
  show thesis
  proof (cases "r = 0")
    case True
    then show thesis using r u0 rdy
      by (intro none) (auto simp: pmm_alloc_page_def scan_result_def)
  next
    case False
    have "pmm_mark_page_used r (s\<lparr>pmm_mutex := MUTEX_BUSY\<rparr>) =
        (pmm_mark_page_used r s)\<lparr>pmm_mutex := MUTEX_BUSY\<rparr>"
      by (simp add: pmm_mark_page_used_def Let_def)
    then show thesis using r False rdy
      by (intro page[of r]) (auto simp: pmm_alloc_page_def scan_result_def)
  qed
qed


text \<open>What an allocation can change, for states that extend \<open>pmm\<close>.\<close>

lemma pmm_alloc_page_frame:
  assumes "pmm_alloc_page s = Inr (p, s')"
  shows "\<exists>mx b u. s' = s\<lparr>pmm_mutex := mx, pmm_bitmap := b, used_pages := u\<rparr>"
proof -
  obtain mx where mx: "acquire (pmm_mutex s) = Inr mx"
    using assms by (auto simp: pmm_alloc_page_def bnd_Inr_iff)
  let ?s = "s\<lparr>pmm_mutex := mx\<rparr>"
  obtain b u where bu: "pmm_mark_page_used p ?s = ?s\<lparr>pmm_bitmap := b, used_pages := u\<rparr>"
    using pmm_mark_page_used_frame by blast
  have "s' = ?s \<or> s' = (pmm_mark_page_used p ?s)\<lparr>pmm_mutex := release (pmm_mutex (pmm_mark_page_used p ?s))\<rparr>"
    using assms mx by (auto simp: pmm_alloc_page_def Let_def split: option.splits if_splits)
  then show ?thesis
  proof
    assume "s' = ?s"
    then have "s' = s\<lparr>pmm_mutex := mx, pmm_bitmap := pmm_bitmap s, used_pages := used_pages s\<rparr>" by simp
    then show ?thesis by blast
  next
    assume "s' = (pmm_mark_page_used p ?s)\<lparr>pmm_mutex := release (pmm_mutex (pmm_mark_page_used p ?s))\<rparr>"
    then have "s' = s\<lparr>pmm_mutex := release mx, pmm_bitmap := b, used_pages := u\<rparr>"
      unfolding bu by simp
    then show ?thesis by blast
  qed
qed

lemma pmm_free_page_ready:
  assumes "pmm_mutex s = MUTEX_FREE"
  shows "pmm_free_page p s = Inr ((pmm_mark_page_free p s)\<lparr>pmm_mutex := MUTEX_FREE\<rparr>)"
proof -
  have "pmm_mark_page_free p (s\<lparr>pmm_mutex := x\<rparr>) = (pmm_mark_page_free p s)\<lparr>pmm_mutex := x\<rparr>" for x
    by (simp add: pmm_mark_page_free_def Let_def)
  then show ?thesis using assms by (simp add: pmm_free_page_def)
qed

section \<open>The interface of a frame allocator\<close>

text \<open>
  What the virtual memory manager and the scheduler rely on: an allocated frame was not
  in use, is page aligned, and from then on is in use; nothing else changes hands.
\<close>

locale frame_allocator =
  fixes alloc :: "'s \<Rightarrow> halt + (u64 \<times> 's)"
    and free :: "u64 \<Rightarrow> 's \<Rightarrow> halt + 's"
    and in_use :: "'s \<Rightarrow> u64 \<Rightarrow> bool"
    and ready :: "'s \<Rightarrow> bool"
  assumes alloc_returns: "ready s \<Longrightarrow> \<exists>p s'. alloc s = Inr (p, s')"
    and alloc_fresh: "ready s \<Longrightarrow> alloc s = Inr (p, s') \<Longrightarrow> p \<noteq> 0 \<Longrightarrow>
      \<not> in_use s p \<and> aligned 4096 p \<and> ready s'"
    and alloc_in_use: "ready s \<Longrightarrow> alloc s = Inr (p, s') \<Longrightarrow> p \<noteq> 0 \<Longrightarrow>
      in_use s' q \<longleftrightarrow> q div 4096 = p div 4096 \<or> in_use s q"
    and free_in_use: "ready s \<Longrightarrow> p div 4096 \<noteq> 0 \<Longrightarrow> free p s = Inr s' \<Longrightarrow>
      ready s' \<and> (\<forall>q. in_use s' q \<longrightarrow> in_use s q) \<and>
      (\<forall>q. q div 4096 \<noteq> p div 4096 \<longrightarrow> in_use s q \<longrightarrow> in_use s' q)"
begin

lemma alloc_not_aliased:
  assumes "ready s" and "alloc s = Inr (p, s')" and "p \<noteq> 0" and "in_use s q" and "aligned 4096 q"
  shows "p \<noteq> q"
  using alloc_fresh[OF assms(1-3)] assms(4) by auto

lemma alloc_keeps:
  assumes "ready s" and "alloc s = Inr (p, s')" and "p \<noteq> 0" and "in_use s q"
  shows "in_use s' q"
  using alloc_in_use[OF assms(1-3)] assms(4) by simp

lemma alloc_taken:
  assumes "ready s" and "alloc s = Inr (p, s')" and "p \<noteq> 0"
  shows "in_use s' p"
  using alloc_in_use[OF assms] by simp

text \<open>A frame is never handed out twice without being freed in between.\<close>

inductive allocs :: "'s \<Rightarrow> u64 list \<Rightarrow> 's \<Rightarrow> bool" where
  allocs_Nil: "allocs s [] s"
| allocs_Cons: "alloc s = Inr (p, s1) \<Longrightarrow> p \<noteq> 0 \<Longrightarrow> allocs s1 ps t \<Longrightarrow> allocs s (p # ps) t"

lemma allocs_fresh:
  assumes "allocs s ps t" and "ready s"
  shows "distinct ps \<and> ready t \<and> (\<forall>p \<in> set ps. \<not> in_use s p \<and> in_use t p)
    \<and> (\<forall>q. in_use s q \<longrightarrow> in_use t q)"
  using assms
proof (induction rule: allocs.induct)
  case (allocs_Nil s)
  then show ?case by simp
next
  case (allocs_Cons s p s1 ps t)
  note f = alloc_fresh[OF allocs_Cons.prems allocs_Cons.hyps(1,2)]
  note u = alloc_in_use[OF allocs_Cons.prems allocs_Cons.hyps(1,2)]
  have IH: "distinct ps \<and> ready t \<and> (\<forall>p \<in> set ps. \<not> in_use s1 p \<and> in_use t p)
    \<and> (\<forall>q. in_use s1 q \<longrightarrow> in_use t q)"
    using allocs_Cons.IH f by blast
  then show ?case using f u by auto
qed

end

lemma pmm_get_page_mark_used:
  "pmm_get_page (pmm_mark_page_used p s) q \<longleftrightarrow> q div 4096 = p div 4096 \<or> pmm_get_page s q"
  by (auto simp: pmm_get_page_iff)

lemma pmm_get_page_mutex [simp]: "pmm_get_page (s\<lparr>pmm_mutex := x\<rparr>) = pmm_get_page s"
  by (simp add: pmm_get_page_iff fun_eq_iff)

lemma pmm_ready_mark_used: "pmm_ready s \<Longrightarrow>
   pmm_ready ((pmm_mark_page_used p s)\<lparr>pmm_mutex := MUTEX_FREE\<rparr>)"
  by (simp add: pmm_ready_def)

interpretation pmm_frames: frame_allocator pmm_alloc_page pmm_free_page pmm_get_page pmm_ready
proof (unfold_locales, goal_cases)
  case (1 s)
  then show ?case by (rule pmm_alloc_page_ready) blast+
next
  case (2 s p s')
  show ?case
    by (cases rule: pmm_alloc_page_ready[OF 2(1)]) (use 2 pmm_ready_mark_used[OF 2(1)] in auto)
next
  case (3 s p s' q)
  then show ?case by (auto simp: pmm_get_page_mark_used elim!: pmm_alloc_page_ready)
next
  case (4 s p s')
  then show ?case
    by (auto simp: pmm_free_page_ready pmm_ready_def pmm_get_page_iff)
qed


section \<open>The firmware memory map\<close>

text \<open>
  An entry contributes free pages when it is usable: type 1, not empty, and not disabled by
  the ACPI 3.0 attribute.  It covers the pages its loop visits.
\<close>

definition e820_ignored :: "e820_t \<Rightarrow> bool" where
  "e820_ignored e \<longleftrightarrow> e820_length e = 0 \<or> (24 \<le> e820_size e \<and> acpi3_flags e AND 1 = 0)"

definition e820_covers :: "e820_t \<Rightarrow> u64 \<Rightarrow> bool" where
  "e820_covers e pn \<longleftrightarrow>
    (\<exists>k < unat ((e820_length e + 4095) div 4096). pn = (e820_base e + of_nat k * 4096) div 4096)"

lemma page_used_fold_free:
  "page_used (fold (\<lambda>i s. (pmm_mark_page_free (f i) s)\<lparr>used_pages := used_pages s\<rparr>) xs s) pn \<longleftrightarrow> page_used s pn \<and> (\<forall>i \<in> set xs. pn \<noteq> f i div 4096)"
  by (induction xs arbitrary: s) (auto simp: Let_def)

lemma page_used_fold_used:
  "page_used (fold (\<lambda>i. pmm_mark_page_used (f i)) xs s) pn \<longleftrightarrow>
     page_used s pn \<or> (\<exists>i \<in> set xs. pn = f i div 4096)"
  by (induction xs arbitrary: s) auto

lemma fold_mark_fields [simp]:
  "pmm_bitmap_size (fold (\<lambda>i s. (pmm_mark_page_free (f i) s)\<lparr>used_pages := used_pages s\<rparr>) xs s) = pmm_bitmap_size s"
  "pmm_bitmap_size (fold (\<lambda>i. pmm_mark_page_used (f i)) xs s) = pmm_bitmap_size s"
  by (induction xs arbitrary: s) (simp_all add: Let_def)

lemma e820_add_entry_size [simp]: "pmm_bitmap_size (e820_add_entry e s) = pmm_bitmap_size s"
  by (simp add: e820_add_entry_def Let_def del: upt_Suc)

lemma page_used_add_entry:
  "page_used s pn \<Longrightarrow>
    page_used (e820_add_entry e s) pn \<or> (e820_type e = 1 \<and> \<not> e820_ignored e \<and> e820_covers e pn)"
  by (cases "e820_type e = 1")
    (auto simp: e820_add_entry_def e820_ignored_def e820_covers_def Let_def
      page_used_fold_free page_used_fold_used simp del: upt_Suc)

lemma e820_add_entry_frees:
  "e820_type e = 1 \<Longrightarrow> \<not> e820_ignored e \<Longrightarrow> e820_covers e pn \<Longrightarrow> \<not> page_used (e820_add_entry e s) pn"
  by (auto simp: e820_add_entry_def e820_ignored_def e820_covers_def Let_def page_used_fold_free)

lemma bit_255: "n < 8 \<Longrightarrow> bit (0xFF :: u8) n"
proof -
  assume "n < 8"
  then have "n = 0 \<or> n = 1 \<or> n = 2 \<or> n = 3 \<or> n = 4 \<or> n = 5 \<or> n = 6 \<or> n = 7" by arith
  then show ?thesis by (elim disjE) simp_all
qed

lemma page_used_memset:
  "pn div 8 < sz \<Longrightarrow> page_used (s\<lparr>pmm_bitmap_size := z, pmm_bitmap := memset b 0 0xFF sz\<rparr>) pn"
  using bit_255[OF mod_8_less[of pn]]
  by (simp add: page_used_def memset_eq_store store_def word_less_nat_alt)

lemma low_page_number: "pn < 2048 \<Longrightarrow> push_bit 12 (of_nat (unat pn)) div 4096 = pn" for pn :: u64
proof -
  assume "pn < 2048"
  then have lt: "unat pn < 2048" by (simp add: word_less_nat_alt)
  then have "unat (push_bit 12 pn) = unat pn * 4096"
    by (simp add: push_bit_eq_mult unat_word_ariths)
  then have "unat (push_bit 12 pn div 4096) = unat pn" by (simp add: unat_div)
  then show ?thesis by (simp add: word_unat_eq_iff)
qed

lemma pmm_init_safe:
  assumes init: "pmm_init e820 entries s = Inr t"
    and free: "\<not> page_used t pn" and known: "pn div 8 < pmm_bitmap_size t"
  shows "2048 \<le> pn \<and> (\<exists>i < unat entries. e820_type (e820 (of_nat i)) = 1 \<and>
      \<not> e820_ignored (e820 (of_nat i)) \<and> e820_covers (e820 (of_nat i)) pn)"
proof -
  obtain s0 sz where s0: "\<And>q. q div 8 < sz \<Longrightarrow> page_used s0 q" "pmm_bitmap_size s0 = sz"
    and t: "t = fold (\<lambda>i. pmm_mark_page_used (push_bit 12 (of_nat i))) [0..<2048]
        (fold (\<lambda>i. pmm_init_entry (e820 (of_nat i))) [0..<unat entries] s0)"
    using init unfolding pmm_init_def Let_def
    by (auto simp del: upt_Suc split: if_splits
        intro!: that[OF page_used_memset])
  let ?s1 = "fold (\<lambda>i. pmm_init_entry (e820 (of_nat i))) [0..<unat entries] s0"
  have sz: "pmm_bitmap_size ?s1 = sz"
    by (rule fold_invariant[where Q = "\<lambda>_. True"]) (auto simp: pmm_init_entry_def s0)
  let ?P = "\<lambda>s. page_used s pn \<or> (\<exists>i < unat entries. e820_type (e820 (of_nat i)) = 1 \<and>
      \<not> e820_ignored (e820 (of_nat i)) \<and> e820_covers (e820 (of_nat i)) pn)"
  have "?P ?s1"
  proof (rule fold_invariant[where Q = "\<lambda>i. i < unat entries"])
    show "?P s0" using known s0 sz by (simp add: t del: upt_Suc)
  qed (use page_used_add_entry in \<open>auto simp: pmm_init_entry_def\<close>)
  moreover have "\<not> page_used ?s1 pn" and low: "\<And>i. i < 2048 \<Longrightarrow> pn \<noteq> push_bit 12 (of_nat i) div 4096"
    using free unfolding t page_used_fold_used by auto
  moreover have "\<not> pn < 2048"
    using low[of "unat pn"] low_page_number[of pn] by (auto simp: word_less_nat_alt)
  ultimately show ?thesis by auto
qed

section \<open>Properties\<close>

text \<open>A small machine: 16 MB of memory, of which the lowest eight pages are in use.\<close>

definition small_pmm :: pmm where
  "small_pmm = \<lparr>pmm_mutex = MUTEX_FREE, pmm_bitmap = (\<lambda>b. if b = 0 then 0xFF else 0), pmm_bitmap_size = 512,
    total_pages = 4096, used_pages = 8, highest_usable_address = 0xFFFFFF\<rparr>"

lemma small_pmm_ready: "pmm_ready small_pmm"
  by (simp add: small_pmm_def pmm_ready_def page_used_def)

lemma small_pmm_free: "\<not> pmm_get_page small_pmm 0x8000"
  by (simp add: small_pmm_def pmm_get_page_def Let_def)

text \<open>C8: \<open>pmm_alloc_page\<close> on an initialised, unlocked allocator always returns.  If some page
  frame below the last usable page is free it returns the lowest such frame, which becomes
  used while every other frame keeps its state, the page counter grows by one and the lock is
  released; if none is free it returns 0.\<close>

theorem pmm_alloc_page_first_fit:
  assumes "pmm_ready s"
  shows "\<exists>p t. pmm_alloc_page s = Inr (p, t) \<and>
    (if \<exists>q. aligned 4096 q \<and> q < highest_usable_address s - 4096 \<and> \<not> pmm_get_page s q
     then p \<noteq> 0 \<and> aligned 4096 p \<and> p < highest_usable_address s - 4096 \<and> \<not> pmm_get_page s p \<and>
       (\<forall>q. aligned 4096 q \<and> q < p \<longrightarrow> pmm_get_page s q) \<and>
       (\<forall>q. pmm_get_page t q \<longleftrightarrow> q div 4096 = p div 4096 \<or> pmm_get_page s q) \<and>
       used_pages t = used_pages s + 1 \<and> pmm_ready t
     else p = 0)"
proof (cases rule: pmm_alloc_page_ready[OF assms])
  case 1
  then show ?thesis by auto
next
  case (2 p)
  have "\<not> page_used s (p div 4096)" using 2(3) by (simp add: pmm_get_page_iff)
  then show ?thesis using 2 pmm_ready_mark_used[OF assms]
    by (auto simp: pmm_get_page_mark_used used_pages_mark_used)
qed

theorem pmm_alloc_page_first_fit_witness:
  "pmm_ready small_pmm \<and> (\<exists>p t. pmm_alloc_page small_pmm = Inr (p, t) \<and> p \<noteq> 0 \<and>
    (\<forall>q. aligned 4096 q \<and> q < p \<longrightarrow> pmm_get_page small_pmm q))"
proof -
  have "aligned 4096 (0x8000 :: u64) \<and> 0x8000 < highest_usable_address small_pmm - 4096 \<and> \<not> pmm_get_page small_pmm 0x8000"
    using small_pmm_free by (simp add: aligned_def small_pmm_def)
  then show ?thesis using pmm_alloc_page_first_fit[OF small_pmm_ready] small_pmm_ready by metis
qed

text \<open>Giving a freshly allocated frame back restores the allocator exactly: the bitmap, the
  counters and the lock.\<close>

theorem pmm_alloc_free_roundtrip:
  assumes "pmm_ready s" and "pmm_alloc_page s = Inr (p, t)" and "p \<noteq> 0"
  shows "pmm_free_page p t = Inr s"
proof (cases rule: pmm_alloc_page_ready[OF assms(1)])
  case 1
  then show ?thesis using assms by simp
next
  case (2 q)
  let ?byte = "q div 4096 div 8" and ?flag = "push_bit (unat (q div 4096 mod 8)) (1 :: u8)"
  have free: "\<not> bit (pmm_bitmap s ?byte) (unat (q div 4096 mod 8))"
    using 2(3) by (simp add: pmm_get_page_iff page_used_def)
  have p: "p = q" "t = (pmm_mark_page_used q s)\<lparr>pmm_mutex := MUTEX_FREE\<rparr>" using 2(1) assms(2) by auto
  have flip: "(x OR ?flag) AND NOT ?flag = x" if "\<not> bit x (unat (q div 4096 mod 8))" for x :: u8
    using that by (auto intro!: bit_word_eqI simp: bit_simps)
  have "pmm_mutex s = MUTEX_FREE" using assms(1) by (simp add: pmm_ready_def)
  then have "pmm_mark_page_free q t = s"
    using free flip[OF free] unfolding p
    by (simp add: pmm_mark_page_used_def pmm_mark_page_free_def Let_def bit_simps)
  then show ?thesis using p \<open>pmm_mutex s = MUTEX_FREE\<close> by (simp add: pmm_free_page_ready)
qed

theorem pmm_alloc_free_roundtrip_witness:
  "\<exists>p t. pmm_alloc_page small_pmm = Inr (p, t) \<and> p \<noteq> 0 \<and> pmm_free_page p t = Inr small_pmm"
proof (cases rule: pmm_alloc_page_ready[OF small_pmm_ready])
  case 1
  have "aligned 4096 (0x8000 :: u64)" "0x8000 < highest_usable_address small_pmm - 4096"
    by (simp_all add: aligned_def small_pmm_def)
  then show ?thesis using 1(2) small_pmm_free by blast
next
  case (2 p)
  then show ?thesis using pmm_alloc_free_roundtrip[OF small_pmm_ready 2(1,2)] by blast
qed

text \<open>C12: when no frame is free, \<open>pmm_alloc_page\<close> returns 0 with the allocator's lock still
  held, so that the next allocation and the next release of a page never return.\<close>

theorem pmm_alloc_exhausted_keeps_lock:
  assumes "pmm_ready s"
    and "\<forall>q. aligned 4096 q \<and> q < highest_usable_address s - 4096 \<longrightarrow> pmm_get_page s q"
  shows "\<exists>t. pmm_alloc_page s = Inr (0, t) \<and> pmm_alloc_page t = Inl Deadlock \<and>
    (\<forall>p. pmm_free_page p t = Inl Deadlock)"
  using assms
  by (cases rule: pmm_alloc_page_ready[OF assms(1)]) (auto simp: pmm_alloc_page_def pmm_free_page_def)

theorem pmm_alloc_exhausted_keeps_lock_witness:
  "\<exists>t. pmm_alloc_page (small_pmm\<lparr>pmm_bitmap := \<lambda>_. 0xFF\<rparr>) = Inr (0, t) \<and> pmm_alloc_page t = Inl Deadlock"
proof -
  let ?s = "small_pmm\<lparr>pmm_bitmap := \<lambda>_. 0xFF\<rparr>"
  have "page_used ?s pn" for pn using bit_255 by (simp add: page_used_def)
  then have "pmm_ready ?s" "\<forall>q. aligned 4096 q \<and> q < highest_usable_address ?s - 4096 \<longrightarrow> pmm_get_page ?s q"
    by (simp_all add: pmm_ready_def pmm_get_page_iff) (simp add: small_pmm_def)
  then show ?thesis using pmm_alloc_exhausted_keeps_lock[of ?s] by blast
qed

section \<open>Runs of the allocator\<close>

text \<open>One call by a client: a successful allocation, or the release of any frame but the first.\<close>

inductive pmm_step :: "'a pmm_scheme \<Rightarrow> 'a pmm_scheme \<Rightarrow> bool" where
  step_alloc: "pmm_alloc_page s = Inr (p, t) \<Longrightarrow> p \<noteq> 0 \<Longrightarrow> pmm_step s t"
| step_free: "pmm_free_page p s = Inr t \<Longrightarrow> p div 4096 \<noteq> 0 \<Longrightarrow> pmm_step s t"

lemma uncounted_mutex [simp]: "uncounted (s\<lparr>pmm_mutex := x\<rparr>) = uncounted s"
  by (simp add: uncounted_def used_set_def)

lemma pmm_step_invariant:
  assumes "pmm_step s t" and "pmm_ready s"
  shows "pmm_ready t \<and> uncounted t = uncounted s \<and> total_pages t = total_pages s \<and>
    highest_usable_address t = highest_usable_address s"
  using assms(1)
proof cases
  case (step_alloc p)
  then show ?thesis using pmm_ready_mark_used[OF assms(2)]
    by (cases rule: pmm_alloc_page_ready[OF assms(2)]) auto
next
  case (step_free p)
  then have t: "t = (pmm_mark_page_free p s)\<lparr>pmm_mutex := MUTEX_FREE\<rparr>"
    using pmm_free_page_ready[of s p] assms(2) by (auto simp: pmm_ready_def)
  then show ?thesis using assms(2) step_free(2) by (auto simp: t pmm_ready_def)
qed



section \<open>What initialisation leaves free\<close>

text \<open>The pages an entry that is not usable memory marks: one more than its length covers.\<close>

definition e820_reserves :: "e820_t \<Rightarrow> u64 \<Rightarrow> bool" where
  "e820_reserves e pn \<longleftrightarrow> e820_type e \<noteq> 0 \<and> e820_type e \<noteq> 1 \<and> e820_type e \<le> 5 \<and> \<not> e820_ignored e \<and>
    (\<exists>k < unat ((e820_length e + 4095) div 4096 + 1). pn = (e820_base e + of_nat k * 4096) div 4096)"

lemma pmm_init_entry_keeps_free:
  "\<not> page_used s pn \<Longrightarrow> \<not> e820_reserves e pn \<Longrightarrow> \<not> page_used (pmm_init_entry e s) pn"
  by (cases "e820_type e = 1")
    (auto simp: pmm_init_entry_def e820_add_entry_def e820_ignored_def e820_reserves_def Let_def
      page_used_fold_free page_used_fold_used simp del: upt_Suc)

lemma fold_init_entries_keep_free:
  "\<not> page_used s pn \<Longrightarrow> (\<forall>i \<in> set xs. \<not> e820_reserves (f i) pn) \<Longrightarrow>
    \<not> page_used (fold (\<lambda>i. pmm_init_entry (f i)) xs s) pn"
  by (induction xs arbitrary: s) (auto simp: pmm_init_entry_keeps_free)

lemma pmm_init_frees:
  assumes init: "pmm_init e820 entries s = Inr t"
    and i: "i < unat entries" "e820_type (e820 (of_nat i)) = 1" "\<not> e820_ignored (e820 (of_nat i))"
      "e820_covers (e820 (of_nat i)) pn"
    and others: "\<forall>j < unat entries. i < j \<longrightarrow> \<not> e820_reserves (e820 (of_nat j)) pn" and "2048 \<le> pn"
  shows "\<not> page_used t pn"
proof -
  obtain s0 where t: "t = fold (\<lambda>i. pmm_mark_page_used (push_bit 12 (of_nat i))) [0..<2048]
        (fold (\<lambda>i. pmm_init_entry (e820 (of_nat i))) [0..<unat entries] s0)"
    using init unfolding pmm_init_def Let_def by (auto simp del: upt_Suc split: if_splits)
  have split: "[0..<unat entries] = [0..<i] @ i # [Suc i..<unat entries]"
    using upt_add_eq_append[of 0 i "unat entries - i"] upt_conv_Cons[of i "unat entries"] i(1) by simp
  have "\<not> page_used (pmm_init_entry (e820 (of_nat i)) u) pn" for u :: "'a pmm_scheme"
    using i e820_add_entry_frees by (simp add: pmm_init_entry_def)
  then have "\<not> page_used (fold (\<lambda>i. pmm_init_entry (e820 (of_nat i))) [0..<unat entries] s0) pn"
    unfolding split fold_append fold_simps comp_def
    using others by (intro fold_init_entries_keep_free) auto
  moreover have "pn \<noteq> push_bit 12 (of_nat j) div 4096" if "j < 2048" for j
    using low_page_number[of "of_nat j"] that assms(7) by (auto simp: word_le_nat_alt word_less_nat_alt unat_of_nat)
  ultimately show ?thesis unfolding t page_used_fold_used by auto
qed


lemma fold_free_total:
  "total_pages (fold (\<lambda>i s. (pmm_mark_page_free (f i) s)\<lparr>used_pages := used_pages s\<rparr>) xs s) = total_pages s"
  by (induction xs arbitrary: s) (simp_all add: Let_def)

definition e820_small :: e820_t where
  "e820_small = \<lparr>e820_size = 20, e820_base = 0, e820_length = 0x1000000, e820_type = 1, acpi3_flags = 0\<rparr>"

lemma pmm_init_small:
  "\<exists>t. pmm_init (\<lambda>_. e820_small) 1 (small_pmm\<lparr>total_pages := 0, used_pages := 0\<rparr>) = Inr t \<and> pmm_bitmap_size t = 512"
proof -
  have one: "[0..<unat (1 :: u64)] = [0]" by simp
  show ?thesis
    unfolding pmm_init_def one Let_def
    by (simp add: pmm_init_entry_def e820_add_entry_def e820_small_def Let_def fold_free_total small_pmm_def del: upt_Suc)
qed


end
