(* ===== verification/Vmm.thy ===== *)
theory Vmm
  imports Pmm
begin

text \<open>
  The virtual memory manager, \<open>kernel/src/mm/vmm.c\<close>: four-level page tables in physical
  memory, reached through the direct map at \<open>PHYSICAL_MEMORY\<close>.
\<close>

section \<open>Constants and state\<close>

definition PHYSICAL_MEMORY :: u64 where "PHYSICAL_MEMORY = 0xFFFF800000000000"
definition MMIO_REGION :: u64 where "MMIO_REGION = 0xFFFF808000000000"
definition KERNEL_HEAP :: u64 where "KERNEL_HEAP = 0xFFFF810000000000"

definition MAX_MMIO :: u64 where "MAX_MMIO = 32768"

definition PAGE_PRESENT :: u64 where "PAGE_PRESENT = 0x001"
definition PAGE_WRITE :: u64 where "PAGE_WRITE = 0x002"
definition PAGE_USER :: u64 where "PAGE_USER = 0x004"
definition PAGE_UNCACHEABLE :: u64 where "PAGE_UNCACHEABLE = 0x010"
definition PAGE_WRITE_COMBINE :: u64 where "PAGE_WRITE_COMBINE = 0x08"
definition PAGE_LARGE :: u64 where "PAGE_LARGE = 0x080"
definition PAGE_MASK :: u64 where "PAGE_MASK = NOT 4095"
definition KERNEL_HEAP_FLAGS :: u64 where "KERNEL_HEAP_FLAGS = PAGE_PRESENT OR PAGE_WRITE"

record mmio_t =
  device :: "u8 list"
  mmio_physical :: u64
  mmio_virtual :: u64
  mmio_pages :: u64

text \<open>
  \<open>mem\<close> is physical memory; a pointer \<open>p\<close> into the direct map reads it at
  \<open>p - PHYSICAL_MEMORY\<close>.  \<open>tlb_flushed\<close> records the addresses passed to \<open>flush_tlb\<close>, the
  latest first.
\<close>

record vmm = pmm +
  vmm_mutex :: mutex_t
  mem :: memory
  cr3 :: u64
  tlb_flushed :: "u64 list"
  mmio_regions :: "u64 \<Rightarrow> mmio_t"
  mmio_region_count :: u64

definition kread64 :: "'a vmm_scheme \<Rightarrow> u64 \<Rightarrow> u64" where
  "kread64 s ptr = read64 (mem s) (ptr - PHYSICAL_MEMORY)"

definition kwrite64 :: "u64 \<Rightarrow> u64 \<Rightarrow> 'a vmm_scheme \<Rightarrow> 'a vmm_scheme" where
  "kwrite64 ptr v s = s\<lparr>mem := write64 (mem s) (ptr - PHYSICAL_MEMORY) v\<rparr>"

definition kmemset :: "u64 \<Rightarrow> u8 \<Rightarrow> u64 \<Rightarrow> 'a vmm_scheme \<Rightarrow> 'a vmm_scheme" where
  "kmemset ptr v n s = s\<lparr>mem := memset (mem s) (ptr - PHYSICAL_MEMORY) v n\<rparr>"

section \<open>Walking and changing the tables\<close>

definition table_index :: "nat \<Rightarrow> u64 \<Rightarrow> u64" where
  "table_index shift v = drop_bit shift v AND 511"

definition vmm_get_page :: "'a vmm_scheme \<Rightarrow> u64 \<Rightarrow> u64" where
  "vmm_get_page s v0 =
    (let v = v0 AND 0xFFFFFFFFFFFF;
         pml4 = (cr3 s AND PAGE_MASK) + PHYSICAL_MEMORY;
         pdpt_ptr = kread64 s (pml4 + 8 * table_index 39 v)
     in if pdpt_ptr AND PAGE_PRESENT = 0 then 0
        else if pdpt_ptr AND PAGE_LARGE \<noteq> 0 then pdpt_ptr
        else
          let pdpt = (pdpt_ptr AND PAGE_MASK) + PHYSICAL_MEMORY;
              pd_ptr = kread64 s (pdpt + 8 * table_index 30 v)
          in if pd_ptr AND PAGE_PRESENT = 0 then 0
             else if pd_ptr AND PAGE_LARGE \<noteq> 0 then pd_ptr
             else
               let pd = (pd_ptr AND PAGE_MASK) + PHYSICAL_MEMORY;
                   pt_ptr = kread64 s (pd + 8 * table_index 21 v)
               in if pt_ptr AND PAGE_PRESENT = 0 then 0
                  else if pt_ptr AND PAGE_LARGE \<noteq> 0 then pt_ptr
                  else
                    let pt = (pt_ptr AND PAGE_MASK) + PHYSICAL_MEMORY
                    in kread64 s (pt + 8 * table_index 12 v))"

text \<open>The pointer result \<open>*destination\<close> is the value in \<open>Some\<close>; \<open>None\<close> is \<open>false\<close>.\<close>

definition vmm_get_physical :: "'a vmm_scheme \<Rightarrow> u64 \<Rightarrow> u64 option" where
  "vmm_get_physical s page =
    (if PHYSICAL_MEMORY \<le> page \<and> page < MMIO_REGION then Some (page - PHYSICAL_MEMORY)
     else let phys = vmm_get_page s page
          in if phys AND PAGE_PRESENT \<noteq> 0
             then Some ((phys AND PAGE_MASK) + (page AND 0xFFF)) else None)"

text \<open>
  The block \<open>vmm_map_page\<close> repeats for the PDPT, the PD and the page table: read the entry,
  allocate and clear a table if it is not present, and go on to the table it points to.
\<close>

definition vmm_next_table ::
  "u64 \<Rightarrow> u64 \<Rightarrow> 'a vmm_scheme \<Rightarrow> halt + (u64 \<times> 'a vmm_scheme)" where
  "vmm_next_table table index s =
    (let entry = kread64 s (table + 8 * index)
     in if entry AND PAGE_PRESENT = 0 then
          bnd (pmm_alloc_page s) (\<lambda>(ptr, s).
            if ptr = 0 then Inl (Panic ''out of memory.'')
            else
              let s = kwrite64 (table + 8 * index)
                        (ptr OR PAGE_PRESENT OR PAGE_WRITE OR PAGE_USER) s;
                  s = kmemset (ptr + PHYSICAL_MEMORY) 0 4096 s
              in Inr ((ptr AND PAGE_MASK) + PHYSICAL_MEMORY, s))
        else Inr ((entry AND PAGE_MASK) + PHYSICAL_MEMORY, s))"

definition flush_tlb :: "u64 \<Rightarrow> 'a vmm_scheme \<Rightarrow> 'a vmm_scheme" where
  "flush_tlb v s = s\<lparr>tlb_flushed := v # tlb_flushed s\<rparr>"

definition vmm_map_page ::
  "u64 \<Rightarrow> u64 \<Rightarrow> u64 \<Rightarrow> 'a vmm_scheme \<Rightarrow> halt + 'a vmm_scheme" where
  "vmm_map_page v0 physical flags s =
    (let v = v0 AND 0xFFFFFFFFFFFF;
         pml4 = (cr3 s AND PAGE_MASK) + PHYSICAL_MEMORY
     in bnd (vmm_next_table pml4 (table_index 39 v) s) (\<lambda>(pdpt, s).
        bnd (vmm_next_table pdpt (table_index 30 v) s) (\<lambda>(pd, s).
        bnd (vmm_next_table pd (table_index 21 v) s) (\<lambda>(pt, s).
        Inr (flush_tlb v (kwrite64 (pt + 8 * table_index 12 v) (physical OR flags) s))))))"

definition vmm_set_wc :: "u64 \<Rightarrow> u64 \<Rightarrow> 'a vmm_scheme \<Rightarrow> halt + 'a vmm_scheme" where
  "vmm_set_wc page count s =
    fold_res (\<lambda>i s.
      let physical = vmm_get_page s (page + of_nat i * 4096);
          flags = physical AND 0xFFF;
          physical = physical AND PAGE_MASK;
          flags = flags AND NOT PAGE_UNCACHEABLE;
          flags = flags OR PAGE_WRITE_COMBINE
      in vmm_map_page (page + of_nat i * 4096) physical flags s) [0..<unat count] s"

section \<open>Ranges of pages\<close>

definition vmm_free_loop :: "u64 \<Rightarrow> nat \<Rightarrow> 'a vmm_scheme \<Rightarrow> halt + 'a vmm_scheme" where
  "vmm_free_loop v n s =
    fold_res (\<lambda>i s.
      case vmm_get_physical s (v + push_bit 12 (of_nat i)) of
        None \<Rightarrow> Inr s
      | Some phys \<Rightarrow>
          bnd (pmm_free_page phys s) (\<lambda>s. vmm_map_page (v + push_bit 12 (of_nat i)) 0 0 s))
      [0..<n] s"

definition vmm_free :: "u64 \<Rightarrow> u64 \<Rightarrow> 'a vmm_scheme \<Rightarrow> halt + 'a vmm_scheme" where
  "vmm_free v count s =
    bnd (acquire (vmm_mutex s)) (\<lambda>mx.
    bnd (vmm_free_loop v (unat count) (s\<lparr>vmm_mutex := mx\<rparr>)) (\<lambda>s.
    Inr (s\<lparr>vmm_mutex := release (vmm_mutex s)\<rparr>)))"

partial_function (option) vmm_find_loop ::
  "'a vmm_scheme \<Rightarrow> u64 \<Rightarrow> u64 \<Rightarrow> u64 \<Rightarrow> u64 option" where
  "vmm_find_loop s count ptr i =
    (if ptr + push_bit 12 count < PHYSICAL_MEMORY \<or> MMIO_REGION \<le> ptr then
       (if vmm_get_physical s (ptr + push_bit 12 i) = None then
          (if count \<le> i + 1 then Some ptr else vmm_find_loop s count ptr (i + 1))
        else vmm_find_loop s count (ptr + 4096) 0)
     else Some 0)"

definition vmm_find :: "'a vmm_scheme \<Rightarrow> u64 \<Rightarrow> u64 \<Rightarrow> u64 option" where
  "vmm_find s start count = vmm_find_loop s count start 0"

text \<open>
  The loop of \<open>vmm_alloc\<close>: the Boolean says whether every page was obtained; when not, the
  function returns early with the pages mapped so far left in place.
\<close>

primrec vmm_alloc_loop ::
  "u64 \<Rightarrow> u64 \<Rightarrow> nat list \<Rightarrow> 'a vmm_scheme \<Rightarrow> halt + (bool \<times> 'a vmm_scheme)" where
  "vmm_alloc_loop ptr flags [] s = Inr (True, s)"
| "vmm_alloc_loop ptr flags (i # is) s =
    bnd (pmm_alloc_page s) (\<lambda>(phys, s).
      if phys = 0 then Inr (False, s)
      else bnd (vmm_map_page (ptr + push_bit 12 (of_nat i)) phys flags s)
             (vmm_alloc_loop ptr flags is))"

definition vmm_alloc ::
  "u64 \<Rightarrow> u64 \<Rightarrow> u64 \<Rightarrow> 'a vmm_scheme \<Rightarrow> halt + (u64 \<times> 'a vmm_scheme)" where
  "vmm_alloc start count flags s =
    (if total_pages s - used_pages s \<le> count then Inr (0, s)
     else case vmm_find s start count of
       None \<Rightarrow> Inl Diverges
     | Some ptr \<Rightarrow>
         if ptr = 0 then Inr (0, s)
         else
           bnd (acquire (vmm_mutex s)) (\<lambda>mx.
           bnd (vmm_alloc_loop ptr flags [0..<unat count] (s\<lparr>vmm_mutex := mx\<rparr>)) (\<lambda>(ok, s).
             let s = s\<lparr>vmm_mutex := release (vmm_mutex s)\<rparr>
             in Inr (if ok then ptr else 0, s))))"

definition vmm_create_mmio ::
  "u64 \<Rightarrow> u64 \<Rightarrow> u8 list \<Rightarrow> 'a vmm_scheme \<Rightarrow> halt + (u64 \<times> 'a vmm_scheme)" where
  "vmm_create_mmio physical pages name s =
    bnd (acquire (vmm_mutex s)) (\<lambda>mx.
      let s = s\<lparr>vmm_mutex := mx\<rparr>
      in case vmm_find s MMIO_REGION pages of
        None \<Rightarrow> Inl Diverges
      | Some v \<Rightarrow>
          if v = 0 then Inl (Panic ''unable to map MMIO.'')
          else
            bnd (fold_res (\<lambda>i. vmm_map_page (v + of_nat i * 4096) (physical + of_nat i * 4096)
                    (PAGE_PRESENT OR PAGE_WRITE OR PAGE_UNCACHEABLE)) [0..<unat pages] s) (\<lambda>s.
            if MAX_MMIO \<le> mmio_region_count s \<or> 64 \<le> length name then Inl Overrun
            else
              let n = mmio_region_count s;
                  r = \<lparr>device = name, mmio_physical = physical, mmio_virtual = v, mmio_pages = pages\<rparr>;
                  s = s\<lparr>mmio_regions := (mmio_regions s)(n := r), mmio_region_count := n + 1\<rparr>
              in Inr (v, s\<lparr>vmm_mutex := release (vmm_mutex s)\<rparr>)))"

end
