(* ===== verification/Vmm_Tables.thy ===== *)
theory Vmm_Tables
  imports Vmm
begin

text \<open>
  Correctness of the page-table code: the tables of an address space form a tree of
  frames that are in use, \<open>vmm_map_page\<close> keeps it so, and its effect on
  \<open>vmm_get_page\<close> is the update of exactly one page.
\<close>

section \<open>Entries of a table\<close>

lemma kread64_direct [simp]: "kread64 s (t + PHYSICAL_MEMORY + x) = read64 (mem s) (t + x)"
  by (simp add: kread64_def algebra_simps)

lemma kwrite64_direct [simp]:
  "kwrite64 (t + PHYSICAL_MEMORY + x) v s = s\<lparr>mem := write64 (mem s) (t + x) v\<rparr>"
  by (simp add: kwrite64_def algebra_simps)

lemma kmemset_direct [simp]:
  "kmemset (t + PHYSICAL_MEMORY) v n s = s\<lparr>mem := memset (mem s) t v n\<rparr>"
  by (simp add: kmemset_def)

definition present :: "u64 \<Rightarrow> bool" where
  "present e \<longleftrightarrow> e AND PAGE_PRESENT \<noteq> 0"

lemma PAGE_MASK_bit: "bit PAGE_MASK n \<longleftrightarrow> 12 \<le> n \<and> n < 64"
proof -
  have eq: "PAGE_MASK = NOT (mask 12)" by (simp add: PAGE_MASK_def mask_eq_exp_minus_1)
  show ?thesis unfolding eq by (auto simp: bit_simps)
qed

lemma aligned_iff_take_bit: "aligned (2 ^ n) a \<longleftrightarrow> take_bit n a = 0"
proof -
  have "take_bit n a = 0 \<longleftrightarrow> take_bit n (unat a) = 0"
    by (simp add: word_unat_eq_iff unsigned_take_bit_eq)
  then show ?thesis by (simp add: aligned_def take_bit_eq_mod mod_eq_0_iff_dvd)
qed

lemma aligned_mask [simp]: "aligned 4096 (e AND PAGE_MASK)"
  using aligned_iff_take_bit[of 12 "e AND PAGE_MASK"]
  by (auto intro!: bit_word_eqI simp: bit_simps PAGE_MASK_bit)

lemma mask_aligned: "aligned 4096 p \<Longrightarrow> p AND PAGE_MASK = p"
  using aligned_iff_take_bit[of 12 p]
  by (auto intro!: bit_word_eqI simp: bit_simps PAGE_MASK_bit)
    (metis bit_take_bit_iff bit_0_eq bot_apply linorder_not_le bot_bool_def)

lemma mask_flags: "aligned 4096 p \<Longrightarrow>
   (p OR PAGE_PRESENT OR PAGE_WRITE OR PAGE_USER) AND PAGE_MASK = p"
proof -
  assume "aligned 4096 p"
  moreover have "(PAGE_PRESENT OR PAGE_WRITE OR PAGE_USER) AND PAGE_MASK = 0"
    by (simp add: PAGE_PRESENT_def PAGE_WRITE_def PAGE_USER_def PAGE_MASK_def)
  ultimately show ?thesis
    by (simp add: mask_aligned bit.conj_disj_distrib2 or.assoc)
qed

lemma flags_not_large: "aligned 4096 p \<Longrightarrow>
   (p OR PAGE_PRESENT OR PAGE_WRITE OR PAGE_USER) AND PAGE_LARGE = 0"
proof -
  assume al: "aligned 4096 p"
  have "p AND PAGE_LARGE = p AND (PAGE_MASK AND PAGE_LARGE)"
    by (simp add: mask_aligned[OF al] flip: and.assoc)
  also have "\<dots> = 0" by (simp add: PAGE_MASK_def PAGE_LARGE_def)
  finally have "p AND PAGE_LARGE = 0" .
  moreover have "(PAGE_PRESENT OR PAGE_WRITE OR PAGE_USER) AND PAGE_LARGE = 0"
    by (simp add: PAGE_PRESENT_def PAGE_WRITE_def PAGE_USER_def PAGE_LARGE_def)
  ultimately show ?thesis by (simp add: bit.conj_disj_distrib2 or.assoc)
qed

lemma present_flags [simp]: "present (p OR PAGE_PRESENT OR PAGE_WRITE OR PAGE_USER)"
  "\<not> present 0"
proof -
  have "bit (p OR PAGE_PRESENT OR PAGE_WRITE OR PAGE_USER) 0"
    by (simp add: PAGE_PRESENT_def bit_simps)
  then show "present (p OR PAGE_PRESENT OR PAGE_WRITE OR PAGE_USER)"
    by (auto simp: present_def PAGE_PRESENT_def and_one_eq odd_iff_mod_2_eq_one bit_0)
qed (simp add: present_def)

lemma entry_unat:
  assumes "aligned 4096 t" and "i < 512"
  shows "unat (t + 8 * i) = unat t + 8 * unat i"
proof -
  have i: "unat i < 512" using assms(2) by (simp add: word_less_nat_alt)
  then have "unat (8 * i) = 8 * unat i" by (simp add: unat_word_ariths)
  moreover obtain k where "unat t = 4096 * k" using assms(1) by (auto simp: aligned_def elim!: dvdE)
  then have "unat t + 4096 \<le> 2 ^ 64" using unat_less_size[of t] by simp
  ultimately show ?thesis using i by (subst unat_add_less) auto
qed

lemma entry_inject:
  assumes "aligned 4096 t" "aligned 4096 u" "i < 512" "j < 512"
  shows "t + 8 * i = u + 8 * j \<longleftrightarrow> t = u \<and> i = j"
proof
  assume eq: "t + 8 * i = u + 8 * j"
  obtain k l where k: "unat t = 4096 * k" "unat u = 4096 * l"
    using assms(1,2) by (auto simp: aligned_def elim!: dvdE)
  have "unat i < 512" "unat j < 512" using assms(3,4) by (auto simp: word_less_nat_alt)
  then have "(4096 * k + 8 * unat i) div 4096 = k" "(4096 * l + 8 * unat j) div 4096 = l"
    by simp_all
  moreover have sum: "4096 * k + 8 * unat i = 4096 * l + 8 * unat j"
    using arg_cong[OF eq, of unat] by (simp add: entry_unat assms k)
  ultimately have "k = l" by metis
  with sum have "k = l \<and> unat i = unat j" by simp
  then show "t = u \<and> i = j" using k by (simp add: word_unat_eq_iff)
qed simp

lemma entry_aligned: "aligned 4096 t \<Longrightarrow> i < 512 \<Longrightarrow> aligned 8 (t + 8 * i)"
  by (auto simp: aligned_def[of 8] entry_unat) (auto simp: aligned_def elim!: dvdE)

lemma read_entry_write [mem_simps]:
  assumes "aligned 4096 t" "aligned 4096 u" "i < 512" "j < 512"
  shows "read64 (write64 m (u + 8 * j) v) (t + 8 * i) =
    (if t = u \<and> i = j then v else read64 m (t + 8 * i))"
  using assms entry_inject[OF assms]
  by (auto simp: read64_write64_other entry_aligned)

lemma le_word_zero: "\<forall>b \<in> set bs. b = 0 \<Longrightarrow> le_word bs = 0"
  by (induction bs) auto

lemma read_entry_clear [mem_simps]:
  assumes "aligned 4096 t" "aligned 4096 u" "i < 512"
  shows "read64 (memset m u 0 4096) (t + 8 * i) = (if t = u then 0 else read64 m (t + 8 * i))"
proof (cases "t = u")
  case True
  have "unat i < 512" using assms(3) by (simp add: word_less_nat_alt)
  have "memset m u 0 4096 (t + 8 * i + of_nat k) = 0" if "k < 8" for k
  proof -
    have "t + 8 * i + of_nat k - u = of_nat (8 * unat i + k)" using True by simp
    then have "unat (t + 8 * i + of_nat k - u) = 8 * unat i + k"
      using \<open>unat i < 512\<close> that by (simp only: unat_of_nat) simp
    then show ?thesis using \<open>unat i < 512\<close> that by (simp add: memset_eq_store store_def)
  qed
  then show ?thesis using True
    by (auto simp: read64_def load_def intro!: le_word_zero)
next
  case False
  have i: "unat i < 512" using assms(3) by (simp add: word_less_nat_alt)
  have "4096 \<le> unat (t + 8 * i + of_nat k - u)" if "k < 8" for k
  proof -
    have "t + 8 * i + of_nat k = t + of_nat (8 * unat i + k)" by simp
    then show ?thesis using aligned_add_ge[OF assms(1,2) False, of "8 * unat i + k"] i that
      by (simp only:) simp
  qed
  then show ?thesis using False
    by (auto simp: read64_def memset_eq_store intro!: arg_cong[of _ _ le_word] load_store_other)
qed


section \<open>The tree of tables\<close>

primrec walk :: "memory \<Rightarrow> u64 \<Rightarrow> u64 list \<Rightarrow> u64 option" where
  "walk m t [] = Some t"
| "walk m t (i # is) =
    (if present (read64 m (t + 8 * i)) then walk m (read64 m (t + 8 * i) AND PAGE_MASK) is else None)"

lemma walk_append [simp]:
  "walk m t (p @ q) = (case walk m t p of None \<Rightarrow> None | Some u \<Rightarrow> walk m u q)"
  by (induction p arbitrary: t) auto

lemma walk_aligned: "walk m t p = Some u \<Longrightarrow> aligned 4096 t \<Longrightarrow> aligned 4096 u"
  by (induction p arbitrary: t) (auto split: if_splits)

text \<open>
  Paths of table indices from the root.  Slot 256 of the root is the direct map set up by
  the boot loader with large pages; the memory manager never changes it.
\<close>

definition kpath :: "u64 list \<Rightarrow> bool" where
  "kpath p \<longleftrightarrow> length p \<le> 3 \<and> (\<forall>i \<in> set p. i < 512) \<and> (p \<noteq> [] \<longrightarrow> hd p \<noteq> 256)"

lemma kpath_Nil [simp]: "kpath []"
  by (simp add: kpath_def)

lemma kpath_append: "kpath (p @ q) \<Longrightarrow> kpath p"
  by (cases p) (auto simp: kpath_def)

definition tree :: "memory \<Rightarrow> u64 \<Rightarrow> (u64 \<Rightarrow> bool) \<Rightarrow> bool" where
  "tree m r used \<longleftrightarrow> aligned 4096 r \<and>
    (\<forall>p q t. kpath p \<longrightarrow> kpath q \<longrightarrow> walk m r p = Some t \<longrightarrow> walk m r q = Some t \<longrightarrow> p = q) \<and>
    (\<forall>p t. kpath p \<longrightarrow> walk m r p = Some t \<longrightarrow> used t) \<and>
    (\<forall>p i t. kpath (p @ [i]) \<longrightarrow> walk m r p = Some t \<longrightarrow> present (read64 m (t + 8 * i))
      \<longrightarrow> read64 m (t + 8 * i) AND PAGE_LARGE = 0)"

lemma treeD:
  assumes "tree m r used"
  shows "aligned 4096 r"
    and "\<And>p q t. kpath p \<Longrightarrow> kpath q \<Longrightarrow> walk m r p = Some t \<Longrightarrow> walk m r q = Some t \<Longrightarrow> p = q"
    and "\<And>p t. kpath p \<Longrightarrow> walk m r p = Some t \<Longrightarrow> used t"
    and "\<And>p i t. kpath (p @ [i]) \<Longrightarrow> walk m r p = Some t \<Longrightarrow> present (read64 m (t + 8 * i))
      \<Longrightarrow> read64 m (t + 8 * i) AND PAGE_LARGE = 0"
    and "\<And>p t. kpath p \<Longrightarrow> walk m r p = Some t \<Longrightarrow> aligned 4096 t"
  using assms unfolding tree_def by (blast dest: walk_aligned)+

text \<open>Memory changed in one entry of the tree only: other walks are as before.\<close>

lemma walk_agree:
  assumes "kpath q" and "\<nexists>q'. q = pb @ i # q'"
    and agree: "\<And>p t j. kpath p \<Longrightarrow> walk m r p = Some t \<Longrightarrow> j < 512 \<Longrightarrow> (p, j) \<noteq> (pb, i)
      \<Longrightarrow> read64 m' (t + 8 * j) = read64 m (t + 8 * j)"
  shows "walk m' r q = walk m r q"
  using assms(1,2)
proof (induction q rule: rev_induct)
  case Nil
  then show ?case by simp
next
  case (snoc j q)
  have kq: "kpath q" using snoc.prems(1) by (rule kpath_append)
  have "\<nexists>q'. q = pb @ i # q'" using snoc.prems(2) by (metis append.assoc append_Cons)
  then have "walk m' r q = walk m r q" by (rule snoc.IH[OF kq])
  moreover have "read64 m' (t + 8 * j) = read64 m (t + 8 * j)" if "walk m r q = Some t" for t
    using agree[OF kq that, of j] snoc.prems by (auto simp: kpath_def)
  ultimately show ?case by (auto split: option.splits)
qed

definition leaf :: "memory \<Rightarrow> u64 \<Rightarrow> u64 list \<Rightarrow> u64 \<Rightarrow> u64" where
  "leaf m r q j = (case walk m r q of None \<Rightarrow> 0 | Some t \<Rightarrow> read64 m (t + 8 * j))"

text \<open>Writing an entry of a page table (the last level).\<close>

lemma tree_leaf_write:
  fixes v :: u64
  assumes tr: "tree m r used" and pb: "kpath pb" "length pb = 3" "walk m r pb = Some tb" and i: "i < 512"
  defines "m' \<equiv> write64 m (tb + 8 * i) v"
  shows "tree m' r used"
    and "\<And>q. kpath q \<Longrightarrow> walk m' r q = walk m r q"
    and "\<And>q j. kpath q \<Longrightarrow> length q = 3 \<Longrightarrow> j < 512 \<Longrightarrow>
      leaf m' r q j = (if q = pb \<and> j = i then v else leaf m r q j)"
proof -
  note d = treeD[OF tr]
  have rd: "read64 m' (t + 8 * j) = (if p = pb \<and> j = i then v else read64 m (t + 8 * j))"
    if "kpath p" "walk m r p = Some t" "j < 512" for p t j
  proof -
    have "t = tb \<longleftrightarrow> p = pb" using d(2)[OF that(1) pb(1)] that(2) pb(3) by auto
    then show ?thesis using that pb i unfolding m'_def
      by (subst read_entry_write) (auto intro: d(5))
  qed
  show same: "walk m' r q = walk m r q" if "kpath q" for q
    using that pb(2) rd by (intro walk_agree[where pb = pb and i = i]) (auto simp: kpath_def)
  show "tree m' r used"
    unfolding tree_def
  proof (intro conjI allI impI)
    fix p i' t assume *: "kpath (p @ [i'])" "walk m' r p = Some t" "present (read64 m' (t + 8 * i'))"
    have kp: "kpath p" using *(1) by (rule kpath_append)
    have "read64 m' (t + 8 * i') = read64 m (t + 8 * i')"
      using rd[OF kp, of t i'] * pb(2) same[OF kp] by (auto simp: kpath_def)
    then show "read64 m' (t + 8 * i') AND PAGE_LARGE = 0"
      using d(4)[OF *(1), of t] * same[OF kp] by simp
  qed (use d same in auto)
  show "leaf m' r q j = (if q = pb \<and> j = i then v else leaf m r q j)"
    if "kpath q" "length q = 3" "j < 512" for q j
    using rd that same pb by (auto simp: leaf_def split: option.splits)
qed


text \<open>Adding a cleared table behind an entry that was not present.\<close>

lemma tree_extend:
  fixes f :: u64
  assumes tr: "tree m r used" and pb: "kpath (pb @ [i])" "walk m r pb = Some tb"
    and absent: "\<not> present (read64 m (tb + 8 * i))"
    and f: "\<not> used f" "aligned 4096 f"
    and used': "used' f" "\<forall>t. used t \<longrightarrow> used' t"
  defines "e \<equiv> f OR PAGE_PRESENT OR PAGE_WRITE OR PAGE_USER"
  defines "m' \<equiv> memset (write64 m (tb + 8 * i) e) f 0 4096"
  shows "tree m' r used'"
    and "walk m' r (pb @ [i]) = Some f"
    and "\<And>q j. kpath q \<Longrightarrow> j < 512 \<Longrightarrow> leaf m' r q j = (if q = pb \<and> j = i then e else leaf m r q j)"
    and "\<And>q. kpath q \<Longrightarrow> walk m' r q = (if q = pb @ [i] then Some f else walk m r q)"
proof -
  note d = treeD[OF tr]
  have kb: "kpath pb" using pb(1) by (rule kpath_append)
  have i: "i < 512" using pb(1) by (simp add: kpath_def)
  have tf: "t \<noteq> f" if "kpath p" "walk m r p = Some t" for p t
    using d(3)[OF that] f(1) by auto
  have rd: "read64 m' (t + 8 * j) = (if p = pb \<and> j = i then e else read64 m (t + 8 * j))"
    if "kpath p" "walk m r p = Some t" "j < 512" for p t j
  proof -
    have "t = tb \<longleftrightarrow> p = pb" using d(2)[OF that(1) kb] that(2) pb(2) by auto
    then show ?thesis using that i f tf[OF that(1,2)] d(5)[OF kb pb(2)] d(5)[OF that(1,2)]
      unfolding m'_def by (simp add: read_entry_clear read_entry_write)
  qed
  have rf: "read64 m' (f + 8 * j) = 0" if "j < 512" for j
    using that f(2) unfolding m'_def by (simp add: read_entry_clear)
  have off: "walk m' r q = walk m r q" if "kpath q" "\<nexists>q'. q = pb @ i # q'" for q
    using that rd by (intro walk_agree[where pb = pb and i = i]) auto
  have wb: "walk m' r pb = Some tb" using off[OF kb] pb(2) by simp
  show new: "walk m' r (pb @ [i]) = Some f"
    using wb rd[OF kb pb(2) i] f(2) mask_flags[of f] by (simp add: e_def)
  show on: "walk m' r q = (if q = pb @ [i] then Some f else walk m r q)" if kq: "kpath q" for q
  proof (cases "\<exists>q'. q = pb @ i # q'")
    case True
    then obtain q' where q': "q = (pb @ [i]) @ q'" by auto
    show ?thesis
    proof (cases q')
      case Nil
      then show ?thesis using new q' by simp
    next
      case (Cons j q2)
      then have "j < 512" using kq q' by (simp add: kpath_def)
      then show ?thesis using new q' Cons rf absent pb(2) by (simp del: append_assoc)
    qed
  next
    case False
    then show ?thesis using off[OF kq] by auto
  qed
  show "tree m' r used'"
    unfolding tree_def
  proof (intro conjI allI impI)
    fix p q t assume "kpath p" "kpath q" "walk m' r p = Some t" "walk m' r q = Some t"
    then show "p = q" using on d(2) tf[of p f] tf[of q f] by (auto split: if_splits)
  next
    fix p t assume "kpath p" "walk m' r p = Some t"
    then show "used' t" using on d(3) used' by (auto split: if_splits)
  next
    fix p j t assume *: "kpath (p @ [j])" "walk m' r p = Some t" "present (read64 m' (t + 8 * j))"
    have kp: "kpath p" using *(1) by (rule kpath_append)
    have j: "j < 512" using *(1) by (simp add: kpath_def)
    have "e AND PAGE_LARGE = 0"
      unfolding e_def by (rule flags_not_large) (rule f)
    then show "read64 m' (t + 8 * j) AND PAGE_LARGE = 0"
      using on[OF kp] rd[OF kp _ j, of t] rf[OF j] d(4)[OF *(1), of t] * by (auto split: if_splits)
  qed (use d in auto)
  show "leaf m' r q j = (if q = pb \<and> j = i then e else leaf m r q j)"
    if "kpath q" "j < 512" for q j
    using on[OF that(1)] rd[OF that(1) _ that(2)] rf[OF that(2)] pb(2) absent
    by (auto simp: leaf_def split: option.splits if_splits)
qed


section \<open>Well-formed address spaces\<close>

definition root :: "'a vmm_scheme \<Rightarrow> u64" where
  "root s = cr3 s AND PAGE_MASK"

definition vmm_wf :: "'a vmm_scheme \<Rightarrow> bool" where
  "vmm_wf s \<longleftrightarrow> pmm_ready s \<and> tree (mem s) (root s) (pmm_get_page s)"

text \<open>The indices of an address, and the page it lies in.\<close>

definition vpath :: "u64 \<Rightarrow> u64 list" where
  "vpath v = (let v = v AND 0xFFFFFFFFFFFF in [table_index 39 v, table_index 30 v, table_index 21 v])"

definition vslot :: "u64 \<Rightarrow> u64" where
  "vslot v = table_index 12 (v AND 0xFFFFFFFFFFFF)"

definition vpn :: "u64 \<Rightarrow> u64" where
  "vpn v = drop_bit 12 (v AND 0xFFFFFFFFFFFF)"

definition direct :: "u64 \<Rightarrow> bool" where
  "direct v \<longleftrightarrow> table_index 39 (v AND 0xFFFFFFFFFFFF) = 256"

lemma table_index_less [simp]: "table_index n v < 512"
proof -
  have "table_index n v \<le> 511" unfolding table_index_def by (rule word_and_le1)
  then show ?thesis by (simp add: word_le_nat_alt word_less_nat_alt)
qed

lemma kpath_vpath: "\<not> direct v \<Longrightarrow> kpath (vpath v)"
  by (simp add: kpath_def vpath_def direct_def Let_def)

lemma length_vpath [simp]: "length (vpath v) = 3"
  by (simp add: vpath_def Let_def)

lemma vslot_less [simp]: "vslot v < 512"
  by (simp add: vslot_def)

lemma and_low48: "v AND 0xFFFFFFFFFFFF = take_bit 48 v" for v :: u64
  by (simp add: take_bit_eq_mask mask_eq_exp_minus_1)

lemma and_low9: "v AND 511 = take_bit 9 v" for v :: u64
  by (simp add: take_bit_eq_mask mask_eq_exp_minus_1)

lemma take_drop_eq_iff:
  "take_bit n (drop_bit k v) = take_bit n (drop_bit k w) \<longleftrightarrow>
     (\<forall>i. k \<le> i \<longrightarrow> i < k + n \<longrightarrow> bit v i = bit w i)" for v w :: u64
proof
  assume eq: "take_bit n (drop_bit k v) = take_bit n (drop_bit k w)"
  have "bit v i = bit w i" if "k \<le> i" "i < k + n" for i
    using arg_cong[OF eq, of "\<lambda>x. bit x (i - k)"] that
    by (simp add: bit_simps less_diff_conv2 add.commute)
  then show "\<forall>i. k \<le> i \<longrightarrow> i < k + n \<longrightarrow> bit v i = bit w i" by blast
next
  assume "\<forall>i. k \<le> i \<longrightarrow> i < k + n \<longrightarrow> bit v i = bit w i"
  then show "take_bit n (drop_bit k v) = take_bit n (drop_bit k w)"
    by (auto intro!: bit_word_eqI simp: bit_simps)
qed

lemma table_index_low48: "k + 9 \<le> 48 \<Longrightarrow>
  table_index k (v AND 0xFFFFFFFFFFFF) = take_bit 9 (drop_bit k v)"
  by (auto intro!: bit_word_eqI simp: table_index_def and_low48 and_low9 bit_simps)

lemma vpn_low48: "vpn v = take_bit 36 (drop_bit 12 v)"
  by (auto intro!: bit_word_eqI simp: vpn_def and_low48 bit_simps)

lemma vpath_vslot_eq_iff: "vpath v = vpath w \<and> vslot v = vslot w \<longleftrightarrow> vpn v = vpn w"
proof
  assume "vpath v = vpath w \<and> vslot v = vslot w"
  then have *: "\<forall>i. 39 \<le> i \<longrightarrow> i < 48 \<longrightarrow> bit v i = bit w i" "\<forall>i. 30 \<le> i \<longrightarrow> i < 39 \<longrightarrow> bit v i = bit w i"
    "\<forall>i. 21 \<le> i \<longrightarrow> i < 30 \<longrightarrow> bit v i = bit w i" "\<forall>i. 12 \<le> i \<longrightarrow> i < 21 \<longrightarrow> bit v i = bit w i"
    by (simp_all add: vpath_def vslot_def table_index_low48 take_drop_eq_iff)
  have "bit v i = bit w i" if "12 \<le> i" "i < 48" for i
  proof -
    consider "i < 21" | "21 \<le> i" "i < 30" | "30 \<le> i" "i < 39" | "39 \<le> i" by linarith
    then show ?thesis using that * by cases auto
  qed
  then show "vpn v = vpn w" by (simp add: vpn_low48 take_drop_eq_iff)
next
  assume "vpn v = vpn w"
  then show "vpath v = vpath w \<and> vslot v = vslot w"
    by (auto simp: vpath_def vslot_def table_index_low48 vpn_low48 take_drop_eq_iff)
qed

lemma direct_cong: "vpn v = vpn w \<Longrightarrow> direct v = direct w"
  using vpath_vslot_eq_iff[of v w] by (auto simp: vpath_def direct_def Let_def)

lemma vmm_get_page_leaf:
  assumes "vmm_wf s" and "\<not> direct v"
  shows "vmm_get_page s v = leaf (mem s) (root s) (vpath v) (vslot v)"
proof -
  have tr: "tree (mem s) (root s) (pmm_get_page s)" using assms(1) by (simp add: vmm_wf_def)
  note nl = treeD(4)[OF tr]
  let ?v = "v AND 0xFFFFFFFFFFFF"
  let ?a = "table_index 39 ?v" and ?b = "table_index 30 ?v" and ?c = "table_index 21 ?v"
  have k: "kpath ([] @ [?a])" "kpath ([?a] @ [?b])" "kpath ([?a, ?b] @ [?c])"
    using assms(2) by (auto simp: kpath_def direct_def)
  show ?thesis
    using nl[OF k(1)] nl[OF k(2)] nl[OF k(3)]
    unfolding vmm_get_page_def leaf_def vpath_def vslot_def root_def Let_def
    by (auto simp: present_def)
qed


section \<open>Frames of memory\<close>

lemma unat_mask: "unat (x AND PAGE_MASK) = unat x div 4096 * 4096"
proof -
  have "x AND PAGE_MASK = push_bit 12 (drop_bit 12 x)"
    by (auto intro!: bit_word_eqI simp: bit_simps PAGE_MASK_bit)
  moreover have "unat (drop_bit 12 x) = unat x div 4096"
    by (simp add: drop_bit_eq_div unat_div)
  moreover have "unat x div 4096 * 4096 < 2 ^ 64" using unat_less_size[of x] by simp
  ultimately show ?thesis by (simp add: push_bit_eq_mult unat_word_ariths mult.commute)
qed

lemma mask_offset:
  assumes "aligned 4096 t" and "k < 4096"
  shows "(t + of_nat k) AND PAGE_MASK = t"
proof -
  obtain j where j: "unat t = 4096 * j" using assms(1) by (auto simp: aligned_def elim!: dvdE)
  then have "unat t + 4096 \<le> 2 ^ 64" using unat_less_size[of t] by simp
  then have "unat (t + of_nat k) = unat t + k" using assms(2) by (intro unat_add_nat) simp
  then show ?thesis using j assms(2) by (simp add: word_unat_eq_iff unat_mask)
qed

lemma mem_outside_frame:
  assumes "aligned 4096 f" and "a AND PAGE_MASK \<noteq> f" and "length bs + k \<le> 4096"
  shows "store m (f + of_nat k) bs a = m a"
proof (rule store_out, rule ccontr)
  assume "\<not> length bs \<le> unat (a - (f + of_nat k))"
  then have "k + unat (a - (f + of_nat k)) < 4096" using assms(3) by simp
  moreover have "a = f + of_nat (k + unat (a - (f + of_nat k)))" by simp
  ultimately show False using mask_offset[OF assms(1)] assms(2) by metis
qed

lemma mem_outside_entry:
  assumes "aligned 4096 t" and "i < 512" and "a AND PAGE_MASK \<noteq> t"
  shows "write64 m (t + 8 * i) v a = m a"
  using mem_outside_frame[OF assms(1,3), of "le_bytes 8 v" "8 * unat i" m] assms(2)
  by (simp add: write64_def word_less_nat_alt)

section \<open>Mapping one page\<close>

lemma pmm_ready_mem [simp]: "pmm_ready (s\<lparr>mem := x\<rparr>) = pmm_ready s"
  by (simp add: pmm_ready_def page_used_def)

lemma pmm_get_page_mem [simp]: "pmm_get_page (s\<lparr>mem := x\<rparr>) = pmm_get_page s"
  by (simp add: pmm_get_page_def fun_eq_iff)

text \<open>
  What a step that extends the tables guarantees: the address space stays well formed, no
  mapping changes, frames in use stay in use, and memory outside the tables is untouched.
\<close>

definition table_frame :: "'a vmm_scheme \<Rightarrow> u64 \<Rightarrow> bool" where
  "table_frame s f \<longleftrightarrow> (\<exists>p. kpath p \<and> walk (mem s) (root s) p = Some f)"

definition grows :: "'a vmm_scheme \<Rightarrow> 'a vmm_scheme \<Rightarrow> bool" where
  "grows s s' \<longleftrightarrow> vmm_wf s' \<and> cr3 s' = cr3 s \<and> vmm_mutex s' = vmm_mutex s \<and>
    mmio_regions s' = mmio_regions s \<and> mmio_region_count s' = mmio_region_count s \<and>
    total_pages s' = total_pages s \<and> highest_usable_address s' = highest_usable_address s \<and>
    vmm.more s' = vmm.more s \<and>
    (\<forall>f. pmm_get_page s f \<longrightarrow> pmm_get_page s' f) \<and>
    (\<forall>f. table_frame s f \<longrightarrow> table_frame s' f) \<and>
    (\<forall>f. table_frame s' f \<longrightarrow> table_frame s f \<or> \<not> pmm_get_page s f) \<and>
    (\<forall>a. pmm_get_page s (a AND PAGE_MASK) \<longrightarrow> \<not> table_frame s (a AND PAGE_MASK) \<longrightarrow> mem s' a = mem s a) \<and>
    (\<forall>p f. kpath p \<longrightarrow> walk (mem s) (root s) p = Some f \<longrightarrow> walk (mem s') (root s') p = Some f)"

lemma grows_refl: "vmm_wf s \<Longrightarrow> grows s s"
  by (simp add: grows_def)

lemma grows_trans:
  assumes "grows s1 s2" and "grows s2 s3"
  shows "grows s1 s3"
proof -
  have "mem s3 a = mem s1 a"
    if "pmm_get_page s1 (a AND PAGE_MASK)" "\<not> table_frame s1 (a AND PAGE_MASK)" for a
  proof -
    have "pmm_get_page s2 (a AND PAGE_MASK)" "\<not> table_frame s2 (a AND PAGE_MASK)"
      using assms(1) that unfolding grows_def by blast+
    then show ?thesis using assms that unfolding grows_def by metis
  qed
  moreover have "table_frame s1 f \<or> \<not> pmm_get_page s1 f" if "table_frame s3 f" for f
    using assms that unfolding grows_def by blast
  ultimately show ?thesis using assms unfolding grows_def by simp
qed

lemma mem_outside_clear:
  "aligned 4096 f \<Longrightarrow> a AND PAGE_MASK \<noteq> f \<Longrightarrow> memset m f 0 4096 a = m a"
  using mem_outside_frame[of f a "replicate 4096 0" 0 m] by (simp add: memset_eq_store)

lemma vmm_next_table_spec:
  assumes wf: "vmm_wf s" and p: "kpath (p @ [i])" "walk (mem s) (root s) p = Some t"
    and run: "vmm_next_table (t + PHYSICAL_MEMORY) i s = Inr (u, s')"
  shows "\<exists>t'. u = t' + PHYSICAL_MEMORY \<and> walk (mem s') (root s') (p @ [i]) = Some t' \<and> grows s s' \<and>
    tlb_flushed s' = tlb_flushed s \<and>
    (\<forall>q j. kpath q \<longrightarrow> length q = 3 \<longrightarrow> j < 512 \<longrightarrow> leaf (mem s') (root s') q j = leaf (mem s) (root s) q j)"
proof (cases "present (read64 (mem s) (t + 8 * i))")
  case True
  then have "u = (read64 (mem s) (t + 8 * i) AND PAGE_MASK) + PHYSICAL_MEMORY" "s' = s"
    using run unfolding vmm_next_table_def by (auto simp: present_def Let_def)
  then show ?thesis using True p grows_refl[OF wf] by auto
next
  case False
  obtain f s1 where al: "pmm_alloc_page s = Inr (f, s1)" and f0: "f \<noteq> 0"
    and u: "u = (f AND PAGE_MASK) + PHYSICAL_MEMORY"
    and s': "s' = s1\<lparr>mem := memset (write64 (mem s1) (t + 8 * i)
       (f OR PAGE_PRESENT OR PAGE_WRITE OR PAGE_USER)) f 0 4096\<rparr>"
    using run False unfolding vmm_next_table_def
    by (auto simp: present_def Let_def bnd_Inr_iff split: if_splits)
  obtain mx b n where s1: "s1 = s\<lparr>pmm_mutex := mx, pmm_bitmap := b, used_pages := n\<rparr>"
    using pmm_alloc_page_frame[OF al] by blast
  have rdy: "pmm_ready s" and tr: "tree (mem s) (root s) (pmm_get_page s)"
    using wf by (auto simp: vmm_wf_def)
  have fresh: "\<not> pmm_get_page s f" "aligned 4096 f" "pmm_ready s1"
    using pmm_frames.alloc_fresh[OF rdy al f0] by auto
  have used: "pmm_get_page s1 f" "\<forall>q. pmm_get_page s q \<longrightarrow> pmm_get_page s1 q"
    using pmm_frames.alloc_taken[OF rdy al f0] pmm_frames.alloc_keeps[OF rdy al f0] by auto
  let ?m = "memset (write64 (mem s) (t + 8 * i) (f OR PAGE_PRESENT OR PAGE_WRITE OR PAGE_USER)) f 0 4096"
  have m': "mem s' = ?m" "root s' = root s" by (simp_all add: s' s1 root_def)
  note ext = tree_extend[where used' = "pmm_get_page s1", OF tr p False fresh(1,2) used]
  have wfs: "vmm_wf s'"
    using ext(1) fresh(3) m' by (simp add: vmm_wf_def s')
  have on: "walk (mem s') (root s') q = (if q = p @ [i] then Some f else walk (mem s) (root s) q)"
    if "kpath q" for q using ext(4)[OF that] m' by simp
  have "walk (mem s) (root s) (p @ [i]) = None" using p(2) False by simp
  then have tf: "table_frame s' g \<longleftrightarrow> g = f \<or> table_frame s g" for g
    unfolding table_frame_def using on p(1) by (metis option.distinct(1) option.inject)
  have "mem s' a = mem s a" if "pmm_get_page s (a AND PAGE_MASK)" "\<not> table_frame s (a AND PAGE_MASK)" for a
  proof -
    have "a AND PAGE_MASK \<noteq> f" using that fresh(1) by auto
    moreover have "a AND PAGE_MASK \<noteq> t" using that(2) p kpath_append[OF p(1)] by (auto simp: table_frame_def)
    ultimately show ?thesis using fresh(2) treeD(5)[OF tr kpath_append[OF p(1)] p(2)] p(1)
      by (simp add: m' mem_outside_clear mem_outside_entry kpath_def)
  qed
  moreover have "walk (mem s') (root s') q = Some g" if "kpath q" "walk (mem s) (root s) q = Some g" for q g
    using on[OF that(1)] that(2) \<open>walk (mem s) (root s) (p @ [i]) = None\<close> by auto
  ultimately have "grows s s'"
    using wfs tf used(2) fresh(1) unfolding grows_def by (auto simp: s' s1)
  moreover have "walk (mem s') (root s') (p @ [i]) = Some f" using ext(2) m' by simp
  moreover have "length p \<noteq> 3" using p(1) by (auto simp: kpath_def)
  then have "leaf (mem s') (root s') q j = leaf (mem s) (root s) q j"
    if "kpath q" "length q = 3" "j < 512" for q j
    using ext(3)[OF that(1,3)] that(2) m' by auto
  ultimately show ?thesis using u fresh(2) by (auto simp: mask_aligned s' s1)
qed


lemma grows_leaf_write:
  assumes wf: "vmm_wf s" and p: "kpath p" "length p = 3" "walk (mem s) (root s) p = Some t" and i: "i < 512"
  shows "grows s (s\<lparr>mem := write64 (mem s) (t + 8 * i) v\<rparr>)"
proof -
  let ?s = "s\<lparr>mem := write64 (mem s) (t + 8 * i) v\<rparr>"
  have tr: "tree (mem s) (root s) (pmm_get_page s)" using wf by (simp add: vmm_wf_def)
  note lw = tree_leaf_write[OF tr p i, where v = v]
  have "vmm_wf ?s" using lw(1) wf by (simp add: vmm_wf_def root_def)
  moreover have "table_frame ?s = table_frame s"
    using lw(2) by (auto simp: table_frame_def root_def fun_eq_iff)
  moreover have "write64 (mem s) (t + 8 * i) v a = mem s a" if "\<not> table_frame s (a AND PAGE_MASK)" for a
    using that p treeD(5)[OF tr p(1,3)] i by (intro mem_outside_entry) (auto simp: table_frame_def)
  moreover have "root ?s = root s" by (simp add: root_def)
  ultimately show ?thesis using lw(2) by (auto simp: grows_def)
qed

lemma flush_tlb_fields [simp]:
  "mem (flush_tlb v s) = mem s" "cr3 (flush_tlb v s) = cr3 s" "root (flush_tlb v s) = root s"
  "pmm_get_page (flush_tlb v s) = pmm_get_page s" "pmm_ready (flush_tlb v s) = pmm_ready s"
  "table_frame (flush_tlb v s) = table_frame s" "vmm_wf (flush_tlb v s) = vmm_wf s"
  "tlb_flushed (flush_tlb v s) = v # tlb_flushed s"
proof -
  show p: "pmm_get_page (flush_tlb v s) = pmm_get_page s" "pmm_ready (flush_tlb v s) = pmm_ready s"
    by (simp_all add: flush_tlb_def pmm_ready_def page_used_def pmm_get_page_def fun_eq_iff)
  show "table_frame (flush_tlb v s) = table_frame s"
    by (simp add: flush_tlb_def table_frame_def root_def fun_eq_iff)
  show "vmm_wf (flush_tlb v s) = vmm_wf s"
    unfolding vmm_wf_def p by (simp add: flush_tlb_def root_def)
qed (simp_all add: flush_tlb_def root_def)

lemma grows_flush_tlb: "grows s t \<Longrightarrow> grows s (flush_tlb v t)"
  unfolding grows_def flush_tlb_fields by (simp add: flush_tlb_def)

lemma vmm_map_page_spec:
  assumes wf: "vmm_wf s" and nd: "\<not> direct v" and run: "vmm_map_page v phys flags s = Inr s'"
  shows "grows s s'"
    and "tlb_flushed s' = (v AND 0xFFFFFFFFFFFF) # tlb_flushed s"
    and "\<And>w. \<not> direct w \<Longrightarrow>
      vmm_get_page s' w = (if vpn w = vpn v then phys OR flags else vmm_get_page s w)"
proof -
  let ?v = "v AND 0xFFFFFFFFFFFF"
  let ?a = "table_index 39 ?v" and ?b = "table_index 30 ?v" and ?c = "table_index 21 ?v"
  have k: "kpath ([] @ [?a])" "kpath ([?a] @ [?b])" "kpath ([?a, ?b] @ [?c])"
    using nd by (auto simp: kpath_def direct_def)
  obtain u1 s1 u2 s2 u3 s3 where
    r1: "vmm_next_table (root s + PHYSICAL_MEMORY) ?a s = Inr (u1, s1)" and
    r2: "vmm_next_table u1 ?b s1 = Inr (u2, s2)" and
    r3: "vmm_next_table u2 ?c s2 = Inr (u3, s3)" and
    s': "s' = flush_tlb ?v (kwrite64 (u3 + 8 * table_index 12 ?v) (phys OR flags) s3)"
    using run unfolding vmm_map_page_def root_def Let_def by (auto simp: bnd_Inr_iff)
  obtain t1 where t1: "u1 = t1 + PHYSICAL_MEMORY" "walk (mem s1) (root s1) [?a] = Some t1" "grows s s1"
    "tlb_flushed s1 = tlb_flushed s"
    "\<And>q j. kpath q \<Longrightarrow> length q = 3 \<Longrightarrow> j < 512 \<Longrightarrow> leaf (mem s1) (root s1) q j = leaf (mem s) (root s) q j"
    using vmm_next_table_spec[OF wf k(1) _ r1] by auto
  have wf1: "vmm_wf s1" using t1(3) by (simp add: grows_def)
  obtain t2 where t2: "u2 = t2 + PHYSICAL_MEMORY" "walk (mem s2) (root s2) [?a, ?b] = Some t2" "grows s1 s2"
    "tlb_flushed s2 = tlb_flushed s1"
    "\<And>q j. kpath q \<Longrightarrow> length q = 3 \<Longrightarrow> j < 512 \<Longrightarrow> leaf (mem s2) (root s2) q j = leaf (mem s1) (root s1) q j"
    using vmm_next_table_spec[OF wf1 k(2) t1(2)] r2 t1(1) by auto
  have wf2: "vmm_wf s2" using t2(3) by (simp add: grows_def)
  obtain t3 where t3: "u3 = t3 + PHYSICAL_MEMORY" "walk (mem s3) (root s3) [?a, ?b, ?c] = Some t3" "grows s2 s3"
    "tlb_flushed s3 = tlb_flushed s2"
    "\<And>q j. kpath q \<Longrightarrow> length q = 3 \<Longrightarrow> j < 512 \<Longrightarrow> leaf (mem s3) (root s3) q j = leaf (mem s2) (root s2) q j"
    using vmm_next_table_spec[OF wf2 k(3) t2(2)] r3 t2(1) by auto
  have wf3: "vmm_wf s3" using t3(3) by (simp add: grows_def)
  have vp: "vpath v = [?a, ?b, ?c]" "vslot v = table_index 12 ?v" by (simp_all add: vpath_def vslot_def Let_def)
  let ?s = "s3\<lparr>mem := write64 (mem s3) (t3 + 8 * vslot v) (phys OR flags)\<rparr>"
  have s'': "s' = flush_tlb ?v ?s" using s' t3(1) vp by simp
  have kv: "kpath (vpath v)" "length (vpath v) = 3" "walk (mem s3) (root s3) (vpath v) = Some t3"
    using kpath_vpath[OF nd] t3(2) vp by auto
  have g: "grows s ?s"
    using grows_trans[OF grows_trans[OF t1(3) t2(3)] grows_trans[OF t3(3) grows_leaf_write[OF wf3 kv]]]
    by simp
  show gs: "grows s s'" using g s'' by (simp add: grows_flush_tlb)
  show "tlb_flushed s' = ?v # tlb_flushed s" using s'' t1(4) t2(4) t3(4) by simp
  have wf': "vmm_wf s'" using gs by (simp add: grows_def)
  show "vmm_get_page s' w = (if vpn w = vpn v then phys OR flags else vmm_get_page s w)"
    if nw: "\<not> direct w" for w
  proof -
    have tr: "tree (mem s3) (root s3) (pmm_get_page s3)" using wf3 by (simp add: vmm_wf_def)
    have kw: "kpath (vpath w)" using kpath_vpath[OF nw] .
    have "leaf (mem ?s) (root ?s) (vpath w) (vslot w) =
      (if vpath w = vpath v \<and> vslot w = vslot v then phys OR flags else leaf (mem s3) (root s3) (vpath w) (vslot w))"
      using tree_leaf_write(3)[OF tr kv vslot_less kw, of "vslot w"] by (simp add: root_def)
    moreover have "leaf (mem s3) (root s3) (vpath w) (vslot w) = leaf (mem s) (root s) (vpath w) (vslot w)"
      using t1(5) t2(5) t3(5) kw by simp
    ultimately show ?thesis
      using vmm_get_page_leaf[OF wf' nw] vmm_get_page_leaf[OF wf nw] vpath_vslot_eq_iff[of w v] s''
      by simp
  qed
qed

lemma vmm_next_table_halt:
  "pmm_ready s \<Longrightarrow> vmm_next_table t i s = Inl e \<Longrightarrow> e = Panic ''out of memory.''"
  using pmm_frames.alloc_returns[of s]
  by (auto simp: vmm_next_table_def Let_def split: if_splits)

end
