(* ===== verification/Vmm_Ranges.thy ===== *)
theory Vmm_Ranges
  imports Vmm_Tables
begin

text \<open>
  Correctness of the operations on ranges of pages: searching a free range, mapping device
  memory, changing the cache type, allocating and freeing.
\<close>

section \<open>The interface of a page table\<close>

locale page_table =
  fixes map_page :: "u64 \<Rightarrow> u64 \<Rightarrow> u64 \<Rightarrow> 's \<Rightarrow> halt + 's"
    and get_page :: "'s \<Rightarrow> u64 \<Rightarrow> u64"
    and wf :: "'s \<Rightarrow> bool"
    and page :: "u64 \<Rightarrow> u64"
    and managed :: "u64 \<Rightarrow> bool"
  assumes map_wf: "wf s \<Longrightarrow> managed v \<Longrightarrow> map_page v p f s = Inr s' \<Longrightarrow> wf s'"
    and get_map: "wf s \<Longrightarrow> managed v \<Longrightarrow> managed w \<Longrightarrow> map_page v p f s = Inr s' \<Longrightarrow>
      get_page s' w = (if page w = page v then p OR f else get_page s w)"
begin

text \<open>
  A loop that maps pairwise different pages, each from its number and its own old entry,
  acts on all of them at once.
\<close>

lemma map_run:
  assumes "fold_res (\<lambda>i s. map_page (va i) (pa i (get_page s (va i))) (fl i (get_page s (va i))) s) xs s = Inr t"
    and "wf s" and "\<forall>i \<in> set xs. managed (va i)" and "distinct xs" and "inj_on (page \<circ> va) (set xs)"
  shows "wf t"
    and "\<And>i. i \<in> set xs \<Longrightarrow>
      get_page t (va i) = pa i (get_page s (va i)) OR fl i (get_page s (va i))"
    and "\<And>w. managed w \<Longrightarrow> page w \<notin> (page \<circ> va) ` set xs \<Longrightarrow> get_page t w = get_page s w"
proof -
  have "wf t \<and> (\<forall>i \<in> set xs. get_page t (va i) = pa i (get_page s (va i)) OR fl i (get_page s (va i)))
    \<and> (\<forall>w. managed w \<longrightarrow> page w \<notin> (page \<circ> va) ` set xs \<longrightarrow> get_page t w = get_page s w)"
    using assms
  proof (induction xs arbitrary: s)
    case Nil
    then show ?case by simp
  next
    case (Cons i xs)
    obtain s1 where s1: "map_page (va i) (pa i (get_page s (va i))) (fl i (get_page s (va i))) s = Inr s1"
      and rest: "fold_res (\<lambda>i s. map_page (va i) (pa i (get_page s (va i))) (fl i (get_page s (va i))) s) xs s1 = Inr t"
      using Cons.prems(1) by (auto simp: bnd_Inr_iff)
    have mi: "managed (va i)" using Cons.prems(3) by simp
    have wf1: "wf s1" using map_wf[OF Cons.prems(2) mi s1] .
    have g: "get_page s1 w = (if page w = page (va i) then pa i (get_page s (va i)) OR fl i (get_page s (va i))
        else get_page s w)" if "managed w" for w
      using get_map[OF Cons.prems(2) mi that s1] .
    have ne: "page (va j) \<noteq> page (va i)" if "j \<in> set xs" for j
      using Cons.prems(4,5) that by (auto simp: inj_on_def)
    have IH: "wf t \<and> (\<forall>i \<in> set xs. get_page t (va i) = pa i (get_page s1 (va i)) OR fl i (get_page s1 (va i)))
    \<and> (\<forall>w. managed w \<longrightarrow> page w \<notin> (page \<circ> va) ` set xs \<longrightarrow> get_page t w = get_page s1 w)"
      using Cons.prems wf1 by (intro Cons.IH[OF rest]) auto
    moreover have "get_page s1 (va j) = get_page s (va j)" if "j \<in> set xs" for j
      using g ne[OF that] Cons.prems(3) that by auto
    moreover have "get_page t (va i) = get_page s1 (va i)" using IH mi ne by fastforce
    ultimately show ?case using g mi by auto
  qed
  then show "wf t"
    and "\<And>i. i \<in> set xs \<Longrightarrow>
      get_page t (va i) = pa i (get_page s (va i)) OR fl i (get_page s (va i))"
    and "\<And>w. managed w \<Longrightarrow> page w \<notin> (page \<circ> va) ` set xs \<Longrightarrow> get_page t w = get_page s w"
    by blast+
qed

end

interpretation vmm_pages: page_table vmm_map_page vmm_get_page vmm_wf vpn "\<lambda>v. \<not> direct v"
proof unfold_locales
  fix s s' :: "'a vmm_scheme" and v p f
  assume *: "vmm_wf s" "\<not> direct v" "vmm_map_page v p f s = Inr s'"
  then show "vmm_wf s'" using vmm_map_page_spec(1)[OF *] by (simp add: grows_def)
  show "vmm_get_page s' w = (if vpn w = vpn v then p OR f else vmm_get_page s w)" if "\<not> direct w" for w
    using vmm_map_page_spec(3)[OF * that] .
qed

section \<open>Ranges of kernel addresses\<close>

text \<open>Page \<open>i\<close> of a range, and ranges that end before the address space does.\<close>

lemma push_bit_12: "push_bit 12 (of_nat i) = (of_nat (4096 * i) :: u64)"
  by (simp add: push_bit_eq_mult)

definition in_range :: "u64 \<Rightarrow> nat \<Rightarrow> bool" where
  "in_range ptr n \<longleftrightarrow> MMIO_REGION \<le> ptr \<and> unat ptr + 4096 * n \<le> 2 ^ 64"

lemma unat_range: "in_range ptr n \<Longrightarrow> i < n \<Longrightarrow> unat (ptr + of_nat (4096 * i)) = unat ptr + 4096 * i"
  unfolding in_range_def by (intro unat_add_nat) auto

lemma range_ge_mmio: "in_range ptr n \<Longrightarrow> i < n \<Longrightarrow> MMIO_REGION \<le> ptr + of_nat (4096 * i)"
  using unat_range[of ptr n i] by (auto simp: in_range_def word_le_nat_alt)

lemma unat_vpn: "unat (vpn v) = unat v div 4096 mod 2 ^ 36"
  by (simp add: vpn_low48 unsigned_take_bit_eq take_bit_eq_mod drop_bit_eq_div unat_div unat_mod)

lemma unat_table_index: "unat (table_index 39 (v AND 0xFFFFFFFFFFFF)) = unat v div 2 ^ 39 mod 512"
  by (simp add: table_index_low48 take_bit_eq_mod drop_bit_eq_div unat_div unat_mod)

lemma high_vpn:
  assumes "PHYSICAL_MEMORY \<le> v"
  shows "unat v div 4096 = 0xFFFF * 2 ^ 36 + unat (vpn v)"
proof -
  let ?q = "unat v div 4096"
  have "0xFFFF800000000000 \<le> unat v" "unat v < 0x10000000000000000"
    using assms unat_less_size[of v] by (simp_all add: word_le_nat_alt PHYSICAL_MEMORY_def)
  then have "?q div 2 ^ 36 = 0xFFFF" by (simp add: div_mult2_eq[symmetric])
  then show ?thesis using div_mult_mod_eq[of ?q "2 ^ 36"] unat_vpn[of v] by simp
qed

lemma high_slot:
  assumes "MMIO_REGION \<le> v"
  shows "256 < unat (table_index 39 (v AND 0xFFFFFFFFFFFF))"
proof -
  let ?q = "unat v div 2 ^ 39"
  have "0xFFFF808000000000 \<le> unat v" "unat v < 0x10000000000000000"
    using assms unat_less_size[of v] by (simp_all add: word_le_nat_alt MMIO_REGION_def)
  then have "0x1FFFF01 \<le> ?q" "?q < 0x2000000" by simp_all
  then have "?q div 512 = 0xFFFF" by linarith
  then have "?q mod 512 = ?q - 512 * 0xFFFF" using div_mult_mod_eq[of ?q 512] by linarith
  with \<open>0x1FFFF01 \<le> ?q\<close> show ?thesis by (simp add: unat_table_index)
qed

lemma high_not_direct: "MMIO_REGION \<le> v \<Longrightarrow> \<not> direct v"
  using high_slot[of v] by (auto simp: direct_def)

lemma range_page:
  assumes "in_range ptr n" and "i < n"
  shows "\<not> direct (ptr + of_nat (4096 * i))"
    and "unat (vpn (ptr + of_nat (4096 * i))) = unat (vpn ptr) + i"
proof -
  note ge = range_ge_mmio[OF assms]
  show "\<not> direct (ptr + of_nat (4096 * i))" using high_not_direct[OF ge] .
  have ph: "PHYSICAL_MEMORY \<le> ptr" "PHYSICAL_MEMORY \<le> ptr + of_nat (4096 * i)"
    using ge assms(1) by (auto simp: in_range_def PHYSICAL_MEMORY_def MMIO_REGION_def word_le_nat_alt)
  show "unat (vpn (ptr + of_nat (4096 * i))) = unat (vpn ptr) + i"
    using high_vpn[OF ph(1)] high_vpn[OF ph(2)] unat_range[OF assms] by simp
qed

lemma range_inj: "in_range ptr n \<Longrightarrow> inj_on (vpn \<circ> (\<lambda>i. ptr + of_nat (4096 * i))) {0..<n}"
  unfolding inj_on_def using range_page(2)[of ptr n] by (metis add_left_cancel atLeastLessThan_iff comp_apply)


section \<open>Searching a free range\<close>

definition range_free :: "'a vmm_scheme \<Rightarrow> u64 \<Rightarrow> nat \<Rightarrow> bool" where
  "range_free s ptr n \<longleftrightarrow> (\<forall>i < n. vmm_get_physical s (ptr + of_nat (4096 * i)) = None)"

lemma unat_Suc_of_nat: "i < unat count \<Longrightarrow> unat (of_nat i + 1 :: u64) = i + 1" for count :: u64
  using unat_less_size[of count] by (simp add: unat_word_ariths unat_of_nat)

lemma vmm_find_loop_range:
  assumes "MMIO_REGION \<le> ptr" and "i < unat count" and "\<forall>j < i. vmm_get_physical s (ptr + of_nat (4096 * j)) = None"
  shows "vmm_find_loop s count ptr (of_nat i) =
    (if range_free s ptr (unat count) then Some ptr else vmm_find_loop s count (ptr + 4096) 0)"
  using assms(2,3)
proof (induction "unat count - i" arbitrary: i rule: less_induct)
  case less
  have step: "vmm_find_loop s count ptr (of_nat i) =
    (if vmm_get_physical s (ptr + of_nat (4096 * i)) = None
     then if count \<le> of_nat i + 1 then Some ptr else vmm_find_loop s count ptr (of_nat i + 1)
     else vmm_find_loop s count (ptr + 4096) 0)"
    using assms(1) by (subst vmm_find_loop.simps) (simp add: push_bit_12)
  show ?case
  proof (cases "vmm_get_physical s (ptr + of_nat (4096 * i)) = None")
    case False
    then have "\<not> range_free s ptr (unat count)" using less.prems by (auto simp: range_free_def)
    then show ?thesis using False step by auto
  next
    case True
    with less.prems(2) have all: "\<forall>j < Suc i. vmm_get_physical s (ptr + of_nat (4096 * j)) = None"
      by (auto simp: less_Suc_eq)
    have le: "count \<le> of_nat i + 1 \<longleftrightarrow> unat count \<le> i + 1"
      using unat_Suc_of_nat[OF less.prems(1)] by (simp add: word_le_nat_alt)
    show ?thesis
    proof (cases "unat count \<le> i + 1")
      case fin: True
      then have "range_free s ptr (unat count)" using all by (auto simp: range_free_def)
      then show ?thesis using step True le fin by simp
    next
      case more: False
      have "vmm_find_loop s count ptr (of_nat (Suc i)) =
        (if range_free s ptr (unat count) then Some ptr else vmm_find_loop s count (ptr + 4096) 0)"
        using more all by (intro less.hyps) auto
      then show ?thesis using step True le more by (simp add: add.commute)
    qed
  qed
qed

text \<open>The search returns, and it returns the lowest range that is free.\<close>

lemma vmm_find_first:
  assumes "in_range start (k + unat count)" and "0 < unat count"
    and "range_free s (start + of_nat (4096 * k)) (unat count)"
  shows "\<exists>j \<le> k. vmm_find s start count = Some (start + of_nat (4096 * j)) \<and>
    range_free s (start + of_nat (4096 * j)) (unat count) \<and>
    (\<forall>i < j. \<not> range_free s (start + of_nat (4096 * i)) (unat count))"
proof -
  have main: "\<exists>j. l \<le> j \<and> j \<le> k \<and> vmm_find_loop s count (start + of_nat (4096 * l)) 0 = Some (start + of_nat (4096 * j)) \<and>
    range_free s (start + of_nat (4096 * j)) (unat count) \<and>
    (\<forall>i. l \<le> i \<longrightarrow> i < j \<longrightarrow> \<not> range_free s (start + of_nat (4096 * i)) (unat count))" if "l \<le> k" for l
    using that
  proof (induction "k - l" arbitrary: l rule: less_induct)
    case less
    have "MMIO_REGION \<le> start + of_nat (4096 * l)"
      using assms(1,2) less.prems by (intro range_ge_mmio) auto
    note loop = vmm_find_loop_range[OF this, of 0 count s]
    show ?case
    proof (cases "range_free s (start + of_nat (4096 * l)) (unat count)")
      case True
      then show ?thesis using loop assms(2) less.prems by (intro exI[of _ l]) auto
    next
      case False
      then have "l \<noteq> k" using assms(3) by auto
      then have "l < k" using less.prems by simp
      then obtain j where j: "Suc l \<le> j" "j \<le> k"
        "vmm_find_loop s count (start + of_nat (4096 * Suc l)) 0 = Some (start + of_nat (4096 * j))"
        "range_free s (start + of_nat (4096 * j)) (unat count)"
        "\<forall>i. Suc l \<le> i \<longrightarrow> i < j \<longrightarrow> \<not> range_free s (start + of_nat (4096 * i)) (unat count)"
        using less.hyps[of "Suc l"] by (metis Suc_leI diff_less_mono2 lessI)
      have "vmm_find_loop s count (start + of_nat (4096 * l)) 0 = Some (start + of_nat (4096 * j))"
        using loop False assms(2) j(3) by (simp add: add_ac)
      moreover have "\<forall>i. l \<le> i \<longrightarrow> i < j \<longrightarrow> \<not> range_free s (start + of_nat (4096 * i)) (unat count)"
        using j(5) False by (metis Suc_leI le_neq_implies_less)
      ultimately show ?thesis using j by (intro exI[of _ j]) auto
    qed
  qed
  show ?thesis using main[of 0] unfolding vmm_find_def by auto
qed


section \<open>Allocating a range\<close>

lemma grows_alloc:
  assumes wf: "vmm_wf s" and run: "pmm_alloc_page s = Inr (f, s')" and "f \<noteq> 0"
  shows "grows s s'" and "\<And>w. vmm_get_page s' w = vmm_get_page s w"
    and "\<And>g. table_frame s' g = table_frame s g"
    and "tlb_flushed s' = tlb_flushed s"
proof -
  obtain mx b u where s': "s' = s\<lparr>pmm_mutex := mx, pmm_bitmap := b, used_pages := u\<rparr>"
    using pmm_alloc_page_frame[OF run] by blast
  have rdy: "pmm_ready s" and tr: "tree (mem s) (root s) (pmm_get_page s)" using wf by (auto simp: vmm_wf_def)
  have keep: "pmm_get_page s g \<Longrightarrow> pmm_get_page s' g" for g
    using pmm_frames.alloc_keeps[OF rdy run assms(3)] .
  have eq: "mem s' = mem s" "root s' = root s" by (simp_all add: s' root_def)
  show tf: "\<And>g. table_frame s' g = table_frame s g" using eq by (simp add: table_frame_def)
  have "tree (mem s) (root s) (pmm_get_page s')" using tr keep unfolding tree_def by blast
  then have "vmm_wf s'" using pmm_frames.alloc_fresh[OF rdy run assms(3)] eq by (simp add: vmm_wf_def)
  then show "grows s s'" using tf keep eq unfolding grows_def by (auto simp: s')
  show "vmm_get_page s' w = vmm_get_page s w" for w
    by (simp add: s' vmm_get_page_def kread64_def Let_def)
  show "tlb_flushed s' = tlb_flushed s" by (simp add: s')
qed

text \<open>
  After the allocation loop the pages of the range are mapped to pairwise different frames
  that were free before, and no other page of the address space has changed.
\<close>

definition mapped_fresh :: "'a vmm_scheme \<Rightarrow> 'a vmm_scheme \<Rightarrow> u64 \<Rightarrow> u64 \<Rightarrow> nat list \<Rightarrow> (nat \<Rightarrow> u64) \<Rightarrow> bool" where
  "mapped_fresh s t ptr flags xs frame \<longleftrightarrow>
    inj_on frame (set xs) \<and>
    (\<forall>i \<in> set xs. frame i \<noteq> 0 \<and> aligned 4096 (frame i) \<and> \<not> pmm_get_page s (frame i) \<and> pmm_get_page t (frame i)
      \<and> \<not> table_frame t (frame i) \<and> vmm_get_page t (ptr + of_nat (4096 * i)) = frame i OR flags) \<and>
    (\<forall>w. \<not> direct w \<longrightarrow> (\<forall>i \<in> set xs. vpn w \<noteq> vpn (ptr + of_nat (4096 * i))) \<longrightarrow> vmm_get_page t w = vmm_get_page s w)"

lemma vmm_alloc_loop_spec:
  assumes "vmm_alloc_loop ptr flags xs s = Inr (True, t)" and "vmm_wf s" and "distinct xs"
    and "\<forall>i \<in> set xs. \<not> direct (ptr + of_nat (4096 * i))"
    and "inj_on (vpn \<circ> (\<lambda>i. ptr + of_nat (4096 * i))) (set xs)"
  shows "grows s t \<and> (\<exists>frame. mapped_fresh s t ptr flags xs frame)"
  using assms
proof (induction xs arbitrary: s)
  case Nil
  then show ?case by (auto simp: mapped_fresh_def grows_refl)
next
  case (Cons i xs)
  let ?v = "ptr + of_nat (4096 * i)"
  obtain f s1 s2 where r1: "pmm_alloc_page s = Inr (f, s1)" and f0: "f \<noteq> 0"
    and r2: "vmm_map_page ?v f flags s1 = Inr s2"
    and rest: "vmm_alloc_loop ptr flags xs s2 = Inr (True, t)"
    using Cons.prems(1) by (auto simp: bnd_Inr_iff push_bit_12 split: if_splits)
  have rdy: "pmm_ready s" using Cons.prems(2) by (simp add: vmm_wf_def)
  note a = grows_alloc[OF Cons.prems(2) r1 f0]
  have wf1: "vmm_wf s1" using a(1) by (simp add: grows_def)
  have nd: "\<not> direct ?v" using Cons.prems(4) by simp
  note mp = vmm_map_page_spec[OF wf1 nd r2]
  have wf2: "vmm_wf s2" using mp(1) by (simp add: grows_def)
  have g2: "grows s s2" using grows_trans[OF a(1) mp(1)] .
  obtain frame where g: "grows s2 t" and fr: "mapped_fresh s2 t ptr flags xs frame"
    using Cons.IH[OF rest wf2] Cons.prems(3-5) by auto
  have gt: "grows s t" using grows_trans[OF g2 g] .
  have fresh: "\<not> pmm_get_page s f" "aligned 4096 f" using pmm_frames.alloc_fresh[OF rdy r1 f0] by auto
  have f1: "pmm_get_page s1 f" using pmm_frames.alloc_taken[OF rdy r1 f0] .
  have f2: "pmm_get_page s2 f" using mp(1) f1 by (simp add: grows_def)
  have "\<not> table_frame s1 f"
    using fresh(1) Cons.prems(2) a(3) treeD(3)[of "mem s" "root s" "pmm_get_page s"]
    by (auto simp: table_frame_def vmm_wf_def)
  then have "\<not> table_frame s2 f" using mp(1) f1 unfolding grows_def by blast
  then have tff: "\<not> table_frame t f" using g f2 unfolding grows_def by blast
  have ne: "vpn (ptr + of_nat (4096 * j)) \<noteq> vpn ?v" if "j \<in> set xs" for j
    using Cons.prems(3,5) that by (auto simp: inj_on_def)
  define frame' where "frame' = frame(i := f)"
  have ft: "pmm_get_page t f" using g f2 by (simp add: grows_def)
  have fj: "frame j \<noteq> f" if "j \<in> set xs" for j using fr that f2 unfolding mapped_fresh_def by metis
  have "mapped_fresh s t ptr flags (i # xs) frame'"
    unfolding mapped_fresh_def
  proof (intro conjI ballI allI impI)
    show "inj_on frame' (set (i # xs))"
      using fr fj Cons.prems(3) unfolding mapped_fresh_def frame'_def inj_on_def by auto
  next
    fix j assume "j \<in> set (i # xs)"
    have "\<not> pmm_get_page s (frame j)" if "j \<in> set xs"
      using fr that g2 unfolding mapped_fresh_def grows_def by blast
    moreover have "vmm_get_page t ?v = f OR flags"
    proof -
      have "vmm_get_page t ?v = vmm_get_page s2 ?v" using fr nd ne unfolding mapped_fresh_def by metis
      then show ?thesis using mp(3)[OF nd] by simp
    qed
    ultimately show "frame' j \<noteq> 0" "aligned 4096 (frame' j)" "\<not> pmm_get_page s (frame' j)" "pmm_get_page t (frame' j)"
      "\<not> table_frame t (frame' j)" "vmm_get_page t (ptr + of_nat (4096 * j)) = frame' j OR flags"
      using \<open>j \<in> set (i # xs)\<close> fr f0 fresh ft tff Cons.prems(3) unfolding mapped_fresh_def frame'_def by auto
  next
    fix w assume w: "\<not> direct w" "\<forall>j \<in> set (i # xs). vpn w \<noteq> vpn (ptr + of_nat (4096 * j))"
    have "vmm_get_page t w = vmm_get_page s2 w" using fr w unfolding mapped_fresh_def by simp
    then show "vmm_get_page t w = vmm_get_page s w" using mp(3)[OF w(1)] w(2) a(2) by simp
  qed
  then show ?case using gt by blast
qed


lemma vmm_mutex_update [simp]:
  "pmm_get_page (s\<lparr>vmm_mutex := x\<rparr>) = pmm_get_page s"
  "pmm_ready (s\<lparr>vmm_mutex := x\<rparr>) = pmm_ready s"
  "root (s\<lparr>vmm_mutex := x\<rparr>) = root s"
  "vmm_get_page (s\<lparr>vmm_mutex := x\<rparr>) = vmm_get_page s"
  "table_frame (s\<lparr>vmm_mutex := x\<rparr>) = table_frame s"
  "vmm_wf (s\<lparr>vmm_mutex := x\<rparr>) = vmm_wf s"
  "vmm_get_physical (s\<lparr>vmm_mutex := x\<rparr>) = vmm_get_physical s"
proof -
  show a: "pmm_get_page (s\<lparr>vmm_mutex := x\<rparr>) = pmm_get_page s"
    "pmm_ready (s\<lparr>vmm_mutex := x\<rparr>) = pmm_ready s" "root (s\<lparr>vmm_mutex := x\<rparr>) = root s"
    by (simp_all add: pmm_get_page_def pmm_ready_def page_used_def root_def fun_eq_iff)
  show "vmm_wf (s\<lparr>vmm_mutex := x\<rparr>) = vmm_wf s" unfolding vmm_wf_def a by simp
  show "table_frame (s\<lparr>vmm_mutex := x\<rparr>) = table_frame s"
    unfolding table_frame_def fun_eq_iff a by simp
  show g: "vmm_get_page (s\<lparr>vmm_mutex := x\<rparr>) = vmm_get_page s"
    by (simp add: vmm_get_page_def kread64_def fun_eq_iff Let_def)
  show "vmm_get_physical (s\<lparr>vmm_mutex := x\<rparr>) = vmm_get_physical s"
    unfolding vmm_get_physical_def fun_eq_iff g by simp
qed

lemma mapped_fresh_mutex [simp]:
  "mapped_fresh (s\<lparr>vmm_mutex := x\<rparr>) t ptr flags xs frame = mapped_fresh s t ptr flags xs frame"
  "mapped_fresh s (t\<lparr>vmm_mutex := x\<rparr>) ptr flags xs frame = mapped_fresh s t ptr flags xs frame"
  unfolding mapped_fresh_def vmm_mutex_update by simp_all

lemma vmm_find_mutex [simp]:
  assumes "in_range start (k + unat count)" and "0 < unat count"
    and "range_free s (start + of_nat (4096 * k)) (unat count)"
  shows "vmm_find (s\<lparr>vmm_mutex := x\<rparr>) start count = vmm_find s start count"
proof -
  have rf: "range_free (s\<lparr>vmm_mutex := x\<rparr>) = range_free s" by (simp add: range_free_def fun_eq_iff)
  obtain j where j: "vmm_find s start count = Some (start + of_nat (4096 * j))"
    "range_free s (start + of_nat (4096 * j)) (unat count)"
    "\<forall>i < j. \<not> range_free s (start + of_nat (4096 * i)) (unat count)"
    using vmm_find_first[OF assms] by blast
  obtain l where l: "vmm_find (s\<lparr>vmm_mutex := x\<rparr>) start count = Some (start + of_nat (4096 * l))"
    "range_free s (start + of_nat (4096 * l)) (unat count)"
    "\<forall>i < l. \<not> range_free s (start + of_nat (4096 * i)) (unat count)"
    using vmm_find_first[of start k count "s\<lparr>vmm_mutex := x\<rparr>"] assms rf by auto
  have "j = l" using j(2,3) l(2,3) by (meson linorder_neqE_nat)
  then show ?thesis using j(1) l(1) by simp
qed

lemma range_shift:
  assumes "in_range start (k + n)" and "j \<le> k" and "0 < n"
  shows "in_range (start + of_nat (4096 * j)) n"
proof -
  have "unat (start + of_nat (4096 * j)) = unat start + 4096 * j"
    using unat_range[OF assms(1), of j] assms(2,3) by simp
  moreover have "MMIO_REGION \<le> start + of_nat (4096 * j)"
    using range_ge_mmio[OF assms(1), of j] assms(2,3) by simp
  ultimately show ?thesis using assms(1,2) unfolding in_range_def by simp
qed

lemma vmm_alloc_spec:
  assumes wf: "vmm_wf s" and rng: "in_range start (k + unat count)" "0 < unat count"
    and fr: "range_free s (start + of_nat (4096 * k)) (unat count)"
    and run: "vmm_alloc start count flags s = Inr (ptr, t)" and "ptr \<noteq> 0"
  shows "\<exists>j \<le> k. ptr = start + of_nat (4096 * j) \<and> range_free s ptr (unat count)"
    and "in_range ptr (unat count)"
    and "grows s (t\<lparr>vmm_mutex := vmm_mutex s\<rparr>)"
    and "\<exists>frame. mapped_fresh s t ptr flags [0..<unat count] frame"
proof -
  obtain j where j: "j \<le> k" "vmm_find s start count = Some (start + of_nat (4096 * j))"
    "range_free s (start + of_nat (4096 * j)) (unat count)"
    using vmm_find_first[OF rng fr] by blast
  obtain mx t' where p: "ptr = start + of_nat (4096 * j)"
    and loop: "vmm_alloc_loop ptr flags [0..<unat count] (s\<lparr>vmm_mutex := mx\<rparr>) = Inr (True, t')"
    and t: "t = t'\<lparr>vmm_mutex := release (vmm_mutex t')\<rparr>"
    using run j(2) assms(6) unfolding vmm_alloc_def
    by (auto simp: bnd_Inr_iff Let_def split: if_splits)
  show "\<exists>j \<le> k. ptr = start + of_nat (4096 * j) \<and> range_free s ptr (unat count)" using j p by blast
  show ir: "in_range ptr (unat count)" using range_shift[OF rng(1) j(1) rng(2)] p by simp
  have spec: "grows (s\<lparr>vmm_mutex := mx\<rparr>) t' \<and> (\<exists>frame. mapped_fresh (s\<lparr>vmm_mutex := mx\<rparr>) t' ptr flags [0..<unat count] frame)"
    using wf range_page(1)[OF ir] range_inj[OF ir]
    by (intro vmm_alloc_loop_spec[OF loop]) (auto simp: atLeast0LessThan)
  show "grows s (t\<lparr>vmm_mutex := vmm_mutex s\<rparr>)"
    using spec t unfolding grows_def vmm_mutex_update by simp
  show "\<exists>frame. mapped_fresh s t ptr flags [0..<unat count] frame"
    using spec t by simp
qed


section \<open>Device memory and cache types\<close>

lemma map_run_grows:
  assumes run: "fold_res (\<lambda>i s. vmm_map_page (va i) (pa i s) (fl i s) s) xs s = Inr t" and "vmm_wf s"
    and nd: "\<And>i. i \<in> set xs \<Longrightarrow> \<not> direct (va i)"
  shows "grows s t"
proof (rule fold_res_invariant[where P = "grows s", OF run grows_refl[OF assms(2)]])
  fix i and u u' :: "'a vmm_scheme"
  assume i: "i \<in> set xs" and u: "grows s u" and st: "vmm_map_page (va i) (pa i u) (fl i u) u = Inr u'"
  show "grows s u'" using grows_trans[OF u vmm_map_page_spec(1)[OF u[unfolded grows_def, THEN conjunct1] nd[OF i] st]] .
qed

lemma vmm_set_wc_spec:
  assumes "vmm_wf s" and rng: "in_range page (unat count)" and run: "vmm_set_wc page count s = Inr t"
  shows "vmm_wf t"
    and "\<And>i. i < unat count \<Longrightarrow> vmm_get_page t (page + of_nat (4096 * i)) =
      (vmm_get_page s (page + of_nat (4096 * i)) AND NOT PAGE_UNCACHEABLE) OR PAGE_WRITE_COMBINE"
    and "\<And>w. \<not> direct w \<Longrightarrow> \<forall>i < unat count. vpn w \<noteq> vpn (page + of_nat (4096 * i)) \<Longrightarrow>
      vmm_get_page t w = vmm_get_page s w"
    and "grows s t"
proof -
  let ?va = "\<lambda>i. page + of_nat (4096 * i)"
  let ?fl = "\<lambda>e. ((e AND 0xFFF) AND NOT PAGE_UNCACHEABLE) OR PAGE_WRITE_COMBINE"
  have loop: "fold_res (\<lambda>i s. vmm_map_page (?va i) (vmm_get_page s (?va i) AND PAGE_MASK)
      (?fl (vmm_get_page s (?va i))) s) [0..<unat count] s = Inr t"
    using run by (simp add: vmm_set_wc_def Let_def mult.commute)
  have side: "\<forall>i \<in> set [0..<unat count]. \<not> direct (?va i)" "inj_on (vpn \<circ> ?va) (set [0..<unat count])"
    using range_page(1)[OF rng] range_inj[OF rng] by (auto simp: atLeast0LessThan)
  note run' = vmm_pages.map_run[where pa = "\<lambda>i e. e AND PAGE_MASK" and fl = "\<lambda>i. ?fl" and va = ?va,
      OF loop assms(1) side(1) distinct_upt side(2)]
  show "vmm_wf t" by (rule run'(1))
  show "grows s t" by (rule map_run_grows[OF loop assms(1)]) (use side(1) in blast)
  have split: "(e AND PAGE_MASK) OR ?fl e = (e AND NOT PAGE_UNCACHEABLE) OR PAGE_WRITE_COMBINE" for e
  proof -
    have low: "(0xFFF :: u64) = mask 12" by (simp add: mask_eq_exp_minus_1)
    have unc: "bit PAGE_UNCACHEABLE n \<longleftrightarrow> n = 4" for n
      using bit_exp_iff[of 4 n, where 'a = u64] by (auto simp: PAGE_UNCACHEABLE_def)
    show ?thesis unfolding low by (auto intro!: bit_word_eqI simp: bit_simps PAGE_MASK_bit unc)
  qed
  show "vmm_get_page t (?va i) = (vmm_get_page s (?va i) AND NOT PAGE_UNCACHEABLE) OR PAGE_WRITE_COMBINE"
    if "i < unat count" for i
    using run'(2)[of i] that split by simp
  show "vmm_get_page t w = vmm_get_page s w"
    if "\<not> direct w" "\<forall>i < unat count. vpn w \<noteq> vpn (?va i)" for w
  proof -
    have "vpn w \<notin> (vpn \<circ> ?va) ` set [0..<unat count]" using that(2) by auto
    then show ?thesis using run'(3)[OF that(1)] by simp
  qed
qed

lemma vmm_mmio_update [simp]:
  "vmm_wf (s\<lparr>mmio_regions := r, mmio_region_count := n\<rparr>) = vmm_wf s"
  "vmm_get_page (s\<lparr>mmio_regions := r, mmio_region_count := n\<rparr>) = vmm_get_page s"
proof -
  have a: "pmm_get_page (s\<lparr>mmio_regions := r, mmio_region_count := n\<rparr>) = pmm_get_page s"
    "pmm_ready (s\<lparr>mmio_regions := r, mmio_region_count := n\<rparr>) = pmm_ready s"
    by (simp_all add: pmm_get_page_def pmm_ready_def page_used_def fun_eq_iff)
  show "vmm_wf (s\<lparr>mmio_regions := r, mmio_region_count := n\<rparr>) = vmm_wf s"
    unfolding vmm_wf_def a by (simp add: root_def)
  show "vmm_get_page (s\<lparr>mmio_regions := r, mmio_region_count := n\<rparr>) = vmm_get_page s"
    by (simp add: vmm_get_page_def kread64_def fun_eq_iff Let_def)
qed

lemma vmm_create_mmio_spec:
  assumes "vmm_wf s" and rng: "in_range MMIO_REGION (k + unat pages)" "0 < unat pages"
    and fr: "range_free s (MMIO_REGION + of_nat (4096 * k)) (unat pages)"
    and run: "vmm_create_mmio physical pages name s = Inr (v, t)"
  shows "vmm_wf t" and "in_range v (unat pages)" and "range_free s v (unat pages)"
    and "\<And>i. i < unat pages \<Longrightarrow> vmm_get_page t (v + of_nat (4096 * i)) =
      (physical + of_nat (4096 * i)) OR PAGE_PRESENT OR PAGE_WRITE OR PAGE_UNCACHEABLE"
    and "\<And>w. \<not> direct w \<Longrightarrow> \<forall>i < unat pages. vpn w \<noteq> vpn (v + of_nat (4096 * i)) \<Longrightarrow>
      vmm_get_page t w = vmm_get_page s w"
    and "\<exists>j \<le> k. v = MMIO_REGION + of_nat (4096 * j)"
    and "\<exists>mx u r n. grows (s\<lparr>vmm_mutex := mx\<rparr>) u \<and>
      t = u\<lparr>mmio_regions := r, mmio_region_count := n, vmm_mutex := release (vmm_mutex u)\<rparr>"
proof -
  let ?va = "\<lambda>i. v + of_nat (4096 * i)"
  let ?fl = "PAGE_PRESENT OR PAGE_WRITE OR PAGE_UNCACHEABLE"
  obtain mx t' r n where find: "vmm_find (s\<lparr>vmm_mutex := mx\<rparr>) MMIO_REGION pages = Some v"
    and loop: "fold_res (\<lambda>i. vmm_map_page (?va i) (physical + of_nat (4096 * i)) ?fl) [0..<unat pages]
      (s\<lparr>vmm_mutex := mx\<rparr>) = Inr t'"
    and t: "t = t'\<lparr>mmio_regions := r, mmio_region_count := n, vmm_mutex := release (vmm_mutex t')\<rparr>"
    using run unfolding vmm_create_mmio_def
    by (auto simp: bnd_Inr_iff Let_def mult.commute split: if_splits option.splits)
  have "vmm_find s MMIO_REGION pages = Some v" using find vmm_find_mutex[OF rng fr] by simp
  then obtain j where j: "j \<le> k" "v = MMIO_REGION + of_nat (4096 * j)" "range_free s v (unat pages)"
    using vmm_find_first[OF rng fr] by auto
  show "\<exists>j \<le> k. v = MMIO_REGION + of_nat (4096 * j)" using j(1,2) by blast
  show ir: "in_range v (unat pages)" using range_shift[OF rng(1) j(1) rng(2)] j(2) by simp
  show "range_free s v (unat pages)" by (rule j(3))
  have side: "\<forall>i \<in> set [0..<unat pages]. \<not> direct (?va i)" "inj_on (vpn \<circ> ?va) (set [0..<unat pages])"
    using range_page(1)[OF ir] range_inj[OF ir] by (auto simp: atLeast0LessThan)
  have wf': "vmm_wf (s\<lparr>vmm_mutex := mx\<rparr>)" using assms(1) by simp
  note run' = vmm_pages.map_run[where pa = "\<lambda>i e. physical + of_nat (4096 * i)" and fl = "\<lambda>i e. ?fl" and va = ?va,
      OF loop wf' side(1) distinct_upt side(2)]
  have "grows (s\<lparr>vmm_mutex := mx\<rparr>) t'" by (rule map_run_grows[OF loop wf']) (use side(1) in blast)
  then show "\<exists>mx u r n. grows (s\<lparr>vmm_mutex := mx\<rparr>) u \<and>
      t = u\<lparr>mmio_regions := r, mmio_region_count := n, vmm_mutex := release (vmm_mutex u)\<rparr>" using t by blast
  show "vmm_wf t" using run'(1) by (simp add: t)
  show "vmm_get_page t (?va i) = (physical + of_nat (4096 * i)) OR PAGE_PRESENT OR PAGE_WRITE OR PAGE_UNCACHEABLE"
    if "i < unat pages" for i
    using run'(2)[of i] that by (simp add: t or.assoc)
  show "vmm_get_page t w = vmm_get_page s w"
    if "\<not> direct w" "\<forall>i < unat pages. vpn w \<noteq> vpn (?va i)" for w
  proof -
    have "vpn w \<notin> (vpn \<circ> ?va) ` set [0..<unat pages]" using that(2) by auto
    then show ?thesis using run'(3)[OF that(1)] by (simp add: t)
  qed
qed

end
