(* ===== verification/Vmm_Heap.thy ===== *)
theory Vmm_Heap
  imports Vmm_Ranges
begin

text \<open>
  The kernel heap region as the virtual memory manager keeps it: every mapped page of it owns
  a frame of its own, and \<open>vmm_free\<close> gives back exactly the frames of the range.
\<close>

section \<open>Ownership of frames\<close>

definition heap_owns :: "'a vmm_scheme \<Rightarrow> u64 \<Rightarrow> bool" where
  "heap_owns s v \<longleftrightarrow> KERNEL_HEAP \<le> v \<and> present (vmm_get_page s v)"

definition heap_wf :: "'a vmm_scheme \<Rightarrow> bool" where
  "heap_wf s \<longleftrightarrow> vmm_wf s \<and>
    (\<forall>v. heap_owns s v \<longrightarrow> vmm_get_page s v div 4096 \<noteq> 0 \<and> pmm_get_page s (vmm_get_page s v AND PAGE_MASK)
      \<and> \<not> table_frame s (vmm_get_page s v AND PAGE_MASK)) \<and>
    (\<forall>v w. heap_owns s v \<longrightarrow> heap_owns s w \<longrightarrow>
      vmm_get_page s v div 4096 = vmm_get_page s w div 4096 \<longrightarrow> vpn v = vpn w)"

lemma heap_wfD:
  assumes "heap_wf s"
  shows "vmm_wf s"
    and "\<And>v. heap_owns s v \<Longrightarrow> vmm_get_page s v div 4096 \<noteq> 0"
    and "\<And>v. heap_owns s v \<Longrightarrow> pmm_get_page s (vmm_get_page s v AND PAGE_MASK)"
    and "\<And>v. heap_owns s v \<Longrightarrow> \<not> table_frame s (vmm_get_page s v AND PAGE_MASK)"
    and "\<And>v w. heap_owns s v \<Longrightarrow> heap_owns s w \<Longrightarrow>
      vmm_get_page s v div 4096 = vmm_get_page s w div 4096 \<Longrightarrow> vpn v = vpn w"
  using assms unfolding heap_wf_def by blast+

lemma heap_not_direct: "KERNEL_HEAP \<le> v \<Longrightarrow> \<not> direct v"
  by (rule high_not_direct) (simp add: KERNEL_HEAP_def MMIO_REGION_def word_le_nat_alt)

lemma vmm_get_page_cong: "vpn v = vpn w \<Longrightarrow> vmm_get_page s v = vmm_get_page s w"
  using vpath_vslot_eq_iff[of v w] by (simp add: vmm_get_page_def vpath_def vslot_def Let_def)

lemma mask_div: "(e AND PAGE_MASK) div 4096 = e div 4096" for e :: u64
  by (simp add: word_unat_eq_iff unat_div unat_mask)

lemma mask_eq_iff: "e AND PAGE_MASK = f AND PAGE_MASK \<longleftrightarrow> e div 4096 = f div 4096" for e f :: u64
  by (simp add: word_unat_eq_iff unat_div unat_mask)

lemma growsD:
  assumes "grows s t"
  shows "vmm_wf t" and "\<And>f. pmm_get_page s f \<Longrightarrow> pmm_get_page t f"
    and "\<And>f. pmm_get_page s f \<Longrightarrow> \<not> table_frame s f \<Longrightarrow> \<not> table_frame t f"
    and "\<And>a. pmm_get_page s (a AND PAGE_MASK) \<Longrightarrow> \<not> table_frame s (a AND PAGE_MASK) \<Longrightarrow> mem t a = mem s a"
  using assms unfolding grows_def by blast+

text \<open>Extending the tables elsewhere, and mapping fresh frames, keep the ownership.\<close>

lemma heap_wf_grows:
  assumes "heap_wf s" and "grows s t" and "\<And>v. KERNEL_HEAP \<le> v \<Longrightarrow> vmm_get_page t v = vmm_get_page s v"
  shows "heap_wf t"
proof -
  note h = heap_wfD[OF assms(1)]
  have own: "heap_owns t v \<longleftrightarrow> heap_owns s v" for v using assms(3) by (auto simp: heap_owns_def)
  have get: "vmm_get_page t v = vmm_get_page s v" if "heap_owns s v" for v
    using assms(3) that by (simp add: heap_owns_def)
  show ?thesis
    unfolding heap_wf_def own
  proof (intro conjI allI impI)
    show "vmm_wf t" using assms(2) by (simp add: grows_def)
  next
    fix v assume v: "heap_owns s v"
    show "vmm_get_page t v div 4096 \<noteq> 0" using h(2)[OF v] get[OF v] by simp
    show "pmm_get_page t (vmm_get_page t v AND PAGE_MASK)"
      using growsD(2)[OF assms(2) h(3)[OF v]] get[OF v] by simp
    show "\<not> table_frame t (vmm_get_page t v AND PAGE_MASK)"
      using growsD(3)[OF assms(2) h(3,4)[OF v]] get[OF v] by simp
  next
    fix v w assume "heap_owns s v" "heap_owns s w" "vmm_get_page t v div 4096 = vmm_get_page t w div 4096"
    then show "vpn v = vpn w" using h(5)[of v w] get[of v] get[of w] by simp
  qed
qed

lemma frame_flags:
  assumes "aligned 4096 f"
  shows "(f OR KERNEL_HEAP_FLAGS) AND PAGE_MASK = f" and "(f OR KERNEL_HEAP_FLAGS) div 4096 = f div 4096"
    and "present (f OR KERNEL_HEAP_FLAGS)"
proof -
  have "KERNEL_HEAP_FLAGS AND PAGE_MASK = 0"
    by (simp add: KERNEL_HEAP_FLAGS_def PAGE_PRESENT_def PAGE_WRITE_def PAGE_MASK_def)
  then show m: "(f OR KERNEL_HEAP_FLAGS) AND PAGE_MASK = f"
    using assms by (simp add: mask_aligned bit.conj_disj_distrib2)
  show "(f OR KERNEL_HEAP_FLAGS) div 4096 = f div 4096" using mask_div[of "f OR KERNEL_HEAP_FLAGS"] m by simp
  have "bit (f OR KERNEL_HEAP_FLAGS) 0"
    by (simp add: KERNEL_HEAP_FLAGS_def PAGE_PRESENT_def PAGE_WRITE_def bit_simps)
  then show "present (f OR KERNEL_HEAP_FLAGS)"
    by (auto simp: present_def PAGE_PRESENT_def and_one_eq odd_iff_mod_2_eq_one bit_0)
qed

lemma heap_wf_mapped_fresh:
  assumes wf: "heap_wf s" and gr: "grows s t" and new: "mapped_fresh s t ptr KERNEL_HEAP_FLAGS [0..<n] frame"
    and rng: "in_range ptr n"
  shows "heap_wf t"
proof -
  let ?va = "\<lambda>i. ptr + of_nat (4096 * i)"
  note h = heap_wfD[OF wf]
  have frame: "frame i \<noteq> 0" "aligned 4096 (frame i)" "\<not> pmm_get_page s (frame i)" "pmm_get_page t (frame i)"
    "\<not> table_frame t (frame i)" "vmm_get_page t (?va i) = frame i OR KERNEL_HEAP_FLAGS" if "i < n" for i
    using new that unfolding mapped_fresh_def by auto
  have cases: "(\<exists>i < n. vpn v = vpn (?va i) \<and> vmm_get_page t v = frame i OR KERNEL_HEAP_FLAGS)
      \<or> (heap_owns s v \<and> vmm_get_page t v = vmm_get_page s v)" if v: "heap_owns t v" for v
  proof (cases "\<exists>i < n. vpn v = vpn (?va i)")
    case True
    then show ?thesis using frame(6) vmm_get_page_cong[of v _ t] by metis
  next
    case False
    have "\<not> direct v" using v heap_not_direct by (auto simp: heap_owns_def)
    then have "vmm_get_page t v = vmm_get_page s v" using new False unfolding mapped_fresh_def by auto
    then show ?thesis using v by (simp add: heap_owns_def)
  qed
  have pos: "f div 4096 \<noteq> 0" if "f \<noteq> 0" "aligned 4096 f" for f :: u64
    using that mask_eq_iff[of f 0] by (simp add: mask_aligned)
  have new_old: "frame i div 4096 \<noteq> vmm_get_page s v div 4096" if "i < n" "heap_owns s v" for i v
    using frame(2,3)[OF that(1)] h(3)[OF that(2)] mask_eq_iff[of "frame i"] by (metis mask_aligned)
  have inj: "i = j" if "i < n" "j < n" "frame i div 4096 = frame j div 4096" for i j
    using that frame(2) new mask_eq_iff[of "frame i" "frame j"]
    by (auto simp: mapped_fresh_def inj_on_def mask_aligned)
  show ?thesis
    unfolding heap_wf_def
  proof (intro conjI allI impI)
    show "vmm_wf t" using gr by (simp add: grows_def)
  next
    fix v assume v: "heap_owns t v"
    show "vmm_get_page t v div 4096 \<noteq> 0" using cases[OF v] frame(1,2) pos frame_flags(2) h(2) by metis
    show "pmm_get_page t (vmm_get_page t v AND PAGE_MASK)"
      using cases[OF v] frame(2,4) frame_flags(1) h(3) growsD(2)[OF gr] by metis
    show "\<not> table_frame t (vmm_get_page t v AND PAGE_MASK)"
      using cases[OF v] frame(2,5) frame_flags(1) h(3,4) growsD(3)[OF gr] by metis
  next
    fix v w assume *: "heap_owns t v" "heap_owns t w" "vmm_get_page t v div 4096 = vmm_get_page t w div 4096"
    show "vpn v = vpn w"
      using cases[OF *(1)] cases[OF *(2)] *(3) inj new_old h(5) frame(2) frame_flags(2) by metis
  qed
qed

section \<open>Unmapping one page\<close>

lemma vmm_next_table_present:
  "walk (mem s) t [i] = Some u \<Longrightarrow>
    vmm_next_table (t + PHYSICAL_MEMORY) i s = Inr (u + PHYSICAL_MEMORY, s)"
  by (auto simp: vmm_next_table_def present_def Let_def split: if_splits)

lemma vmm_map_page_present:
  assumes "walk (mem s) (root s) (vpath v) = Some t"
  shows "vmm_map_page v p f s =
    Inr (flush_tlb (v AND 0xFFFFFFFFFFFF) (s\<lparr>mem := write64 (mem s) (t + 8 * vslot v) (p OR f)\<rparr>))"
proof -
  let ?v = "v AND 0xFFFFFFFFFFFF"
  let ?a = "table_index 39 ?v" and ?b = "table_index 30 ?v" and ?c = "table_index 21 ?v"
  obtain t1 t2 where w: "walk (mem s) (root s) [?a] = Some t1" "walk (mem s) t1 [?b] = Some t2"
    "walk (mem s) t2 [?c] = Some t"
    using assms by (auto simp: vpath_def Let_def split: if_splits)
  show ?thesis
    unfolding vmm_map_page_def Let_def
    using w[THEN vmm_next_table_present] by (simp add: root_def vslot_def)
qed

lemma present_walk:
  assumes "vmm_wf s" and "\<not> direct v" and "present (vmm_get_page s v)"
  obtains t where "walk (mem s) (root s) (vpath v) = Some t"
  using assms(3) vmm_get_page_leaf[OF assms(1,2)] by (auto simp: leaf_def split: option.splits)

text \<open>What freeing the pages \<open>vs\<close> does.\<close>

definition unmapped :: "'a vmm_scheme \<Rightarrow> 'a vmm_scheme \<Rightarrow> u64 list \<Rightarrow> bool" where
  "unmapped s t vs \<longleftrightarrow> heap_wf t \<and> cr3 t = cr3 s \<and> vmm_mutex t = vmm_mutex s \<and>
    mmio_regions t = mmio_regions s \<and> mmio_region_count t = mmio_region_count s \<and>
    total_pages t = total_pages s \<and> highest_usable_address t = highest_usable_address s \<and>
    uncounted t = uncounted s \<and> vmm.more t = vmm.more s \<and> table_frame t = table_frame s \<and>
    (\<forall>w. \<not> direct w \<longrightarrow> vmm_get_page t w =
      (if present (vmm_get_page s w) \<and> vpn w \<in> vpn ` set vs then 0 else vmm_get_page s w)) \<and>
    (\<forall>pn. page_used t pn \<longleftrightarrow> page_used s pn \<and>
      (\<forall>v \<in> set vs. present (vmm_get_page s v) \<longrightarrow> pn \<noteq> vmm_get_page s v div 4096)) \<and>
    (\<forall>a. \<not> table_frame s (a AND PAGE_MASK) \<longrightarrow> mem t a = mem s a)"

lemma unmapped_Nil: "heap_wf s \<Longrightarrow> unmapped s s []"
  by (simp add: unmapped_def)

lemma unmapped_trans:
  assumes a: "unmapped s t vs" and b: "unmapped t u [v]" and "KERNEL_HEAP \<le> v"
  shows "unmapped s u (vs @ [v])"
proof -
  have nd: "\<not> direct v" using heap_not_direct[OF assms(3)] .
  have get: "vmm_get_page t w = (if present (vmm_get_page s w) \<and> vpn w \<in> vpn ` set vs then 0 else vmm_get_page s w)"
    if "\<not> direct w" for w using a that by (simp add: unmapped_def)
  have "page_used u pn \<longleftrightarrow> page_used s pn \<and> (\<forall>x \<in> set (vs @ [v]). present (vmm_get_page s x) \<longrightarrow> pn \<noteq> vmm_get_page s x div 4096)" for pn
  proof -
    let ?ok = "\<lambda>x. present (vmm_get_page s x) \<longrightarrow> pn \<noteq> vmm_get_page s x div 4096"
    have t: "page_used t pn \<longleftrightarrow> page_used s pn \<and> (\<forall>x \<in> set vs. ?ok x)" using a by (simp add: unmapped_def)
    have u: "page_used u pn \<longleftrightarrow> page_used t pn \<and> (present (vmm_get_page t v) \<longrightarrow> pn \<noteq> vmm_get_page t v div 4096)"
      using b by (simp add: unmapped_def)
    show ?thesis
    proof (cases "vpn v \<in> vpn ` set vs")
      case True
      then obtain x where "x \<in> set vs" "vmm_get_page s v = vmm_get_page s x"
        using vmm_get_page_cong by blast
      then show ?thesis using t u get[OF nd] True by auto
    next
      case False
      then show ?thesis using t u get[OF nd] by auto
    qed
  qed
  moreover have "vmm_get_page u w = (if present (vmm_get_page s w) \<and> vpn w \<in> vpn ` set (vs @ [v]) then 0 else vmm_get_page s w)"
    if "\<not> direct w" for w
    using b get[OF that] that unfolding unmapped_def by auto
  ultimately show ?thesis using a b unfolding unmapped_def by simp
qed

lemma unmap_page:
  assumes wf: "heap_wf s" and own: "heap_owns s v" and al: "aligned 4096 v"
  shows "\<exists>t. bnd (pmm_free_page (vmm_get_page s v AND PAGE_MASK) s) (vmm_map_page v 0 0) = Inr t \<and> unmapped s t [v]"
proof -
  let ?e = "vmm_get_page s v"
  note h = heap_wfD[OF wf]
  have v: "KERNEL_HEAP \<le> v" "present ?e" and nd: "\<not> direct v"
    using own heap_not_direct by (auto simp: heap_owns_def)
  have rdy: "pmm_ready s" and tr: "tree (mem s) (root s) (pmm_get_page s)" using h(1) by (auto simp: vmm_wf_def)
  obtain tb where tb: "walk (mem s) (root s) (vpath v) = Some tb" using present_walk[OF h(1) nd v(2)] .
  define s1 where "s1 = (pmm_mark_page_free (?e AND PAGE_MASK) s)\<lparr>pmm_mutex := MUTEX_FREE\<rparr>"
  obtain b u where s1: "s1 = s\<lparr>pmm_bitmap := b, used_pages := u, pmm_mutex := MUTEX_FREE\<rparr>"
    using pmm_mark_page_free_frame[of "?e AND PAGE_MASK" s] unfolding s1_def by auto
  have free: "pmm_free_page (?e AND PAGE_MASK) s = Inr s1"
    unfolding s1_def using rdy by (intro pmm_free_page_ready) (simp add: pmm_ready_def)
  have eq1: "mem s1 = mem s" "root s1 = root s" by (simp_all add: s1 root_def)
  have used1: "page_used s1 pn \<longleftrightarrow> page_used s pn \<and> pn \<noteq> ?e div 4096" for pn
    by (auto simp: s1_def mask_div)
  define t where "t = flush_tlb (v AND 0xFFFFFFFFFFFF) (s1\<lparr>mem := write64 (mem s) (tb + 8 * vslot v) 0\<rparr>)"
  have map: "vmm_map_page v 0 0 s1 = Inr t"
    using vmm_map_page_present[of s1 v tb 0 0] tb eq1 by (simp add: t_def)
  have "0 \<noteq> ?e div 4096" using h(2)[OF own] by simp
  then have rdy1: "pmm_ready s1" using rdy used1[of 0] by (simp add: pmm_ready_def s1)
  have in1: "pmm_get_page s1 f" if "pmm_get_page s f" "f AND PAGE_MASK \<noteq> ?e AND PAGE_MASK" for f
    using that used1[of "f div 4096"] mask_eq_iff[of f ?e] by (auto simp: pmm_get_page_iff s1)
  have tr1: "tree (mem s) (root s) (pmm_get_page s1)"
    unfolding tree_def
  proof (intro conjI allI impI)
    fix p f assume *: "kpath p" "walk (mem s) (root s) p = Some f"
    then have "table_frame s f" by (auto simp: table_frame_def)
    then have "f AND PAGE_MASK \<noteq> ?e AND PAGE_MASK"
      using h(4)[OF own] mask_aligned[OF treeD(5)[OF tr *]] by auto
    then show "pmm_get_page s1 f" using in1 treeD(3)[OF tr *] by blast
  qed (use treeD[OF tr] in auto)
  have wf1: "vmm_wf s1" using tr1 rdy1 eq1 by (simp add: vmm_wf_def)
  note mp = vmm_map_page_spec[OF wf1 nd map]
  have wft: "vmm_wf t" using mp(1) by (simp add: grows_def)
  have get1: "vmm_get_page s1 w = vmm_get_page s w" for w
    by (simp add: s1 vmm_get_page_def kread64_def Let_def)
  have get: "vmm_get_page t w = (if present (vmm_get_page s w) \<and> vpn w = vpn v then 0 else vmm_get_page s w)"
    if "\<not> direct w" for w
    using mp(3)[OF that] get1 vmm_get_page_cong[of w v s] v(2) by auto
  have usedt: "page_used t pn \<longleftrightarrow> page_used s pn \<and> pn \<noteq> ?e div 4096" for pn
    using used1[of pn] by (simp add: t_def flush_tlb_def page_used_def)
  have lw: "kpath (vpath v)" "length (vpath v) = 3" using kpath_vpath[OF nd] by auto
  note w = tree_leaf_write(2)[OF tr lw tb vslot_less]
  have tf: "table_frame t = table_frame s"
    using w by (auto simp: table_frame_def t_def s1 fun_eq_iff flush_tlb_def root_def)
  have own_t: "heap_owns t w \<Longrightarrow> heap_owns s w \<and> vmm_get_page t w = vmm_get_page s w \<and> vpn w \<noteq> vpn v" for w
    using get[of w] heap_not_direct[of w] v(2) vmm_get_page_cong[of w v s]
    by (auto simp: heap_owns_def split: if_splits)
  have high: "highest_usable_address t = highest_usable_address s"
    by (simp add: t_def flush_tlb_def s1)
  have hwf: "heap_wf t"
    unfolding heap_wf_def
  proof (intro conjI allI impI)
    fix x assume x: "heap_owns t x"
    note o = own_t[OF x]
    show "vmm_get_page t x div 4096 \<noteq> 0" "\<not> table_frame t (vmm_get_page t x AND PAGE_MASK)"
      using o h(2,4) tf by auto
    have "vmm_get_page s x div 4096 \<noteq> ?e div 4096" using o h(5)[of x v] own by auto
    then show "pmm_get_page t (vmm_get_page t x AND PAGE_MASK)"
      using usedt o h(3)[of x] high by (auto simp: pmm_get_page_iff mask_div)
  next
    fix x y assume "heap_owns t x" "heap_owns t y" "vmm_get_page t x div 4096 = vmm_get_page t y div 4096"
    then show "vpn x = vpn y" using own_t h(5)[of x y] by auto
  qed (rule wft)
  have unc: "uncounted t = uncounted s"
  proof -
    have "uncounted t = uncounted (pmm_mark_page_free (?e AND PAGE_MASK) s)"
      by (simp add: uncounted_def used_set_def t_def flush_tlb_def s1_def page_used_def)
    then show ?thesis by simp
  qed
  have mem: "mem t a = mem s a" if "\<not> table_frame s (a AND PAGE_MASK)" for a
    using that tb lw treeD(5)[OF tr lw(1) tb] unfolding t_def flush_tlb_fields
    by (simp, intro mem_outside_entry) (auto simp: table_frame_def)
  have "unmapped s t [v]"
    unfolding unmapped_def using hwf tf get usedt unc mem v(2) by (auto simp: t_def flush_tlb_def s1)
  then show ?thesis using free map by auto
qed

section \<open>Freeing a range\<close>

lemma vmm_free_loop_spec:
  assumes "heap_wf s" and "KERNEL_HEAP \<le> v" and "in_range v n" and "aligned 4096 v"
  shows "\<exists>t. vmm_free_loop v n s = Inr t \<and> unmapped s t (map (\<lambda>i. v + of_nat (4096 * i)) [0..<n])"
  using assms(3)
proof (induction n)
  case 0
  then show ?case using assms(1) by (simp add: vmm_free_loop_def unmapped_Nil)
next
  case (Suc n)
  have rng: "in_range v n" using Suc.prems by (simp add: in_range_def)
  obtain t where t: "vmm_free_loop v n s = Inr t" "unmapped s t (map (\<lambda>i. v + of_nat (4096 * i)) [0..<n])"
    using Suc.IH[OF rng] by blast
  let ?v = "v + of_nat (4096 * n)"
  have un: "unat ?v = unat v + 4096 * n" using unat_range[OF Suc.prems, of n] by simp
  then have hv: "KERNEL_HEAP \<le> ?v" using assms(2) by (simp add: word_le_nat_alt)
  have al: "aligned 4096 ?v" using un assms(4) unfolding aligned_def by simp
  have off: "?v AND 0xFFF = 0"
  proof -
    have "take_bit 12 ?v = 0" using al aligned_iff_take_bit[of 12 ?v] by simp
    then show ?thesis by (simp add: take_bit_eq_mask mask_eq_exp_minus_1)
  qed
  have ge: "MMIO_REGION \<le> ?v" using range_ge_mmio[OF Suc.prems, of n] by simp
  have phys: "vmm_get_physical t ?v =
      (if present (vmm_get_page t ?v) then Some (vmm_get_page t ?v AND PAGE_MASK) else None)"
    using leD[OF ge] off by (simp add: vmm_get_physical_def present_def Let_def)
  have step: "vmm_free_loop v (Suc n) s = (case vmm_get_physical t ?v of None \<Rightarrow> Inr t
      | Some phys \<Rightarrow> bnd (pmm_free_page phys t) (vmm_map_page ?v 0 0))"
    using t(1) by (simp add: vmm_free_loop_def push_bit_12 bnd_def split: option.splits sum.splits)
  have wt: "heap_wf t" using t(2) by (simp add: unmapped_def)
  have "\<exists>u. vmm_free_loop v (Suc n) s = Inr u \<and> unmapped t u [?v]"
  proof (cases "present (vmm_get_page t ?v)")
    case True
    then show ?thesis using unmap_page[OF wt _ al] hv step phys by (auto simp: heap_owns_def)
  next
    case False
    then have "vpn w \<noteq> vpn ?v" if "present (vmm_get_page t w)" for w
      using that vmm_get_page_cong[of w ?v t] by auto
    then have "unmapped t t [?v]" using wt False by (auto simp: unmapped_def)
    then show ?thesis using step phys False by auto
  qed
  then show ?case using unmapped_trans[OF t(2) _ hv] by auto
qed

lemma heap_wf_mutex [simp]:
  "page_used (s\<lparr>vmm_mutex := x\<rparr>) = page_used s"
  "uncounted (s\<lparr>vmm_mutex := x\<rparr>) = uncounted s"
  "heap_wf (s\<lparr>vmm_mutex := x\<rparr>) = heap_wf s"
proof -
  show p: "page_used (s\<lparr>vmm_mutex := x\<rparr>) = page_used s" by (simp add: page_used_def fun_eq_iff)
  then show "uncounted (s\<lparr>vmm_mutex := x\<rparr>) = uncounted s" by (simp add: uncounted_def used_set_def)
  show "heap_wf (s\<lparr>vmm_mutex := x\<rparr>) = heap_wf s"
    unfolding heap_wf_def heap_owns_def vmm_mutex_update p by simp
qed

lemma vmm_free_spec:
  assumes "heap_wf s" and "vmm_mutex s = MUTEX_FREE"
    and "KERNEL_HEAP \<le> v" and "in_range v (unat count)" and "aligned 4096 v"
  shows "\<exists>t. vmm_free v count s = Inr t \<and> unmapped s t (map (\<lambda>i. v + of_nat (4096 * i)) [0..<unat count])"
proof -
  let ?s = "s\<lparr>vmm_mutex := MUTEX_BUSY\<rparr>"
  obtain t where t: "vmm_free_loop v (unat count) ?s = Inr t"
    "unmapped ?s t (map (\<lambda>i. v + of_nat (4096 * i)) [0..<unat count])"
    using vmm_free_loop_spec[of ?s v "unat count"] assms by auto
  have mx: "vmm_mutex t = MUTEX_BUSY" using t(2) by (simp add: unmapped_def)
  have "unmapped s (t\<lparr>vmm_mutex := MUTEX_FREE\<rparr>) (map (\<lambda>i. v + of_nat (4096 * i)) [0..<unat count])"
    using t(2) assms(2) unfolding unmapped_def vmm_mutex_update heap_wf_mutex by simp
  then show ?thesis using t(1) mx assms(2) by (auto simp: vmm_free_def)
qed

end
