(* ===== verification/Vmm_Total.thy ===== *)
theory Vmm_Total
  imports Vmm_Heap
begin

text \<open>
  Total correctness of allocation: with enough free frames below the highest usable address the
  physical and the virtual memory manager return, and they return memory.
\<close>

section \<open>Free frames\<close>

definition free_frames :: "'a pmm_scheme \<Rightarrow> u64 set" where
  "free_frames s = {f. aligned 4096 f \<and> f < highest_usable_address s - 4096 \<and> \<not> pmm_get_page s f}"

lemma finite_free_frames [simp]: "finite (free_frames s)"
  by simp

lemma aligned_div_inj: "aligned 4096 p \<Longrightarrow> aligned 4096 q \<Longrightarrow> p div 4096 = q div 4096 \<longleftrightarrow> p = q"
  using mask_eq_iff[of p q] by (simp add: mask_aligned)

lemma pmm_alloc_page_free:
  assumes "pmm_ready s" and "free_frames s \<noteq> {}"
  obtains p t where "pmm_alloc_page s = Inr (p, t)" "p \<noteq> 0" "p \<in> free_frames s"
    "free_frames t = free_frames s - {p}"
proof (cases rule: pmm_alloc_page_ready[OF assms(1)])
  case 1
  then show ?thesis using assms(2) by (auto simp: free_frames_def)
next
  case (2 p)
  let ?t = "(pmm_mark_page_used p s)\<lparr>pmm_mutex := MUTEX_FREE\<rparr>"
  have "free_frames ?t = free_frames s - {p}"
    using 2(4) aligned_div_inj[OF _ 2(4)] by (auto simp: free_frames_def pmm_get_page_mark_used)
  moreover have "p \<in> free_frames s" using 2 by (simp add: free_frames_def)
  ultimately show ?thesis using that 2 by blast
qed

text \<open>Used pages and free frames together: what an allocation takes from one it adds to the other.\<close>

definition frame_total :: "'a pmm_scheme \<Rightarrow> u64" where
  "frame_total s = used_pages s + of_nat (card (free_frames s))"

lemma card_free_alloc:
  assumes "pmm_ready s" and "0 < card (free_frames s)"
  obtains p t where "pmm_alloc_page s = Inr (p, t)" "p \<noteq> 0" "card (free_frames s) = Suc (card (free_frames t))"
    "frame_total t = frame_total s"
proof -
  have "free_frames s \<noteq> {}" using assms(2) by auto
  then obtain p t where a: "pmm_alloc_page s = Inr (p, t)" "p \<noteq> 0" "p \<in> free_frames s" "free_frames t = free_frames s - {p}"
    using pmm_alloc_page_free[OF assms(1)] by metis
  then have card: "card (free_frames s) = Suc (card (free_frames t))" by (metis card_Suc_Diff1 finite_free_frames)
  have "\<not> page_used s (p div 4096)" using a(3) by (simp add: free_frames_def pmm_get_page_iff)
  then have "used_pages t = used_pages s + 1"
    using a(1,2) by (cases rule: pmm_alloc_page_ready[OF assms(1)]) (auto simp: used_pages_mark_used)
  then show ?thesis using that a(1,2) card by (simp add: frame_total_def)
qed

lemma free_frames_updates [simp]:
  "free_frames (s\<lparr>mem := m\<rparr>) = free_frames s"
  "free_frames (s\<lparr>vmm_mutex := x\<rparr>) = free_frames s"
  "free_frames (flush_tlb v s) = free_frames s"
  "frame_total (s\<lparr>mem := m\<rparr>) = frame_total s"
  "frame_total (s\<lparr>vmm_mutex := x\<rparr>) = frame_total s"
  "frame_total (flush_tlb v s) = frame_total s"
proof -
  show f: "free_frames (s\<lparr>mem := m\<rparr>) = free_frames s" "free_frames (s\<lparr>vmm_mutex := x\<rparr>) = free_frames s"
    "free_frames (flush_tlb v s) = free_frames s"
    by (simp_all add: free_frames_def) (simp add: flush_tlb_def)
  show "frame_total (s\<lparr>mem := m\<rparr>) = frame_total s" "frame_total (s\<lparr>vmm_mutex := x\<rparr>) = frame_total s"
    "frame_total (flush_tlb v s) = frame_total s"
    unfolding frame_total_def f by (simp_all add: flush_tlb_def)
qed

section \<open>Mapping returns\<close>

lemma vmm_next_table_returns:
  assumes "pmm_ready s" and "0 < card (free_frames s)"
  shows "\<exists>u t. vmm_next_table (r + PHYSICAL_MEMORY) i s = Inr (u, t) \<and>
    card (free_frames s) \<le> Suc (card (free_frames t)) \<and> frame_total t = frame_total s \<and> pmm_ready t"
proof (cases "present (kread64 s (r + PHYSICAL_MEMORY + 8 * i))")
  case True
  then show ?thesis using assms by (auto simp: vmm_next_table_def present_def Let_def)
next
  case False
  obtain p t where a: "pmm_alloc_page s = Inr (p, t)" "p \<noteq> 0" "card (free_frames s) = Suc (card (free_frames t))"
    "frame_total t = frame_total s"
    using card_free_alloc[OF assms] .
  have "pmm_ready t" using pmm_frames.alloc_fresh[OF assms(1) a(1,2)] by simp
  then show ?thesis using False a by (auto simp: vmm_next_table_def present_def Let_def)
qed

lemma vmm_next_table_shape: "vmm_next_table r i s = Inr (u, t) \<Longrightarrow> \<exists>u'. u = u' + PHYSICAL_MEMORY"
  by (auto simp: vmm_next_table_def Let_def bnd_Inr_iff split: if_splits)

lemma vmm_map_page_returns:
  assumes "pmm_ready s" and "3 \<le> card (free_frames s)"
  shows "\<exists>t. vmm_map_page v p f s = Inr t \<and> card (free_frames s) \<le> 3 + card (free_frames t) \<and>
    frame_total t = frame_total s"
proof -
  let ?v = "v AND 0xFFFFFFFFFFFF"
  obtain u1 s1 where r1: "vmm_next_table (root s + PHYSICAL_MEMORY) (table_index 39 ?v) s = Inr (u1, s1)"
    "card (free_frames s) \<le> Suc (card (free_frames s1))" "pmm_ready s1" "frame_total s1 = frame_total s"
    using vmm_next_table_returns[OF assms(1)] assms(2) by fastforce
  obtain u1' where u1: "u1 = u1' + PHYSICAL_MEMORY" using vmm_next_table_shape[OF r1(1)] by blast
  obtain u2 s2 where r2: "vmm_next_table u1 (table_index 30 ?v) s1 = Inr (u2, s2)"
    "card (free_frames s1) \<le> Suc (card (free_frames s2))" "pmm_ready s2" "frame_total s2 = frame_total s1"
    using vmm_next_table_returns[OF r1(3)] assms(2) r1(2) u1 by fastforce
  obtain u2' where u2: "u2 = u2' + PHYSICAL_MEMORY" using vmm_next_table_shape[OF r2(1)] by blast
  obtain u3 s3 where r3: "vmm_next_table u2 (table_index 21 ?v) s2 = Inr (u3, s3)"
    "card (free_frames s2) \<le> Suc (card (free_frames s3))" "frame_total s3 = frame_total s2"
    using vmm_next_table_returns[OF r2(3)] assms(2) r1(2) r2(2) u2 by fastforce
  let ?t = "flush_tlb ?v (kwrite64 (u3 + 8 * table_index 12 ?v) (p OR f) s3)"
  have "vmm_map_page v p f s = Inr ?t"
    using r1(1) r2(1) r3(1) by (simp add: vmm_map_page_def root_def Let_def)
  moreover have "card (free_frames s) \<le> 3 + card (free_frames ?t)" "frame_total ?t = frame_total s"
    using r1(2,4) r2(2,4) r3(2,3) by (simp_all add: kwrite64_def)
  ultimately show ?thesis by blast
qed

lemma vmm_alloc_loop_returns:
  assumes "vmm_wf s" and "4 * length xs \<le> card (free_frames s)"
    and "\<forall>i \<in> set xs. \<not> direct (ptr + of_nat (4096 * i))"
  shows "\<exists>t. vmm_alloc_loop ptr flags xs s = Inr (True, t) \<and>
    card (free_frames s) \<le> 4 * length xs + card (free_frames t) \<and> frame_total t = frame_total s"
  using assms
proof (induction xs arbitrary: s)
  case Nil
  then show ?case by simp
next
  case (Cons i xs)
  let ?v = "ptr + of_nat (4096 * i)"
  have rdy: "pmm_ready s" using Cons.prems(1) by (simp add: vmm_wf_def)
  obtain p s1 where a: "pmm_alloc_page s = Inr (p, s1)" "p \<noteq> 0" "card (free_frames s) = Suc (card (free_frames s1))"
    "frame_total s1 = frame_total s"
    using card_free_alloc[OF rdy] Cons.prems(2) by auto
  have wf1: "vmm_wf s1" using growsD(1)[OF grows_alloc(1)[OF Cons.prems(1) a(1,2)]] .
  have nd: "\<not> direct ?v" using Cons.prems(3) by simp
  have "pmm_ready s1" using wf1 by (simp add: vmm_wf_def)
  then obtain s2 where m: "vmm_map_page ?v p flags s1 = Inr s2" "card (free_frames s1) \<le> 3 + card (free_frames s2)"
    "frame_total s2 = frame_total s1"
    using vmm_map_page_returns[of s1 ?v p flags] a(3) Cons.prems(2) by auto
  have wf2: "vmm_wf s2" using growsD(1)[OF vmm_map_page_spec(1)[OF wf1 nd m(1)]] .
  obtain t where t: "vmm_alloc_loop ptr flags xs s2 = Inr (True, t)"
    "card (free_frames s2) \<le> 4 * length xs + card (free_frames t)" "frame_total t = frame_total s2"
    using Cons.IH[OF wf2] Cons.prems(2,3) a(3) m(2) by auto
  then show ?case using a m by (auto simp: push_bit_12)
qed

lemma vmm_alloc_returns:
  assumes wf: "vmm_wf s" and mx: "vmm_mutex s = MUTEX_FREE"
    and rng: "in_range start (k + unat count)" "0 < unat count"
    and fr: "range_free s (start + of_nat (4096 * k)) (unat count)"
    and mem: "count < total_pages s - used_pages s" "4 * unat count \<le> card (free_frames s)"
  obtains ptr t where "vmm_alloc start count flags s = Inr (ptr, t)" "ptr \<noteq> 0" "vmm_mutex t = MUTEX_FREE"
    "card (free_frames s) \<le> 4 * unat count + card (free_frames t)" "frame_total t = frame_total s"
proof -
  obtain j where j: "j \<le> k" "vmm_find s start count = Some (start + of_nat (4096 * j))"
    using vmm_find_first[OF rng fr] by blast
  let ?p = "start + of_nat (4096 * j)"
  have ir: "in_range ?p (unat count)" using range_shift[OF rng(1) j(1) rng(2)] .
  then have p0: "?p \<noteq> 0" by (auto simp: in_range_def MMIO_REGION_def)
  let ?s = "s\<lparr>vmm_mutex := MUTEX_BUSY\<rparr>"
  obtain t where t: "vmm_alloc_loop ?p flags [0..<unat count] ?s = Inr (True, t)"
    "card (free_frames s) \<le> 4 * unat count + card (free_frames t)" "frame_total t = frame_total s"
    using vmm_alloc_loop_returns[of ?s "[0..<unat count]" ?p flags] wf mem(2) range_page(1)[OF ir] by auto
  have "grows ?s t"
    using wf range_page(1)[OF ir] range_inj[OF ir]
    by (intro vmm_alloc_loop_spec[OF t(1), THEN conjunct1]) (auto simp: atLeast0LessThan)
  then have "vmm_mutex t = MUTEX_BUSY" by (simp add: grows_def)
  moreover have "vmm_alloc start count flags s = Inr (?p, t\<lparr>vmm_mutex := release (vmm_mutex t)\<rparr>)"
    using mem(1) j(2) p0 mx t by (simp add: vmm_alloc_def Let_def not_le)
  ultimately show ?thesis using that p0 t(2,3) by simp
qed

section \<open>Loops of mappings return\<close>

lemma vmm_map_run_returns:
  assumes "vmm_wf s" and "3 * length xs \<le> card (free_frames s)" and "\<forall>i \<in> set xs. \<not> direct (va i)"
  shows "\<exists>t. fold_res (\<lambda>i. vmm_map_page (va i) (pa i) fl) xs s = Inr t"
  using assms
proof (induction xs arbitrary: s)
  case Nil
  then show ?case by simp
next
  case (Cons i xs)
  have rdy: "pmm_ready s" using Cons.prems(1) by (simp add: vmm_wf_def)
  obtain s1 where m: "vmm_map_page (va i) (pa i) fl s = Inr s1" "card (free_frames s) \<le> 3 + card (free_frames s1)"
    using vmm_map_page_returns[OF rdy, of "va i" "pa i" fl] Cons.prems(2) by auto
  have "vmm_wf s1" using growsD(1)[OF vmm_map_page_spec(1)[OF Cons.prems(1) _ m(1)]] Cons.prems(3) by simp
  then show ?case using Cons.IH[of s1] Cons.prems(2,3) m by auto
qed

text \<open>Changing entries of existing tables needs no memory.\<close>

lemma vmm_remap_returns:
  assumes "vmm_wf s" and "\<forall>i \<in> set xs. \<not> direct (va i) \<and> walk (mem s) (root s) (vpath (va i)) \<noteq> None"
    and "\<And>i s. step i s = vmm_map_page (va i) (pa i s) (fl i s) s"
  shows "\<exists>t. fold_res step xs s = Inr t"
  using assms(1,2)
proof (induction xs arbitrary: s)
  case Nil
  then show ?case by simp
next
  case (Cons i xs)
  obtain tb where tb: "walk (mem s) (root s) (vpath (va i)) = Some tb" using Cons.prems(2) by auto
  have nd: "\<not> direct (va i)" using Cons.prems(2) by simp
  let ?s = "s\<lparr>mem := write64 (mem s) (tb + 8 * vslot (va i)) (pa i s OR fl i s)\<rparr>"
  have st: "step i s = Inr (flush_tlb (va i AND 0xFFFFFFFFFFFF) ?s)"
    using vmm_map_page_present[OF tb] assms(3) by simp
  have tr: "tree (mem s) (root s) (pmm_get_page s)" using Cons.prems(1) by (simp add: vmm_wf_def)
  have wf: "vmm_wf (flush_tlb (va i AND 0xFFFFFFFFFFFF) ?s)"
    using growsD(1)[OF grows_leaf_write[OF Cons.prems(1) kpath_vpath[OF nd] length_vpath tb vslot_less]] by simp
  have "walk (mem ?s) (root s) (vpath (va j)) = walk (mem s) (root s) (vpath (va j))" if "j \<in> set xs" for j
    using tree_leaf_write(2)[OF tr kpath_vpath[OF nd] length_vpath tb vslot_less] kpath_vpath Cons.prems(2) that by simp
  then have "\<forall>j \<in> set xs. \<not> direct (va j) \<and> walk (mem (flush_tlb (va i AND 0xFFFFFFFFFFFF) ?s))
      (root (flush_tlb (va i AND 0xFFFFFFFFFFFF) ?s)) (vpath (va j)) \<noteq> None"
    using Cons.prems(2) by (simp add: root_def)
  then show ?case using Cons.IH[OF wf] st by simp
qed

lemma vmm_create_mmio_returns:
  assumes wf: "vmm_wf s" and mx: "vmm_mutex s = MUTEX_FREE"
    and rng: "in_range MMIO_REGION (k + unat pages)" "0 < unat pages"
    and fr: "range_free s (MMIO_REGION + of_nat (4096 * k)) (unat pages)"
    and mem: "3 * unat pages \<le> card (free_frames s)" and name: "length name < 64" "mmio_region_count s < MAX_MMIO"
  shows "\<exists>v t. vmm_create_mmio physical pages name s = Inr (v, t) \<and> vmm_mutex t = MUTEX_FREE \<and>
    mmio_region_count t = mmio_region_count s + 1 \<and>
    mmio_regions t (mmio_region_count s) = \<lparr>device = name, mmio_physical = physical, mmio_virtual = v, mmio_pages = pages\<rparr>"
proof -
  let ?s = "s\<lparr>vmm_mutex := MUTEX_BUSY\<rparr>"
  obtain j where j: "j \<le> k" "vmm_find ?s MMIO_REGION pages = Some (MMIO_REGION + of_nat (4096 * j))"
    using vmm_find_first[OF rng fr] vmm_find_mutex[OF rng fr] by auto
  let ?v = "MMIO_REGION + of_nat (4096 * j)"
  let ?f = "PAGE_PRESENT OR PAGE_WRITE OR PAGE_UNCACHEABLE"
  have ir: "in_range ?v (unat pages)" using range_shift[OF rng(1) j(1) rng(2)] .
  then have v0: "?v \<noteq> 0" by (auto simp: in_range_def MMIO_REGION_def)
  have nd: "\<forall>i \<in> set [0..<unat pages]. \<not> direct (?v + of_nat i * 4096)"
    using range_page(1)[OF ir] by (simp add: mult.commute)
  obtain t where t: "fold_res (\<lambda>i. vmm_map_page (?v + of_nat i * 4096) (physical + of_nat i * 4096) ?f) [0..<unat pages] ?s = Inr t"
    using vmm_map_run_returns[of ?s "[0..<unat pages]" "\<lambda>i. ?v + of_nat i * 4096" "\<lambda>i. physical + of_nat i * 4096" ?f] wf mem nd by auto
  have "grows ?s t"
  proof (rule fold_res_invariant[OF t grows_refl])
    show "vmm_wf ?s" using wf by simp
    fix i and u u' :: "'a vmm_scheme"
    assume i: "i \<in> set [0..<unat pages]" and u: "grows ?s u"
      and st: "vmm_map_page (?v + of_nat i * 4096) (physical + of_nat i * 4096) ?f u = Inr u'"
    show "grows ?s u'" using grows_trans[OF u vmm_map_page_spec(1)[OF growsD(1)[OF u] _ st]] nd i by blast
  qed
  then have "vmm_mutex t = MUTEX_BUSY" "mmio_region_count t = mmio_region_count s" by (simp_all add: grows_def)
  then show ?thesis using mx j(2) v0 t name by (simp add: vmm_create_mmio_def Let_def not_le)
qed

lemma vmm_set_wc_returns:
  assumes wf: "vmm_wf s" and rng: "in_range page (unat count)"
    and pres: "\<forall>i < unat count. present (vmm_get_page s (page + of_nat (4096 * i)))"
  shows "\<exists>t. vmm_set_wc page count s = Inr t"
  unfolding vmm_set_wc_def
proof (rule vmm_remap_returns[OF wf])
  show "\<forall>i \<in> set [0..<unat count]. \<not> direct (page + of_nat i * 4096) \<and>
      walk (mem s) (root s) (vpath (page + of_nat i * 4096)) \<noteq> None"
  proof
    fix i assume "i \<in> set [0..<unat count]"
    then have i: "i < unat count" by simp
    have nd: "\<not> direct (page + of_nat (4096 * i))" using range_page(1)[OF rng i] .
    obtain t where "walk (mem s) (root s) (vpath (page + of_nat (4096 * i))) = Some t"
      using present_walk[OF wf nd] pres i by blast
    then show "\<not> direct (page + of_nat i * 4096) \<and> walk (mem s) (root s) (vpath (page + of_nat i * 4096)) \<noteq> None"
      using nd by (simp add: mult.commute)
  qed
qed (simp add: Let_def)

end
