(* ===== verification/Heap.thy ===== *)
theory Heap
  imports Vmm_Total
begin

text \<open>
  The kernel heap, \<open>kernel/src/mm/mm.c\<close>, and the start-up of the memory managers
  (\<open>mm_init\<close>, \<open>vmm_init\<close>).  The heap's blocks are reached through the page tables: a byte
  access translates its address, and an access to an unmapped page is a page fault, whose
  handler never returns.  The translation is that of the tables in memory; the cached
  translations of the processor are assumed to agree with them.
\<close>

section \<open>Memory seen through the page tables\<close>

definition vread8 :: "'a vmm_scheme \<Rightarrow> u64 \<Rightarrow> halt + u8" where
  "vread8 s v = (case vmm_get_physical s v of
     None \<Rightarrow> Inl (Panic ''page fault'') | Some p \<Rightarrow> Inr (mem s p))"

definition vwrite8 :: "u64 \<Rightarrow> u8 \<Rightarrow> 'a vmm_scheme \<Rightarrow> halt + 'a vmm_scheme" where
  "vwrite8 v b s = (case vmm_get_physical s v of
     None \<Rightarrow> Inl (Panic ''page fault'') | Some p \<Rightarrow> Inr (s\<lparr>mem := (mem s)(p := b)\<rparr>))"

primrec vread :: "'a vmm_scheme \<Rightarrow> u64 \<Rightarrow> nat \<Rightarrow> halt + u8 list" where
  "vread s v 0 = Inr []"
| "vread s v (Suc n) = bnd (vread8 s v) (\<lambda>b. bnd (vread s (v + 1) n) (\<lambda>bs. Inr (b # bs)))"

definition vread64 :: "'a vmm_scheme \<Rightarrow> u64 \<Rightarrow> halt + u64" where
  "vread64 s v = bnd (vread s v 8) (\<lambda>bs. Inr (le_word bs))"

definition vwrite64 :: "u64 \<Rightarrow> u64 \<Rightarrow> 'a vmm_scheme \<Rightarrow> halt + 'a vmm_scheme" where
  "vwrite64 v x = fold_res (\<lambda>i. vwrite8 (v + of_nat i) (le_bytes 8 x ! i)) [0..<8]"

definition vmemset :: "u64 \<Rightarrow> u8 \<Rightarrow> u64 \<Rightarrow> 'a vmm_scheme \<Rightarrow> halt + 'a vmm_scheme" where
  "vmemset ptr c n = fold_res (\<lambda>i. vwrite8 (ptr + of_nat i) c) [0..<unat n]"

definition vmemcpy :: "u64 \<Rightarrow> u64 \<Rightarrow> u64 \<Rightarrow> 'a vmm_scheme \<Rightarrow> halt + 'a vmm_scheme" where
  "vmemcpy dest src n =
    fold_res (\<lambda>i s. bnd (vread8 s (src + of_nat i)) (\<lambda>b. vwrite8 (dest + of_nat i) b s)) [0..<unat n]"

section \<open>The allocator\<close>

record heap = vmm +
  bsp_pml4 :: u64
  heap_mutex :: mutex_t

definition heap_pages :: "u64 \<Rightarrow> u64" where
  "heap_pages n = (let act_size = n + 2 * 8 in drop_bit 12 (act_size + 4096 - 1))"

definition kmalloc :: "u64 \<Rightarrow> 'a heap_scheme \<Rightarrow> halt + (u64 \<times> 'a heap_scheme)" where
  "kmalloc n s =
    bnd (acquire (heap_mutex s)) (\<lambda>mx.
    let s = s\<lparr>heap_mutex := mx\<rparr>;
        act_size = n + 2 * 8;
        pages = heap_pages n
    in bnd (vmm_alloc KERNEL_HEAP pages KERNEL_HEAP_FLAGS s) (\<lambda>(ptr, s).
       if ptr = 0 then Inr (0, s\<lparr>heap_mutex := release (heap_mutex s)\<rparr>)
       else
         bnd (vmemset ptr 0 act_size s) (\<lambda>s.
         bnd (vwrite64 ptr pages s) (\<lambda>s.
         bnd (vwrite64 (ptr + 8) n s) (\<lambda>s.
         Inr (ptr + 16, s\<lparr>heap_mutex := release (heap_mutex s)\<rparr>))))))"

definition kcalloc :: "u64 \<Rightarrow> u64 \<Rightarrow> 'a heap_scheme \<Rightarrow> halt + (u64 \<times> 'a heap_scheme)" where
  "kcalloc n1 n2 s = kmalloc (n1 * n2) s"

definition kfree :: "u64 \<Rightarrow> 'a heap_scheme \<Rightarrow> halt + 'a heap_scheme" where
  "kfree ptr s = bnd (vread64 s (ptr - 16)) (\<lambda>pages. vmm_free (ptr AND PAGE_MASK) pages s)"

definition krealloc :: "u64 \<Rightarrow> u64 \<Rightarrow> 'a heap_scheme \<Rightarrow> halt + (u64 \<times> 'a heap_scheme)" where
  "krealloc old new_size s =
    bnd (kmalloc new_size s) (\<lambda>(new, s).
      if new = 0 then Inr (0, s)
      else if old \<noteq> 0 then
        bnd (vread64 s (old - 16 + 8)) (\<lambda>n.
        bnd (vmemcpy new old n s) (\<lambda>s.
        bnd (kfree old s) (\<lambda>s. Inr (new, s))))
      else Inr (new, s))"

text \<open>
  \<open>vmm_init\<close>: the address of the table is formed without masking \<open>cr3\<close>.  The block that
  backs \<open>mmio_regions\<close> is zeroed by \<open>kcalloc\<close>; 88 is \<open>sizeof(mmio_t)\<close>.
\<close>

definition vmm_init :: "'a heap_scheme \<Rightarrow> halt + 'a heap_scheme" where
  "vmm_init s =
    (let s = s\<lparr>bsp_pml4 := cr3 s + PHYSICAL_MEMORY\<rparr>;
         s = kwrite64 (bsp_pml4 s) 0 s
     in bnd (kcalloc 88 MAX_MMIO s) (\<lambda>(p, s).
        if p = 0 then Inl (Panic ''unable to allocate memory.'')
        else Inr (s\<lparr>mmio_regions := (\<lambda>_. \<lparr>device = [], mmio_physical = 0, mmio_virtual = 0, mmio_pages = 0\<rparr>),
                    mmio_region_count := 0\<rparr>)))"

definition mm_init :: "(u64 \<Rightarrow> e820_t) \<Rightarrow> u64 \<Rightarrow> 'a heap_scheme \<Rightarrow> halt + 'a heap_scheme" where
  "mm_init e820 e820_map_entries s = bnd (pmm_init e820 e820_map_entries s) vmm_init"

section \<open>The interface of byte memory\<close>

text \<open>
  Code that stores bytes in memory it owns: each store returns, changes the one byte, and
  keeps what is owned.  Loops of stores then act on the contents like the same loop on a
  plain memory.
\<close>

locale byte_memory =
  fixes put :: "u64 \<Rightarrow> u8 \<Rightarrow> 's \<Rightarrow> halt + 's"
    and view :: "'s \<Rightarrow> memory"
    and owned :: "'s \<Rightarrow> u64 \<Rightarrow> bool"
    and wf :: "'s \<Rightarrow> bool"
    and frame :: "'s \<Rightarrow> 's \<Rightarrow> bool"
  assumes put_ok: "wf s \<Longrightarrow> owned s a \<Longrightarrow> \<exists>t. put a b s = Inr t \<and> frame s t \<and>
      (\<forall>c. owned s c \<longrightarrow> view t c = (if c = a then b else view s c))"
    and frame_refl: "frame s s"
    and frame_trans: "frame s t \<Longrightarrow> frame t u \<Longrightarrow> frame s u"
    and frame_wf: "wf s \<Longrightarrow> frame s t \<Longrightarrow> wf t"
    and frame_owned: "wf s \<Longrightarrow> frame s t \<Longrightarrow> owned t = owned s"
begin

lemma put_run:
  assumes "wf s" and "\<forall>i \<in> set xs. owned s (d i)"
    and "\<And>i m m'. i \<in> set xs \<Longrightarrow> (\<forall>c. owned s c \<longrightarrow> m c = m' c) \<Longrightarrow> f i m = f i m'"
    and "\<forall>c. owned s c \<longrightarrow> view s c = m c"
    and body: "\<And>i t. i \<in> set xs \<Longrightarrow> wf t \<Longrightarrow> owned t = owned s \<Longrightarrow> step i t = put (d i) (f i (view t)) t"
  shows "\<exists>t. fold_res step xs s = Inr t \<and> frame s t \<and>
    (\<forall>c. owned s c \<longrightarrow> view t c = fold (\<lambda>i m. m(d i := f i m)) xs m c)"
  using assms
proof (induction xs arbitrary: s m)
  case Nil
  then show ?case by (auto intro: frame_refl)
next
  case (Cons i xs)
  obtain s1 where s1: "put (d i) (f i (view s)) s = Inr s1" "frame s s1"
    "\<forall>c. owned s c \<longrightarrow> view s1 c = (if c = d i then f i (view s) else view s c)"
    using put_ok[OF Cons.prems(1), of "d i" "f i (view s)"] Cons.prems(2) by auto
  have wf1: "wf s1" and own1: "owned s1 = owned s"
    using frame_wf[OF Cons.prems(1) s1(2)] frame_owned[OF Cons.prems(1) s1(2)] .
  have "f i (view s) = f i m" using Cons.prems(3)[of i "view s" m] Cons.prems(4) by simp
  then have m1: "\<forall>c. owned s1 c \<longrightarrow> view s1 c = (m(d i := f i m)) c"
    using s1(3) Cons.prems(4) own1 by simp
  have "\<exists>t. fold_res step xs s1 = Inr t \<and> frame s1 t \<and>
    (\<forall>c. owned s1 c \<longrightarrow> view t c = fold (\<lambda>i m. m(d i := f i m)) xs (m(d i := f i m)) c)"
    by (rule Cons.IH[OF wf1 _ _ m1]) (use Cons.prems(2,3,5) own1 in auto)
  then obtain t where t: "fold_res step xs s1 = Inr t" "frame s1 t"
    "\<forall>c. owned s1 c \<longrightarrow> view t c = fold (\<lambda>i m. m(d i := f i m)) xs (m(d i := f i m)) c"
    by blast
  have "step i s = Inr s1" using Cons.prems(5)[of i s] Cons.prems(1) s1(1) by simp
  then show ?case using t frame_trans[OF s1(2) t(2)] own1 by (auto simp del: fun_upd_apply)
qed

end

section \<open>Heap memory as byte memory\<close>

definition vtrans :: "'a vmm_scheme \<Rightarrow> u64 \<Rightarrow> u64" where
  "vtrans s v = (vmm_get_page s v AND PAGE_MASK) + (v AND 0xFFF)"

definition view :: "'a vmm_scheme \<Rightarrow> memory" where
  "view s v = mem s (vtrans s v)"

text \<open>A state that differs in memory outside the page tables only.\<close>

definition data_step :: "'a vmm_scheme \<Rightarrow> 'a vmm_scheme \<Rightarrow> bool" where
  "data_step s t \<longleftrightarrow>
    (\<exists>m. t = s\<lparr>mem := m\<rparr> \<and> (vmm_wf s \<longrightarrow> (\<forall>a. table_frame s (a AND PAGE_MASK) \<longrightarrow> m a = mem s a)))"

lemma read_table_entry:
  assumes "aligned 4096 t" and "j < 512" and "\<forall>a. a AND PAGE_MASK = t \<longrightarrow> m a = m' a"
  shows "read64 m (t + 8 * j) = read64 m' (t + 8 * j)"
proof -
  have "m (t + 8 * j + of_nat k) = m' (t + 8 * j + of_nat k)" if "k < 8" for k
  proof -
    have "8 * unat j + k < 4096" using assms(2) that by (simp add: word_less_nat_alt)
    moreover have "t + 8 * j + of_nat k = t + of_nat (8 * unat j + k)" by simp
    ultimately show ?thesis using mask_offset[OF assms(1)] assms(3) by metis
  qed
  then show ?thesis by (auto simp: read64_def load_def intro!: arg_cong[of _ _ le_word])
qed

lemma data_step_walk:
  assumes wf: "vmm_wf s" and ag: "\<forall>a. table_frame s (a AND PAGE_MASK) \<longrightarrow> m a = mem s a"
  shows "\<And>p t j. kpath p \<Longrightarrow> walk (mem s) (root s) p = Some t \<Longrightarrow> j < 512 \<Longrightarrow>
      read64 m (t + 8 * j) = read64 (mem s) (t + 8 * j)"
    and "\<And>p. kpath p \<Longrightarrow> walk m (root s) p = walk (mem s) (root s) p"
proof -
  have tr: "tree (mem s) (root s) (pmm_get_page s)" using wf by (simp add: vmm_wf_def)
  show rd: "read64 m (t + 8 * j) = read64 (mem s) (t + 8 * j)"
    if "kpath p" "walk (mem s) (root s) p = Some t" "j < 512" for p t j
    using ag that treeD(5)[OF tr that(1,2)] by (intro read_table_entry) (auto simp: table_frame_def)
  show "walk m (root s) p = walk (mem s) (root s) p" if "kpath p" for p
    using that
  proof (induction p rule: rev_induct)
    case (snoc i p)
    have kp: "kpath p" "i < 512" using snoc.prems kpath_append by (auto simp: kpath_def)
    then show ?case using snoc.IH rd[OF kp(1) _ kp(2)] by (auto split: option.splits)
  qed simp
qed

lemma data_step_wf:
  assumes wf: "vmm_wf s" and st: "data_step s t"
  shows "vmm_wf t" and "table_frame t = table_frame s"
    and "\<And>v. \<not> direct v \<Longrightarrow> vmm_get_page t v = vmm_get_page s v"
proof -
  obtain m where t: "t = s\<lparr>mem := m\<rparr>" and ag: "\<forall>a. table_frame s (a AND PAGE_MASK) \<longrightarrow> m a = mem s a"
    using wf st by (auto simp: data_step_def)
  note w = data_step_walk[OF wf ag]
  have tr: "tree (mem s) (root s) (pmm_get_page s)" using wf by (simp add: vmm_wf_def)
  note d = treeD[OF tr]
  have rt: "root t = root s" "mem t = m" by (simp_all add: t root_def)
  have "tree m (root s) (pmm_get_page s)"
    unfolding tree_def
  proof (intro conjI allI impI)
    fix p i u assume *: "kpath (p @ [i])" "walk m (root s) p = Some u" "present (read64 m (u + 8 * i))"
    then have "kpath p" "i < 512" using kpath_append by (auto simp: kpath_def)
    then show "read64 m (u + 8 * i) AND PAGE_LARGE = 0" using * w d(4)[OF *(1)] by simp
  qed (use w(2) d in auto)
  then show wft: "vmm_wf t" using wf unfolding vmm_wf_def rt by (simp add: t)
  show "table_frame t = table_frame s" using w(2) by (auto simp: table_frame_def rt fun_eq_iff)
  show "vmm_get_page t v = vmm_get_page s v" if "\<not> direct v" for v
    using vmm_get_page_leaf[OF wft that] vmm_get_page_leaf[OF wf that] w kpath_vpath[OF that]
    by (auto simp: leaf_def rt split: option.splits)
qed

lemma data_step_heap:
  assumes wf: "heap_wf s" and st: "data_step s t"
  shows "heap_wf t" and "heap_owns t = heap_owns s" and "\<And>v. heap_owns s v \<Longrightarrow> vtrans t v = vtrans s v"
proof -
  note w = data_step_wf[OF heap_wfD(1)[OF wf] st]
  have get: "vmm_get_page t v = vmm_get_page s v" if "KERNEL_HEAP \<le> v" for v
    using w(3) heap_not_direct[OF that] .
  show own: "heap_owns t = heap_owns s" using get by (auto simp: heap_owns_def fun_eq_iff)
  have pg: "pmm_get_page t = pmm_get_page s" using st by (auto simp: data_step_def)
  have eq: "vmm_get_page t v = vmm_get_page s v" if "heap_owns s v" for v
    using get that by (simp add: heap_owns_def)
  note h = heap_wfD[OF wf]
  show "heap_wf t"
    unfolding heap_wf_def own w(2) pg
  proof (intro conjI allI impI)
    fix v w assume "heap_owns s v" "heap_owns s w" "vmm_get_page t v div 4096 = vmm_get_page t w div 4096"
    then show "vpn v = vpn w" using h(5)[of v w] eq[of v] eq[of w] by simp
  qed (use w(1) h(2-4) eq in auto)
  show "vtrans t v = vtrans s v" if "heap_owns s v" for v
    using get that by (simp add: vtrans_def heap_owns_def)
qed

lemma data_step_refl: "data_step s s"
  unfolding data_step_def by (rule exI[of _ "mem s"]) simp

lemma data_step_trans:
  assumes "data_step s t" and "data_step t u"
  shows "data_step s u"
proof -
  obtain m where t: "t = s\<lparr>mem := m\<rparr>" "vmm_wf s \<longrightarrow> (\<forall>a. table_frame s (a AND PAGE_MASK) \<longrightarrow> m a = mem s a)"
    using assms(1) by (auto simp: data_step_def)
  obtain m' where u: "u = t\<lparr>mem := m'\<rparr>" "vmm_wf t \<longrightarrow> (\<forall>a. table_frame t (a AND PAGE_MASK) \<longrightarrow> m' a = mem t a)"
    using assms(2) by (auto simp: data_step_def)
  show ?thesis unfolding data_step_def
  proof (intro exI conjI impI allI)
    show "u = s\<lparr>mem := m'\<rparr>" by (simp add: u(1) t(1))
    fix a assume wf: "vmm_wf s" and a: "table_frame s (a AND PAGE_MASK)"
    show "m' a = mem s a" using data_step_wf(1,2)[OF wf assms(1)] u(2) t wf a by simp
  qed
qed

lemma unat_low12: "unat (v AND 0xFFF) = unat v mod 4096" for v :: u64
proof -
  have "v AND 0xFFF = take_bit 12 v" by (simp add: take_bit_eq_mask mask_eq_exp_minus_1)
  then show ?thesis by (simp add: unsigned_take_bit_eq take_bit_eq_mod unat_mod)
qed

lemma vtrans_offset: "vtrans s v = (vmm_get_page s v AND PAGE_MASK) + of_nat (unat v mod 4096)"
  by (simp add: vtrans_def flip: unat_low12)

lemma vtrans_mask: "vtrans s v AND PAGE_MASK = vmm_get_page s v AND PAGE_MASK"
  unfolding vtrans_offset by (rule mask_offset) simp_all

lemma vtrans_inj:
  assumes "heap_wf s" and "heap_owns s v" and "heap_owns s w" and "vtrans s v = vtrans s w"
  shows "v = w"
proof -
  have "vmm_get_page s v AND PAGE_MASK = vmm_get_page s w AND PAGE_MASK"
    using assms(4) vtrans_mask by metis
  then have pn: "vpn v = vpn w"
    using heap_wfD(5)[OF assms(1-3)] by (simp add: mask_eq_iff)
  have "PHYSICAL_MEMORY \<le> v" "PHYSICAL_MEMORY \<le> w"
    using assms(2,3) by (simp_all add: heap_owns_def KERNEL_HEAP_def PHYSICAL_MEMORY_def word_le_nat_alt)
  then have "unat v div 4096 = unat w div 4096" using pn high_vpn by simp
  moreover have "v AND 0xFFF = w AND 0xFFF"
    using assms(4) \<open>vmm_get_page s v AND PAGE_MASK = _\<close> by (simp add: vtrans_def)
  then have "unat v mod 4096 = unat w mod 4096" using unat_low12 by metis
  ultimately have "unat v = unat w" by (metis div_mult_mod_eq)
  then show ?thesis by (simp add: word_unat_eq_iff)
qed

lemma heap_physical:
  assumes "heap_owns s v"
  shows "vmm_get_physical s v = Some (vtrans s v)"
proof -
  have "\<not> v < MMIO_REGION"
    using assms by (auto simp: heap_owns_def KERNEL_HEAP_def MMIO_REGION_def word_le_nat_alt word_less_nat_alt)
  then show ?thesis using assms
    by (auto simp: vmm_get_physical_def vtrans_def heap_owns_def present_def Let_def)
qed

interpretation heap_bytes: byte_memory vwrite8 view heap_owns heap_wf data_step
proof unfold_locales
  fix s :: "'a vmm_scheme" and a b
  assume wf: "heap_wf s" and own: "heap_owns s a"
  let ?t = "s\<lparr>mem := (mem s)(vtrans s a := b)\<rparr>"
  have wr: "vwrite8 a b s = Inr ?t" by (simp add: vwrite8_def heap_physical[OF own])
  have "\<not> table_frame s (vtrans s a AND PAGE_MASK)"
    using heap_wfD(4)[OF wf own] by (simp add: vtrans_mask)
  then have st: "data_step s ?t" unfolding data_step_def by (intro exI[of _ "mem ?t"]) auto
  have "view ?t c = (if c = a then b else view s c)" if "heap_owns s c" for c
    using data_step_heap(3)[OF wf st that] vtrans_inj[OF wf that own] by (auto simp: view_def)
  then show "\<exists>t. vwrite8 a b s = Inr t \<and> data_step s t \<and>
      (\<forall>c. heap_owns s c \<longrightarrow> view t c = (if c = a then b else view s c))"
    using wr st by blast
qed (auto intro: data_step_refl data_step_trans data_step_heap)

lemma vread8_heap: "heap_owns s a \<Longrightarrow> vread8 s a = Inr (view s a)"
  by (simp add: vread8_def heap_physical view_def)

lemma load_Suc: "load m a (Suc n) = m a # load m (a + 1) n"
  by (auto intro!: nth_equalityI simp: nth_Cons add_ac split: nat.split)

lemma vread_heap: "(\<forall>i < n. heap_owns s (a + of_nat i)) \<Longrightarrow> vread s a n = Inr (load (view s) a n)"
proof (induction n arbitrary: a)
  case 0
  then show ?case by (simp add: load_def)
next
  case (Suc n)
  have "heap_owns s a" using Suc.prems[rule_format, of 0] by simp
  moreover have "heap_owns s (a + 1 + of_nat i)" if "i < n" for i
    using Suc.prems[rule_format, of "Suc i"] that by (simp add: add_ac)
  ultimately show ?case using Suc.IH[of "a + 1"] by (simp add: vread8_heap load_Suc)
qed

lemma vread64_heap:
  "(\<forall>i < 8. heap_owns s (a + of_nat i)) \<Longrightarrow> vread64 s a = Inr (read64 (view s) a)"
  using vread_heap[of 8 s a] by (simp add: vread64_def read64_def)

text \<open>
  The loops of the C library on heap memory act on its contents as they act on a flat memory.
\<close>

lemma vmemset_heap:
  assumes "heap_wf s" and "\<forall>i < unat n. heap_owns s (p + of_nat i)"
  shows "\<exists>t. vmemset p c n s = Inr t \<and> data_step s t \<and>
    (\<forall>a. heap_owns s a \<longrightarrow> view t a = store (view s) p (replicate (unat n) c) a)"
proof -
  have "\<exists>t. vmemset p c n s = Inr t \<and> data_step s t \<and>
    (\<forall>a. heap_owns s a \<longrightarrow> view t a = fold (\<lambda>i m. m(p + of_nat i := c)) [0..<unat n] (view s) a)"
    unfolding vmemset_def by (rule heap_bytes.put_run) (use assms in auto)
  then show ?thesis using unat_less_size[of n] by (simp add: memset_loop)
qed

lemma fold_store:
  "n \<le> 2 ^ 64 \<Longrightarrow> length bs = n \<Longrightarrow> fold (\<lambda>i m. m(p + of_nat i := bs ! i)) [0..<n] m = store m p bs"
proof (induction n arbitrary: bs)
  case 0
  then show ?case by (simp add: store_def)
next
  case (Suc n)
  have "x = p + of_nat n \<longleftrightarrow> unat (x - p) = n" for x using Suc.prems by (intro offset_iff) simp
  then have new: "(store m p (take n bs))(p + of_nat n := bs ! n) = store m p bs"
    using Suc.prems by (auto simp: store_def fun_eq_iff less_Suc_eq)
  have "fold (\<lambda>i m. m(p + of_nat i := bs ! i)) [0..<n] m =
      fold (\<lambda>i m. m(p + of_nat i := take n bs ! i)) [0..<n] m" by (rule fold_cong) auto
  also have "\<dots> = store m p (take n bs)" using Suc.prems by (intro Suc.IH) auto
  finally show ?case using new by (simp del: fun_upd_apply)
qed

lemma vwrite64_heap:
  assumes "heap_wf s" and "\<forall>i < 8. heap_owns s (p + of_nat i)"
  shows "\<exists>t. vwrite64 p x s = Inr t \<and> data_step s t \<and>
    (\<forall>a. heap_owns s a \<longrightarrow> view t a = write64 (view s) p x a)"
proof -
  have "\<exists>t. vwrite64 p x s = Inr t \<and> data_step s t \<and>
    (\<forall>a. heap_owns s a \<longrightarrow> view t a = fold (\<lambda>i m. m(p + of_nat i := le_bytes 8 x ! i)) [0..<8] (view s) a)"
    unfolding vwrite64_def by (rule heap_bytes.put_run) (use assms in auto)
  then show ?thesis unfolding write64_def by (subst (asm) fold_store) auto
qed

lemma vmemcpy_heap:
  assumes "heap_wf s" and "\<forall>i < unat n. heap_owns s (d + of_nat i)" "\<forall>i < unat n. heap_owns s (p + of_nat i)"
    and "d = p \<or> unat n \<le> unat (d - p)"
  shows "\<exists>t. vmemcpy d p n s = Inr t \<and> data_step s t \<and>
    (\<forall>a. heap_owns s a \<longrightarrow> view t a = store (view s) d (load (view s) p (unat n)) a)"
proof -
  have "\<exists>t. vmemcpy d p n s = Inr t \<and> data_step s t \<and>
    (\<forall>a. heap_owns s a \<longrightarrow> view t a = fold (\<lambda>i m. m(d + of_nat i := m (p + of_nat i))) [0..<unat n] (view s) a)"
    unfolding vmemcpy_def by (rule heap_bytes.put_run) (use assms in \<open>auto simp: vread8_heap\<close>)
  then show ?thesis using unat_less_size[of n] assms(4) by (subst (asm) memmove_loop) auto
qed

section \<open>Blocks\<close>

lemma heap_mutex_update [simp]:
  fixes s :: "'a heap_scheme"
  shows "heap_wf (s\<lparr>heap_mutex := x\<rparr>) = heap_wf s" "heap_owns (s\<lparr>heap_mutex := x\<rparr>) = heap_owns s"
    "view (s\<lparr>heap_mutex := x\<rparr>) = view s" "free_frames (s\<lparr>heap_mutex := x\<rparr>) = free_frames s"
    "range_free (s\<lparr>heap_mutex := x\<rparr>) = range_free s"
    "table_frame (s\<lparr>heap_mutex := x\<rparr>) = table_frame s" "pmm_get_page (s\<lparr>heap_mutex := x\<rparr>) = pmm_get_page s"
    "vmm_get_page (s\<lparr>heap_mutex := x\<rparr>) = vmm_get_page s"
proof -
  show a: "pmm_get_page (s\<lparr>heap_mutex := x\<rparr>) = pmm_get_page s"
    by (simp add: pmm_get_page_def fun_eq_iff)
  show b: "vmm_get_page (s\<lparr>heap_mutex := x\<rparr>) = vmm_get_page s"
    by (simp add: vmm_get_page_def kread64_def fun_eq_iff Let_def)
  show c: "table_frame (s\<lparr>heap_mutex := x\<rparr>) = table_frame s"
    by (simp add: table_frame_def root_def fun_eq_iff)
  show d: "heap_owns (s\<lparr>heap_mutex := x\<rparr>) = heap_owns s"
    unfolding heap_owns_def b fun_eq_iff by simp
  show "view (s\<lparr>heap_mutex := x\<rparr>) = view s" unfolding view_def vtrans_def b fun_eq_iff by simp
  show "free_frames (s\<lparr>heap_mutex := x\<rparr>) = free_frames s" unfolding free_frames_def a by simp
  show "range_free (s\<lparr>heap_mutex := x\<rparr>) = range_free s"
    unfolding range_free_def vmm_get_physical_def b fun_eq_iff by simp
  have "vmm_wf (s\<lparr>heap_mutex := x\<rparr>) = vmm_wf s"
    unfolding vmm_wf_def a by (simp add: root_def pmm_ready_def page_used_def)
  then show "heap_wf (s\<lparr>heap_mutex := x\<rparr>) = heap_wf s"
    unfolding heap_wf_def a b c d by simp
qed

lemma heap_more: "vmm.more t = vmm.more s \<Longrightarrow> heap_mutex t = heap_mutex s \<and> bsp_pml4 t = bsp_pml4 s"
  by (cases s, cases t) simp

lemma data_step_more: "data_step s t \<Longrightarrow> vmm.more t = vmm.more s \<and> vmm_mutex t = vmm_mutex s"
  by (auto simp: data_step_def)

lemma range_byte:
  assumes "in_range p n" and "aligned 4096 p" and "k < 4096 * n"
  shows "unat (p + of_nat k) = unat p + k" and "vpn (p + of_nat k) = vpn (p + of_nat (4096 * (k div 4096)))"
proof -
  have u: "unat (p + of_nat j) = unat p + j" if "j < 4096 * n" for j
    using assms(1) that by (intro unat_add_nat) (auto simp: in_range_def)
  show "unat (p + of_nat k) = unat p + k" using u[OF assms(3)] .
  have "4096 * (k div 4096) < 4096 * n" using assms(3) by (simp add: less_mult_imp_div_less mult.commute)
  then have "unat (p + of_nat k) div 4096 = unat (p + of_nat (4096 * (k div 4096))) div 4096"
    using u[OF assms(3)] u[of "4096 * (k div 4096)"] assms(2) by (auto simp: aligned_def elim!: dvdE)
  then show "vpn (p + of_nat k) = vpn (p + of_nat (4096 * (k div 4096)))"
    by (simp add: word_unat_eq_iff unat_vpn)
qed

lemma range_owned:
  assumes "in_range p n" and "aligned 4096 p" and "KERNEL_HEAP \<le> p" and "k < 4096 * n"
  shows "heap_owns s (p + of_nat k) \<longleftrightarrow> present (vmm_get_page s (p + of_nat (4096 * (k div 4096))))"
proof -
  have "KERNEL_HEAP \<le> p + of_nat k"
    using assms(3) range_byte(1)[OF assms(1,2,4)] by (simp add: word_le_nat_alt)
  then show ?thesis
    using vmm_get_page_cong[OF range_byte(2)[OF assms(1,2,4)], of s] by (simp add: heap_owns_def)
qed

definition heap_ok :: "'a heap_scheme \<Rightarrow> bool" where
  "heap_ok s \<longleftrightarrow> heap_wf s \<and> vmm_mutex s = MUTEX_FREE \<and> heap_mutex s = MUTEX_FREE"

text \<open>
  The block whose pages start at \<open>p\<close> and that holds \<open>n\<close> bytes; its user gets the address
  \<open>p + 16\<close>.
\<close>

definition heap_block :: "'a heap_scheme \<Rightarrow> u64 \<Rightarrow> u64 \<Rightarrow> bool" where
  "heap_block s p n \<longleftrightarrow> aligned 4096 p \<and> KERNEL_HEAP \<le> p \<and> unat n + 4111 < 2 ^ 64 \<and>
    in_range p (unat (heap_pages n)) \<and>
    (\<forall>i < 4096 * unat (heap_pages n). heap_owns s (p + of_nat i)) \<and>
    read64 (view s) p = heap_pages n \<and> read64 (view s) (p + 8) = n"

lemma heap_pages_unat:
  assumes "unat n + 4111 < 2 ^ 64"
  shows "unat (heap_pages n) = (unat n + 4111) div 4096" and "unat (n + 16) = unat n + 16"
    and "unat n + 16 \<le> 4096 * unat (heap_pages n)" and "0 < unat (heap_pages n)"
proof -
  have "n + 16 + 4096 - 1 = n + 4111" by simp
  then have "heap_pages n = (n + 4111) div 4096"
    unfolding heap_pages_def Let_def by (simp only: drop_bit_eq_div) (simp add: add.commute)
  moreover have "unat (n + 4111) = unat n + 4111" using unat_add_nat[of n 4111] assms by simp
  ultimately show u: "unat (heap_pages n) = (unat n + 4111) div 4096" by (simp only: unat_div) simp
  show "unat (n + 16) = unat n + 16" using unat_add_nat[of n 16] assms by simp
  show "unat n + 16 \<le> 4096 * unat (heap_pages n)" "0 < unat (heap_pages n)" unfolding u by simp_all
qed

lemma aligned_KERNEL_HEAP: "aligned 4096 (KERNEL_HEAP + of_nat (4096 * j))"
proof -
  have "aligned 4096 KERNEL_HEAP" by (simp add: aligned_def KERNEL_HEAP_def)
  moreover have "aligned 4096 (of_nat (4096 * j))"
    by (simp add: aligned_def unat_word_ariths unat_of_nat dvd_mod)
  ultimately show ?thesis by (rule aligned_add) simp
qed

lemma range_vpn_byte:
  assumes "in_range p n" and "aligned 4096 p" and "i < n" and "KERNEL_HEAP \<le> a"
    and "vpn a = vpn (p + of_nat (4096 * i))"
  shows "\<exists>k < 4096 * n. a = p + of_nat k"
proof -
  let ?q = "p + of_nat (4096 * i)" and ?k = "4096 * i + unat a mod 4096"
  have hi: "PHYSICAL_MEMORY \<le> a" "PHYSICAL_MEMORY \<le> ?q"
    using assms(4) range_ge_mmio[OF assms(1,3)]
    by (simp_all add: KERNEL_HEAP_def PHYSICAL_MEMORY_def MMIO_REGION_def word_le_nat_alt)
  have "unat a div 4096 = unat ?q div 4096" using high_vpn[OF hi(1)] high_vpn[OF hi(2)] assms(5) by simp
  then have "unat a div 4096 = unat p div 4096 + i" using unat_range[OF assms(1,3)] by simp
  moreover have "unat p mod 4096 = 0" using assms(2) by (simp add: aligned_def)
  ultimately have ua: "unat a = unat p + ?k"
    using div_mult_mod_eq[of "unat a" 4096] div_mult_mod_eq[of "unat p" 4096] by simp
  have "unat a mod 4096 < 4096" by simp
  then have lt: "?k < 4096 * n" using assms(3) by linarith
  have "a = p + of_nat ?k" using ua range_byte(1)[OF assms(1,2) lt] by (simp add: word_unat_eq_iff)
  then show ?thesis using lt by blast
qed

text \<open>Obtaining the pages of a block.\<close>

lemma vmm_alloc_heap:
  assumes wf: "heap_wf s" and mx: "vmm_mutex s = MUTEX_FREE"
    and rng: "in_range KERNEL_HEAP (k + unat count)" "0 < unat count"
    and fr: "range_free s (KERNEL_HEAP + of_nat (4096 * k)) (unat count)"
    and mem: "count < total_pages s - used_pages s" "4 * unat count \<le> card (free_frames s)"
  obtains p t where "vmm_alloc KERNEL_HEAP count KERNEL_HEAP_FLAGS s = Inr (p, t)" "p \<noteq> 0"
    "heap_wf t" "vmm_mutex t = MUTEX_FREE" "vmm.more t = vmm.more s"
    "aligned 4096 p" "KERNEL_HEAP \<le> p" "in_range p (unat count)"
    "\<And>i. i < 4096 * unat count \<Longrightarrow> heap_owns t (p + of_nat i) \<and> \<not> heap_owns s (p + of_nat i)"
    "\<And>a. heap_owns s a \<Longrightarrow> heap_owns t a \<and> view t a = view s a"
    "\<And>a. heap_owns t a \<Longrightarrow> heap_owns s a \<or> (\<exists>i < 4096 * unat count. a = p + of_nat i)"
    "total_pages t = total_pages s" "card (free_frames s) \<le> 4 * unat count + card (free_frames t)"
    "frame_total t = frame_total s" "free_frames t \<subseteq> free_frames s"
proof -
  note vwf = heap_wfD(1)[OF wf]
  obtain p t where run: "vmm_alloc KERNEL_HEAP count KERNEL_HEAP_FLAGS s = Inr (p, t)" "p \<noteq> 0" "vmm_mutex t = MUTEX_FREE"
    "card (free_frames s) \<le> 4 * unat count + card (free_frames t)" "frame_total t = frame_total s"
    using vmm_alloc_returns[OF vwf mx rng fr mem] .
  note sp = vmm_alloc_spec[OF vwf rng fr run(1,2)]
  obtain j where j: "j \<le> k" "p = KERNEL_HEAP + of_nat (4096 * j)" "range_free s p (unat count)" using sp(1) by blast
  obtain frame where fresh: "mapped_fresh s t p KERNEL_HEAP_FLAGS [0..<unat count] frame" using sp(4) by blast
  have gr: "grows s t" using sp(3) run(3) mx by (metis (no_types, lifting) vmm.surjective vmm.update_convs(1))
  have wft: "heap_wf t" using heap_wf_mapped_fresh[OF wf gr fresh sp(2)] .
  have al: "aligned 4096 p" using aligned_KERNEL_HEAP j(2) by simp
  have kh: "KERNEL_HEAP \<le> p"
    using unat_range[OF rng(1), of j] j rng(2) by (simp add: word_le_nat_alt)
  have new: "heap_owns t (p + of_nat i) \<and> \<not> heap_owns s (p + of_nat i)" if i: "i < 4096 * unat count" for i
  proof -
    let ?q = "p + of_nat (4096 * (i div 4096))"
    have q: "i div 4096 < unat count" using i by (simp add: less_mult_imp_div_less mult.commute)
    have "present (vmm_get_page t ?q)"
      using fresh q frame_flags(3) unfolding mapped_fresh_def by auto
    moreover have "vmm_get_physical s ?q = None" using j(3) q by (simp add: range_free_def)
    then have "\<not> heap_owns s ?q" using heap_physical[of s ?q] by auto
    moreover have "KERNEL_HEAP \<le> ?q" using kh unat_range[OF sp(2) q] by (simp add: word_le_nat_alt)
    ultimately show ?thesis
      using range_owned[OF sp(2) al kh i, of s] range_owned[OF sp(2) al kh i, of t]
      by (auto simp: heap_owns_def)
  qed
  have old: "heap_owns t a \<and> view t a = view s a" if a: "heap_owns s a" for a
  proof -
    have "vpn a \<noteq> vpn (p + of_nat (4096 * i))" if "i < unat count" for i
    proof
      assume "vpn a = vpn (p + of_nat (4096 * i))"
      then have "vmm_get_page s a = vmm_get_page s (p + of_nat (4096 * i))" by (rule vmm_get_page_cong)
      moreover have "KERNEL_HEAP \<le> p + of_nat (4096 * i)" using kh unat_range[OF sp(2) that] by (simp add: word_le_nat_alt)
      ultimately show False using new[of "4096 * i"] that a by (simp add: heap_owns_def)
    qed
    moreover have "\<not> direct a" using a heap_not_direct by (simp add: heap_owns_def)
    ultimately have get: "vmm_get_page t a = vmm_get_page s a" using fresh by (simp add: mapped_fresh_def)
    have "mem t (vtrans s a) = mem s (vtrans s a)"
      using growsD(4)[OF gr] heap_wfD(3,4)[OF wf a] by (simp add: vtrans_mask)
    then show ?thesis using a get by (simp add: heap_owns_def view_def vtrans_def)
  qed
  have only: "heap_owns s a \<or> (\<exists>i < 4096 * unat count. a = p + of_nat i)" if a: "heap_owns t a" for a
  proof (cases "\<exists>i < unat count. vpn a = vpn (p + of_nat (4096 * i))")
    case True
    then show ?thesis using range_vpn_byte[OF sp(2) al] a by (auto simp: heap_owns_def)
  next
    case False
    have "\<not> direct a" using a heap_not_direct by (simp add: heap_owns_def)
    then have "vmm_get_page t a = vmm_get_page s a" using fresh False by (auto simp: mapped_fresh_def)
    then show ?thesis using a by (simp add: heap_owns_def)
  qed
  have "vmm.more t = vmm.more s" "total_pages t = total_pages s" using gr by (simp_all add: grows_def)
  moreover have "free_frames t \<subseteq> free_frames s"
    using gr unfolding grows_def free_frames_def by auto
  ultimately show ?thesis using run(4,5) only by (intro that[OF run(1,2) wft run(3) _ al kh sp(2) new old]) auto
qed

section \<open>Allocation, release and resizing of blocks\<close>

lemma read64_cong: "(\<And>i. i < 8 \<Longrightarrow> m (a + of_nat i) = m' (a + of_nat i)) \<Longrightarrow> read64 m a = read64 m' a"
  by (auto simp: read64_def load_def intro!: arg_cong[of _ _ le_word])

lemma heap_block_owns:
  assumes "heap_block s p n" and "k < 16 + unat n"
  shows "heap_owns s (p + of_nat k)"
proof -
  have "unat n + 4111 < 2 ^ 64" using assms(1) by (simp add: heap_block_def)
  from heap_pages_unat(3)[OF this] show ?thesis using assms by (simp add: heap_block_def)
qed

lemma heap_block_keep:
  assumes blk: "heap_block s p n"
    and keep: "\<And>i. i < 4096 * unat (heap_pages n) \<Longrightarrow> heap_owns t (p + of_nat i)"
    and eq: "\<And>i. i < 16 \<Longrightarrow> view t (p + of_nat i) = view s (p + of_nat i)"
  shows "heap_block t p n"
proof -
  have "view t (p + 8 + of_nat i) = view s (p + 8 + of_nat i)" if "i < 8" for i
    using eq[of "8 + i"] that by (simp add: add.assoc)
  then have "read64 (view t) p = read64 (view s) p" "read64 (view t) (p + 8) = read64 (view s) (p + 8)"
    using eq by (auto intro!: read64_cong)
  then show ?thesis using blk keep by (simp add: heap_block_def)
qed

lemma store_after:
  assumes "length bs \<le> k" and "k < 2 ^ 64"
  shows "store m p bs (p + of_nat k) = m (p + of_nat k)"
  using assms by (intro store_out) (simp add: unat_of_nat)

text \<open>The contents of a new block: the two words of the header, then zeros.\<close>

definition block_image :: "memory \<Rightarrow> u64 \<Rightarrow> u64 \<Rightarrow> memory" where
  "block_image m p n =
    write64 (write64 (store m p (replicate (unat n + 16) 0)) p (heap_pages n)) (p + 8) n"

lemma block_image:
  assumes al: "aligned 4096 p" and size: "unat n + 4111 < 2 ^ 64"
  shows "read64 (block_image m p n) p = heap_pages n" and "read64 (block_image m p n) (p + 8) = n"
    and "\<And>i. i < unat n \<Longrightarrow> block_image m p n (p + of_nat (16 + i)) = 0"
    and "\<And>a. unat n + 16 \<le> unat (a - p) \<Longrightarrow> block_image m p n a = m a"
proof -
  have al8: "aligned 8 p" using al unfolding aligned_def by (rule dvd_trans[rotated]) simp
  then have "aligned 8 (p + 8)" by (rule aligned_add) (simp_all add: aligned_def)
  then show "read64 (block_image m p n) p = heap_pages n"
    using al8 by (simp add: block_image_def read64_write64_other)
  show "read64 (block_image m p n) (p + 8) = n" by (simp add: block_image_def)
  have out: "block_image m p n (p + of_nat k) = store m p (replicate (unat n + 16) 0) (p + of_nat k)"
    if "16 \<le> k" "k < 2 ^ 64" for k
  proof -
    have eq: "p + of_nat k = p + 8 + of_nat (k - 8)" using that by (simp add: of_nat_diff)
    have "block_image m p n (p + of_nat k) = write64 (store m p (replicate (unat n + 16) 0)) p (heap_pages n) (p + of_nat k)"
      unfolding block_image_def eq write64_def[of _ "p + 8"] using that by (intro store_after) auto
    also have "\<dots> = store m p (replicate (unat n + 16) 0) (p + of_nat k)"
      unfolding write64_def using that by (intro store_after) auto
    finally show ?thesis .
  qed
  show "block_image m p n (p + of_nat (16 + i)) = 0" if "i < unat n" for i
    using out[of "16 + i"] store_in[of "16 + i" "replicate (unat n + 16) 0" m p] that size by (simp del: of_nat_add)
  show "block_image m p n a = m a" if "unat n + 16 \<le> unat (a - p)" for a
    using out[of "unat (a - p)"] store_after[of "replicate (unat n + 16) 0" "unat (a - p)" m p]
      that unat_less_size[of "a - p"] by simp
qed

lemma block_init:
  assumes wf: "heap_wf s" and size: "unat n + 4111 < 2 ^ 64"
    and p: "aligned 4096 p" "in_range p (unat (heap_pages n))"
    and own: "\<And>i. i < 4096 * unat (heap_pages n) \<Longrightarrow> heap_owns s (p + of_nat i)"
  obtains t where "bnd (vmemset p 0 (n + 16) s) (\<lambda>s. bnd (vwrite64 p (heap_pages n) s) (vwrite64 (p + 8) n)) = Inr t"
    "data_step s t"
    "\<And>a. heap_owns s a \<Longrightarrow>
      view t a = block_image (view s) p n a"
proof -
  note hp = heap_pages_unat[OF size]
  obtain t1 where t1: "vmemset p 0 (n + 16) s = Inr t1" "data_step s t1"
    "\<And>a. heap_owns s a \<Longrightarrow> view t1 a = store (view s) p (replicate (unat n + 16) 0) a"
    using vmemset_heap[OF wf, of "n + 16" p 0] own hp by auto
  note h1 = data_step_heap[OF wf t1(2)]
  have "\<forall>i < 8. heap_owns t1 (p + of_nat i)" using own hp h1(2) by simp
  then obtain t2 where t2: "vwrite64 p (heap_pages n) t1 = Inr t2" "data_step t1 t2"
    "\<And>a. heap_owns s a \<Longrightarrow> view t2 a = write64 (view t1) p (heap_pages n) a"
    using vwrite64_heap[OF h1(1), of p "heap_pages n"] h1(2) by auto
  note h2 = data_step_heap[OF h1(1) t2(2)]
  have "\<forall>i < 8. heap_owns t2 (p + 8 + of_nat i)"
  proof (intro allI impI)
    fix i :: nat assume "i < 8"
    then show "heap_owns t2 (p + 8 + of_nat i)" using own[of "8 + i"] hp h1(2) h2(2) by (simp add: add.assoc)
  qed
  then obtain t where t: "vwrite64 (p + 8) n t2 = Inr t" "data_step t2 t"
    "\<And>a. heap_owns s a \<Longrightarrow> view t a = write64 (view t2) (p + 8) n a"
    using vwrite64_heap[OF h2(1), of "p + 8" n] h2(2) h1(2) by auto
  have "view t a = block_image (view s) p n a" if "heap_owns s a" for a
    using t(3)[OF that] t2(3)[OF that] t1(3)[OF that] by (simp add: block_image_def write64_def store_def)
  moreover have "data_step s t" using data_step_trans[OF t1(2) data_step_trans[OF t2(2) t(2)]] .
  moreover have "bnd (vmemset p 0 (n + 16) s) (\<lambda>s. bnd (vwrite64 p (heap_pages n) s) (vwrite64 (p + 8) n)) = Inr t"
    using t1(1) t2(1) t(1) by simp
  ultimately show ?thesis using that by blast
qed

definition heap_room :: "'a heap_scheme \<Rightarrow> u64 \<Rightarrow> bool" where
  "heap_room s n \<longleftrightarrow> unat n + 4111 < 2 ^ 64 \<and>
    heap_pages n < total_pages s - used_pages s \<and> 4 * unat (heap_pages n) \<le> card (free_frames s) \<and>
    (\<exists>k. in_range KERNEL_HEAP (k + unat (heap_pages n)) \<and>
      range_free s (KERNEL_HEAP + of_nat (4096 * k)) (unat (heap_pages n)))"

text \<open>What an allocation of \<open>n\<close> bytes at the block \<open>p\<close> guarantees.\<close>

definition allocated :: "'a heap_scheme \<Rightarrow> 'a heap_scheme \<Rightarrow> u64 \<Rightarrow> u64 \<Rightarrow> bool" where
  "allocated s t p n \<longleftrightarrow> heap_ok t \<and> heap_block t p n \<and> p + 16 \<noteq> 0 \<and>
    (\<forall>i < unat n. view t (p + 16 + of_nat i) = 0) \<and>
    (\<forall>i < 4096 * unat (heap_pages n). \<not> heap_owns s (p + of_nat i)) \<and>
    (\<forall>a. heap_owns s a \<longrightarrow> heap_owns t a \<and> view t a = view s a) \<and>
    (\<forall>a. heap_owns t a \<longrightarrow> heap_owns s a \<or> (\<exists>i < 4096 * unat (heap_pages n). a = p + of_nat i)) \<and>
    total_pages t = total_pages s \<and> frame_total t = frame_total s \<and> free_frames t \<subseteq> free_frames s \<and>
    card (free_frames s) \<le> 4 * unat (heap_pages n) + card (free_frames t)"

lemma kmalloc_spec:
  assumes ok: "heap_ok s" and room: "heap_room s n"
  obtains p t where "kmalloc n s = Inr (p + 16, t)" "allocated s t p n"
proof -
  let ?s = "s\<lparr>heap_mutex := MUTEX_BUSY\<rparr>" and ?n = "unat (heap_pages n)"
  have size: "unat n + 4111 < 2 ^ 64" using room by (simp add: heap_room_def)
  note hp = heap_pages_unat[OF size]
  obtain k where k: "in_range KERNEL_HEAP (k + ?n)" "range_free s (KERNEL_HEAP + of_nat (4096 * k)) ?n"
    using room by (auto simp: heap_room_def)
  have pre: "heap_wf ?s" "vmm_mutex ?s = MUTEX_FREE" "range_free ?s (KERNEL_HEAP + of_nat (4096 * k)) ?n"
    "heap_pages n < total_pages ?s - used_pages ?s" "4 * ?n \<le> card (free_frames ?s)"
    using ok room k(2) by (auto simp: heap_ok_def heap_room_def)
  obtain p u where u: "vmm_alloc KERNEL_HEAP (heap_pages n) KERNEL_HEAP_FLAGS ?s = Inr (p, u)" "p \<noteq> 0"
    "heap_wf u" "vmm_mutex u = MUTEX_FREE" "vmm.more u = vmm.more ?s"
    "aligned 4096 p" "KERNEL_HEAP \<le> p" "in_range p ?n"
    "\<And>i. i < 4096 * ?n \<Longrightarrow> heap_owns u (p + of_nat i) \<and> \<not> heap_owns s (p + of_nat i)"
    "\<And>a. heap_owns s a \<Longrightarrow> heap_owns u a \<and> view u a = view s a"
    "\<And>a. heap_owns u a \<Longrightarrow> heap_owns s a \<or> (\<exists>i < 4096 * ?n. a = p + of_nat i)"
    "total_pages u = total_pages s" "card (free_frames s) \<le> 4 * ?n + card (free_frames u)"
    "frame_total u = frame_total s" "free_frames u \<subseteq> free_frames s"
    by (rule vmm_alloc_heap[OF pre(1,2) k(1) hp(4) pre(3-5)]) (simp add: frame_total_def)
  obtain t where t: "bnd (vmemset p 0 (n + 16) u) (\<lambda>s. bnd (vwrite64 p (heap_pages n) s) (vwrite64 (p + 8) n)) = Inr t"
    "data_step u t" "\<And>a. heap_owns u a \<Longrightarrow> view t a = block_image (view u) p n a"
    using block_init[OF u(3) size u(6,8)] u(9) by blast
  note h = data_step_heap[OF u(3) t(2)] and img = block_image[OF u(6) size, where m = "view u"]
  let ?t = "t\<lparr>heap_mutex := MUTEX_FREE\<rparr>"
  have mx: "heap_mutex u = MUTEX_BUSY" "heap_mutex t = MUTEX_BUSY" "vmm_mutex t = MUTEX_FREE"
    using heap_more[OF u(5)] data_step_more[OF t(2)] heap_more[of t u] u(4) by auto
  have run: "kmalloc n s = Inr (p + 16, ?t)"
    using ok u(1,2) t(1) mx by (auto simp: kmalloc_def heap_ok_def Let_def bnd_Inr_iff)
  have okt: "heap_ok ?t" using h(1) mx by (simp add: heap_ok_def)
  have v: "view ?t (p + of_nat i) = block_image (view u) p n (p + of_nat i)" if "i < 4096 * ?n" for i
    using t(3) u(9) that by simp
  have "read64 (view ?t) p = heap_pages n"
    using v hp(3) read64_cong[of "view ?t" p "block_image (view u) p n"] img(1) by simp
  moreover have "read64 (view ?t) (p + 8) = n"
    using v[of "8 + _"] hp(3) read64_cong[of "view ?t" "p + 8" "block_image (view u) p n"] img(2)
    by (simp add: add.assoc)
  ultimately have blk: "heap_block ?t p n" using u(6-9) size h(2) by (simp add: heap_block_def)
  have zero: "view ?t (p + 16 + of_nat i) = 0" if "i < unat n" for i
    using v[of "16 + i"] hp(3) that img(3)[OF that] by (simp add: add.assoc)
  have keep: "heap_owns ?t a \<and> view ?t a = view s a" if a: "heap_owns s a" for a
  proof -
    have "\<not> unat (a - p) < 4096 * ?n" using u(9)[of "unat (a - p)"] a by auto
    then have "block_image (view u) p n a = view u a" using hp(3) img(4) by simp
    then show ?thesis using t(3) u(10)[OF a] h(2) by simp
  qed
  have "p + 16 \<noteq> 0"
  proof
    assume "p + 16 = 0"
    then have "unat (p + of_nat 16) = 0" by simp
    then show False using unat_add_nat[of p 16] u(7,8) hp(4) by (auto simp: in_range_def)
  qed
  moreover have "total_pages ?t = total_pages s" "card (free_frames s) \<le> 4 * ?n + card (free_frames ?t)"
    "frame_total ?t = frame_total s" "free_frames ?t \<subseteq> free_frames s"
    using u(12-15) t(2) by (auto simp: data_step_def frame_total_def)
  ultimately have "allocated s ?t p n"
    unfolding allocated_def using okt blk zero keep u(9,11) h(2) by (intro conjI allI impI) auto
  then show ?thesis using that run by blast
qed

lemma kfree_spec:
  assumes ok: "heap_ok s" and blk: "heap_block s p n"
  shows "\<exists>t. kfree (p + 16) s = Inr t \<and> heap_ok t \<and>
    (\<forall>i < 4096 * unat (heap_pages n). \<not> heap_owns t (p + of_nat i)) \<and>
    (\<forall>a. heap_owns s a \<longrightarrow> (\<forall>i < 4096 * unat (heap_pages n). a \<noteq> p + of_nat i) \<longrightarrow>
      heap_owns t a \<and> view t a = view s a) \<and>
    (\<forall>pn. page_used t pn \<longleftrightarrow> page_used s pn \<and>
      (\<forall>i < unat (heap_pages n). pn \<noteq> vmm_get_page s (p + of_nat (4096 * i)) div 4096))"
proof -
  let ?N = "unat (heap_pages n)" and ?va = "\<lambda>i. p + of_nat (4096 * i)"
  have wf: "heap_wf s" and mx: "vmm_mutex s = MUTEX_FREE" "heap_mutex s = MUTEX_FREE" using ok by (auto simp: heap_ok_def)
  have b: "aligned 4096 p" "KERNEL_HEAP \<le> p" "in_range p ?N" "read64 (view s) p = heap_pages n"
    "unat n + 4111 < 2 ^ 64" "\<And>i. i < 4096 * ?N \<Longrightarrow> heap_owns s (p + of_nat i)"
    using blk by (auto simp: heap_block_def)
  have rd: "vread64 s p = Inr (heap_pages n)"
    using vread64_heap[of s p] heap_block_owns[OF blk] b(4) by simp
  have "(p + 16) AND PAGE_MASK = p" using mask_offset[OF b(1), of 16] by simp
  then have run: "kfree (p + 16) s = vmm_free p (heap_pages n) s" using rd by (simp add: kfree_def)
  obtain t where t: "vmm_free p (heap_pages n) s = Inr t" "unmapped s t (map ?va [0..<?N])"
    using vmm_free_spec[OF wf mx(1) b(2,3,1)] by blast
  have u: "heap_wf t" "vmm_mutex t = MUTEX_FREE" "vmm.more t = vmm.more s"
    "\<And>w. \<not> direct w \<Longrightarrow> vmm_get_page t w =
      (if present (vmm_get_page s w) \<and> vpn w \<in> vpn ` set (map ?va [0..<?N]) then 0 else vmm_get_page s w)"
    "\<And>a. \<not> table_frame s (a AND PAGE_MASK) \<Longrightarrow> mem t a = mem s a"
    using t(2) mx(1) unfolding unmapped_def by auto
  have own: "present (vmm_get_page s (?va i))" if "i < ?N" for i
    using b(6)[of "4096 * i"] that by (simp add: heap_owns_def)
  have used: "page_used t pn \<longleftrightarrow> page_used s pn \<and> (\<forall>i < ?N. pn \<noteq> vmm_get_page s (?va i) div 4096)" for pn
    using t(2) own unfolding unmapped_def by auto
  have gone: "\<not> heap_owns t (p + of_nat i)" if i: "i < 4096 * ?N" for i
  proof -
    have q: "i div 4096 < ?N" using i by (simp add: less_mult_imp_div_less mult.commute)
    then have "vmm_get_page t (?va (i div 4096)) = 0" using u(4)[OF range_page(1)[OF b(3) q]] own[OF q] by auto
    then show ?thesis using range_owned[OF b(3,1,2) i, of t] by simp
  qed
  have keep: "heap_owns t a \<and> view t a = view s a"
    if a: "heap_owns s a" "\<forall>i < 4096 * ?N. a \<noteq> p + of_nat i" for a
  proof -
    have ka: "KERNEL_HEAP \<le> a" using a(1) by (simp add: heap_owns_def)
    have "vpn a \<noteq> vpn (?va i)" if "i < ?N" for i
      using range_vpn_byte[OF b(3,1) that ka] a(2) by blast
    then have "vpn a \<notin> vpn ` set (map ?va [0..<?N])" by force
    then have get: "vmm_get_page t a = vmm_get_page s a" using u(4)[OF heap_not_direct[OF ka]] by simp
    have "mem t (vtrans s a) = mem s (vtrans s a)"
      using u(5) heap_wfD(4)[OF wf a(1)] by (simp add: vtrans_mask)
    then show ?thesis using a(1) get by (simp add: heap_owns_def view_def vtrans_def)
  qed
  have "heap_ok t" using u(1,2) heap_more[OF u(3)] mx(2) by (simp add: heap_ok_def)
  then show ?thesis using t(1) run gone keep used by (intro exI[of _ t] conjI allI impI) auto
qed

lemma krealloc_spec:
  assumes ok: "heap_ok s" and blk: "heap_block s p n" and room: "heap_room s m" and le: "n \<le> m"
  obtains q t where "krealloc (p + 16) m s = Inr (q + 16, t)" "heap_ok t" "heap_block t q m"
    "\<And>i. i < unat m \<Longrightarrow> view t (q + 16 + of_nat i) =
      (if i < unat n then view s (p + 16 + of_nat i) else 0)"
    "\<And>i. i < 4096 * unat (heap_pages n) \<Longrightarrow> \<not> heap_owns t (p + of_nat i)"
proof -
  obtain q u where run: "kmalloc m s = Inr (q + 16, u)" "allocated s u q m" using kmalloc_spec[OF ok room] .
  have u: "heap_ok u" "heap_block u q m" "q + 16 \<noteq> 0"
    "\<And>i. i < unat m \<Longrightarrow> view u (q + 16 + of_nat i) = 0"
    "\<And>i. i < 4096 * unat (heap_pages m) \<Longrightarrow> \<not> heap_owns s (q + of_nat i)"
    "\<And>a. heap_owns s a \<Longrightarrow> heap_owns u a \<and> view u a = view s a"
    using run(2) unfolding allocated_def by blast+
  have size: "unat n + 4111 < 2 ^ 64" "unat m + 4111 < 2 ^ 64" "unat n \<le> unat m"
    using blk room le by (auto simp: heap_block_def heap_room_def word_le_nat_alt)
  have bu: "heap_block u p n"
    using blk u(6) heap_block_owns[OF blk] by (intro heap_block_keep[OF blk]) (auto simp: heap_block_def)
  have apart: "p + of_nat i \<noteq> q + of_nat j" if "i < 4096 * unat (heap_pages n)" "j < 4096 * unat (heap_pages m)" for i j
    using u(5)[OF that(2)] blk that(1) unfolding heap_block_def by metis
  note hn = heap_pages_unat[OF size(1)] and hm = heap_pages_unat[OF size(2)]
  have owns: "heap_owns u (q + 16 + of_nat i)" "heap_owns u (p + 16 + of_nat i)" if "i < unat n" for i
    using heap_block_owns[OF u(2), of "16 + i"] heap_block_owns[OF bu, of "16 + i"] that size(3)
    by (simp_all add: add.assoc)
  have far: "unat n \<le> unat (q - p)"
  proof (rule ccontr)
    assume "\<not> unat n \<le> unat (q - p)"
    then have "p + of_nat (unat (q - p)) \<noteq> q + of_nat 0" using hn(3) hm(4) by (intro apart) auto
    then show False by simp
  qed
  obtain w where w: "vmemcpy (q + 16) (p + 16) n u = Inr w" "data_step u w" "\<And>a. heap_owns u a \<Longrightarrow>
      view w a = store (view u) (q + 16) (load (view u) (p + 16) (unat n)) a"
    using vmemcpy_heap[of u n "q + 16" "p + 16"] u(1) owns far by (auto simp: heap_ok_def)
  note dh = data_step_heap[OF _ w(2)]
  have okw: "heap_ok w"
    using u(1) dh(1) data_step_more[OF w(2)] heap_more[of w u] by (auto simp: heap_ok_def)
  have ow: "heap_owns w = heap_owns u" using dh(2) u(1) by (simp add: heap_ok_def)
  have pw: "view w (p + of_nat i) = view u (p + of_nat i)" if "i < 16" for i
  proof -
    have "unat n \<le> unat (p + of_nat i - (q + 16))"
    proof (rule ccontr)
      let ?k = "unat (p + of_nat i - (q + 16))"
      assume "\<not> unat n \<le> ?k"
      then have "p + of_nat i \<noteq> q + of_nat (16 + ?k)" using that hn(3) hm(3) size(3) by (intro apart) auto
      then show False by simp
    qed
    then show ?thesis using w(3)[OF heap_block_owns[OF bu]] that by (simp add: store_out)
  qed
  have bw: "heap_block w p n"
    using bu ow pw by (intro heap_block_keep[OF bu]) (auto simp: heap_block_def)
  obtain t where t: "kfree (p + 16) w = Inr t" "heap_ok t"
    "\<forall>i < 4096 * unat (heap_pages n). \<not> heap_owns t (p + of_nat i)"
    "\<forall>a. heap_owns w a \<longrightarrow> (\<forall>i < 4096 * unat (heap_pages n). a \<noteq> p + of_nat i) \<longrightarrow>
      heap_owns t a \<and> view t a = view w a"
    using kfree_spec[OF okw bw] by (elim exE conjE)
  have qt: "heap_owns t (q + of_nat j) \<and> view t (q + of_nat j) = view w (q + of_nat j)"
    if "j < 4096 * unat (heap_pages m)" for j
  proof (rule t(4)[rule_format])
    show "heap_owns w (q + of_nat j)" using u(2) ow that by (simp add: heap_block_def)
    show "q + of_nat j \<noteq> p + of_nat i" if "i < 4096 * unat (heap_pages n)" for i
      using apart[OF that \<open>j < _\<close>] by simp
  qed
  have cw: "view w (q + of_nat k) = store (view u) (q + 16) (load (view u) (p + 16) (unat n)) (q + of_nat k)"
    if "k < 16 + unat m" for k using w(3) heap_block_owns[OF u(2) that] by simp
  have "view w (q + of_nat k) = view u (q + of_nat k)" if "k < 16" for k
  proof -
    have "q + of_nat k - (q + 16) = 0 - of_nat (16 - k)" using that by (simp add: of_nat_diff)
    moreover have "unat (of_nat (16 - k) :: u64) = 16 - k" by (simp add: unat_of_nat)
    ultimately have "unat (q + of_nat k - (q + 16)) = 2 ^ 64 - (16 - k)"
      using that by (simp only: unat_sub_if') simp
    then show ?thesis using cw[of k] that size(1) by (simp add: store_out)
  qed
  then have blk': "heap_block t q m"
    using u(2) qt hm(3) by (intro heap_block_keep[OF u(2)]) (auto simp: heap_block_def)
  have cont: "view t (q + 16 + of_nat i) = (if i < unat n then view s (p + 16 + of_nat i) else 0)"
    if "i < unat m" for i
  proof -
    have "view t (q + of_nat (16 + i)) = store (view u) (q + 16) (load (view u) (p + 16) (unat n)) (q + 16 + of_nat i)"
      using qt[of "16 + i"] cw[of "16 + i"] that hm(3) by (simp add: add.assoc)
    moreover have "view u (p + 16 + of_nat i) = view s (p + 16 + of_nat i)" if "i < unat n"
      using u(6) heap_block_owns[OF blk, of "16 + i"] that by (simp add: add.assoc)
    ultimately show ?thesis
      using store_in[of i "load (view u) (p + 16) (unat n)" "view u" "q + 16"]
        store_after[of "load (view u) (p + 16) (unat n)" i "view u" "q + 16"] u(4)[OF that] that size(2)
      by (simp add: add.assoc)
  qed
  have p0: "p + 16 \<noteq> 0"
    using unat_add_nat[of p 16] blk hn(4) by (auto simp: heap_block_def in_range_def)
  have "read64 (view u) (p + 8) = n" using bu by (simp add: heap_block_def)
  then have "vread64 u (p + 8) = Inr n"
    using vread64_heap[of u "p + 8"] heap_block_owns[OF bu, of "8 + _"] by (simp add: add.assoc)
  then have "krealloc (p + 16) m s = Inr (q + 16, t)"
    using run(1) u(3) p0 w(1) t(1) by (simp add: krealloc_def)
  then show ?thesis using that t(2,3) blk' cont by blast
qed

end
