(* ===== verification/Heap_Budget.thy ===== *)
theory Heap_Budget
  imports Heap
begin

text \<open>
  Sequences of allocations.  \<open>heap_budget s N\<close> says that the heap has an unmapped tail and
  enough free frames for \<open>N\<close> more pages; an allocation succeeds within the budget and
  leaves the rest of it.  Kernel start-up code, which allocates several blocks
  in a row, is verified with these lemmas.
\<close>

section \<open>What an allocation leaves alone\<close>

lemma vmm_get_page_mem: "mem t = mem s \<Longrightarrow> cr3 t = cr3 s \<Longrightarrow> vmm_get_page t v = vmm_get_page s v"
  by (simp add: vmm_get_page_def kread64_def Let_def)

lemma vmm_get_physical_mem:
  "mem t = mem s \<Longrightarrow> cr3 t = cr3 s \<Longrightarrow> vmm_get_physical t v = vmm_get_physical s v"
  using vmm_get_page_mem[of t s v] by (simp add: vmm_get_physical_def Let_def)

definition mem_only :: "'a vmm_scheme \<Rightarrow> 'a vmm_scheme \<Rightarrow> bool" where
  "mem_only s t \<longleftrightarrow> (\<exists>m. t = s\<lparr>mem := m\<rparr>)"

lemma mem_only_refl [simp]: "mem_only s s"
  unfolding mem_only_def by (rule exI[of _ "mem s"]) simp

lemma mem_only_trans: "mem_only s t \<Longrightarrow> mem_only t u \<Longrightarrow> mem_only s u"
  by (auto simp: mem_only_def)

lemma vwrite8_mem_only: "vwrite8 v b s = Inr t \<Longrightarrow> mem_only s t"
  by (auto simp: vwrite8_def mem_only_def split: option.splits)

lemma vmemset_mem_only: "vmemset p c n s = Inr t \<Longrightarrow> mem_only s t"
  unfolding vmemset_def
  by (erule fold_res_invariant[where P = "mem_only s"]) (auto intro: mem_only_trans vwrite8_mem_only)

lemma vwrite64_mem_only: "vwrite64 p x s = Inr t \<Longrightarrow> mem_only s t"
  unfolding vwrite64_def
  by (erule fold_res_invariant[where P = "mem_only s"]) (auto intro: mem_only_trans vwrite8_mem_only)

text \<open>The part of the state that allocation does not use.\<close>

definition same_rest :: "'a heap_scheme \<Rightarrow> 'a heap_scheme \<Rightarrow> bool" where
  "same_rest s t \<longleftrightarrow> heap.more t = heap.more s \<and> bsp_pml4 t = bsp_pml4 s \<and> cr3 t = cr3 s \<and>
    mmio_regions t = mmio_regions s \<and> mmio_region_count t = mmio_region_count s"

lemma same_rest_refl [simp]: "same_rest s s"
  by (simp add: same_rest_def)

lemma same_rest_trans: "same_rest s t \<Longrightarrow> same_rest t u \<Longrightarrow> same_rest s u"
  by (simp add: same_rest_def)

lemma same_rest_mem_only: "mem_only s t \<Longrightarrow> same_rest s t"
  by (auto simp: same_rest_def mem_only_def)

lemma same_rest_more:
  "vmm.more t = vmm.more s \<Longrightarrow> cr3 t = cr3 s \<Longrightarrow> mmio_regions t = mmio_regions s \<Longrightarrow>
    mmio_region_count t = mmio_region_count s \<Longrightarrow> same_rest s t"
  by (cases s, cases t) (simp add: same_rest_def)

lemma kmalloc_place:
  assumes ok: "heap_ok s" and run: "kmalloc n s = Inr (q, t)" "q \<noteq> 0"
    and size: "unat n + 4111 < 2 ^ 64"
    and rng: "in_range KERNEL_HEAP (k + unat (heap_pages n))"
    and fr: "range_free s (KERNEL_HEAP + of_nat (4096 * k)) (unat (heap_pages n))"
  shows "same_rest s t" and "\<exists>j \<le> k. q = KERNEL_HEAP + of_nat (4096 * j) + 16"
proof -
  let ?s = "s\<lparr>heap_mutex := MUTEX_BUSY\<rparr>"
  have mx: "vmm_mutex s = MUTEX_FREE" "heap_mutex s = MUTEX_FREE" "heap_wf s" using ok by (simp_all add: heap_ok_def)
  obtain p u where a: "vmm_alloc KERNEL_HEAP (heap_pages n) KERNEL_HEAP_FLAGS ?s = Inr (p, u)" "p \<noteq> 0" "q = p + 16"
    and m: "\<exists>v. mem_only u v \<and> t = v\<lparr>heap_mutex := release (heap_mutex v)\<rparr>"
    using run mx
    by (auto simp: kmalloc_def Let_def bnd_Inr_iff split: if_splits
        dest!: vmemset_mem_only vwrite64_mem_only) (metis mem_only_trans)
  have pre: "vmm_wf ?s" "range_free ?s (KERNEL_HEAP + of_nat (4096 * k)) (unat (heap_pages n))"
    using heap_wfD(1)[of ?s] mx(3) fr by simp_all
  note sp = vmm_alloc_spec[OF pre(1) rng heap_pages_unat(4)[OF size] pre(2) a(1,2)]
  show "\<exists>j \<le> k. q = KERNEL_HEAP + of_nat (4096 * j) + 16" using sp(1) a(3) by blast
  have "same_rest ?s u" using sp(3) by (intro same_rest_more) (simp_all add: grows_def)
  moreover obtain v where "mem_only u v" "t = v\<lparr>heap_mutex := release (heap_mutex v)\<rparr>" using m by blast
  ultimately show "same_rest s t" using same_rest_mem_only[of u v] by (simp add: same_rest_def)
qed

section \<open>The budget\<close>

definition heap_budget :: "'a heap_scheme \<Rightarrow> nat \<Rightarrow> bool" where
  "heap_budget s N \<longleftrightarrow> heap_ok s \<and>
    (\<exists>k. in_range KERNEL_HEAP (k + N) \<and> (\<forall>a. heap_owns s a \<longrightarrow> unat a < unat KERNEL_HEAP + 4096 * k)) \<and>
    4 * N \<le> card (free_frames s) \<and> 4 * N < unat (total_pages s - used_pages s)"

lemma heap_budget_ok: "heap_budget s N \<Longrightarrow> heap_ok s"
  by (simp add: heap_budget_def)

lemma unowned_tail_free:
  assumes "in_range KERNEL_HEAP (k + N)" and "\<forall>a. heap_owns s a \<longrightarrow> unat a < unat KERNEL_HEAP + 4096 * k" and "n \<le> N"
  shows "range_free s (KERNEL_HEAP + of_nat (4096 * k)) n"
  unfolding range_free_def
proof (intro allI impI)
  fix i
  assume "i < n"
  let ?a = "KERNEL_HEAP + of_nat (4096 * k) + of_nat (4096 * i)"
  have "?a = KERNEL_HEAP + of_nat (4096 * (k + i))" by (simp add: algebra_simps)
  then have u: "unat ?a = unat KERNEL_HEAP + 4096 * (k + i)"
    using unat_range[OF assms(1), of "k + i"] \<open>i < n\<close> assms(3) by (simp only:)
  then have "\<not> heap_owns s ?a" using assms(2) by auto
  moreover have "KERNEL_HEAP \<le> ?a" using u by (simp add: word_le_nat_alt)
  moreover have "\<not> ?a < MMIO_REGION" using u by (simp add: word_less_nat_alt KERNEL_HEAP_def MMIO_REGION_def)
  ultimately show "vmm_get_physical s ?a = None"
    by (simp add: vmm_get_physical_def heap_owns_def present_def Let_def)
qed

lemma used_after:
  assumes "frame_total t = frame_total s" and "total_pages t = total_pages s" and "free_frames t \<subseteq> free_frames s"
    and "card (free_frames s) \<le> d + card (free_frames t)" and "N + d < unat (total_pages s - used_pages s)"
  shows "N < unat (total_pages t - used_pages t)"
proof -
  define e where "e = card (free_frames s) - card (free_frames t)"
  have le: "card (free_frames t) \<le> card (free_frames s)" using assms(3) by (intro card_mono) simp_all
  then have "used_pages t = used_pages s + of_nat e"
    using assms(1) by (simp add: frame_total_def e_def of_nat_diff algebra_simps)
  then have "total_pages t - used_pages t = (total_pages s - used_pages s) - of_nat e" using assms(2) by simp
  moreover have "e \<le> d" using assms(4) e_def by simp
  moreover have "e < 2 ^ 64" using assms(5) \<open>e \<le> d\<close> unat_less_size[of "total_pages s - used_pages s"] by simp
  ultimately show ?thesis using assms(5) unat_minus_of_nat[of e "total_pages s - used_pages s"] by simp
qed

lemma kmalloc_budget:
  assumes b: "heap_budget s N" and size: "unat n + 4111 < 2 ^ 64" and le: "unat (heap_pages n) \<le> N"
  obtains p t where "kmalloc n s = Inr (p + 16, t)" "allocated s t p n" "same_rest s t"
    "heap_budget t (N - unat (heap_pages n))"
proof -
  let ?n = "unat (heap_pages n)"
  obtain k where k: "in_range KERNEL_HEAP (k + N)" "\<forall>a. heap_owns s a \<longrightarrow> unat a < unat KERNEL_HEAP + 4096 * k"
    using b by (auto simp: heap_budget_def)
  have rng: "in_range KERNEL_HEAP (k + ?n)" using k(1) le by (simp add: in_range_def)
  note fr = unowned_tail_free[OF k le]
  have bd: "4 * N \<le> card (free_frames s)" "4 * N < unat (total_pages s - used_pages s)"
    using b by (simp_all add: heap_budget_def)
  have "heap_room s n"
    unfolding heap_room_def using size rng fr bd le by (auto simp: word_less_nat_alt)
  then obtain p t where run: "kmalloc n s = Inr (p + 16, t)" "allocated s t p n"
    using kmalloc_spec[OF heap_budget_ok[OF b]] by blast
  have nz: "p + 16 \<noteq> 0" using run(2) by (simp add: allocated_def)
  note place = kmalloc_place[OF heap_budget_ok[OF b] run(1) nz size rng fr]
  obtain j where j: "j \<le> k" "p = KERNEL_HEAP + of_nat (4096 * j)" using place(2) by auto
  have pu: "unat p = unat KERNEL_HEAP + 4096 * j"
    using unat_range[OF rng, of j] j heap_pages_unat(4)[OF size] by simp
  have own: "unat a < unat KERNEL_HEAP + 4096 * (k + ?n)" if "heap_owns t a" for a
  proof -
    from run(2) that consider "heap_owns s a" | i where "i < 4096 * ?n" "a = p + of_nat i"
      unfolding allocated_def by blast
    then show ?thesis
    proof cases
      case 2
      then have "unat p + i < 2 ^ 64" using rng j(1) pu by (simp add: in_range_def)
      then have "unat a = unat p + i" using 2(2) unat_add_nat by simp
      then show ?thesis using 2(1) j pu by (simp add: algebra_simps)
    qed (use k(2) in fastforce)
  qed
  have al: "heap_ok t" "total_pages t = total_pages s" "frame_total t = frame_total s"
    "free_frames t \<subseteq> free_frames s" "card (free_frames s) \<le> 4 * ?n + card (free_frames t)"
    using run(2) by (simp_all add: allocated_def)
  have "4 * (N - ?n) < unat (total_pages t - used_pages t)"
    using le bd(2) by (intro used_after[OF al(3,2,4,5)]) simp
  moreover have "in_range KERNEL_HEAP (k + ?n + (N - ?n))" using k(1) le by simp
  moreover have "4 * (N - ?n) \<le> card (free_frames t)" using bd(1) al(5) le by simp
  ultimately have "heap_budget t (N - ?n)" unfolding heap_budget_def using al(1) own by blast
  then show ?thesis using that run place(1) by blast
qed

section \<open>States with the same memory management\<close>

text \<open>
  Components that extend the heap's state by fields of their own keep everything stated of
  the heap when they change only these fields.
\<close>

lemma core_fields:
  assumes "heap.truncate t = heap.truncate s"
  shows "mem t = mem s" "cr3 t = cr3 s" "pmm_bitmap t = pmm_bitmap s" "pmm_mutex t = pmm_mutex s"
    "total_pages t = total_pages s" "used_pages t = used_pages s" "highest_usable_address t = highest_usable_address s"
    "vmm_mutex t = vmm_mutex s" "heap_mutex t = heap_mutex s" "bsp_pml4 t = bsp_pml4 s"
    "mmio_regions t = mmio_regions s" "mmio_region_count t = mmio_region_count s"
  using assms by (cases s, cases t, simp add: heap.truncate_def)+

lemma mm_cong:
  assumes f: "mem t = mem s" "cr3 t = cr3 s" "pmm_bitmap t = pmm_bitmap s" "pmm_mutex t = pmm_mutex s"
    "highest_usable_address t = highest_usable_address s"
  shows "vmm_get_page t = vmm_get_page s" "pmm_get_page t = pmm_get_page s" "heap_owns t = heap_owns s"
    "view t = view s" "table_frame t = table_frame s" "heap_wf t = heap_wf s"
    "free_frames t = free_frames s" "vmm_get_physical t = vmm_get_physical s"
proof -
  show a: "vmm_get_page t = vmm_get_page s" using vmm_get_page_mem[OF f(1,2)] by (simp add: fun_eq_iff)
  then show "vmm_get_physical t = vmm_get_physical s" by (simp add: fun_eq_iff vmm_get_physical_def)
  show p: "pmm_get_page t = pmm_get_page s" by (simp add: fun_eq_iff pmm_get_page_def f)
  show o: "heap_owns t = heap_owns s" by (simp add: fun_eq_iff heap_owns_def a)
  show "view t = view s" by (simp add: fun_eq_iff view_def vtrans_def a f)
  show tf: "table_frame t = table_frame s" by (simp add: fun_eq_iff table_frame_def root_def f)
  have "pmm_ready t = pmm_ready s" by (simp add: pmm_ready_def page_used_def f)
  then show "heap_wf t = heap_wf s"
    unfolding heap_wf_def vmm_wf_def a p o tf root_def f by simp
  show "free_frames t = free_frames s" by (simp add: free_frames_def p f)
qed

lemma core_heap:
  assumes "heap.truncate t = heap.truncate s"
  shows "vmm_get_page t = vmm_get_page s" "pmm_get_page t = pmm_get_page s" "heap_owns t = heap_owns s"
    "view t = view s" "table_frame t = table_frame s" "heap_wf t = heap_wf s"
    "free_frames t = free_frames s" "vmm_get_physical t = vmm_get_physical s" "heap_ok t = heap_ok s"
proof -
  note f = core_fields[OF assms]
  note c = mm_cong[OF f(1-4,7)]
  show "vmm_get_page t = vmm_get_page s" "pmm_get_page t = pmm_get_page s" "heap_owns t = heap_owns s"
    "view t = view s" "table_frame t = table_frame s" "heap_wf t = heap_wf s"
    "free_frames t = free_frames s" "vmm_get_physical t = vmm_get_physical s" by (fact c)+
  show "heap_ok t = heap_ok s" by (simp add: heap_ok_def f c)
qed

lemma core_budget:
  assumes "heap.truncate t = heap.truncate s"
  shows "heap_budget t N = heap_budget s N"
  unfolding heap_budget_def core_heap[OF assms] core_fields[OF assms] by (rule refl)

lemma heap_budget_mono:
  assumes "heap_budget s N" and "M \<le> N"
  shows "heap_budget s M"
proof -
  obtain k where k: "in_range KERNEL_HEAP (k + N)" "\<forall>a. heap_owns s a \<longrightarrow> unat a < unat KERNEL_HEAP + 4096 * k"
    using assms(1) by (auto simp: heap_budget_def)
  have "in_range KERNEL_HEAP (k + M)" using k(1) assms(2) by (simp add: in_range_def)
  then show ?thesis using assms k(2) unfolding heap_budget_def by (intro conjI exI[of _ k]) auto
qed

section \<open>Single frames\<close>

text \<open>A frame taken from the allocator costs at most one page of the budget.\<close>

lemma pmm_alloc_page_budget:
  assumes b: "heap_budget s N" and "0 < N"
  obtains f t where "pmm_alloc_page s = Inr (f, t)" "f \<noteq> 0" "aligned 4096 f" "f \<in> free_frames s" "same_rest s t"
    "heap_budget t (N - 1)" "heap_owns t = heap_owns s" "view t = view s" "\<not> table_frame t f" "mem t = mem s"
    "vmm_get_page t = vmm_get_page s" "pmm_get_page t f"
proof -
  have wf: "heap_wf s" using b by (simp add: heap_budget_def heap_ok_def)
  have ready: "pmm_ready s" using heap_wfD(1)[OF wf] by (simp add: vmm_wf_def)
  have card: "0 < card (free_frames s)" "4 * N \<le> card (free_frames s)" "4 * N < unat (total_pages s - used_pages s)"
    using assms by (simp_all add: heap_budget_def)
  obtain f t where run: "pmm_alloc_page s = Inr (f, t)" "f \<noteq> 0" "card (free_frames s) = Suc (card (free_frames t))"
    "frame_total t = frame_total s" using card_free_alloc[OF ready card(1)] by metis
  note g = grows_alloc[OF heap_wfD(1)[OF wf] run(1,2)]
  obtain mx b' u where t: "t = s\<lparr>pmm_mutex := mx, pmm_bitmap := b', used_pages := u\<rparr>"
    using pmm_alloc_page_frame[OF run(1)] by blast
  have f: "aligned 4096 f" "\<not> pmm_get_page s f" "f < highest_usable_address s - 4096"
    using run(1,2) by (cases rule: pmm_alloc_page_ready[OF ready], auto)+
  have get: "vmm_get_page t = vmm_get_page s" using g(2) by (simp add: fun_eq_iff)
  have own: "heap_owns t = heap_owns s" by (simp add: fun_eq_iff heap_owns_def get)
  have ok: "heap_ok t"
    using heap_wf_grows[OF wf g(1)] get b by (simp add: heap_budget_def heap_ok_def t)
  have "free_frames t \<subseteq> free_frames s" using g(1) by (auto simp: grows_def free_frames_def)
  then have "4 * (N - 1) < unat (total_pages t - used_pages t)"
    using card run(3) assms(2) by (intro used_after[OF run(4), where d = 1]) (auto simp: t)
  moreover obtain k where k: "in_range KERNEL_HEAP (k + N)" "\<forall>a. heap_owns s a \<longrightarrow> unat a < unat KERNEL_HEAP + 4096 * k"
    using b by (auto simp: heap_budget_def)
  moreover have "in_range KERNEL_HEAP (k + (N - 1))"
    using k(1) diff_le_self[of N 1] unfolding in_range_def by auto
  ultimately have "heap_budget t (N - 1)"
    unfolding heap_budget_def own using ok k(2) card run(3) assms(2) by (intro conjI exI[of _ k]) auto
  moreover have "\<not> table_frame t f" using g(3) f(2) heap_wfD(1)[OF wf] by (auto simp: table_frame_def vmm_wf_def tree_def)
  moreover have "pmm_get_page t f" using pmm_frames.alloc_taken[OF ready run(1,2)] .
  moreover have "same_rest s t" "mem t = mem s" by (simp_all add: same_rest_def t)
  moreover have "view t = view s" by (simp add: fun_eq_iff view_def vtrans_def get \<open>mem t = mem s\<close>)
  moreover have "f \<in> free_frames s" using f by (simp add: free_frames_def)
  ultimately show ?thesis using that[OF run(1,2) f(1)] own get by blast
qed

section \<open>The interface of a block allocator\<close>

text \<open>
  What start-up code relies on: within the budget every request is answered by a block, and
  the caller's own part of the state is left alone.
\<close>

locale block_allocator =
  fixes alloc :: "u64 \<Rightarrow> 's \<Rightarrow> halt + (u64 \<times> 's)"
    and budget :: "'s \<Rightarrow> nat \<Rightarrow> bool"
    and cost :: "u64 \<Rightarrow> nat"
    and rest :: "'s \<Rightarrow> 'r"
  assumes alloc_within: "budget s N \<Longrightarrow> unat n < 2 ^ 32 \<Longrightarrow> cost n \<le> N \<Longrightarrow>
      \<exists>q t. alloc n s = Inr (q, t) \<and> q \<noteq> 0 \<and> rest t = rest s \<and> budget t (N - cost n)"
begin

lemma alloc_pair:
  assumes "budget s N" and "unat n < 2 ^ 32" "unat m < 2 ^ 32" and "cost n + cost m \<le> N"
  obtains p q t u where "alloc n s = Inr (p, t)" "alloc m t = Inr (q, u)" "p \<noteq> 0" "q \<noteq> 0" "rest u = rest s"
    "budget u (N - cost n - cost m)"
proof -
  have "cost n \<le> N" using assms(4) by simp
  then obtain p t where t: "alloc n s = Inr (p, t)" "p \<noteq> 0" "rest t = rest s" "budget t (N - cost n)"
    using alloc_within[OF assms(1,2)] by blast
  have "cost m \<le> N - cost n" using assms(4) by simp
  then obtain q u where "alloc m t = Inr (q, u)" "q \<noteq> 0" "rest u = rest t" "budget u (N - cost n - cost m)"
    using alloc_within[OF t(4) assms(3)] by blast
  then show ?thesis using that t by metis
qed

lemma alloc_triple:
  assumes "budget s N" and "unat n < 2 ^ 32" "unat m < 2 ^ 32" "unat l < 2 ^ 32" and "cost n + cost m + cost l \<le> N"
  obtains p q r t u v where "alloc n s = Inr (p, t)" "alloc m t = Inr (q, u)" "alloc l u = Inr (r, v)"
    "p \<noteq> 0" "q \<noteq> 0" "r \<noteq> 0" "rest v = rest s" "budget v (N - cost n - cost m - cost l)"
proof -
  have "cost n + cost m \<le> N" using assms(5) by simp
  then obtain p q t u where u: "alloc n s = Inr (p, t)" "alloc m t = Inr (q, u)" "p \<noteq> 0" "q \<noteq> 0" "rest u = rest s"
    "budget u (N - cost n - cost m)" using alloc_pair[OF assms(1-3)] by metis
  have "cost l \<le> N - cost n - cost m" using assms(5) by simp
  then obtain r v where "alloc l u = Inr (r, v)" "r \<noteq> 0" "rest v = rest u" "budget v (N - cost n - cost m - cost l)"
    using alloc_within[OF u(6) assms(4)] by blast
  then show ?thesis using that u by metis
qed

end

interpretation kheap: block_allocator kmalloc heap_budget "\<lambda>n. unat (heap_pages n)"
  "\<lambda>s. (heap.more s, bsp_pml4 s, cr3 s, mmio_regions s, mmio_region_count s)"
proof (unfold_locales, goal_cases)
  case (1 s N n)
  then obtain p t where "kmalloc n s = Inr (p + 16, t)" "allocated s t p n" "same_rest s t"
    "heap_budget t (N - unat (heap_pages n))" using kmalloc_budget[of s N n] by auto
  then show ?case by (auto simp: allocated_def same_rest_def)
qed

end
