(* ===== verification/Mmio_Budget.thy ===== *)
theory Mmio_Budget
  imports Heap_Budget
begin

text \<open>
  Mapping device pages one after the other.  \<open>mmio_budget s N\<close> says that the region for device
  mappings has an unmapped range of \<open>N\<close> pages behind which nothing matters, that the frames
  for their page tables are free, and that the list of regions has room.
\<close>

definition mmio_budget :: "'a heap_scheme \<Rightarrow> nat \<Rightarrow> bool" where
  "mmio_budget s N \<longleftrightarrow> heap_ok s \<and>
    (\<exists>k. k + N \<le> 2 ^ 27 \<and> range_free s (MMIO_REGION + of_nat (4096 * k)) N) \<and>
    3 * N \<le> card (free_frames s) \<and> unat (mmio_region_count s) + N \<le> 32768"

text \<open>
  Memory that belongs to somebody other than the page tables: its frame is in use and holds
  no table.
\<close>

definition foreign :: "'a vmm_scheme \<Rightarrow> u64 \<Rightarrow> bool" where
  "foreign s a \<longleftrightarrow> pmm_get_page s (a AND PAGE_MASK) \<and> \<not> table_frame s (a AND PAGE_MASK)"

definition mmio_step :: "'a heap_scheme \<Rightarrow> 'a heap_scheme \<Rightarrow> bool" where
  "mmio_step s t \<longleftrightarrow> heap.more t = heap.more s \<and> cr3 t = cr3 s \<and> bsp_pml4 t = bsp_pml4 s \<and>
    (\<forall>w. MMIO_REGION \<le> w \<longrightarrow> vmm_get_physical s w \<noteq> None \<longrightarrow> vmm_get_page t w = vmm_get_page s w) \<and>
    (\<forall>w. KERNEL_HEAP \<le> w \<longrightarrow> vmm_get_page t w = vmm_get_page s w) \<and>
    (\<forall>a. foreign s a \<longrightarrow> foreign t a \<and> mem t a = mem s a)"

lemma mmio_step_refl [simp]: "mmio_step s s"
  by (simp add: mmio_step_def)

lemma mmio_rng: "k + n \<le> 2 ^ 27 \<Longrightarrow> in_range MMIO_REGION (k + n)"
  by (simp add: in_range_def MMIO_REGION_def)

lemma mmio_address:
  assumes "j < 2 ^ 27" and "v = MMIO_REGION + of_nat (4096 * j)"
  shows "unat v = unat MMIO_REGION + 4096 * j" and "MMIO_REGION \<le> v" and "v < KERNEL_HEAP" and "v \<noteq> 0"
    and "aligned 4096 v" and "\<And>w. KERNEL_HEAP \<le> w \<Longrightarrow> vpn w \<noteq> vpn v"
    and "unat (vpn v) = unat (vpn MMIO_REGION) + j"
proof -
  show "unat (vpn v) = unat (vpn MMIO_REGION) + j"
    unfolding assms(2) by (rule range_page(2)[OF mmio_rng[of 0 "2 ^ 27"]]) (use assms(1) in simp_all)
  show u: "unat v = unat MMIO_REGION + 4096 * j"
    using unat_range[OF mmio_rng[of 0 "2 ^ 27"], of j] assms by simp
  then show ge: "MMIO_REGION \<le> v" "v < KERNEL_HEAP" "v \<noteq> 0"
    using assms(1) by (auto simp: word_le_nat_alt word_less_nat_alt MMIO_REGION_def KERNEL_HEAP_def)
  show "aligned 4096 v" unfolding aligned_def u by (simp add: MMIO_REGION_def)
  show "vpn w \<noteq> vpn v" if w: "KERNEL_HEAP \<le> w" for w
  proof
    assume "vpn w = vpn v"
    moreover have "PHYSICAL_MEMORY \<le> w" "PHYSICAL_MEMORY \<le> v"
      using w ge(1) by (simp_all add: word_le_nat_alt PHYSICAL_MEMORY_def KERNEL_HEAP_def MMIO_REGION_def)
    ultimately have "unat w div 4096 = unat v div 4096" using high_vpn by metis
    moreover have "unat v div 4096 < unat KERNEL_HEAP div 4096"
      unfolding u using assms(1) by (simp add: MMIO_REGION_def KERNEL_HEAP_def)
    moreover have "unat KERNEL_HEAP div 4096 \<le> unat w div 4096" using w by (simp add: word_le_nat_alt div_le_mono)
    ultimately show False by simp
  qed
qed

text \<open>The states before and after the mapping of one device page at \<open>v\<close>.\<close>

definition device_mapped :: "'a heap_scheme \<Rightarrow> u64 \<Rightarrow> u64 \<Rightarrow> 'a heap_scheme \<Rightarrow> bool" where
  "device_mapped s v phys t \<longleftrightarrow> heap_ok t \<and>
    (\<forall>w. \<not> direct w \<longrightarrow> vmm_get_page t w =
      (if vpn w = vpn v then phys OR (PAGE_PRESENT OR PAGE_WRITE OR PAGE_UNCACHEABLE) else vmm_get_page s w)) \<and>
    card (free_frames s) \<le> 3 + card (free_frames t) \<and> free_frames t \<subseteq> free_frames s \<and>
    frame_total t = frame_total s \<and> total_pages t = total_pages s \<and>
    (\<forall>a. foreign s a \<longrightarrow> foreign t a \<and> mem t a = mem s a) \<and>
    heap.more t = heap.more s \<and> cr3 t = cr3 s \<and> bsp_pml4 t = bsp_pml4 s \<and>
    mmio_region_count t = mmio_region_count s + 1"

lemma create_mmio_run:
  assumes b: "mmio_budget s N" and "0 < N" and name: "length name < 64"
    and k: "k + N \<le> 2 ^ 27" "range_free s (MMIO_REGION + of_nat (4096 * k)) N"
  obtains j t where "vmm_create_mmio phys 1 name s = Inr (MMIO_REGION + of_nat (4096 * j), t)" "j \<le> k"
    "vmm_get_physical s (MMIO_REGION + of_nat (4096 * j)) = None" "device_mapped s (MMIO_REGION + of_nat (4096 * j)) phys t"
proof -
  let ?s = "s\<lparr>vmm_mutex := MUTEX_BUSY\<rparr>" and ?f = "PAGE_PRESENT OR PAGE_WRITE OR PAGE_UNCACHEABLE"
  have wf: "heap_wf ?s" and vwf: "vmm_wf ?s" and mx: "vmm_mutex s = MUTEX_FREE" "heap_mutex s = MUTEX_FREE"
    using b heap_wfD(1) by (auto simp: mmio_budget_def heap_ok_def)
  have fr: "range_free s (MMIO_REGION + of_nat (4096 * k)) (unat (1 :: u64))"
    using k(2)[unfolded range_free_def, rule_format, OF \<open>0 < N\<close>] by (simp add: range_free_def)
  have rng: "in_range MMIO_REGION (k + unat (1 :: u64))" using k(1) \<open>0 < N\<close> by (intro mmio_rng) simp
  have one: "0 < unat (1 :: u64)" by simp
  obtain j where j: "j \<le> k" "vmm_find ?s MMIO_REGION 1 = Some (MMIO_REGION + of_nat (4096 * j))"
    "range_free s (MMIO_REGION + of_nat (4096 * j)) 1"
    using vmm_find_first[OF rng one fr] vmm_find_mutex[OF rng one fr] by auto
  define v where "v = MMIO_REGION + of_nat (4096 * j)"
  have "j < 2 ^ 27" using j(1) k(1) \<open>0 < N\<close> by simp
  note ad = mmio_address[OF this v_def]
  have "pmm_ready ?s" "3 \<le> card (free_frames ?s)" using vwf b \<open>0 < N\<close> by (auto simp: vmm_wf_def mmio_budget_def)
  then obtain u where u: "vmm_map_page v phys ?f ?s = Inr u" "card (free_frames s) \<le> 3 + card (free_frames u)"
    "frame_total u = frame_total s"
    using vmm_map_page_returns[of ?s v phys ?f] by auto
  note sp = vmm_map_page_spec[OF vwf high_not_direct[OF ad(2)] u(1)]
  have gr: "vmm_mutex u = MUTEX_BUSY" "vmm.more u = vmm.more s" "cr3 u = cr3 s" "mmio_region_count u = mmio_region_count s"
    using sp(1) by (simp_all add: grows_def)
  have more: "heap_mutex u = MUTEX_FREE" "bsp_pml4 u = bsp_pml4 s" "heap.more u = heap.more s"
    using gr(2) mx(2) by (cases u, cases s, simp)+
  let ?t = "u\<lparr>mmio_regions := (mmio_regions u)(mmio_region_count s :=
      \<lparr>device = name, mmio_physical = phys, mmio_virtual = v, mmio_pages = 1\<rparr>),
    mmio_region_count := mmio_region_count s + 1, vmm_mutex := MUTEX_FREE\<rparr>"
  have "unat (mmio_region_count s) < 32768" using b \<open>0 < N\<close> by (simp add: mmio_budget_def)
  then have run: "vmm_create_mmio phys 1 name s = Inr (v, ?t)"
    using mx j(2) ad(4) u(1) name gr v_def
    by (simp add: vmm_create_mmio_def Let_def MAX_MMIO_def word_le_nat_alt)
  note eqs = mm_cong[of ?t u, simplified]
  have "heap_wf u"
    by (rule heap_wf_grows[OF wf sp(1)]) (use sp(3)[OF heap_not_direct] ad(6) vmm_get_page_mem[of ?s s] in simp)
  then have ok: "heap_ok ?t" using eqs more by (simp add: heap_ok_def)
  have "frame_total ?t = frame_total s" using u(3) eqs by (simp add: frame_total_def)
  moreover have "vmm_get_page ?t w = vmm_get_page u w" for w by (rule vmm_get_page_mem) simp_all
  ultimately have "device_mapped s v phys ?t"
    unfolding device_mapped_def using sp u(2) gr more eqs ok by (auto simp: grows_def foreign_def free_frames_def)
  moreover have "vmm_get_physical s v = None" using j(3) by (simp add: range_free_def v_def)
  ultimately show ?thesis using that run j(1) unfolding v_def by blast
qed

lemma device_mmio_budget:
  assumes b: "mmio_budget s N" and "0 < N" and d: "device_mapped s (MMIO_REGION + of_nat (4096 * j)) phys t" and "j \<le> k"
    and k: "k + N \<le> 2 ^ 27" "range_free s (MMIO_REGION + of_nat (4096 * k)) N"
  shows "mmio_budget t (N - 1)"
proof -
  have "j < 2 ^ 27" using assms(4) k(1) \<open>0 < N\<close> by simp
  note ad = mmio_address[OF this refl]
  have rest: "range_free t (MMIO_REGION + of_nat (4096 * (k + 1))) (N - 1)"
    unfolding range_free_def
  proof (intro allI impI)
    fix i
    assume i: "i < N - 1"
    let ?w = "MMIO_REGION + of_nat (4096 * (k + 1)) + of_nat (4096 * i)"
    have w: "?w = MMIO_REGION + of_nat (4096 * (k + 1 + i))" "?w = MMIO_REGION + of_nat (4096 * k) + of_nat (4096 * (i + 1))"
      by (simp_all add: algebra_simps)
    have "k + 1 + i < 2 ^ 27" using i k(1) by simp
    note aw = mmio_address[OF this w(1)]
    have "vmm_get_physical s ?w = None" using k(2) i unfolding range_free_def w(2) by (meson less_diff_conv)
    moreover have "vpn ?w \<noteq> vpn (MMIO_REGION + of_nat (4096 * j))" using aw(7) ad(7) assms(4) by auto
    then have "vmm_get_page t ?w = vmm_get_page s ?w" using d high_not_direct[OF aw(2)] unfolding device_mapped_def by metis
    ultimately show "vmm_get_physical t ?w = None"
      using aw(2) unfolding vmm_get_physical_def Let_def by (auto split: if_splits)
  qed
  have "unat (mmio_region_count s) < 32768" using b \<open>0 < N\<close> by (simp add: mmio_budget_def)
  then have "unat (mmio_region_count s + 1) = unat (mmio_region_count s) + 1"
    using unat_add_less[of "mmio_region_count s" 1] by simp
  then show ?thesis
    unfolding mmio_budget_def using d rest k(1) \<open>0 < N\<close> b
    by (intro conjI exI[of _ "k + 1"]) (auto simp: mmio_budget_def device_mapped_def)
qed

lemma device_heap_budget:
  assumes d: "device_mapped s v phys t" and hi: "\<And>w. KERNEL_HEAP \<le> w \<Longrightarrow> vmm_get_page t w = vmm_get_page s w"
    and M: "heap_budget s M" "0 < M"
  shows "heap_budget t (M - 1)"
proof -
  have "4 * M < unat (total_pages s - used_pages s)" using M(1) by (simp add: heap_budget_def)
  moreover have "4 * (M - 1) + 3 < 4 * M" using M(2) by simp
  ultimately have bd: "4 * M \<le> card (free_frames s)" "4 * (M - 1) + 3 < unat (total_pages s - used_pages s)"
    using M(1) by (simp_all only: heap_budget_def less_trans)
  have f: "card (free_frames s) \<le> 3 + card (free_frames t)" "free_frames t \<subseteq> free_frames s" "frame_total t = frame_total s"
    "total_pages t = total_pages s" "heap_ok t" using d by (simp_all add: device_mapped_def)
  have "4 * (M - 1) < unat (total_pages t - used_pages t)" using bd(2) f by (intro used_after[OF f(3) _ _ f(1)]) simp_all
  moreover have "heap_owns t a = heap_owns s a" for a using hi[of a] by (auto simp: heap_owns_def)
  moreover obtain j where j: "in_range KERNEL_HEAP (j + M)" "\<forall>a. heap_owns s a \<longrightarrow> unat a < unat KERNEL_HEAP + 4096 * j"
    using M(1) by (auto simp: heap_budget_def)
  moreover have "4 * (M - 1) \<le> card (free_frames t)" using bd(1) f(1) M(2) by simp
  moreover have "4096 * (j + (M - 1)) \<le> 4096 * (j + M)" by simp
  then have "in_range KERNEL_HEAP (j + (M - 1))" using j(1) unfolding in_range_def by (meson add_left_mono order_trans)
  ultimately show ?thesis unfolding heap_budget_def using f(5) by auto
qed

lemma create_mmio_page:
  assumes b: "mmio_budget s N" and "0 < N" and name: "length name < 64"
  obtains v t where "vmm_create_mmio phys 1 name s = Inr (v, t)" "mmio_budget t (N - 1)" "mmio_step s t"
    "vmm_get_page t v = phys OR (PAGE_PRESENT OR PAGE_WRITE OR PAGE_UNCACHEABLE)"
    "aligned 4096 v" "MMIO_REGION \<le> v" "v < KERNEL_HEAP"
    "\<forall>M. heap_budget s M \<and> 0 < M \<longrightarrow> heap_budget t (M - 1)"
proof -
  obtain k where k: "k + N \<le> 2 ^ 27" "range_free s (MMIO_REGION + of_nat (4096 * k)) N"
    using b by (auto simp: mmio_budget_def)
  obtain j t where r: "vmm_create_mmio phys 1 name s = Inr (MMIO_REGION + of_nat (4096 * j), t)" "j \<le> k"
    "vmm_get_physical s (MMIO_REGION + of_nat (4096 * j)) = None" "device_mapped s (MMIO_REGION + of_nat (4096 * j)) phys t"
    using create_mmio_run[OF b \<open>0 < N\<close> name k] by blast
  define v where "v = MMIO_REGION + of_nat (4096 * j)"
  note d = r(4)[folded v_def]
  have "j < 2 ^ 27" using r(2) k(1) \<open>0 < N\<close> by simp
  note ad = mmio_address[OF this v_def]
  have get: "vmm_get_page t w = (if vpn w = vpn v then phys OR (PAGE_PRESENT OR PAGE_WRITE OR PAGE_UNCACHEABLE) else vmm_get_page s w)"
    if "\<not> direct w" for w using d that by (simp add: device_mapped_def)
  have hi: "vmm_get_page t w = vmm_get_page s w" if "KERNEL_HEAP \<le> w" for w
    using get[of w] ad(6)[OF that] heap_not_direct[OF that] by simp
  have old: "vmm_get_page t w = vmm_get_page s w" if "MMIO_REGION \<le> w" "vmm_get_physical s w \<noteq> None" for w
  proof -
    have "vpn w \<noteq> vpn v"
      using r(3) that vmm_get_page_cong[of w v s] ad(2) unfolding v_def[symmetric]
      by (auto simp: vmm_get_physical_def Let_def split: if_splits)
    then show ?thesis using get[OF high_not_direct[OF that(1)]] by simp
  qed
  have "mmio_step s t" using d old hi by (simp add: mmio_step_def device_mapped_def)
  moreover have "\<forall>M. heap_budget s M \<and> 0 < M \<longrightarrow> heap_budget t (M - 1)" using device_heap_budget[OF d hi] by blast
  ultimately show ?thesis
    using that[OF r(1)[folded v_def] device_mmio_budget[OF b \<open>0 < N\<close> r(4,2) k]] get[OF high_not_direct[OF ad(2)]] ad(2,3,5) by simp
qed

lemma mmio_budget_mono:
  assumes "mmio_budget s N" and "M \<le> N"
  shows "mmio_budget s M"
proof -
  obtain k where "k + N \<le> 2 ^ 27" "range_free s (MMIO_REGION + of_nat (4096 * k)) N"
    using assms(1) by (auto simp: mmio_budget_def)
  then have "k + M \<le> 2 ^ 27" "range_free s (MMIO_REGION + of_nat (4096 * k)) M"
    using assms(2) by (auto simp: range_free_def)
  then show ?thesis using assms unfolding mmio_budget_def by auto
qed

lemma core_mmio:
  assumes "heap.truncate t = heap.truncate s"
  shows "mmio_budget t N = mmio_budget s N" and "foreign t = foreign s"
  unfolding mmio_budget_def foreign_def fun_eq_iff range_free_def core_heap[OF assms] core_fields[OF assms]
  by simp_all

text \<open>Accesses inside a mapped device page reach the device.\<close>

lemma device_physical:
  assumes "vmm_get_page t v = phys OR (PAGE_PRESENT OR PAGE_WRITE OR PAGE_UNCACHEABLE)"
    and "aligned 4096 v" and "MMIO_REGION \<le> v" and "v < KERNEL_HEAP" and "i < 4096"
  shows "vmm_get_physical t (v + of_nat i) =
    Some (((phys OR (PAGE_PRESENT OR PAGE_WRITE OR PAGE_UNCACHEABLE)) AND PAGE_MASK) + of_nat i)"
proof -
  have u: "unat v + i < 2 ^ 64" using assms(4,5) by (simp add: word_less_nat_alt KERNEL_HEAP_def)
  then have "\<not> v + of_nat i < MMIO_REGION"
    using assms(3) unat_add_nat[of v i] by (simp add: word_less_nat_alt word_le_nat_alt)
  moreover have "in_range v 1" using assms(3,4) by (simp add: in_range_def word_less_nat_alt KERNEL_HEAP_def)
  then have "vpn (v + of_nat i) = vpn v" using range_byte(2)[of v 1 i] assms(2,5) by simp
  then have "vmm_get_page t (v + of_nat i) = vmm_get_page t v" by (rule vmm_get_page_cong)
  moreover have "unat ((v + of_nat i) AND 0xFFF) = unat (of_nat i :: u64)"
    using assms(2,5) unat_add_nat[OF u] unat_of_nat_small[of i] by (auto simp: unat_low12 aligned_def elim!: dvdE)
  then have "(v + of_nat i) AND 0xFFF = of_nat i" by (simp only: word_unat_eq_iff)
  moreover have "bit ((phys OR (PAGE_PRESENT OR PAGE_WRITE OR PAGE_UNCACHEABLE)) AND PAGE_PRESENT) 0"
    by (simp add: PAGE_PRESENT_def bit_simps)
  then have "(phys OR (PAGE_PRESENT OR PAGE_WRITE OR PAGE_UNCACHEABLE)) AND PAGE_PRESENT \<noteq> 0" by (metis bit_0_eq bot_apply bot_bool_def)
  ultimately show ?thesis using assms(1) by (simp add: vmm_get_physical_def Let_def)
qed

text \<open>The same for a page of a range, mapped with any flags.\<close>

lemma present_or: "present fl \<Longrightarrow> present (f OR fl)"
  by (auto simp: present_def bit_eq_iff bit_simps PAGE_PRESENT_def)

lemma page_physical:
  assumes e: "vmm_get_page t (v + of_nat (4096 * (i div 4096))) = f OR fl" and f: "aligned 4096 f"
    and fl: "fl AND PAGE_MASK = 0" "present fl" and v: "in_range v n" "aligned 4096 v" "i < 4096 * n"
  shows "vmm_get_page t (v + of_nat i) = f OR fl" and "vmm_get_physical t (v + of_nat i) = Some (f + of_nat (i mod 4096))"
proof -
  note b = range_byte[OF v]
  show g: "vmm_get_page t (v + of_nat i) = f OR fl" using vmm_get_page_cong[OF b(2), of t] e by simp
  have "MMIO_REGION \<le> v" using v(1) by (simp add: in_range_def)
  then have "\<not> v + of_nat i < MMIO_REGION" using b(1) by (simp add: word_less_nat_alt word_le_nat_alt)
  moreover have "unat ((v + of_nat i) AND 0xFFF) = i mod 4096"
    using v(2) unfolding unat_low12 b(1) by (auto simp: aligned_def elim!: dvdE)
  then have "unat ((v + of_nat i) AND 0xFFF) = unat (of_nat (i mod 4096) :: u64)"
    by (simp add: unat_of_nat)
  then have "(v + of_nat i) AND 0xFFF = of_nat (i mod 4096)" by (simp only: word_unat_eq_iff)
  moreover have "(f OR fl) AND PAGE_MASK = f" using f fl(1) by (simp add: mask_aligned bit.conj_disj_distrib2)
  moreover have "present (f OR fl)" using fl(2) by (rule present_or)
  ultimately show "vmm_get_physical t (v + of_nat i) = Some (f + of_nat (i mod 4096))"
    using g by (simp add: vmm_get_physical_def Let_def present_def)
qed

end
