(* ===== verification/Small_Heap.thy ===== *)
theory Small_Heap
  imports Mmio_Budget
begin

text \<open>
  A small concrete machine, on which the properties of the memory manager and of the
  components above it are instantiated.
\<close>

section \<open>A small machine\<close>

text \<open>
  16 MB of memory with the lowest eight pages in use, an empty top-level table in page 1, and
  nothing mapped.
\<close>

definition small_heap :: heap where
  "small_heap = \<lparr>pmm_mutex = MUTEX_FREE, pmm_bitmap = (\<lambda>b. if b = 0 then 0xFF else 0), pmm_bitmap_size = 512,
    total_pages = 4096, used_pages = 8, highest_usable_address = 0xFFFFFF,
    vmm_mutex = MUTEX_FREE, mem = (\<lambda>_. 0), cr3 = 0x1000, tlb_flushed = [],
    mmio_regions = (\<lambda>_. \<lparr>device = [], mmio_physical = 0, mmio_virtual = 0, mmio_pages = 0\<rparr>),
    mmio_region_count = 0, bsp_pml4 = 0xFFFF800000001000, heap_mutex = MUTEX_FREE\<rparr>"

lemma read64_zero: "read64 (\<lambda>_. 0) a = 0"
  by (auto simp: read64_def load_def intro!: le_word_zero)

lemma walk_zero: "walk (\<lambda>_. 0) r p = (if p = [] then Some r else None)"
  by (cases p) (simp_all add: read64_zero)

lemma small_heap_fields [simp]:
  "pmm_mutex small_heap = MUTEX_FREE" "vmm_mutex small_heap = MUTEX_FREE" "heap_mutex small_heap = MUTEX_FREE"
  "mem small_heap = (\<lambda>_. 0)" "root small_heap = 0x1000" "total_pages small_heap = 4096" "used_pages small_heap = 8"
  "highest_usable_address small_heap = 0xFFFFFF" "mmio_region_count small_heap = 0"
  "cr3 small_heap = 0x1000" "pmm_bitmap small_heap = (\<lambda>b. if b = 0 then 0xFF else 0)"
  by (simp_all add: small_heap_def root_def PAGE_MASK_def)

lemma small_heap_unmapped: "vmm_get_page small_heap v = 0"
  by (simp add: vmm_get_page_def kread64_def read64_zero Let_def)

lemma small_heap_wf: "vmm_wf small_heap"
proof -
  have "pmm_get_page small_heap 0x1000" by (simp add: pmm_get_page_def Let_def)
  then have "tree (mem small_heap) (root small_heap) (pmm_get_page small_heap)"
    unfolding tree_def by (auto simp: walk_zero read64_zero aligned_def)
  then show ?thesis by (simp add: vmm_wf_def pmm_ready_def page_used_def)
qed

lemma small_heap_heap_wf: "heap_wf small_heap"
  by (simp add: heap_wf_def small_heap_wf heap_owns_def small_heap_unmapped)

lemma small_heap_ok: "heap_ok small_heap"
  by (simp add: heap_ok_def small_heap_heap_wf)

lemma small_heap_free: "4000 \<le> card (free_frames small_heap)"
proof -
  let ?F = "(\<lambda>i. of_nat (4096 * (8 + i)) :: u64) ` {0..<4000}"
  have "inj_on (\<lambda>i. of_nat (4096 * (8 + i)) :: u64) {0..<4000}"
    by (rule inj_onI) (simp add: word_unat_eq_iff unat_word_ariths unat_of_nat)
  then have "card ?F = 4000" by (simp add: card_image)
  moreover have "?F \<subseteq> free_frames small_heap"
  proof
    fix f assume "f \<in> ?F"
    then obtain i where i: "i < 4000" "f = of_nat (4096 * (8 + i))" by auto
    have u: "unat f = 4096 * (8 + i)" using i by (simp add: unat_word_ariths unat_of_nat)
    have "unat (f div 4096 div 8) = (8 + i) div 8" using u by (simp add: unat_div)
    then have "f div 4096 div 8 \<noteq> 0" using i(1) by (auto simp: unat_eq_0[symmetric])
    then have "\<not> pmm_get_page small_heap f"
      using u i(1) by (simp add: pmm_get_page_iff page_used_def word_le_nat_alt)
    then show "f \<in> free_frames small_heap"
      using u i(1) by (simp add: free_frames_def aligned_def word_less_nat_alt)
  qed
  ultimately show ?thesis by (metis card_mono finite_free_frames)
qed

lemma small_heap_range_free:
  assumes "in_range p n"
  shows "range_free small_heap p n"
proof -
  have "vmm_get_physical small_heap (p + of_nat (4096 * i)) = None" if "i < n" for i
    using range_ge_mmio[OF assms that] by (auto simp: vmm_get_physical_def small_heap_unmapped Let_def)
  then show ?thesis by (simp add: range_free_def)
qed

lemma small_heap_range_free0:
  "in_range p (0 + n) \<Longrightarrow> range_free small_heap (p + of_nat (4096 * 0)) n"
  using small_heap_range_free by simp

lemma small_heap_room: "unat n \<le> 8000 \<Longrightarrow> heap_room small_heap n"
proof -
  assume n: "unat n \<le> 8000"
  then have "unat (heap_pages n) = (unat n + 4111) div 4096" using heap_pages_unat(1)[of n] by simp
  then have p: "unat (heap_pages n) \<le> 2" using n by simp
  have r: "in_range KERNEL_HEAP (unat (heap_pages n))" using p by (simp add: in_range_def KERNEL_HEAP_def MMIO_REGION_def)
  have "in_range KERNEL_HEAP (0 + unat (heap_pages n)) \<and>
      range_free small_heap (KERNEL_HEAP + of_nat (4096 * 0)) (unat (heap_pages n))"
    using r small_heap_range_free[OF r] by simp
  then have "\<exists>k. in_range KERNEL_HEAP (k + unat (heap_pages n)) \<and>
      range_free small_heap (KERNEL_HEAP + of_nat (4096 * k)) (unat (heap_pages n))" by blast
  moreover have "heap_pages n < total_pages small_heap - used_pages small_heap"
    using p by (simp add: word_less_nat_alt)
  moreover have "4 * unat (heap_pages n) \<le> card (free_frames small_heap)" using small_heap_free p by linarith
  ultimately show ?thesis using n by (simp add: heap_room_def)
qed

lemma small_heap_block:
  "\<exists>p s. kmalloc 100 small_heap = Inr (p + 16, s) \<and> heap_ok s \<and> heap_block s p 100"
proof -
  have "heap_room small_heap 100" by (rule small_heap_room) simp
  from kmalloc_spec[OF small_heap_ok this] show ?thesis unfolding allocated_def by metis
qed

lemma small_heap_budget: "N \<le> 900 \<Longrightarrow> heap_budget small_heap N"
proof -
  assume N: "N \<le> 900"
  have "in_range KERNEL_HEAP (0 + N)" using N by (simp add: in_range_def KERNEL_HEAP_def MMIO_REGION_def)
  moreover have "\<not> heap_owns small_heap a" for a by (simp add: heap_owns_def small_heap_unmapped present_def)
  ultimately show ?thesis
    unfolding heap_budget_def using small_heap_ok small_heap_free N by (intro conjI exI[of _ 0]) auto
qed

text \<open>The same machine with other contents outside its top-level table.\<close>

lemma small_heap_table_frame: "table_frame small_heap f \<longleftrightarrow> f = 0x1000"
proof -
  have "walk (mem small_heap) 0x1000 p = Some f \<longleftrightarrow> p = [] \<and> f = 0x1000" for p by (auto simp: walk_zero)
  then show ?thesis unfolding table_frame_def by (auto intro: exI[of _ "[]"])
qed

lemma small_heap_with:
  assumes m: "\<And>a. a AND PAGE_MASK = 0x1000 \<Longrightarrow> m a = 0"
  shows "heap_budget (small_heap\<lparr>mem := m\<rparr>) 900" and "mmio_budget (small_heap\<lparr>mem := m\<rparr>) 900"
    and "\<And>a. unat a < 0x8000 \<Longrightarrow> a AND PAGE_MASK \<noteq> 0x1000 \<Longrightarrow> foreign (small_heap\<lparr>mem := m\<rparr>) a"
proof -
  let ?s = "small_heap\<lparr>mem := m\<rparr>"
  have st: "data_step small_heap ?s"
    unfolding data_step_def by (rule exI[of _ m]) (auto simp: small_heap_table_frame m)
  note h = data_step_heap[OF small_heap_heap_wf st] and w = data_step_wf[OF small_heap_wf st]
  have none: "\<not> heap_owns ?s a" for a using h(2) by (simp add: heap_owns_def small_heap_unmapped present_def)
  have ok: "heap_ok ?s" using h(1) by (simp add: heap_ok_def)
  have "in_range KERNEL_HEAP (0 + 900)" by (simp add: in_range_def KERNEL_HEAP_def MMIO_REGION_def)
  then show "heap_budget ?s 900"
    unfolding heap_budget_def using ok none small_heap_free by (intro conjI exI[of _ 0]) auto
  have "vmm_get_physical ?s (MMIO_REGION + of_nat (4096 * 0) + of_nat (4096 * i)) = None" if "i < 900" for i
    using range_ge_mmio[OF mmio_rng[of 0 900], of i] that w(3)[OF high_not_direct]
    by (auto simp: vmm_get_physical_def small_heap_unmapped Let_def not_less)
  then have "range_free ?s (MMIO_REGION + of_nat (4096 * 0)) 900" by (simp add: range_free_def)
  then show "mmio_budget ?s 900"
    unfolding mmio_budget_def using ok small_heap_free by (intro conjI exI[of _ 0]) auto
  show "foreign ?s a" if "unat a < 0x8000" "a AND PAGE_MASK \<noteq> 0x1000" for a
  proof -
    have "unat (a div 4096 div 8) = 0" using that(1) by (simp add: unat_div)
    then have z: "a div 4096 div 8 = 0" by (simp only: unat_eq_0)
    have "bit (0xFF :: u8) (unat (a div 4096 mod 8))" by (rule bit_255[OF mod_8_less])
    then have "page_used small_heap (a div 4096)" using z by (simp add: page_used_def)
    then have "pmm_get_page small_heap (a AND PAGE_MASK)" by (simp add: pmm_get_page_iff mask_div)
    moreover have "table_frame ?s = table_frame small_heap" by (rule w(2))
    moreover have "pmm_get_page ?s = pmm_get_page small_heap" by simp
    ultimately show ?thesis using that(2) by (simp add: foreign_def small_heap_table_frame)
  qed
qed

end
