(* ===== verification/Mm_Properties.thy ===== *)
theory Mm_Properties
  imports Small_Heap
begin

text \<open>
  The properties of the virtual memory manager and of the kernel heap, each with an instance on
  the small machine of theory \<open>Small_Heap\<close>.
\<close>

section \<open>Page tables\<close>

text \<open>C5: with a well-formed address space and three free frames, \<open>vmm_map_page\<close> returns; the
  address space stays well formed, the lookup of the mapped page gives the new entry and the
  lookup of every other page what it gave before, no frame in use is given up, and memory
  that is in use and holds no page table is unchanged.\<close>

theorem vmm_map_page_updates_one_page:
  assumes "vmm_wf s" and "\<not> direct v" and "3 \<le> card (free_frames s)"
  shows "\<exists>t. vmm_map_page v p f s = Inr t \<and> vmm_wf t \<and>
    (\<forall>w. \<not> direct w \<longrightarrow> vmm_get_page t w = (if vpn w = vpn v then p OR f else vmm_get_page s w)) \<and>
    (\<forall>g. pmm_get_page s g \<longrightarrow> pmm_get_page t g) \<and>
    (\<forall>a. pmm_get_page s (a AND PAGE_MASK) \<and> \<not> table_frame s (a AND PAGE_MASK) \<longrightarrow> mem t a = mem s a)"
proof -
  have "pmm_ready s" using assms(1) by (simp add: vmm_wf_def)
  then obtain t where t: "vmm_map_page v p f s = Inr t" using vmm_map_page_returns assms(3) by blast
  note sp = vmm_map_page_spec[OF assms(1,2) t]
  show ?thesis using t sp(3) growsD[OF sp(1)] by blast
qed

theorem vmm_map_page_updates_one_page_witness:
  "\<exists>t. vmm_map_page KERNEL_HEAP 0x200000 3 small_heap = Inr t \<and> vmm_get_page t KERNEL_HEAP = 0x200003 \<and>
    vmm_get_page t (KERNEL_HEAP + 0x1000) = 0"
proof -
  have nd: "\<not> direct KERNEL_HEAP" "\<not> direct (KERNEL_HEAP + 0x1000)"
    by (rule heap_not_direct; simp add: KERNEL_HEAP_def)+
  have pn: "vpn (KERNEL_HEAP + 0x1000) \<noteq> vpn KERNEL_HEAP" by (simp add: vpn_def KERNEL_HEAP_def)
  obtain t where t: "vmm_map_page KERNEL_HEAP 0x200000 3 small_heap = Inr t"
    "\<forall>w. \<not> direct w \<longrightarrow> vmm_get_page t w = (if vpn w = vpn KERNEL_HEAP then 0x200000 OR 3 else vmm_get_page small_heap w)"
    using vmm_map_page_updates_one_page[OF small_heap_wf nd(1), where p = "0x200000" and f = "3"] small_heap_free by auto
  have "vmm_get_page t KERNEL_HEAP = 0x200003" using t(2) nd(1) by simp
  moreover have "vmm_get_page t (KERNEL_HEAP + 0x1000) = 0" using t(2) nd(2) pn small_heap_unmapped by simp
  ultimately show ?thesis using t(1) by blast
qed

lemma vmm_next_table_exhausted:
  assumes "pmm_ready s" and "free_frames s = {}" and "walk (mem s) t [i] = None"
  shows "vmm_next_table (t + PHYSICAL_MEMORY) i s = Inl (Panic ''out of memory.'')"
proof (cases rule: pmm_alloc_page_ready[OF assms(1)])
  case 1
  then show ?thesis using assms(3) by (auto simp: vmm_next_table_def present_def Let_def split: if_splits)
next
  case (2 p)
  then show ?thesis using assms(2) by (auto simp: free_frames_def)
qed

text \<open>When the tables an address needs do not exist and no frame is free, \<open>vmm_map_page\<close>
  stops the kernel with \<open>out of memory\<close>; it never maps the page half-way.\<close>

theorem vmm_map_page_out_of_memory:
  assumes "vmm_wf s" and "free_frames s = {}" and "walk (mem s) (root s) (vpath v) = None"
  shows "vmm_map_page v p f s = Inl (Panic ''out of memory.'')"
proof -
  let ?v = "v AND 0xFFFFFFFFFFFF"
  let ?a = "table_index 39 ?v" and ?b = "table_index 30 ?v" and ?c = "table_index 21 ?v"
  have rdy: "pmm_ready s" using assms(1) by (simp add: vmm_wf_def)
  note none = vmm_next_table_exhausted[OF rdy assms(2)] and some = vmm_next_table_present
  have run: "vmm_map_page v p f s = bnd (vmm_next_table (root s + PHYSICAL_MEMORY) ?a s) (\<lambda>(pdpt, s).
        bnd (vmm_next_table pdpt ?b s) (\<lambda>(pd, s). bnd (vmm_next_table pd ?c s) (\<lambda>(pt, s).
        Inr (flush_tlb ?v (kwrite64 (pt + 8 * table_index 12 ?v) (p OR f) s)))))"
    by (simp add: vmm_map_page_def root_def Let_def)
  show ?thesis
  proof (cases "walk (mem s) (root s) [?a]")
    case None
    then show ?thesis using none[OF None] run by simp
  next
    case (Some t1)
    note r1 = some[OF Some]
    show ?thesis
    proof (cases "walk (mem s) t1 [?b]")
      case None
      then show ?thesis using none[OF None] r1 run by simp
    next
      case s2: (Some t2)
      have "walk (mem s) t2 [?c] = None"
        using assms(3) Some s2 by (auto simp: vpath_def Let_def split: if_splits)
      then show ?thesis using none r1 some[OF s2] run by simp
    qed
  qed
qed

theorem vmm_map_page_out_of_memory_witness:
  "vmm_map_page KERNEL_HEAP 0x200000 3 (small_heap\<lparr>pmm_bitmap := \<lambda>_. 0xFF\<rparr>) = Inl (Panic ''out of memory.'')"
proof -
  let ?s = "small_heap\<lparr>pmm_bitmap := \<lambda>_. 0xFF\<rparr>"
  have used: "page_used ?s pn" for pn using bit_255 by (simp add: page_used_def)
  then have get: "pmm_get_page ?s q" for q by (simp add: pmm_get_page_iff)
  have "tree (mem ?s) (root ?s) (pmm_get_page ?s)"
    unfolding tree_def using get by (auto simp: walk_zero read64_zero aligned_def root_def PAGE_MASK_def)
  then have "vmm_wf ?s" using used by (simp add: vmm_wf_def pmm_ready_def)
  moreover have "free_frames ?s = {}" using get by (simp add: free_frames_def)
  moreover have "walk (mem ?s) (root ?s) (vpath KERNEL_HEAP) = None" by (simp add: walk_zero vpath_def Let_def)
  ultimately show ?thesis by (rule vmm_map_page_out_of_memory)
qed

text \<open>The address \<open>vmm_map_page\<close> passes to \<open>flush_tlb\<close> is the mapped address cut to its low
  48 bits; for an address of the kernel's half this is a different, non-canonical address, so
  the cached translation of the mapped page is not the one flushed.\<close>

theorem vmm_map_page_flushes_other_address:
  assumes "vmm_map_page v p f s = Inr t" and "PHYSICAL_MEMORY \<le> v"
  shows "\<exists>w. tlb_flushed t = w # tlb_flushed s \<and> w \<noteq> v \<and> bit w 47 \<and> \<not> bit w 63"
proof -
  let ?w = "v AND 0xFFFFFFFFFFFF"
  have step: "tlb_flushed s2 = tlb_flushed s1" if run: "vmm_next_table u i s1 = Inr (u', s2)" for u i u' and s1 s2 :: "'a vmm_scheme"
  proof -
    have "tlb_flushed s3 = tlb_flushed s1" if "pmm_alloc_page s1 = Inr (x, s3)" for x s3
      using pmm_alloc_page_frame[OF that] by auto
    then show ?thesis using run
      by (auto simp: vmm_next_table_def kwrite64_def kmemset_def Let_def bnd_Inr_iff split: if_splits)
  qed
  have fl: "tlb_flushed t = ?w # tlb_flushed s"
    using assms(1) unfolding vmm_map_page_def Let_def
    by (auto simp: bnd_Inr_iff flush_tlb_def kwrite64_def dest!: step)
  have "unat v div 2 ^ 47 = 0x1FFFF"
    using assms(2) unat_less_size[of v] by (simp add: PHYSICAL_MEMORY_def word_le_nat_alt)
  then have "drop_bit 47 v = 0x1FFFF" by (simp add: word_unat_eq_iff drop_bit_eq_div unat_div)
  then have "bit (drop_bit 47 v) 0" "bit (drop_bit 47 v) 16" by simp_all
  then have "bit v 47" "bit v 63" by (simp_all add: bit_simps)
  then have "bit ?w 47" "\<not> bit ?w 63" "bit v 63" by (simp_all add: and_low48 bit_simps)
  then show ?thesis using fl by (intro exI[of _ ?w]) auto
qed

theorem vmm_map_page_flushes_other_address_witness:
  "\<exists>t w. vmm_map_page KERNEL_HEAP 0x200000 3 small_heap = Inr t \<and> tlb_flushed t = w # tlb_flushed small_heap \<and>
    w \<noteq> KERNEL_HEAP"
proof -
  have "pmm_ready small_heap" using small_heap_wf by (simp add: vmm_wf_def)
  then obtain t where t: "vmm_map_page KERNEL_HEAP 0x200000 3 small_heap = Inr t"
    using vmm_map_page_returns[where s = small_heap and v = KERNEL_HEAP and p = "0x200000" and f = "3"] small_heap_free by auto
  have "PHYSICAL_MEMORY \<le> KERNEL_HEAP" by (simp add: PHYSICAL_MEMORY_def KERNEL_HEAP_def)
  then show ?thesis using t vmm_map_page_flushes_other_address[OF t] by blast
qed

section \<open>Ranges of pages\<close>

text \<open>C6: if some range of \<open>count\<close> unmapped pages lies at or above the start address and enough
  frames are free, \<open>vmm_alloc\<close> returns the lowest such range.  Each of its pages is then mapped
  to a frame of its own that was free before, every other page keeps its mapping, memory in
  use is untouched, and the lock is free again.\<close>

theorem vmm_alloc_maps_fresh_range:
  assumes "vmm_wf s" and "vmm_mutex s = MUTEX_FREE" and "in_range start (k + unat count)" and "0 < unat count"
    and "range_free s (start + of_nat (4096 * k)) (unat count)"
    and "count < total_pages s - used_pages s" and "4 * unat count \<le> card (free_frames s)"
  shows "\<exists>j t. j \<le> k \<and> vmm_alloc start count flags s = Inr (start + of_nat (4096 * j), t) \<and>
    (\<forall>i < j. \<not> range_free s (start + of_nat (4096 * i)) (unat count)) \<and>
    range_free s (start + of_nat (4096 * j)) (unat count) \<and>
    (\<exists>frame. mapped_fresh s t (start + of_nat (4096 * j)) flags [0..<unat count] frame) \<and>
    vmm_wf t \<and> vmm_mutex t = MUTEX_FREE \<and>
    (\<forall>a. pmm_get_page s (a AND PAGE_MASK) \<and> \<not> table_frame s (a AND PAGE_MASK) \<longrightarrow> mem t a = mem s a)"
proof -
  obtain ptr t where run: "vmm_alloc start count flags s = Inr (ptr, t)" "ptr \<noteq> 0" "vmm_mutex t = MUTEX_FREE"
    using vmm_alloc_returns[OF assms] .
  obtain j where j: "j \<le> k" "vmm_find s start count = Some (start + of_nat (4096 * j))"
    "range_free s (start + of_nat (4096 * j)) (unat count)"
    "\<forall>i < j. \<not> range_free s (start + of_nat (4096 * i)) (unat count)"
    using vmm_find_first[OF assms(3-5)] by blast
  have ptr: "ptr = start + of_nat (4096 * j)"
    using run(1,2) j(2) by (auto simp: vmm_alloc_def Let_def bnd_Inr_iff split: if_splits)
  note sp = vmm_alloc_spec[OF assms(1,3-5) run(1,2)]
  have "t\<lparr>vmm_mutex := vmm_mutex s\<rparr> = t" using run(3) assms(2) by simp
  then have gr: "grows s t" using sp(3) by simp
  show ?thesis using j run(1,3) sp(4) growsD(1,4)[OF gr] unfolding ptr by blast
qed

theorem vmm_alloc_maps_fresh_range_witness:
  "\<exists>t frame. vmm_alloc KERNEL_HEAP 2 3 small_heap = Inr (KERNEL_HEAP, t) \<and>
    mapped_fresh small_heap t KERNEL_HEAP 3 [0, 1] frame"
proof -
  have rng: "in_range KERNEL_HEAP (0 + unat (2 :: u64))" by (simp add: in_range_def KERNEL_HEAP_def MMIO_REGION_def)
  have fr: "range_free small_heap (KERNEL_HEAP + of_nat (4096 * 0)) (unat (2 :: u64))"
    by (rule small_heap_range_free0[OF rng])
  have "[0..<unat (2 :: u64)] = [0, 1]" by (simp add: upt_rec)
  then show ?thesis
    using vmm_alloc_maps_fresh_range[OF small_heap_wf _ rng _ fr, where flags = 3] small_heap_free by auto
qed

text \<open>C7: \<open>vmm_free\<close> of a range of heap pages returns, unmaps exactly the pages of the range,
  marks exactly their frames free, and leaves the mapping and the contents of every other
  page, the ownership of frames and the page accounting as they were.\<close>

theorem vmm_free_releases_range:
  assumes "heap_wf s" and "vmm_mutex s = MUTEX_FREE" and "KERNEL_HEAP \<le> v" and "aligned 4096 v"
    and "in_range v (unat count)"
  shows "\<exists>t. vmm_free v count s = Inr t \<and> heap_wf t \<and> vmm_mutex t = MUTEX_FREE \<and>
    (\<forall>w. \<not> direct w \<longrightarrow> vmm_get_page t w =
      (if present (vmm_get_page s w) \<and> (\<exists>i < unat count. vpn w = vpn (v + of_nat (4096 * i))) then 0 else vmm_get_page s w)) \<and>
    (\<forall>pn. page_used t pn \<longleftrightarrow> page_used s pn \<and>
      (\<forall>i < unat count. present (vmm_get_page s (v + of_nat (4096 * i))) \<longrightarrow> pn \<noteq> vmm_get_page s (v + of_nat (4096 * i)) div 4096)) \<and>
    (\<forall>a. \<not> table_frame s (a AND PAGE_MASK) \<longrightarrow> mem t a = mem s a) \<and>
    used_pages t - of_nat (card (used_set t)) = used_pages s - of_nat (card (used_set s))"
proof -
  obtain t where t: "vmm_free v count s = Inr t"
    "unmapped s t (map (\<lambda>i. v + of_nat (4096 * i)) [0..<unat count])"
    using vmm_free_spec[OF assms(1-3,5,4)] by blast
  have mem: "vpn w \<in> vpn ` set (map (\<lambda>i. v + of_nat (4096 * i)) [0..<unat count]) \<longleftrightarrow>
      (\<exists>i < unat count. vpn w = vpn (v + of_nat (4096 * i)))" for w by auto
  have ball: "(\<forall>x \<in> set (map (\<lambda>i. v + of_nat (4096 * i)) [0..<unat count]). P x) \<longleftrightarrow>
      (\<forall>i < unat count. P (v + of_nat (4096 * i)))" for P by auto
  show ?thesis
    using t assms(2) unfolding unmapped_def mem ball uncounted_def by (intro exI[of _ t]) simp
qed

theorem vmm_free_releases_range_witness:
  "\<exists>(s :: heap) p t. heap_wf s \<and> present (vmm_get_page s p) \<and> vmm_free p 1 s = Inr t \<and> vmm_get_page t p = 0"
proof -
  obtain p and s :: heap where s: "heap_ok s" "heap_block s p 100" using small_heap_block by blast
  have one: "unat (heap_pages 100) = unat (1 :: u64)" using heap_pages_unat(1)[of 100] by simp
  have b: "KERNEL_HEAP \<le> p" "aligned 4096 p" "in_range p (unat (1 :: u64))" "present (vmm_get_page s p)"
    using s(2) heap_block_owns[OF s(2), of 0] unfolding heap_block_def one by (simp_all add: heap_owns_def)
  have run: "heap_wf s" "vmm_mutex s = MUTEX_FREE" using s(1) by (auto simp: heap_ok_def)
  obtain t where t: "vmm_free p 1 s = Inr t" "\<forall>w. \<not> direct w \<longrightarrow> vmm_get_page t w =
      (if present (vmm_get_page s w) \<and> (\<exists>i < unat (1 :: u64). vpn w = vpn (p + of_nat (4096 * i))) then 0 else vmm_get_page s w)"
    using vmm_free_releases_range[OF run b(1-3)] by blast
  have "vmm_get_page t p = 0" using t(2) heap_not_direct[OF b(1)] b(4) by simp
  then show ?thesis using run(1) b(4) t(1) by blast
qed

text \<open>\<open>vmm_create_mmio\<close>, given an unmapped range in the MMIO region, free frames for the
  tables, a name of fewer than 64 characters and a free slot, returns a virtual range that
  was unmapped, maps it page by page to the device's physical range uncached, changes no
  other mapping, and records the region.\<close>

theorem vmm_create_mmio_maps_device:
  assumes "vmm_wf s" and "vmm_mutex s = MUTEX_FREE" and "in_range MMIO_REGION (k + unat pages)" and "0 < unat pages"
    and "range_free s (MMIO_REGION + of_nat (4096 * k)) (unat pages)" and "3 * unat pages \<le> card (free_frames s)"
    and "length name < 64" and "mmio_region_count s < MAX_MMIO"
  shows "\<exists>v t. vmm_create_mmio physical pages name s = Inr (v, t) \<and> vmm_wf t \<and> vmm_mutex t = MUTEX_FREE \<and>
    range_free s v (unat pages) \<and>
    (\<forall>i < unat pages. vmm_get_page t (v + of_nat (4096 * i)) =
      (physical + of_nat (4096 * i)) OR PAGE_PRESENT OR PAGE_WRITE OR PAGE_UNCACHEABLE) \<and>
    (\<forall>w. \<not> direct w \<longrightarrow> (\<forall>i < unat pages. vpn w \<noteq> vpn (v + of_nat (4096 * i))) \<longrightarrow>
      vmm_get_page t w = vmm_get_page s w) \<and>
    mmio_region_count t = mmio_region_count s + 1 \<and>
    mmio_regions t (mmio_region_count s) = \<lparr>device = name, mmio_physical = physical, mmio_virtual = v, mmio_pages = pages\<rparr>"
proof -
  obtain v t where t: "vmm_create_mmio physical pages name s = Inr (v, t)" "vmm_mutex t = MUTEX_FREE"
    "mmio_region_count t = mmio_region_count s + 1"
    "mmio_regions t (mmio_region_count s) = \<lparr>device = name, mmio_physical = physical, mmio_virtual = v, mmio_pages = pages\<rparr>"
    using vmm_create_mmio_returns[OF assms] by blast
  note sp = vmm_create_mmio_spec(1-5)[OF assms(1,3-5) t(1)]
  show ?thesis by (rule exI[of _ v], rule exI[of _ t]) (use t sp in simp)
qed

theorem vmm_create_mmio_maps_device_witness:
  "\<exists>v t. vmm_create_mmio 0xFEC00000 1 [0x49] small_heap = Inr (v, t) \<and> vmm_get_page t v = 0xFEC00013"
proof -
  have rng: "in_range MMIO_REGION (0 + unat (1 :: u64))" by (simp add: in_range_def MMIO_REGION_def)
  have fr: "range_free small_heap (MMIO_REGION + of_nat (4096 * 0)) (unat (1 :: u64))"
    by (rule small_heap_range_free0[OF rng])
  have side: "0 < unat (1 :: u64)" "3 * unat (1 :: u64) \<le> card (free_frames small_heap)" "length [0x49 :: u8] < 64"
    "mmio_region_count small_heap < MAX_MMIO" using small_heap_free by (simp_all add: MAX_MMIO_def)
  obtain v t where t: "vmm_create_mmio 0xFEC00000 1 [0x49] small_heap = Inr (v, t)"
    "\<forall>i < unat (1 :: u64). vmm_get_page t (v + of_nat (4096 * i)) =
      (0xFEC00000 + of_nat (4096 * i)) OR PAGE_PRESENT OR PAGE_WRITE OR PAGE_UNCACHEABLE"
    using vmm_create_mmio_maps_device[OF small_heap_wf _ rng side(1) fr side(2-4), where physical = "0xFEC00000"] by auto
  have "vmm_get_page t v = 0xFEC00013"
    using t(2)[rule_format, of 0] by (simp add: PAGE_PRESENT_def PAGE_WRITE_def PAGE_UNCACHEABLE_def)
  then show ?thesis using t(1) by blast
qed

text \<open>\<open>vmm_set_wc\<close> on a mapped range returns without needing memory; each page keeps its
  frame and flags except that the uncacheable bit is cleared and the write-combining bit set,
  and no other page changes.\<close>

theorem vmm_set_wc_changes_cache_bits:
  assumes "vmm_wf s" and "in_range page (unat count)"
    and "\<forall>i < unat count. present (vmm_get_page s (page + of_nat (4096 * i)))"
  shows "\<exists>t. vmm_set_wc page count s = Inr t \<and> vmm_wf t \<and>
    (\<forall>i < unat count. vmm_get_page t (page + of_nat (4096 * i)) =
      (vmm_get_page s (page + of_nat (4096 * i)) AND NOT PAGE_UNCACHEABLE) OR PAGE_WRITE_COMBINE) \<and>
    (\<forall>w. \<not> direct w \<longrightarrow> (\<forall>i < unat count. vpn w \<noteq> vpn (page + of_nat (4096 * i))) \<longrightarrow>
      vmm_get_page t w = vmm_get_page s w)"
proof -
  obtain t where t: "vmm_set_wc page count s = Inr t" using vmm_set_wc_returns[OF assms] by blast
  note sp = vmm_set_wc_spec(1-3)[OF assms(1,2) t]
  show ?thesis by (rule exI[of _ t]) (use t sp in simp)
qed

theorem vmm_set_wc_changes_cache_bits_witness:
  "\<exists>(s :: heap) p t. vmm_set_wc p 1 s = Inr t \<and> present (vmm_get_page s p) \<and>
    vmm_get_page t p = (vmm_get_page s p AND NOT PAGE_UNCACHEABLE) OR PAGE_WRITE_COMBINE"
proof -
  obtain p and s :: heap where s: "heap_ok s" "heap_block s p 100" using small_heap_block by blast
  have one: "unat (heap_pages 100) = unat (1 :: u64)" using heap_pages_unat(1)[of 100] by simp
  have b: "in_range p (unat (1 :: u64))" "present (vmm_get_page s p)" "vmm_wf s"
    using s heap_block_owns[OF s(2), of 0] unfolding heap_block_def one heap_ok_def heap_wf_def by (simp_all add: heap_owns_def)
  then show ?thesis using vmm_set_wc_changes_cache_bits[OF b(3,1)] by force
qed

section \<open>The kernel heap\<close>

text \<open>C2: \<open>kmalloc\<close>, when the heap has room, returns an address 16 bytes into a page-aligned
  block whose header holds its size in pages and in bytes; the \<open>n\<close> bytes given to the caller
  are zero, no byte of the block belonged to the heap before, every byte that did keeps its
  contents, and all locks are free again.\<close>

theorem kmalloc_returns_fresh_zeroed_block:
  assumes "heap_ok s" and "heap_room s n"
  shows "\<exists>p t. kmalloc n s = Inr (p + 16, t) \<and> heap_ok t \<and> heap_block t p n \<and>
    (\<forall>i < unat n. heap_owns t (p + 16 + of_nat i) \<and> view t (p + 16 + of_nat i) = 0) \<and>
    (\<forall>i < 4096 * unat (heap_pages n). \<not> heap_owns s (p + of_nat i)) \<and>
    (\<forall>a. heap_owns s a \<longrightarrow> heap_owns t a \<and> view t a = view s a)"
proof -
  obtain p t where *: "kmalloc n s = Inr (p + 16, t)" "allocated s t p n" using kmalloc_spec[OF assms] .
  have "heap_block t p n" using *(2) by (simp add: allocated_def)
  then have "heap_owns t (p + 16 + of_nat i)" if "i < unat n" for i
    using heap_block_owns[of t p n "16 + i"] that by (simp add: add.assoc)
  then show ?thesis using * unfolding allocated_def by (intro exI[of _ p] exI[of _ t]) simp
qed

theorem kmalloc_returns_fresh_zeroed_block_witness:
  "\<exists>p t. kmalloc 100 small_heap = Inr (p + 16, t) \<and> heap_block t p 100 \<and> view t (p + 16 + of_nat 7) = 0"
proof -
  have "heap_room small_heap 100" by (rule small_heap_room) simp
  then obtain p t where "kmalloc 100 small_heap = Inr (p + 16, t)" "heap_block t p 100"
    "\<forall>i < unat (100 :: u64). heap_owns t (p + 16 + of_nat i) \<and> view t (p + 16 + of_nat i) = 0"
    using kmalloc_returns_fresh_zeroed_block[OF small_heap_ok] by blast
  moreover have "7 < unat (100 :: u64)" by simp
  ultimately show ?thesis by blast
qed

text \<open>C3: \<open>kfree\<close> of a block returns, unmaps the block, marks exactly the frames of its pages
  free, and leaves every other heap byte mapped with its contents.\<close>

theorem kfree_releases_block:
  assumes "heap_ok s" and "heap_block s p n"
  shows "\<exists>t. kfree (p + 16) s = Inr t \<and> heap_ok t \<and>
    (\<forall>i < 4096 * unat (heap_pages n). \<not> heap_owns t (p + of_nat i)) \<and>
    (\<forall>a. heap_owns s a \<longrightarrow> (\<forall>i < 4096 * unat (heap_pages n). a \<noteq> p + of_nat i) \<longrightarrow>
      heap_owns t a \<and> view t a = view s a) \<and>
    (\<forall>pn. page_used t pn \<longleftrightarrow> page_used s pn \<and>
      (\<forall>i < unat (heap_pages n). pn \<noteq> vmm_get_page s (p + of_nat (4096 * i)) div 4096))"
  by (rule kfree_spec[OF assms])

theorem kfree_releases_block_witness:
  "\<exists>p s t. kmalloc 100 small_heap = Inr (p + 16, s) \<and> kfree (p + 16) s = Inr t \<and> \<not> heap_owns t (p + of_nat 0)"
proof -
  obtain p s where s: "kmalloc 100 small_heap = Inr (p + 16, s)" "heap_ok s" "heap_block s p 100"
    using small_heap_block by blast
  have "0 < 4096 * unat (heap_pages 100)" using heap_pages_unat(4)[of 100] by simp
  then show ?thesis using s(1) kfree_releases_block[OF s(2,3)] by blast
qed

text \<open>C4: \<open>krealloc\<close> of a block to a size that is not smaller returns a new block that starts
  with the old contents, continues with zeros, and the old block is gone.\<close>

theorem krealloc_keeps_contents:
  assumes "heap_ok s" and "heap_block s p n" and "heap_room s m" and "n \<le> m"
  shows "\<exists>q t. krealloc (p + 16) m s = Inr (q + 16, t) \<and> heap_ok t \<and> heap_block t q m \<and>
    (\<forall>i < unat m. view t (q + 16 + of_nat i) = (if i < unat n then view s (p + 16 + of_nat i) else 0)) \<and>
    (\<forall>i < 4096 * unat (heap_pages n). \<not> heap_owns t (p + of_nat i))"
  by (rule krealloc_spec[OF assms]) blast

lemma small_heap_second_room:
  assumes "kmalloc 100 small_heap = Inr (p + 16, s)" and al: "allocated small_heap s p 100"
  shows "heap_room s 200"
proof -
  have pg: "unat (heap_pages 100) = 1" "unat (heap_pages 200) = 1"
    using heap_pages_unat(1)[of 100] heap_pages_unat(1)[of 200] by simp_all
  have one: "heap_pages 200 = 1" using pg(2) by (simp add: word_unat_eq_iff)
  have fr: "card (free_frames small_heap) \<le> 4 + card (free_frames s)" "card (free_frames s) \<le> card (free_frames small_heap)"
    using al pg unfolding allocated_def by (auto intro: card_mono)
  define d where "d = card (free_frames small_heap) - card (free_frames s)"
  have "used_pages s + of_nat (card (free_frames s)) = 8 + of_nat (card (free_frames small_heap))"
    using al by (simp add: allocated_def frame_total_def)
  then have "used_pages s = 8 + of_nat d" using fr by (simp add: d_def of_nat_diff algebra_simps)
  moreover have "d \<le> 4" using fr by (simp add: d_def)
  moreover have "total_pages s = 4096" using al by (simp add: allocated_def)
  ultimately have "heap_pages 200 < total_pages s - used_pages s"
    using one by (simp add: word_less_nat_alt unat_sub_if' unat_word_ariths unat_of_nat)
  moreover have "4 * unat (heap_pages 200) \<le> card (free_frames s)" using small_heap_free fr pg by linarith
  moreover have "\<exists>k. in_range KERNEL_HEAP (k + 1) \<and> range_free s (KERNEL_HEAP + of_nat (4096 * k)) 1"
  proof -
    define k :: nat where "k = (if p = KERNEL_HEAP then 1 else 0)"
    let ?a = "KERNEL_HEAP + of_nat (4096 * k)"
    have "aligned 4096 p" "in_range p 1" using al pg by (simp_all add: allocated_def heap_block_def)
    have "?a \<noteq> p + of_nat i" if "i < 4096" for i
    proof
      assume eq: "?a = p + of_nat i"
      have "p = ?a AND PAGE_MASK" unfolding eq using mask_offset[OF \<open>aligned 4096 p\<close> that] by simp
      then have "p = ?a" using mask_aligned[OF aligned_KERNEL_HEAP] by metis
      then show False by (simp add: k_def KERNEL_HEAP_def split: if_splits)
    qed
    moreover have "\<not> heap_owns small_heap ?a" by (simp add: heap_owns_def small_heap_unmapped)
    moreover have "heap_owns s ?a \<longrightarrow> heap_owns small_heap ?a \<or> (\<exists>i < 4096. ?a = p + of_nat i)"
      using al pg unfolding allocated_def by simp
    ultimately have "\<not> heap_owns s ?a" by blast
    moreover have ge: "KERNEL_HEAP \<le> ?a" "\<not> ?a < MMIO_REGION" by (simp_all add: k_def KERNEL_HEAP_def MMIO_REGION_def)
    ultimately have "vmm_get_physical s ?a = None"
      by (simp add: vmm_get_physical_def heap_owns_def present_def Let_def)
    then have "range_free s ?a 1" by (simp add: range_free_def)
    moreover have "in_range KERNEL_HEAP (k + 1)" by (simp add: in_range_def k_def KERNEL_HEAP_def MMIO_REGION_def)
    ultimately show ?thesis by blast
  qed
  ultimately show ?thesis using pg by (simp add: heap_room_def)
qed

theorem krealloc_keeps_contents_witness:
  "\<exists>p s q t. kmalloc 100 small_heap = Inr (p + 16, s) \<and> krealloc (p + 16) 200 s = Inr (q + 16, t) \<and>
    heap_block t q 200 \<and> view t (q + 16 + of_nat 150) = 0"
proof -
  have "heap_room small_heap 100" by (rule small_heap_room) simp
  from kmalloc_spec[OF small_heap_ok this] obtain p s where
    s: "kmalloc 100 small_heap = Inr (p + 16, s)" "allocated small_heap s p 100" .
  have ok: "heap_ok s" "heap_block s p 100" using s(2) by (simp_all add: allocated_def)
  have "(100 :: u64) \<le> 200" by simp
  from krealloc_keeps_contents[OF ok small_heap_second_room[OF s] this] obtain q t where
    "krealloc (p + 16) 200 s = Inr (q + 16, t)" "heap_block t q 200"
    "\<forall>i < unat (200 :: u64). view t (q + 16 + of_nat i) = (if i < unat (100 :: u64) then view s (p + 16 + of_nat i) else 0)"
    by blast
  moreover have "150 < unat (200 :: u64)" "\<not> 150 < unat (100 :: u64)" by simp_all
  ultimately show ?thesis using s(1) by metis
qed

text \<open>The size computation of \<open>kmalloc\<close> is not guarded: a request of \<open>SIZE_MAX - 15\<close> bytes
  wraps to a block of no pages, and when the first heap page is not mapped the call runs into a
  page fault writing the header instead of returning \<open>NULL\<close>.\<close>

theorem kmalloc_size_wraps:
  assumes "heap_ok s" and "0 < total_pages s - used_pages s" and "\<not> heap_owns s KERNEL_HEAP"
  shows "kmalloc (- 16) s = Inl (Panic ''page fault'')"
proof -
  let ?s = "s\<lparr>heap_mutex := MUTEX_BUSY\<rparr>"
  have pages: "heap_pages (- 16) = 0" by (simp add: heap_pages_def drop_bit_eq_div)
  have none: "vmm_get_physical u KERNEL_HEAP = None" if "vmm_get_page u KERNEL_HEAP = vmm_get_page s KERNEL_HEAP"
    for u :: "'a heap_scheme"
    using assms(3) that
    by (simp add: vmm_get_physical_def heap_owns_def present_def Let_def KERNEL_HEAP_def PHYSICAL_MEMORY_def MMIO_REGION_def)
  have "vmm_find ?s KERNEL_HEAP 0 = Some KERNEL_HEAP"
    unfolding vmm_find_def using none[of ?s]
    by (subst vmm_find_loop.simps) (simp add: KERNEL_HEAP_def MMIO_REGION_def)
  moreover have "\<not> total_pages s - used_pages s \<le> 0" using assms(2) by (auto simp: not_le)
  moreover have "KERNEL_HEAP \<noteq> 0" by (simp add: KERNEL_HEAP_def)
  ultimately have alloc: "vmm_alloc KERNEL_HEAP 0 KERNEL_HEAP_FLAGS ?s = Inr (KERNEL_HEAP, ?s\<lparr>vmm_mutex := MUTEX_FREE\<rparr>)"
    using assms(1) by (simp add: vmm_alloc_def heap_ok_def)
  have "vwrite64 KERNEL_HEAP 0 u = Inl (Panic ''page fault'')"
    if "vmm_get_page u KERNEL_HEAP = vmm_get_page s KERNEL_HEAP" for u :: "'a heap_scheme"
    unfolding vwrite64_def using none[OF that] by (simp add: vwrite8_def upt_rec)
  then show ?thesis
    using assms(1) alloc \<open>KERNEL_HEAP \<noteq> 0\<close> by (simp add: kmalloc_def pages heap_ok_def vmemset_def)
qed

theorem kmalloc_size_wraps_witness: "kmalloc (- 16) small_heap = Inl (Panic ''page fault'')"
  by (rule kmalloc_size_wraps[OF small_heap_ok]) (simp_all add: heap_owns_def small_heap_unmapped)

end
