(* ===== verification/Ech_Image.thy ===== *)
theory Ech_Image
  imports Prelude
begin

text \<open>
  The echidnaFS image tool, \<open>echfs-utils/echfs-utils.c\<close>: the image file, its state, and the
  routines that read and write numbers and directory entries.
\<close>

section \<open>The image file\<close>

text \<open>
  A file is its bytes and its length; what lies behind the end is not part of it.  Every
  access of the tool seeks first, so the file position is not kept.  A read behind the end
  leaves the rest of its zero-initialised target as it was, a write behind the end fills the
  gap with zeros.  An offset of \<open>2 ^ 63\<close> or more is negative as a \<open>long\<close> and cannot be sought:
  the model stops there with \<open>Overrun\<close>.
\<close>

record file_t =
  fdata :: memory
  flen :: nat

definition fbyte :: "file_t \<Rightarrow> memory" where
  "fbyte f a = (if unat a < flen f then fdata f a else 0)"

definition fput :: "file_t \<Rightarrow> u64 \<Rightarrow> u8 list \<Rightarrow> file_t" where
  "fput f loc bs =
    (if bs = [] then f
     else \<lparr>fdata = store (fbyte f) loc bs, flen = max (flen f) (unat loc + length bs)\<rparr>)"

section \<open>State\<close>

definition SEARCH_FAILURE :: u64 where "SEARCH_FAILURE = 0xFFFFFFFFFFFFFFFF"
definition ROOT_ID :: u64 where "ROOT_ID = 0xFFFFFFFFFFFFFFFF"
definition FILENAME_LEN :: nat where "FILENAME_LEN = 218"
definition RESERVED_BLOCKS :: u64 where "RESERVED_BLOCKS = 16"
definition FILE_TYPE :: u8 where "FILE_TYPE = 0"
definition DIRECTORY_TYPE :: u8 where "DIRECTORY_TYPE = 1"
definition DELETED_ENTRY :: u64 where "DELETED_ENTRY = 0xFFFFFFFFFFFFFFFE"
definition RESERVED_BLOCK :: u64 where "RESERVED_BLOCK = 0xFFFFFFFFFFFFFFF0"
definition END_OF_CHAIN :: u64 where "END_OF_CHAIN = 0xFFFFFFFFFFFFFFFF"

record echfs =
  img :: file_t
  imgsize :: u64
  blocks :: u64
  fatsize :: u64
  fatstart :: u64
  dirsize :: u64
  dirstart :: u64
  datastart :: u64
  bytesperblock :: u64

definition BYTES_PER_BLOCK :: "'a echfs_scheme \<Rightarrow> u64" where
  "BYTES_PER_BLOCK s = bytesperblock s div 512 * 512"

definition ENTRIES_PER_BLOCK :: "'a echfs_scheme \<Rightarrow> u64" where
  "ENTRIES_PER_BLOCK s = bytesperblock s div 512 * 2"

section \<open>Numbers in the image\<close>

definition rd_bytes :: "nat \<Rightarrow> u64 \<Rightarrow> 'a echfs_scheme \<Rightarrow> halt + u8 list" where
  "rd_bytes n loc s = (if bit loc 63 then Inl Overrun else Inr (load (fbyte (img s)) loc n))"

definition wr_bytes :: "u64 \<Rightarrow> u8 list \<Rightarrow> 'a echfs_scheme \<Rightarrow> halt + 'a echfs_scheme" where
  "wr_bytes loc bs s = (if bit loc 63 then Inl Overrun else Inr (s\<lparr>img := fput (img s) loc bs\<rparr>))"

text \<open>\<open>fgetc\<close> behind the end gives \<open>EOF\<close>, whose low byte is \<open>0xFF\<close>.\<close>

definition rd_byte :: "u64 \<Rightarrow> 'a echfs_scheme \<Rightarrow> halt + u8" where
  "rd_byte loc s =
    (if bit loc 63 then Inl Overrun
     else Inr (if unat loc < flen (img s) then fdata (img s) loc else 0xFF))"

definition wr_byte :: "u64 \<Rightarrow> u8 \<Rightarrow> 'a echfs_scheme \<Rightarrow> halt + 'a echfs_scheme" where
  "wr_byte loc x = wr_bytes loc [x]"

definition rd_word :: "u64 \<Rightarrow> 'a echfs_scheme \<Rightarrow> halt + u16" where
  "rd_word loc s = bnd (rd_bytes 2 loc s) (\<lambda>bs. Inr (ucast (le_word bs)))"

definition wr_word :: "u64 \<Rightarrow> u16 \<Rightarrow> 'a echfs_scheme \<Rightarrow> halt + 'a echfs_scheme" where
  "wr_word loc x = wr_bytes loc (le_bytes 2 (ucast x))"

definition rd_dword :: "u64 \<Rightarrow> 'a echfs_scheme \<Rightarrow> halt + u32" where
  "rd_dword loc s = bnd (rd_bytes 4 loc s) (\<lambda>bs. Inr (ucast (le_word bs)))"

definition wr_dword :: "u64 \<Rightarrow> u32 \<Rightarrow> 'a echfs_scheme \<Rightarrow> halt + 'a echfs_scheme" where
  "wr_dword loc x = wr_bytes loc (le_bytes 4 (ucast x))"

definition rd_qword :: "u64 \<Rightarrow> 'a echfs_scheme \<Rightarrow> halt + u64" where
  "rd_qword loc s = bnd (rd_bytes 8 loc s) (\<lambda>bs. Inr (le_word bs))"

definition wr_qword :: "u64 \<Rightarrow> u64 \<Rightarrow> 'a echfs_scheme \<Rightarrow> halt + 'a echfs_scheme" where
  "wr_qword loc x = wr_bytes loc (le_bytes 8 x)"

section \<open>Directory entries\<close>

record entry_t =
  parent_id :: u64
  etype :: u8
  ename :: "u8 list"
  perms :: u8
  owner :: u16
  egroup :: u16
  etime :: u64
  payload :: u64
  esize :: u64

definition empty_entry :: entry_t where
  "empty_entry = \<lparr>parent_id = 0, etype = 0, ename = replicate FILENAME_LEN 0, perms = 0, owner = 0,
     egroup = 0, etime = 0, payload = 0, esize = 0\<rparr>"

text \<open>The packed layout of \<open>entry_t\<close>, 256 bytes.\<close>

definition entry_bytes :: "entry_t \<Rightarrow> u8 list" where
  "entry_bytes e = le_bytes 8 (parent_id e) @ [etype e] @ ename e @ [perms e] @
     le_bytes 2 (ucast (owner e)) @ le_bytes 2 (ucast (egroup e)) @
     le_bytes 8 (etime e) @ le_bytes 8 (payload e) @ le_bytes 8 (esize e)"

definition entry_of :: "u8 list \<Rightarrow> entry_t" where
  "entry_of bs = \<lparr>parent_id = le_word (take 8 bs), etype = bs ! 8, ename = take 218 (drop 9 bs),
     perms = bs ! 227, owner = ucast (le_word (take 2 (drop 228 bs))),
     egroup = ucast (le_word (take 2 (drop 230 bs))), etime = le_word (take 8 (drop 232 bs)),
     payload = le_word (take 8 (drop 240 bs)), esize = le_word (take 8 (drop 248 bs))\<rparr>"

text \<open>
  \<open>rd_entry\<close> reads into an uninitialised structure: reading an entry the file holds only in
  part would use indeterminate bytes.
\<close>

definition rd_entry :: "'a echfs_scheme \<Rightarrow> u64 \<Rightarrow> halt + entry_t" where
  "rd_entry s entry =
    (let loc = dirstart s * bytesperblock s + entry * 256
     in if (dirstart s + dirsize s) * bytesperblock s \<le> loc
        then Inl (Panic ''ATTEMPTING TO READ DIRECTORY OUT OF BOUNDS'')
        else if flen (img s) < unat loc + 256 then Inl Overrun
        else bnd (rd_bytes 256 loc s) (\<lambda>bs. Inr (entry_of bs)))"

definition wr_entry :: "u64 \<Rightarrow> entry_t \<Rightarrow> 'a echfs_scheme \<Rightarrow> halt + 'a echfs_scheme" where
  "wr_entry entry entry_src s =
    (let loc = dirstart s * bytesperblock s + entry * 256
     in if (dirstart s + dirsize s) * BYTES_PER_BLOCK s \<le> loc
        then Inl (Panic ''ATTEMPTING TO WRITE DIRECTORY OUT OF BOUNDS'')
        else wr_bytes loc (entry_bytes entry_src) s)"

section \<open>Encoding\<close>

lemma le_word_bytes16: "ucast (le_word (le_bytes 2 (ucast (x :: u16)))) = x"
  by (rule bit_word_eqI) (auto simp: bit_simps bit_le_word less_mult_imp_div_less)

lemma length_entry_bytes: "length (ename e) = 218 \<Longrightarrow> length (entry_bytes e) = 256"
  by (simp add: entry_bytes_def)

lemma entry_of_bytes:
  assumes "length (ename e) = 218"
  shows "entry_of (entry_bytes e) = e"
  using assms by (simp add: entry_of_def entry_bytes_def nth_append le_word_bytes16)

section \<open>Byte addresses as numbers\<close>

text \<open>The byte of a file at offset \<open>n\<close>, and the \<open>k\<close> bytes from there.\<close>

definition fb :: "file_t \<Rightarrow> nat \<Rightarrow> u8" where
  "fb f n = fbyte f (of_nat n)"

definition slice :: "file_t \<Rightarrow> nat \<Rightarrow> nat \<Rightarrow> u8 list" where
  "slice f n k = map (fb f) [n..<n + k]"

lemma length_slice [simp]: "length (slice f n k) = k"
  by (simp add: slice_def)

lemma nth_slice [simp]: "i < k \<Longrightarrow> slice f n k ! i = fb f (n + i)"
  by (simp add: slice_def)

lemma load_fbyte: "load (fbyte f) (of_nat n) k = slice f n k"
  by (auto intro!: nth_equalityI simp: fb_def)

lemma fb_fput [mem_simps]:
  assumes "l + length bs \<le> 2 ^ 63" and "n < 2 ^ 63"
  shows "fb (fput f (of_nat l) bs) n = (if l \<le> n \<and> n < l + length bs then bs ! (n - l) else fb f n)"
proof (cases "bs = []")
  case True
  then show ?thesis by (auto simp: fput_def)
next
  case False
  have u: "unat (of_nat l :: u64) = l" "unat (of_nat n :: u64) = n" using assms by (simp_all add: unat_of_nat)
  have off: "unat (of_nat n - of_nat l :: u64) = (if l \<le> n then n - l else n + 2 ^ 64 - l)"
    using assms by (simp add: unat_sub_if' u word_le_nat_alt)
  show ?thesis
    using False assms u off by (auto simp: fb_def fbyte_def fput_def store_def)
qed

lemma flen_fput: "l + length bs < 2 ^ 63 \<Longrightarrow>
    flen (fput f (of_nat l) bs) = (if bs = [] then flen f else max (flen f) (l + length bs))"
  by (simp add: fput_def unat_of_nat)

lemma slice_fput_same [mem_simps]:
  "l + length bs \<le> 2 ^ 63 \<Longrightarrow> slice (fput f (of_nat l) bs) l (length bs) = bs"
  by (auto intro!: nth_equalityI simp: fb_fput)

lemma slice_fput_other [mem_simps]:
  "l + length bs \<le> 2 ^ 63 \<Longrightarrow> n + k \<le> 2 ^ 63 \<Longrightarrow> n + k \<le> l \<or> l + length bs \<le> n \<Longrightarrow>
    slice (fput f (of_nat l) bs) n k = slice f n k"
  by (auto intro!: nth_equalityI simp: fb_fput)

lemma seek_small: "n < 2 ^ 63 \<Longrightarrow> \<not> bit (of_nat n :: u64) 63"
  by (simp add: bit_of_nat_iff) (simp add: bit_iff_odd)

lemma rd_bytes_small: "n < 2 ^ 63 \<Longrightarrow> rd_bytes k (of_nat n) s = Inr (slice (img s) n k)"
  by (simp add: rd_bytes_def seek_small load_fbyte)

lemma wr_bytes_small: "n < 2 ^ 63 \<Longrightarrow> wr_bytes (of_nat n) bs s = Inr (s\<lparr>img := fput (img s) (of_nat n) bs\<rparr>)"
  by (simp add: wr_bytes_def seek_small)

lemma rd_qword_small: "n < 2 ^ 63 \<Longrightarrow> rd_qword (of_nat n) s = Inr (le_word (slice (img s) n 8))"
  by (simp add: rd_qword_def rd_bytes_small)

lemma wr_qword_small: "n < 2 ^ 63 \<Longrightarrow>
    wr_qword (of_nat n) x s = Inr (s\<lparr>img := fput (img s) (of_nat n) (le_bytes 8 x)\<rparr>)"
  by (simp add: wr_qword_def wr_bytes_small)

section \<open>The layout of an image\<close>

definition bpb :: "'a echfs_scheme \<Rightarrow> nat" where
  "bpb s = unat (bytesperblock s)"

text \<open>
  The layout \<open>main\<close> computes: reserved blocks, allocation table, directory and data blocks one
  after the other, in an image of whole blocks.
\<close>

definition layout :: "'a echfs_scheme \<Rightarrow> bool" where
  "layout s \<longleftrightarrow> 0 < bpb s \<and> 512 dvd bpb s \<and> flen (img s) < 2 ^ 62 \<and>
    unat (blocks s) * bpb s = flen (img s) \<and> fatstart s = 16 \<and>
    8 * unat (blocks s) \<le> unat (fatsize s) * bpb s \<and>
    dirstart s = 16 + fatsize s \<and> datastart s = 16 + fatsize s + dirsize s \<and>
    16 + unat (fatsize s) + unat (dirsize s) \<le> unat (blocks s)"

lemma layoutD:
  assumes "layout s"
  shows "0 < bpb s" and "bytesperblock s = of_nat (bpb s)" and "bpb s < 2 ^ 62"
    and "unat (blocks s) < 2 ^ 62"
    and "unat (dirstart s) = 16 + unat (fatsize s)"
    and "unat (datastart s) = 16 + unat (fatsize s) + unat (dirsize s)"
    and "\<And>b. b \<le> unat (blocks s) \<Longrightarrow> b * bpb s < 2 ^ 62"
    and "256 dvd bpb s" and "BYTES_PER_BLOCK s = bytesperblock s"
proof -
  note l = assms[unfolded layout_def]
  show B: "0 < bpb s" using l by simp
  show "bytesperblock s = of_nat (bpb s)" by (simp add: bpb_def)
  have le: "b * bpb s \<le> flen (img s)" if "b \<le> unat (blocks s)" for b
    using that l by (metis mult_le_mono1)
  then show m: "b * bpb s < 2 ^ 62" if "b \<le> unat (blocks s)" for b using that l by fastforce
  have "16 \<le> unat (blocks s)" using l by simp
  then show "bpb s < 2 ^ 62" using m[of 16] by simp
  have "unat (blocks s) * 1 \<le> unat (blocks s) * bpb s" using B by (intro mult_le_mono2) simp
  then show bl: "unat (blocks s) < 2 ^ 62" using l by simp
  then have small: "16 + unat (fatsize s) + unat (dirsize s) < 2 ^ 62" using l by simp
  then show "unat (dirstart s) = 16 + unat (fatsize s)" "unat (datastart s) = 16 + unat (fatsize s) + unat (dirsize s)"
    using l by (simp_all add: unat_word_ariths)
  show "256 dvd bpb s" using l by (auto intro: dvd_trans[of 256 512])
  have "512 dvd unat (bytesperblock s)" using l by (simp add: bpb_def)
  then show "BYTES_PER_BLOCK s = bytesperblock s"
    unfolding BYTES_PER_BLOCK_def by (simp add: word_unat_eq_iff unat_div unat_word_ariths)
      (metis dvd_div_mult_self mod_less unat_less_size)
qed

end
