(* ===== verification/Ech_Chain.thy ===== *)
theory Ech_Chain
  imports Ech_Image
begin

text \<open>
  Chains of blocks in the allocation table: \<open>import_chain\<close> and \<open>export_chain\<close> of
  \<open>echfs-utils/echfs-utils.c\<close>.
\<close>

section \<open>Importing\<close>

text \<open>The loop that looks for the first zero entry of the allocation table.\<close>

partial_function (option) fat_scan ::
  "'a echfs_scheme \<Rightarrow> u64 \<Rightarrow> u64 \<Rightarrow> (halt + (u64 \<times> u64)) option" where
  "fat_scan s block loc =
    (case rd_qword loc s of
       Inl e \<Rightarrow> Some (Inl e)
     | Inr x \<Rightarrow> if x \<noteq> 0 then fat_scan s (block + 1) (loc + 8) else Some (Inr (block, loc)))"

definition find_block :: "'a echfs_scheme \<Rightarrow> halt + (u64 \<times> u64)" where
  "find_block s =
    (case fat_scan s 0 (fatstart s * bytesperblock s) of None \<Rightarrow> Inl Diverges | Some r \<Rightarrow> r)"

lemma bnd_cong [fundef_cong]:
  "x = y \<Longrightarrow> (\<And>a. y = Inr a \<Longrightarrow> f a = g a) \<Longrightarrow> bnd x f = bnd y g"
  by (cases y) auto

text \<open>
  The copying loop.  \<open>src\<close> is what is left to read of the source file, \<open>buf\<close> the contents of
  the block buffer; a read that gets fewer bytes leaves the rest of the buffer as it was.
\<close>

lemma unat_step_down: "x \<noteq> n \<Longrightarrow> unat (n - (x + 1)) < unat (n - x)" for x n :: u64
proof -
  assume "x \<noteq> n"
  then have pos: "0 < n - x" by (simp add: word_gt_0)
  have eq: "n - (x + 1) = n - x - 1" by simp
  have "0 < unat (n - x)" using pos by (simp add: word_less_nat_alt)
  then show ?thesis unfolding eq using unat_minus_one_pos[OF pos] by simp
qed

function import_loop ::
  "u64 \<Rightarrow> u8 list \<Rightarrow> u64 \<Rightarrow> u64 \<Rightarrow> u64 \<Rightarrow> u8 list \<Rightarrow> 'a echfs_scheme \<Rightarrow> halt + 'a echfs_scheme" where
  "import_loop source_size_blocks src x block loc buf s =
    (let prev_block = fatstart s * bytesperblock s + block * 8
     in bnd (wr_qword loc END_OF_CHAIN s) (\<lambda>s.
        let n = unat (bytesperblock s);
            buf = take n src @ drop (length (take n src)) buf;
            src = drop n src
        in bnd (wr_bytes (block * bytesperblock s) buf s) (\<lambda>s.
           if src = [] then Inr s
           else if x = source_size_blocks then Inr s
           else bnd (find_block s) (\<lambda>(block, loc).
                bnd (wr_qword prev_block block s) (\<lambda>s.
                import_loop source_size_blocks src (x + 1) block loc buf s)))))"
  by pat_completeness auto
termination
  by (relation "measure (\<lambda>(n, _, x, _). unat (n - x))") (auto simp: unat_step_down)

declare import_loop.simps [simp del]

text \<open>
  \<open>source\<close> is the contents of the source file, \<open>block_buf\<close> what \<open>malloc\<close> returned: the
  contents of a fresh buffer, or \<open>None\<close>.
\<close>

definition import_chain ::
  "u8 list \<Rightarrow> u8 list option \<Rightarrow> 'a echfs_scheme \<Rightarrow> halt + (u64 \<times> 'a echfs_scheme)" where
  "import_chain source block_buf s = (case block_buf of None \<Rightarrow> Inl (Panic ''malloc failure'') | Some block_buf \<Rightarrow>
    (let source_size = of_nat (length source);
         n = source_size div bytesperblock s;
         source_size_blocks = (if source_size mod bytesperblock s \<noteq> 0 then n + 1 else n)
     in bnd (find_block s) (\<lambda>(block, loc).
        bnd (import_loop source_size_blocks source 0 block loc block_buf s) (\<lambda>s.
        Inr (block, s)))))"

section \<open>Exporting\<close>

text \<open>
  \<open>dest\<close> is what has been written so far, so its length is \<open>ftell(dest)\<close>.  Reading past the end
  of the image leaves the rest of the buffer as it was.
\<close>

definition fread_buf :: "'a echfs_scheme \<Rightarrow> u64 \<Rightarrow> nat \<Rightarrow> u8 list \<Rightarrow> halt + u8 list" where
  "fread_buf s loc n buf =
    (let k = min n (flen (img s) - unat loc)
     in bnd (rd_bytes k loc s) (\<lambda>bs. Inr (bs @ drop k buf)))"

partial_function (option) export_loop ::
  "'a echfs_scheme \<Rightarrow> u64 \<Rightarrow> u64 \<Rightarrow> u8 list \<Rightarrow> u8 list \<Rightarrow> (halt + u8 list) option" where
  "export_loop s src_size cur_block buf dest =
    (if cur_block = END_OF_CHAIN then Some (Inr dest)
     else if src_size \<le> of_nat (length dest) + bytesperblock s then
       (case fread_buf s (cur_block * bytesperblock s) (unat (src_size mod bytesperblock s)) buf of
          Inl e \<Rightarrow> Some (Inl e)
        | Inr buf \<Rightarrow> Some (Inr (dest @ take (unat (src_size mod bytesperblock s)) buf)))
     else
       (case fread_buf s (cur_block * bytesperblock s) (unat (bytesperblock s)) buf of
          Inl e \<Rightarrow> Some (Inl e)
        | Inr buf \<Rightarrow>
            (case rd_qword (fatstart s * bytesperblock s + cur_block * 8) s of
               Inl e \<Rightarrow> Some (Inl e)
             | Inr next_block \<Rightarrow>
                 export_loop s src_size next_block buf (dest @ take (unat (bytesperblock s)) buf))))"

definition export_chain :: "'a echfs_scheme \<Rightarrow> entry_t \<Rightarrow> u8 list option \<Rightarrow> halt + u8 list" where
  "export_chain s src block_buf = (case block_buf of None \<Rightarrow> Inl (Panic ''malloc failure'') | Some block_buf \<Rightarrow>
    (case export_loop s (esize src) (payload src) block_buf [] of None \<Rightarrow> Inl Diverges | Some r \<Rightarrow> r))"

section \<open>The allocation table as a function\<close>

definition fat :: "'a echfs_scheme \<Rightarrow> nat \<Rightarrow> u64" where
  "fat s b = le_word (slice (img s) (16 * bpb s + 8 * b) 8)"

definition block_at :: "'a echfs_scheme \<Rightarrow> nat \<Rightarrow> u8 list" where
  "block_at s b = slice (img s) (b * bpb s) (bpb s)"

definition reserved :: "'a echfs_scheme \<Rightarrow> bool" where
  "reserved s \<longleftrightarrow> (\<forall>b < unat (datastart s). fat s b \<noteq> 0)"

definition free_blocks :: "'a echfs_scheme \<Rightarrow> nat set" where
  "free_blocks s = {b. b < unat (blocks s) \<and> fat s b = 0}"

lemma finite_free_blocks [simp]: "finite (free_blocks s)"
  by (simp add: free_blocks_def)

lemma fat_loc:
  assumes "layout s"
  shows "fatstart s * bytesperblock s + of_nat b * 8 = of_nat (16 * bpb s + 8 * b)"
    and "b \<le> unat (blocks s) \<Longrightarrow> 16 * bpb s + 8 * b < 2 ^ 63"
proof -
  have "fatstart s = 16" using assms by (simp add: layout_def)
  then show "fatstart s * bytesperblock s + of_nat b * 8 = of_nat (16 * bpb s + 8 * b)"
    using layoutD(2)[OF assms] by simp
  assume b: "b \<le> unat (blocks s)"
  have "16 * bpb s < 2 ^ 62" using layoutD(7)[OF assms, of 16] assms by (simp add: layout_def)
  moreover have "8 * b \<le> unat (fatsize s) * bpb s" using b assms by (auto simp: layout_def)
  moreover have "unat (fatsize s) * bpb s < 2 ^ 62"
    using layoutD(7)[OF assms, of "unat (fatsize s)"] assms by (simp add: layout_def)
  ultimately show "16 * bpb s + 8 * b < 2 ^ 63" by simp
qed

text \<open>Entries of the table lie below the data blocks.\<close>

lemma fat_below_data:
  assumes "layout s" and "b < unat (blocks s)"
  shows "16 * bpb s + 8 * b + 8 \<le> unat (dirstart s) * bpb s"
proof -
  have "8 * Suc b \<le> unat (fatsize s) * bpb s" using assms by (auto simp: layout_def)
  then show ?thesis using layoutD(5)[OF assms(1)] by (simp add: add_mult_distrib)
qed

section \<open>Finding a free block\<close>

lemma find_block_spec:
  assumes lay: "layout s" and "k \<in> free_blocks s"
  shows "\<exists>b. find_block s = Inr (of_nat b, of_nat (16 * bpb s + 8 * b)) \<and> b \<in> free_blocks s \<and>
    (\<forall>c < b. fat s c \<noteq> 0)"
proof -
  have k: "k < unat (blocks s)" "fat s k = 0" using assms(2) by (auto simp: free_blocks_def)
  have "\<exists>b. fat_scan s (of_nat j) (of_nat (16 * bpb s + 8 * j)) = Some (Inr (of_nat b, of_nat (16 * bpb s + 8 * b)))
      \<and> j \<le> b \<and> b \<le> k \<and> fat s b = 0 \<and> (\<forall>c. j \<le> c \<longrightarrow> c < b \<longrightarrow> fat s c \<noteq> 0)" if "j \<le> k" for j
    using that
  proof (induction "k - j" arbitrary: j)
    case 0
    then have "j = k" by simp
    have "rd_qword (of_nat (16 * bpb s + 8 * k)) s = Inr 0"
      using k rd_qword_small[OF fat_loc(2)[OF lay, of k], of s] by (simp add: fat_def)
    then show ?case using k \<open>j = k\<close> by (subst fat_scan.simps) (auto intro!: exI[of _ k])
  next
    case (Suc n)
    have rd: "rd_qword (of_nat (16 * bpb s + 8 * j)) s = Inr (fat s j)"
      using Suc.prems k rd_qword_small[OF fat_loc(2)[OF lay, of j], of s] by (simp add: fat_def)
    have step: "of_nat j + 1 = (of_nat (Suc j) :: u64)"
      "of_nat (16 * bpb s + 8 * j) + 8 = (of_nat (16 * bpb s + 8 * Suc j) :: u64)" by simp_all
    show ?case
    proof (cases "fat s j = 0")
      case True
      then show ?thesis using rd Suc.prems by (subst fat_scan.simps) (auto intro!: exI[of _ j])
    next
      case False
      have k1: "n = k - Suc j" and k2: "Suc j \<le> k" using Suc.hyps(2) by auto
      obtain b where b: "fat_scan s (of_nat (Suc j)) (of_nat (16 * bpb s + 8 * Suc j)) =
          Some (Inr (of_nat b, of_nat (16 * bpb s + 8 * b)))" "Suc j \<le> b" "b \<le> k" "fat s b = 0"
        "\<forall>c. Suc j \<le> c \<longrightarrow> c < b \<longrightarrow> fat s c \<noteq> 0"
        using Suc.hyps(1)[OF k1 k2] by blast
      have "fat_scan s (of_nat j) (of_nat (16 * bpb s + 8 * j)) = fat_scan s (of_nat (Suc j)) (of_nat (16 * bpb s + 8 * Suc j))"
        using rd False step by (subst fat_scan.simps) (simp del: of_nat_Suc of_nat_add)
      moreover have "\<forall>c. j \<le> c \<longrightarrow> c < b \<longrightarrow> fat s c \<noteq> 0" using b(5) False by (metis Suc_leI le_neq_implies_less)
      ultimately show ?thesis using b by (intro exI[of _ b]) auto
    qed
  qed
  from this[of 0] obtain b where b: "fat_scan s 0 (of_nat (16 * bpb s)) = Some (Inr (of_nat b, of_nat (16 * bpb s + 8 * b)))"
    "b \<le> k" "fat s b = 0" "\<forall>c < b. fat s c \<noteq> 0" by auto
  have "fatstart s * bytesperblock s = of_nat (16 * bpb s)" using fat_loc(1)[OF lay, of 0] by simp
  then have "find_block s = Inr (of_nat b, of_nat (16 * bpb s + 8 * b))" using b(1) by (simp add: find_block_def)
  then show ?thesis using b k by (intro exI[of _ b]) (simp add: free_blocks_def)
qed

section \<open>Writing entries of the table and blocks\<close>

definition set_fat :: "nat \<Rightarrow> u64 \<Rightarrow> 'a echfs_scheme \<Rightarrow> 'a echfs_scheme" where
  "set_fat b v s = s\<lparr>img := fput (img s) (of_nat (16 * bpb s + 8 * b)) (le_bytes 8 v)\<rparr>"

definition set_block :: "nat \<Rightarrow> u8 list \<Rightarrow> 'a echfs_scheme \<Rightarrow> 'a echfs_scheme" where
  "set_block b bs s = s\<lparr>img := fput (img s) (of_nat (b * bpb s)) bs\<rparr>"

text \<open>Steps that leave the reserved blocks and the directory alone.\<close>

definition keeps_dir :: "'a echfs_scheme \<Rightarrow> 'a echfs_scheme \<Rightarrow> bool" where
  "keeps_dir s t \<longleftrightarrow> (\<exists>f. t = s\<lparr>img := f\<rparr> \<and> flen f = flen (img s) \<and>
    (\<forall>n. n < 16 * bpb s \<or> (unat (dirstart s) * bpb s \<le> n \<and> n < unat (datastart s) * bpb s) \<longrightarrow> fb f n = fb (img s) n))"

lemma keeps_dir_trans:
  assumes "keeps_dir s t" and "keeps_dir t u"
  shows "keeps_dir s u"
proof -
  obtain f where f: "t = s\<lparr>img := f\<rparr>" "flen f = flen (img s)"
    "\<forall>n. n < 16 * bpb s \<or> (unat (dirstart s) * bpb s \<le> n \<and> n < unat (datastart s) * bpb s) \<longrightarrow> fb f n = fb (img s) n"
    using assms(1) unfolding keeps_dir_def by blast
  obtain g where g: "u = t\<lparr>img := g\<rparr>" "flen g = flen (img t)"
    "\<forall>n. n < 16 * bpb t \<or> (unat (dirstart t) * bpb t \<le> n \<and> n < unat (datastart t) * bpb t) \<longrightarrow> fb g n = fb (img t) n"
    using assms(2) unfolding keeps_dir_def by blast
  show ?thesis unfolding keeps_dir_def using f g by (intro exI[of _ g]) (simp add: bpb_def)
qed

lemma keeps_dir_fields:
  assumes "keeps_dir s t"
  shows "bpb t = bpb s" "blocks t = blocks s" "datastart t = datastart s" "dirstart t = dirstart s" "fatstart t = fatstart s"
    "dirsize t = dirsize s" "bytesperblock t = bytesperblock s" "flen (img t) = flen (img s)" "layout t = layout s"
  using assms by (auto simp: keeps_dir_def bpb_def layout_def)

lemma set_fat_spec:
  assumes lay: "layout s" and b: "b < unat (blocks s)"
  shows "wr_qword (fatstart s * bytesperblock s + of_nat b * 8) v s = Inr (set_fat b v s)"
    and "keeps_dir s (set_fat b v s)"
    and "\<And>c. c < unat (blocks s) \<Longrightarrow> fat (set_fat b v s) c = (if c = b then v else fat s c)"
    and "\<And>d. unat (dirstart s) \<le> d \<Longrightarrow> d < unat (blocks s) \<Longrightarrow> block_at (set_fat b v s) d = block_at s d"
proof -
  let ?l = "16 * bpb s + 8 * b"
  have top: "?l + 8 \<le> unat (dirstart s) * bpb s" using fat_below_data[OF lay b] .
  have dle: "unat (dirstart s) \<le> unat (blocks s)" "unat (dirstart s) \<le> unat (datastart s)"
    using lay layoutD(5,6)[OF lay] by (auto simp: layout_def)
  have lim: "unat (dirstart s) * bpb s < 2 ^ 62" "unat (datastart s) * bpb s < 2 ^ 62"
    using layoutD(7)[OF lay] layoutD(6)[OF lay] dle lay by (auto simp: layout_def)
  have lt: "?l + 8 < 2 ^ 62" using top lim by linarith
  show "wr_qword (fatstart s * bytesperblock s + of_nat b * 8) v s = Inr (set_fat b v s)"
    unfolding fat_loc(1)[OF lay] set_fat_def using lt by (intro wr_qword_small) simp
  have fl: "flen (fput (img s) (of_nat ?l) (le_bytes 8 v)) = flen (img s)"
  proof -
    have "unat (dirstart s) * bpb s \<le> flen (img s)" using dle lay by (metis layout_def mult_le_mono1)
    then show ?thesis using lt top by (subst flen_fput) (auto simp: max_def)
  qed
  have "fb (fput (img s) (of_nat ?l) (le_bytes 8 v)) n = fb (img s) n"
    if "n < 16 * bpb s \<or> unat (dirstart s) * bpb s \<le> n \<and> n < unat (datastart s) * bpb s" for n
    using that lt lim top by (subst fb_fput) auto
  then show "keeps_dir s (set_fat b v s)" unfolding keeps_dir_def set_fat_def using fl by blast
  show "fat (set_fat b v s) c = (if c = b then v else fat s c)" if "c < unat (blocks s)" for c
  proof (cases "c = b")
    case True
    then show ?thesis using slice_fput_same[of ?l "le_bytes 8 v" "img s"] lt by (simp add: fat_def set_fat_def bpb_def)
  next
    case False
    have "16 * bpb s + 8 * c + 8 < 2 ^ 62" using fat_below_data[OF lay that] lim by linarith
    then have "slice (fput (img s) (of_nat ?l) (le_bytes 8 v)) (16 * bpb s + 8 * c) 8 = slice (img s) (16 * bpb s + 8 * c) 8"
      using False lt by (intro slice_fput_other) auto
    then show ?thesis using False by (simp add: fat_def set_fat_def bpb_def)
  qed
  show "block_at (set_fat b v s) d = block_at s d" if "unat (dirstart s) \<le> d" "d < unat (blocks s)" for d
  proof -
    have "Suc d * bpb s < 2 ^ 62" using layoutD(7)[OF lay, of "Suc d"] that by simp
    moreover have "unat (dirstart s) * bpb s \<le> d * bpb s" using that by simp
    then have "?l + length (le_bytes 8 v) \<le> d * bpb s" using top by (metis length_le_bytes order.trans)
    ultimately have "slice (fput (img s) (of_nat ?l) (le_bytes 8 v)) (d * bpb s) (bpb s) = slice (img s) (d * bpb s) (bpb s)"
      using lt by (intro slice_fput_other disjI2) auto
    then show ?thesis by (simp add: block_at_def set_fat_def bpb_def)
  qed
qed

lemma set_block_spec:
  assumes lay: "layout s" and d: "unat (datastart s) \<le> d" "d < unat (blocks s)" and len: "length bs = bpb s"
  shows "wr_bytes (of_nat d * bytesperblock s) bs s = Inr (set_block d bs s)"
    and "keeps_dir s (set_block d bs s)"
    and "\<And>c. c < unat (blocks s) \<Longrightarrow> fat (set_block d bs s) c = fat s c"
    and "\<And>c. c < unat (blocks s) \<Longrightarrow> block_at (set_block d bs s) c = (if c = d then bs else block_at s c)"
proof -
  let ?l = "d * bpb s"
  have lt: "?l + bpb s < 2 ^ 62" using layoutD(7)[OF lay, of "Suc d"] d by simp
  have low: "unat (datastart s) * bpb s \<le> ?l" "unat (dirstart s) \<le> unat (datastart s)" "16 * bpb s \<le> unat (datastart s) * bpb s"
    using d layoutD(5,6)[OF lay] by auto
  have eq: "of_nat d * bytesperblock s = of_nat ?l" using layoutD(2)[OF lay] by simp
  show "wr_bytes (of_nat d * bytesperblock s) bs s = Inr (set_block d bs s)"
    unfolding eq set_block_def using lt by (intro wr_bytes_small) simp
  have fl: "flen (fput (img s) (of_nat ?l) bs) = flen (img s)"
  proof -
    have "Suc d * bpb s \<le> flen (img s)" using d(2) lay by (metis Suc_leI layout_def mult_le_mono1)
    then show ?thesis using lt len by (subst flen_fput) (auto simp: max_def)
  qed
  have "fb (fput (img s) (of_nat ?l) bs) n = fb (img s) n"
    if "n < 16 * bpb s \<or> unat (dirstart s) * bpb s \<le> n \<and> n < unat (datastart s) * bpb s" for n
  proof -
    have "n < ?l" using that low by linarith
    then show ?thesis using lt len by (subst fb_fput) auto
  qed
  then show "keeps_dir s (set_block d bs s)" unfolding keeps_dir_def set_block_def using fl by blast
  show "fat (set_block d bs s) c = fat s c" if "c < unat (blocks s)" for c
  proof -
    have "16 * bpb s + 8 * c + 8 \<le> ?l"
      using fat_below_data[OF lay that] low mult_le_mono1[OF low(2), of "bpb s"] by linarith
    then have "slice (fput (img s) (of_nat ?l) bs) (16 * bpb s + 8 * c) 8 = slice (img s) (16 * bpb s + 8 * c) 8"
      using lt len by (intro slice_fput_other) auto
    then show ?thesis by (simp add: fat_def set_block_def bpb_def)
  qed
  show "block_at (set_block d bs s) c = (if c = d then bs else block_at s c)" if "c < unat (blocks s)" for c
  proof (cases "c = d")
    case True
    then show ?thesis using slice_fput_same[of ?l bs "img s"] lt len by (simp add: block_at_def set_block_def bpb_def)
  next
    case False
    have "Suc c * bpb s < 2 ^ 62" using layoutD(7)[OF lay, of "Suc c"] that by simp
    moreover have "Suc c * bpb s \<le> ?l \<or> Suc d * bpb s \<le> c * bpb s"
      using False by (metis Suc_leI linorder_neqE_nat mult_le_mono1)
    ultimately have "slice (fput (img s) (of_nat ?l) bs) (c * bpb s) (bpb s) = slice (img s) (c * bpb s) (bpb s)"
      using lt len by (intro slice_fput_other) auto
    then show ?thesis using False by (simp add: block_at_def set_block_def bpb_def)
  qed
qed

section \<open>What an import leaves in the image\<close>

fun chain_blocks :: "'a echfs_scheme \<Rightarrow> nat list \<Rightarrow> bool" where
  "chain_blocks s [] = False"
| "chain_blocks s [c] = (fat s c = END_OF_CHAIN)"
| "chain_blocks s (c # d # cs) = (fat s c = of_nat d \<and> chain_blocks s (d # cs))"

text \<open>
  \<open>imported s t cs src\<close>: \<open>t\<close> is \<open>s\<close> with the chain \<open>cs\<close> of formerly free blocks added, whose
  blocks hold \<open>src\<close>; all other blocks, their table entries and the directory are as in \<open>s\<close>.
\<close>

definition imported :: "'a echfs_scheme \<Rightarrow> 'a echfs_scheme \<Rightarrow> nat list \<Rightarrow> u8 list \<Rightarrow> bool" where
  "imported s t cs src \<longleftrightarrow> keeps_dir s t \<and> reserved t \<and> chain_blocks t cs \<and> distinct cs \<and>
    set cs \<subseteq> free_blocks s \<and> length cs = max 1 ((length src + bpb s - 1) div bpb s) \<and>
    take (length src) (concat (map (block_at t) cs)) = src \<and>
    (\<forall>c < unat (blocks s). c \<notin> set cs \<longrightarrow> fat t c = fat s c) \<and>
    (\<forall>c < unat (blocks s). unat (datastart s) \<le> c \<longrightarrow> c \<notin> set cs \<longrightarrow> block_at t c = block_at s c)"

lemma free_block_range:
  assumes "reserved s" and "b \<in> free_blocks s"
  shows "unat (datastart s) \<le> b" "b < unat (blocks s)" "fat s b = 0"
  using assms by (auto simp: reserved_def free_blocks_def not_less intro: leI)

text \<open>One round of the loop: the block is marked as the end of the chain and filled.\<close>

lemma fill_block:
  assumes lay: "layout s" and res: "reserved s" and b: "b \<in> free_blocks s" and len: "length bs = bpb s"
  defines "t \<equiv> set_block b bs (set_fat b END_OF_CHAIN s)"
  shows "wr_qword (of_nat (16 * bpb s + 8 * b)) END_OF_CHAIN s = Inr (set_fat b END_OF_CHAIN s)"
    and "wr_bytes (of_nat b * bytesperblock s) bs (set_fat b END_OF_CHAIN s) = Inr t"
    and "keeps_dir s t" and "reserved t" and "free_blocks t = free_blocks s - {b}"
    and "\<And>c. c < unat (blocks s) \<Longrightarrow> fat t c = (if c = b then END_OF_CHAIN else fat s c)"
    and "\<And>c. c < unat (blocks s) \<Longrightarrow> unat (datastart s) \<le> c \<Longrightarrow> block_at t c = (if c = b then bs else block_at s c)"
proof -
  note r = free_block_range[OF res b]
  let ?u = "set_fat b END_OF_CHAIN s"
  note f = set_fat_spec[OF lay r(2), where v = END_OF_CHAIN]
  note k = keeps_dir_fields[OF f(2)]
  have lay1: "layout ?u" using lay k by simp
  have d: "unat (datastart ?u) \<le> b" "b < unat (blocks ?u)" "length bs = bpb ?u" using r k len by auto
  note g = set_block_spec[OF lay1 d]
  show "wr_qword (of_nat (16 * bpb s + 8 * b)) END_OF_CHAIN s = Inr ?u" using f(1) fat_loc(1)[OF lay, of b] by simp
  show "wr_bytes (of_nat b * bytesperblock s) bs ?u = Inr t" using g(1) k by (simp add: t_def)
  show kt: "keeps_dir s t" unfolding t_def using keeps_dir_trans[OF f(2) g(2)] .
  show ft: "fat t c = (if c = b then END_OF_CHAIN else fat s c)" if "c < unat (blocks s)" for c
    using g(3)[of c] f(3)[OF that] that k by (simp add: t_def)
  have dd: "unat (dirstart s) \<le> unat (datastart s)" using layoutD(5,6)[OF lay] by simp
  show "block_at t c = (if c = b then bs else block_at s c)" if "c < unat (blocks s)" "unat (datastart s) \<le> c" for c
    using g(4)[of c] f(4)[of c] that k dd by (simp add: t_def)
  note kk = keeps_dir_fields[OF kt]
  have "unat (datastart s) \<le> unat (blocks s)" using lay layoutD(6)[OF lay] by (simp add: layout_def)
  then show "reserved t" using res ft kk by (auto simp: reserved_def END_OF_CHAIN_def)
  show "free_blocks t = free_blocks s - {b}" using ft kk(2) by (auto simp: free_blocks_def END_OF_CHAIN_def split: if_splits)
qed

lemma concat_blocks_take:
  assumes "n \<le> length src" and "take n src = x" and "take (length src - n) ys = drop n src"
  shows "take (length src) (x @ ys) = src"
proof -
  have "length x = n" using assms(1,2) by auto
  then have "take (length src) (x @ ys) = x @ take (length src - n) ys" using assms(1) by simp
  then show ?thesis using assms(2,3) append_take_drop_id[of n src] by metis
qed

lemma chunk_count:
  assumes "B < length src" and "0 < B"
  shows "(length src + B - 1) div B = Suc ((length (drop B src) + B - 1) div B)"
    and "1 \<le> (length (drop B src) + B - 1) div B"
proof -
  let ?r = "length src - B"
  have eq: "length src + B - 1 = (?r + B - 1) + B" using assms by simp
  have "(length src + B - 1) div B = (?r + B - 1) div B + 1"
    unfolding eq using assms(2) by (intro div_add_self2) simp
  then show "(length src + B - 1) div B = Suc ((length (drop B src) + B - 1) div B)" by simp
  show "1 \<le> (length (drop B src) + B - 1) div B"
    using assms by (simp add: Suc_le_eq div_greater_zero_iff)
qed

lemma imported_one:
  assumes lay: "layout s" and res: "reserved s" and b: "b \<in> free_blocks s" and len: "length bs = bpb s"
    and src: "length src \<le> bpb s" "take (length src) bs = src"
  shows "imported s (set_block b bs (set_fat b END_OF_CHAIN s)) [b] src"
proof -
  note f = fill_block[OF lay res b len] and r = free_block_range[OF res b]
  have "max 1 ((length src + bpb s - 1) div bpb s) = 1"
  proof -
    have "length src + bpb s - 1 < 2 * bpb s" using src(1) layoutD(1)[OF lay] by linarith
    then have "(length src + bpb s - 1) div bpb s < 2" by (simp add: less_mult_imp_div_less)
    then show ?thesis by simp
  qed
  then show ?thesis unfolding imported_def using f r b src(2) by auto
qed

lemma imported_cons:
  assumes lay: "layout s" and res: "reserved s" and b: "b \<in> free_blocks s" and src: "bpb s < length src"
  defines "u \<equiv> set_block b (take (bpb s) src) (set_fat b END_OF_CHAIN s)"
  assumes c: "c \<in> free_blocks u" and imp: "imported (set_fat b (of_nat c) u) t (c # cs) (drop (bpb s) src)"
  shows "imported s t (b # c # cs) src"
proof -
  have len: "length (take (bpb s) src) = bpb s" using src by simp
  note f = fill_block[OF lay res b len, folded u_def] and r = free_block_range[OF res b]
  note k = keeps_dir_fields[OF f(3)]
  let ?w = "set_fat b (of_nat c) u"
  have lu: "layout u" "b < unat (blocks u)" using lay k r by simp_all
  note w = set_fat_spec[OF lu, where v = "of_nat c"]
  note kw = keeps_dir_fields[OF w(2)]
  have B: "bpb ?w = bpb s" "blocks ?w = blocks s" "datastart ?w = datastart s" using k kw by simp_all
  have cr: "unat (datastart s) \<le> c" "c < unat (blocks s)" "c \<noteq> b"
    using free_block_range[OF f(4) c] k c f(5) by auto
  have c0: "(of_nat c :: u64) \<noteq> 0"
    using cr layoutD(4,6)[OF lay] by (auto simp: word_unat_eq_iff unat_of_nat)
  have fatw: "fat ?w d = (if d = b then of_nat c else fat s d)" if "d < unat (blocks s)" for d
    using w(3)[of d] f(6)[OF that] that k by simp
  have dd: "unat (dirstart s) \<le> unat (datastart s)" using layoutD(5,6)[OF lay] by simp
  have blkw: "block_at ?w d = (if d = b then take (bpb s) src else block_at s d)"
    if "d < unat (blocks s)" "unat (datastart s) \<le> d" for d
    using w(4)[of d] f(7)[OF that] that k dd by simp
  have freew: "free_blocks ?w = free_blocks s - {b}" using fatw c0 B(2) by (auto simp: free_blocks_def split: if_splits)
  note i = imp[unfolded imported_def B]
  have "b \<notin> set (c # cs)" using i freew by auto
  then have tb: "fat t b = of_nat c" "block_at t b = take (bpb s) src"
    using i r fatw[OF r(2)] blkw[OF r(2,1)] by auto
  have "chain_blocks t (b # c # cs)" using i tb(1) by simp
  moreover have "take (length src) (concat (map (block_at t) (b # c # cs))) = src"
    using i tb(2) src by (simp only: list.map concat.simps, intro concat_blocks_take[of "bpb s"]) simp_all
  moreover have "length (b # c # cs) = max 1 ((length src + bpb s - 1) div bpb s)"
    using i chunk_count[OF src layoutD(1)[OF lay]] by simp
  moreover have "keeps_dir s t" using i keeps_dir_trans[OF f(3) keeps_dir_trans[OF w(2)]] by blast
  moreover have "fat t d = fat s d" if "d < unat (blocks s)" "d \<notin> set (b # c # cs)" for d
    using i fatw that by simp
  moreover have "block_at t d = block_at s d" if "d < unat (blocks s)" "unat (datastart s) \<le> d" "d \<notin> set (b # c # cs)" for d
    using i blkw that by simp
  ultimately show ?thesis
    unfolding imported_def using i freew b \<open>b \<notin> set (c # cs)\<close> by auto
qed

lemma import_loop_spec:
  assumes "layout s" and "reserved s" and "b \<in> free_blocks s" and "length buf = bpb s"
    and "max 1 ((length src + bpb s - 1) div bpb s) \<le> card (free_blocks s)"
    and "unat x + (length src + bpb s - 1) div bpb s \<le> unat n"
  shows "\<exists>t cs. import_loop n src x (of_nat b) (of_nat (16 * bpb s + 8 * b)) buf s = Inr t \<and> imported s t (b # cs) src"
  using assms
proof (induction "length src" arbitrary: src x b buf s rule: less_induct)
  case less
  note lay = less.prems(1) and res = less.prems(2) and b = less.prems(3)
  let ?B = "bpb s"
  let ?buf = "take ?B src @ drop (length (take ?B src)) buf"
  have len: "length ?buf = ?B" using less.prems(4) by simp
  note f = fill_block[OF lay res b len]
  let ?u = "set_block b ?buf (set_fat b END_OF_CHAIN s)"
  have bs: "bytesperblock (set_fat b END_OF_CHAIN s) = bytesperblock s" "bpb (set_fat b END_OF_CHAIN s) = bpb s"
    by (simp_all add: set_fat_def bpb_def)
  have run: "import_loop n src x (of_nat b) (of_nat (16 * ?B + 8 * b)) buf s =
    (if drop ?B src = [] then Inr ?u else if x = n then Inr ?u
     else bnd (find_block ?u) (\<lambda>(block, loc). bnd (wr_qword (fatstart s * bytesperblock s + of_nat b * 8) block ?u)
       (import_loop n (drop ?B src) (x + 1) block loc ?buf)))"
    by (subst import_loop.simps) (simp only: Let_def f(1,2) bnd_simps bs bpb_def[symmetric])
  show ?case
  proof (cases "drop ?B src = []")
    case True
    then have "length src \<le> ?B" by simp
    then show ?thesis using run True imported_one[OF lay res b len, of src] by auto
  next
    case False
    then have src: "?B < length src" by simp
    have eq: "?buf = take ?B src" using src less.prems(4) by simp
    have B: "0 < ?B" using layoutD(1)[OF lay] .
    note cc = chunk_count[OF src B]
    have two: "2 \<le> (length src + ?B - 1) div ?B" using cc by linarith
    then have xn: "unat x < unat n" "x \<noteq> n" using less.prems(6) by auto
    note k = keeps_dir_fields[OF f(3)]
    have cardu: "card (free_blocks ?u) = card (free_blocks s) - 1" using f(5) b by simp
    then have "0 < card (free_blocks ?u)" using less.prems(5) two by linarith
    then obtain k0 where "k0 \<in> free_blocks ?u" by (metis card.empty equals0I less_irrefl)
    then obtain c where c: "find_block ?u = Inr (of_nat c, of_nat (16 * ?B + 8 * c))" "c \<in> free_blocks ?u"
      using find_block_spec[of ?u k0] lay k by auto
    have lu: "layout ?u" "b < unat (blocks ?u)" using lay k free_block_range(2)[OF res b] by simp_all
    let ?w = "set_fat b (of_nat c) ?u"
    note w = set_fat_spec[OF lu, where v = "of_nat c"] and kw = keeps_dir_fields[OF set_fat_spec(2)[OF lu, where v = "of_nat c"]]
    have wr: "wr_qword (fatstart s * bytesperblock s + of_nat b * 8) (of_nat c) ?u = Inr ?w" using w(1) k by simp
    have cr: "unat (datastart s) \<le> c" "c < unat (blocks s)" "c \<noteq> b"
      using free_block_range[OF f(4) c(2)] k f(5) c(2) by auto
    have c0: "(of_nat c :: u64) \<noteq> 0" using cr layoutD(4,6)[OF lay] by (auto simp: word_unat_eq_iff unat_of_nat)
    have fatw: "fat ?w d = (if d = b then of_nat c else fat ?u d)" if "d < unat (blocks s)" for d using w(3)[of d] that k by simp
    have "fat ?u b \<noteq> 0" using f(6)[of b] lu(2) k(2) by (simp add: END_OF_CHAIN_def)
    then have freew: "free_blocks ?w = free_blocks ?u"
      using fatw c0 k(2) kw(2) by (auto simp: free_blocks_def split: if_splits)
    have dle: "unat (datastart s) \<le> unat (blocks s)" using lay layoutD(6)[OF lay] by (simp add: layout_def)
    have resw: "reserved ?w" using f(4) fatw c0 k(3) kw(3) dle by (auto simp: reserved_def split: if_splits)
    have "unat (x + 1) = unat x + 1" using xn by (simp add: unat_plus_one_less[of x n] word_less_nat_alt)
    moreover have "(length (drop ?B src) + ?B - 1) div ?B + 1 = (length src + ?B - 1) div ?B" using cc two by simp
    ultimately have "\<exists>t cs. import_loop n (drop ?B src) (x + 1) (of_nat c) (of_nat (16 * bpb ?w + 8 * c)) ?buf ?w = Inr t \<and>
      imported ?w t (c # cs) (drop ?B src)"
      using lay resw c(2) freew len less.prems(5,6) cc cardu B src k kw by (intro less.hyps) auto
    then obtain t cs where t: "import_loop n (drop ?B src) (x + 1) (of_nat c) (of_nat (16 * ?B + 8 * c)) ?buf ?w = Inr t"
      "imported ?w t (c # cs) (drop ?B src)" using k kw by auto
    have "imported s t (b # c # cs) src"
      using imported_cons[OF lay res b src] c(2) t(2) unfolding eq by blast
    moreover have "import_loop n src x (of_nat b) (of_nat (16 * ?B + 8 * b)) buf s = Inr t"
      using run False xn(2) c(1) wr t(1) by simp
    ultimately show ?thesis by blast
  qed
qed

lemma ceil_div: "0 < B \<Longrightarrow> (L + B - 1) div B = L div B + (if L mod B = 0 then 0 else 1)" for L B :: nat
proof -
  assume B: "0 < B"
  have "L + B - 1 = (L mod B + B - 1) + B * (L div B)" using B by simp
  then have "(L + B - 1) div B = ((L mod B + B - 1) + B * (L div B)) div B" by (rule arg_cong)
  then have "(L + B - 1) div B = (L mod B + B - 1) div B + L div B" using B by (simp only: div_mult_self2)
  moreover have "(L mod B + B - 1) div B = (if L mod B = 0 then 0 else 1)"
  proof (cases "L mod B = 0")
    case False
    then have "L mod B + B - 1 = (L mod B - 1) + B" using B by simp
    then have "(L mod B + B - 1) div B = ((L mod B - 1) + B) div B" by (rule arg_cong)
    also have "\<dots> = (L mod B - 1) div B + 1" using B by (subst div_add_self2) simp_all
    also have "(L mod B - 1) div B = 0" using B by (intro div_less less_imp_diff_less) simp
    finally show ?thesis using False by (simp only: if_False add_0)
  qed (use B in simp)
  ultimately show ?thesis by simp
qed

lemma fits:
  assumes "layout s" and "max 1 ((L + bpb s - 1) div bpb s) \<le> card (free_blocks s)"
  shows "L < 2 ^ 62"
proof -
  have "card (free_blocks s) \<le> card {..<unat (blocks s)}" by (intro card_mono) (auto simp: free_blocks_def)
  then have "(L + bpb s - 1) div bpb s \<le> unat (blocks s)" using assms(2) by simp
  then have "(L + bpb s - 1) div bpb s * bpb s \<le> unat (blocks s) * bpb s" by simp
  moreover have "L \<le> (L + bpb s - 1) div bpb s * bpb s"
  proof -
    have "L = L div bpb s * bpb s + L mod bpb s" by simp
    moreover have "L mod bpb s \<le> (if L mod bpb s = 0 then 0 else bpb s)"
      using mod_less_divisor[OF layoutD(1)[OF assms(1)], of L] by simp
    moreover have "(L + bpb s - 1) div bpb s * bpb s = L div bpb s * bpb s + (if L mod bpb s = 0 then 0 else bpb s)"
      unfolding ceil_div[OF layoutD(1)[OF assms(1)]] by (simp add: add_mult_distrib)
    ultimately show ?thesis by linarith
  qed
  ultimately show ?thesis using layoutD(7)[OF assms(1) order.refl] by linarith
qed

lemma import_chain_spec:
  assumes "layout s" and "reserved s" and "length buf = bpb s"
    and card: "max 1 ((length src + bpb s - 1) div bpb s) \<le> card (free_blocks s)"
  shows "\<exists>b cs t. import_chain src (Some buf) s = Inr (of_nat b, t) \<and> imported s t (b # cs) src"
proof -
  let ?B = "bpb s" and ?L = "length src"
  let ?n = "(?L + ?B - 1) div ?B"
  have L: "?L < 2 ^ 62" using fits[OF assms(1) card] .
  have "free_blocks s \<noteq> {}" using card by (auto simp: max_def split: if_splits)
  then obtain k where "k \<in> free_blocks s" by blast
  then obtain b where b: "find_block s = Inr (of_nat b, of_nat (16 * ?B + 8 * b))" "b \<in> free_blocks s"
    using find_block_spec[OF assms(1)] by blast
  let ?m = "of_nat ?L div bytesperblock s"
  let ?ssb = "if of_nat ?L mod bytesperblock s \<noteq> 0 then ?m + 1 else ?m"
  have u: "unat (of_nat ?L :: u64) = ?L" using L by (simp add: unat_of_nat)
  have m: "unat ?m = ?L div ?B" "unat (of_nat ?L mod bytesperblock s) = ?L mod ?B"
    by (simp_all add: unat_div unat_mod u bpb_def)
  have "?L div ?B < 2 ^ 62" using le_less_trans[OF div_le_dividend L] .
  then have "unat ?m + 1 < 2 ^ 64" unfolding m(1) by simp
  then have "unat (?m + 1) = ?L div ?B + 1" using unat_add_nat[of ?m 1] m(1) by simp
  then have ssb: "unat ?ssb = ?n"
    using m ceil_div[OF layoutD(1)[OF assms(1)], of ?L] by (simp add: unat_eq_0[symmetric])
  obtain cs t where t: "import_loop ?ssb src 0 (of_nat b) (of_nat (16 * ?B + 8 * b)) buf s = Inr t" "imported s t (b # cs) src"
    using import_loop_spec[OF assms(1,2) b(2) assms(3) card, of 0 ?ssb] ssb by auto
  then show ?thesis using b(1) by (auto simp: import_chain_def Let_def)
qed

section \<open>Reading a chain back\<close>

lemma fread_block:
  assumes "layout s" and "c < unat (blocks s)" and "n \<le> bpb s"
  shows "fread_buf s (of_nat c * bytesperblock s) n buf = Inr (take n (block_at s c) @ drop n buf)"
proof -
  have "Suc c * bpb s \<le> flen (img s)" using assms(1,2) by (metis Suc_leI layout_def mult_le_mono1)
  then have le: "c * bpb s + n \<le> flen (img s)" using assms(3) by simp
  have lt: "c * bpb s < 2 ^ 62" using layoutD(7)[OF assms(1), of c] assms(2) by simp
  have eq: "of_nat c * bytesperblock s = of_nat (c * bpb s)" using layoutD(2)[OF assms(1)] by simp
  have u: "unat (of_nat (c * bpb s) :: u64) = c * bpb s" using lt by (subst unat_of_nat) simp
  have "min n (flen (img s) - c * bpb s) = n" using le by simp
  moreover have "slice (img s) (c * bpb s) n = take n (block_at s c)"
    using assms(3) by (auto intro!: nth_equalityI simp: block_at_def)
  ultimately show ?thesis
    unfolding fread_buf_def eq u Let_def using lt by (subst rd_bytes_small) simp_all
qed

lemma export_loop_spec:
  assumes lay: "layout s" and "chain_blocks s (c # cs)" and "\<forall>d \<in> set (c # cs). d < unat (blocks s)"
    and L: "L < 2 ^ 62" and "bpb s dvd length dest" and "length dest \<le> L"
    and "length (c # cs) = max 1 ((L - length dest + bpb s - 1) div bpb s)"
  shows "export_loop s (of_nat L) (of_nat c) buf dest = Some (Inr (dest @
    take (if L mod bpb s = 0 then L - length dest - bpb s else L - length dest) (concat (map (block_at s) (c # cs)))))"
proof -
  have B: "0 < bpb s" using layoutD(1)[OF lay] .
  have notend: "(of_nat c :: u64) \<noteq> END_OF_CHAIN" if "c < unat (blocks s)" for c
  proof -
    have "unat (of_nat c :: u64) = c" using that layoutD(4)[OF lay] by (simp add: unat_of_nat)
    then show ?thesis using that layoutD(4)[OF lay] by (auto simp: END_OF_CHAIN_def)
  qed
  have uL: "unat (of_nat L :: u64) = L" using L by (simp add: unat_of_nat)
  have sz: "unat (of_nat L mod bytesperblock s) = L mod bpb s" "unat (bytesperblock s) = bpb s"
    by (simp_all add: unat_mod uL bpb_def)
  have last_iff: "of_nat L \<le> of_nat (length dest) + bytesperblock s \<longleftrightarrow> L \<le> length dest + bpb s"
    if "length dest \<le> L" for dest :: "u8 list"
  proof -
    have "of_nat (length dest) + bytesperblock s = of_nat (length dest + bpb s)" using layoutD(2)[OF lay] by simp
    moreover have "length dest + bpb s < 2 ^ 64" using that L layoutD(3)[OF lay] by simp
    ultimately show ?thesis using uL by (simp only: word_le_nat_alt unat_of_nat_small)
  qed
  have mod_rest: "L mod bpb s = (L - length dest) mod bpb s" if "bpb s dvd length dest" "length dest \<le> L" for dest :: "u8 list"
    using that by (metis dvd_imp_mod_0 le_add_diff_inverse mod_add_left_eq add_0)
  show ?thesis
  using assms(2,3,5-7)
proof (induction cs arbitrary: c buf dest)
  case Nil
  let ?B = "bpb s" and ?R = "L - length dest"
  have R: "?R \<le> ?B"
  proof (rule ccontr)
    assume "\<not> ?R \<le> ?B"
    then have "2 \<le> (?R + ?B - 1) div ?B" using B by (simp add: less_eq_div_iff_mult_less_eq)
    then show False using Nil.prems(5) by simp
  qed
  have c: "of_nat c \<noteq> END_OF_CHAIN" using notend Nil.prems(2) by simp
  have last: "of_nat L \<le> of_nat (length dest) + bytesperblock s" using last_iff[OF Nil.prems(4)] R Nil.prems(4) by simp
  have "L mod ?B = ?R mod ?B" using mod_rest[OF Nil.prems(3,4)] .
  moreover have "?R mod ?B = ?R" if "?R mod ?B \<noteq> 0" using that R by (metis le_neq_implies_less mod_less mod_self)
  ultimately have part: "take (L mod ?B) (block_at s c) = take (if L mod ?B = 0 then ?R - ?B else ?R) (block_at s c)"
    using R by auto
  have cb: "c < unat (blocks s)" and "L mod ?B \<le> ?B" using Nil.prems(2) B by simp_all
  then have "fread_buf s (of_nat c * bytesperblock s) (L mod ?B) buf = Inr (take (L mod ?B) (block_at s c) @ drop (L mod ?B) buf)"
    by (intro fread_block[OF lay])
  moreover have "length (take (L mod ?B) (block_at s c)) = L mod ?B" using B by (simp add: block_at_def)
  ultimately have "export_loop s (of_nat L) (of_nat c) buf dest = Some (Inr (dest @ take (L mod ?B) (block_at s c)))"
    using c last by (subst export_loop.simps) (simp add: sz)
  then show ?case unfolding part by simp
next
  case (Cons d cs)
  let ?B = "bpb s" and ?R = "L - length dest"
  have R: "?B < ?R"
  proof (rule ccontr)
    assume "\<not> ?B < ?R"
    then have "(?R + ?B - 1) div ?B < 2" using B by (intro less_mult_imp_div_less) linarith
    then show False using Cons.prems(5) by simp
  qed
  let ?blk = "block_at s c"
  have c: "c < unat (blocks s)" "of_nat c \<noteq> END_OF_CHAIN" using notend Cons.prems(2) by simp_all
  have nlast: "\<not> of_nat L \<le> of_nat (length dest) + bytesperblock s" using last_iff[OF Cons.prems(4)] R by simp
  have rd: "rd_qword (fatstart s * bytesperblock s + of_nat c * 8) s = Inr (of_nat d)"
    unfolding fat_loc(1)[OF lay] using rd_qword_small[OF fat_loc(2)[OF lay], of c s] c(1) Cons.prems(1) by (simp add: fat_def)
  have len: "length ?blk = ?B" by (simp add: block_at_def)
  have step: "export_loop s (of_nat L) (of_nat c) buf dest = export_loop s (of_nat L) (of_nat d) (?blk @ drop ?B buf) (dest @ ?blk)"
    using c nlast fread_block[OF lay c(1) order.refl, of buf] rd len
    by (subst export_loop.simps) (simp add: sz)
  have R': "L - length (dest @ ?blk) = ?R - ?B" using len by simp
  have eq: "?R + ?B - 1 = (?R - ?B + ?B - 1) + ?B" using R by simp
  have "(?R + ?B - 1) div ?B = (?R - ?B + ?B - 1) div ?B + 1"
    unfolding eq using B by (subst div_add_self2) simp_all
  then have cnt: "length (d # cs) = max 1 ((L - length (dest @ ?blk) + ?B - 1) div ?B)"
    using Cons.prems(5) unfolding R' by simp
  have IH: "export_loop s (of_nat L) (of_nat d) (?blk @ drop ?B buf) (dest @ ?blk) = Some (Inr ((dest @ ?blk) @
    take (if L mod ?B = 0 then L - length (dest @ ?blk) - ?B else L - length (dest @ ?blk)) (concat (map (block_at s) (d # cs)))))"
    using Cons.prems R len cnt by (intro Cons.IH) auto
  have m: "L mod ?B = ?R mod ?B" using mod_rest[OF Cons.prems(3,4)] .
  have two: "2 * ?B \<le> ?R" if z: "?R mod ?B = 0"
  proof -
    obtain q where q: "?R = ?B * q" using z by (auto simp: mod_eq_0_iff_dvd elim!: dvdE)
    then have "2 \<le> q" using R by (cases q rule: nat.exhaust) (auto simp: Suc_le_eq)
    then show ?thesis unfolding q by simp
  qed
  have tk: "take (?B + k) (?blk @ ys) = ?blk @ take k ys" for k ys using len by simp
  have idx: "(if L mod ?B = 0 then ?R - ?B else ?R) = ?B + (if L mod ?B = 0 then ?R - ?B - ?B else ?R - ?B)"
    using R two m by auto
  show ?case unfolding step IH R' idx by (simp only: list.map(2)[of _ c] concat.simps(2)[of ?blk] tk append_assoc)
qed
qed

lemma export_chain_spec:
  assumes "layout s" and "chain_blocks s (c # cs)" and "\<forall>d \<in> set (c # cs). d < unat (blocks s)"
    and "L < 2 ^ 62" and "length (c # cs) = max 1 ((L + bpb s - 1) div bpb s)"
    and "payload e = of_nat c" and "esize e = of_nat L"
  shows "export_chain s e (Some buf) =
    Inr (take (if L mod bpb s = 0 then L - bpb s else L) (concat (map (block_at s) (c # cs))))"
  using export_loop_spec[OF assms(1-4), of "[]" buf] assms(5-7) by (simp add: export_chain_def)

end
