(* ===== verification/Ech_Dir.thy ===== *)
theory Ech_Dir
  imports Ech_Image
begin

text \<open>
  The directory table of an image: searching it, resolving paths, choosing identifiers and
  free entries (\<open>echfs-utils/echfs-utils.c\<close>).  A C string is the list of its bytes before the
  terminating zero.
\<close>

section \<open>Searching\<close>

definition cstr :: "u8 list \<Rightarrow> u8 list" where
  "cstr bs = takeWhile (\<lambda>b. b \<noteq> 0) bs"

text \<open>
  A name to search for has at most 217 bytes, so \<open>strcmp\<close> never reads behind the name field
  of an entry, even if that has no terminator.
\<close>

partial_function (option) search_from ::
  "'a echfs_scheme \<Rightarrow> u8 list \<Rightarrow> u64 \<Rightarrow> u8 \<Rightarrow> u64 \<Rightarrow> (halt + u64) option" where
  "search_from s name parent ty i =
    (case rd_entry s i of
       Inl e \<Rightarrow> Some (Inl e)
     | Inr entry \<Rightarrow>
         if parent_id entry = 0 then Some (Inr SEARCH_FAILURE)
         else if dirsize s * ENTRIES_PER_BLOCK s \<le> i then Some (Inr SEARCH_FAILURE)
         else if parent_id entry = parent \<and> etype entry = ty \<and> cstr (ename entry) = name then Some (Inr i)
         else search_from s name parent ty (i + 1))"

definition search :: "'a echfs_scheme \<Rightarrow> u8 list \<Rightarrow> u64 \<Rightarrow> u8 \<Rightarrow> halt + u64" where
  "search s name parent ty = (case search_from s name parent ty 0 of None \<Rightarrow> Inl Diverges | Some r \<Rightarrow> r)"

section \<open>Paths\<close>

record path_result_t =
  target_entry :: u64
  target :: entry_t
  parent :: entry_t
  rname :: "u8 list"
  failure :: bool
  not_found :: bool

definition empty_result :: path_result_t where
  "empty_result = \<lparr>target_entry = 0, target = empty_entry, parent = empty_entry, rname = [],
     failure = False, not_found = False\<rparr>"

text \<open>The slash, byte \<open>0x2F\<close>.\<close>

definition SLASH :: u8 where "SLASH = 0x2F"

text \<open>
  The loop at label \<open>next\<close>.  A component of 218 bytes or more is written past the end of the
  local array \<open>name\<close>.
\<close>

function resolve :: "'a echfs_scheme \<Rightarrow> u8 \<Rightarrow> entry_t \<Rightarrow> u8 list \<Rightarrow> halt + path_result_t" where
  "resolve s ty par path =
    (let name = takeWhile (\<lambda>c. c \<noteq> SLASH) path
     in if FILENAME_LEN \<le> length name then Inl Overrun
        else (case dropWhile (\<lambda>c. c \<noteq> SLASH) path of
          [] \<Rightarrow>
            bnd (search s name (payload par) ty) (\<lambda>search_res.
              if search_res = SEARCH_FAILURE then
                Inr (empty_result\<lparr>not_found := True, parent := par, rname := name\<rparr>)
              else bnd (rd_entry s search_res) (\<lambda>tgt.
                Inr (empty_result\<lparr>target := tgt, target_entry := search_res, parent := par, rname := name\<rparr>)))
        | _ # path \<Rightarrow>
            bnd (search s name (payload par) DIRECTORY_TYPE) (\<lambda>search_res.
              if search_res = SEARCH_FAILURE then Inr (empty_result\<lparr>failure := True\<rparr>)
              else bnd (rd_entry s search_res) (\<lambda>par. resolve s ty par path))))"
  by pat_completeness auto
termination
proof (relation "measure (\<lambda>(s, ty, par, path). length path)", goal_cases)
  case (2 s ty par path x y zs a b)
  then show ?case using length_dropWhile_le[of "\<lambda>c. c \<noteq> SLASH" path] by (simp del: length_dropWhile_le)
qed simp

declare resolve.simps [simp del]

definition path_resolver :: "'a echfs_scheme \<Rightarrow> u8 list \<Rightarrow> u8 \<Rightarrow> halt + path_result_t" where
  "path_resolver s path ty =
    (if ty = DIRECTORY_TYPE \<and> path = [SLASH] then Inr (empty_result\<lparr>target := empty_entry\<lparr>payload := ROOT_ID\<rparr>\<rparr>)
     else if ty = FILE_TYPE \<and> path = [SLASH] then Inr (empty_result\<lparr>failure := True\<rparr>)
     else resolve s ty (empty_entry\<lparr>payload := ROOT_ID\<rparr>)
       (case path of [] \<Rightarrow> [] | c # cs \<Rightarrow> if c = SLASH then cs else path))"

section \<open>New identifiers and entries\<close>

partial_function (option) free_id_from :: "'a echfs_scheme \<Rightarrow> u64 \<Rightarrow> u64 \<Rightarrow> (halt + u64) option" where
  "free_id_from s i ident =
    (case rd_entry s i of
       Inl e \<Rightarrow> Some (Inl e)
     | Inr entry \<Rightarrow>
         if parent_id entry = 0 then Some (Inr ident)
         else free_id_from s (i + 1) (if etype entry = 1 \<and> payload entry = ident then payload entry + 1 else ident))"

definition get_free_id :: "'a echfs_scheme \<Rightarrow> halt + u64" where
  "get_free_id s = (case free_id_from s 0 1 of None \<Rightarrow> Inl Diverges | Some r \<Rightarrow> r)"

text \<open>The loop that finds an empty entry, in \<open>mkdir_cmd\<close> and in \<open>import_cmd\<close>.\<close>

partial_function (option) empty_from :: "'a echfs_scheme \<Rightarrow> u64 \<Rightarrow> (halt + u64) option" where
  "empty_from s i =
    (case rd_entry s i of
       Inl e \<Rightarrow> Some (Inl e)
     | Inr entry_i \<Rightarrow>
         if parent_id entry_i = 0 \<or> parent_id entry_i = DELETED_ENTRY then Some (Inr i)
         else empty_from s (i + 1))"

definition find_empty :: "'a echfs_scheme \<Rightarrow> halt + u64" where
  "find_empty s = (case empty_from s 0 of None \<Rightarrow> Inl Diverges | Some r \<Rightarrow> r)"

section \<open>The table as a list\<close>

definition ndir :: "'a echfs_scheme \<Rightarrow> nat" where
  "ndir s = unat (dirsize s) * bpb s div 256"

definition entry_at :: "'a echfs_scheme \<Rightarrow> nat \<Rightarrow> entry_t" where
  "entry_at s i = entry_of (slice (img s) (unat (dirstart s) * bpb s + 256 * i) 256)"

definition entries :: "'a echfs_scheme \<Rightarrow> entry_t list" where
  "entries s = map (entry_at s) [0..<ndir s]"

definition out_of_bounds :: halt where
  "out_of_bounds = Panic ''ATTEMPTING TO READ DIRECTORY OUT OF BOUNDS''"

lemma length_entries [simp]: "length (entries s) = ndir s"
  by (simp add: entries_def)

lemma nth_entries [simp]: "i < ndir s \<Longrightarrow> entries s ! i = entry_at s i"
  by (simp add: entries_def)

lemma dir_bounds:
  assumes "layout s"
  shows "dirstart s * bytesperblock s + of_nat i * 256 = of_nat (unat (dirstart s) * bpb s + 256 * i)"
    and "unat (dirstart s) * bpb s + 256 * ndir s = unat (datastart s) * bpb s"
    and "unat (datastart s) * bpb s \<le> flen (img s)" and "flen (img s) < 2 ^ 62" and "ndir s < 2 ^ 54"
    and "(dirstart s + dirsize s) * bytesperblock s = of_nat (unat (datastart s) * bpb s)"
    and "dirsize s * ENTRIES_PER_BLOCK s = of_nat (ndir s)"
proof -
  note l = layoutD[OF assms] and d = assms[unfolded layout_def]
  show "dirstart s * bytesperblock s + of_nat i * 256 = of_nat (unat (dirstart s) * bpb s + 256 * i)"
    unfolding l(2) by simp
  have "256 dvd unat (dirsize s) * bpb s" using l(8) by simp
  then have n: "256 * ndir s = unat (dirsize s) * bpb s" by (simp add: ndir_def)
  then show e: "unat (dirstart s) * bpb s + 256 * ndir s = unat (datastart s) * bpb s"
    unfolding l(5,6) by (simp add: add_mult_distrib)
  have "unat (datastart s) \<le> unat (blocks s)" using d l(6) by simp
  then show f: "unat (datastart s) * bpb s \<le> flen (img s)" using d by (metis mult_le_mono1)
  show g: "flen (img s) < 2 ^ 62" using d by simp
  then show "ndir s < 2 ^ 54" using e f by simp
  have "dirstart s + dirsize s = datastart s" using d by simp
  then show "(dirstart s + dirsize s) * bytesperblock s = of_nat (unat (datastart s) * bpb s)"
    unfolding l(2) by simp
  obtain k where k: "bpb s = 512 * k" using d by auto
  then have "unat (bytesperblock s div 512) = k" by (simp add: unat_div bpb_def[symmetric])
  then have "bytesperblock s div 512 = of_nat k" by (auto simp del: unat_div)
  then have "ENTRIES_PER_BLOCK s = of_nat (2 * k)" by (simp add: ENTRIES_PER_BLOCK_def)
  moreover have "ndir s = unat (dirsize s) * (2 * k)" using n k by simp
  ultimately show "dirsize s * ENTRIES_PER_BLOCK s = of_nat (ndir s)" by simp
qed

lemma rd_entry_in:
  assumes "layout s" and "i < ndir s"
  shows "rd_entry s (of_nat i) = Inr (entries s ! i)"
proof -
  note b = dir_bounds[OF assms(1)]
  let ?l = "unat (dirstart s) * bpb s + 256 * i"
  have l: "?l + 256 \<le> unat (datastart s) * bpb s" unfolding b(2)[symmetric] using assms(2) by simp
  have "unat (datastart s) * bpb s < 2 ^ 62" using le_less_trans[OF b(3,4)] .
  then have lt: "?l < 2 ^ 63" "?l < 2 ^ 64" "unat (datastart s) * bpb s < 2 ^ 64" using l by simp_all
  then have u: "unat (of_nat ?l :: u64) = ?l" "unat (of_nat (unat (datastart s) * bpb s) :: u64) = unat (datastart s) * bpb s"
    by (simp_all only: unat_of_nat_small)
  then have "\<not> of_nat (unat (datastart s) * bpb s) \<le> (of_nat ?l :: u64)"
    using l unfolding word_le_nat_alt u by linarith
  moreover have "\<not> flen (img s) < unat (of_nat ?l :: u64) + 256" unfolding u using l b(3) by linarith
  moreover have "rd_bytes 256 (of_nat ?l) s = Inr (slice (img s) ?l 256)" by (rule rd_bytes_small[OF lt(1)])
  ultimately show ?thesis unfolding rd_entry_def b(1,6) Let_def using assms(2) by (simp only: if_False bnd_simps nth_entries entry_at_def)
qed

lemma rd_entry_end: "layout s \<Longrightarrow> rd_entry s (of_nat (ndir s)) = Inl out_of_bounds"
  unfolding rd_entry_def by (simp only: dir_bounds Let_def order.refl if_True out_of_bounds_def)


section \<open>Scanning the table\<close>

text \<open>
  All loops over the table stop at the first entry with some property, and abort when there
  is none.
\<close>

primrec first_index :: "('b \<Rightarrow> bool) \<Rightarrow> 'b list \<Rightarrow> nat option" where
  "first_index P [] = None"
| "first_index P (x # xs) = (if P x then Some 0 else map_option Suc (first_index P xs))"

lemma first_index_Some:
  "first_index P xs = Some k \<longleftrightarrow> k < length xs \<and> P (xs ! k) \<and> (\<forall>j < k. \<not> P (xs ! j))"
proof (induction xs arbitrary: k)
  case (Cons x xs)
  show ?case
    by (cases k) (auto simp: Cons.IH All_less_Suc2)
qed simp

lemma first_index_None: "first_index P xs = None \<longleftrightarrow> (\<forall>x \<in> set xs. \<not> P x)"
  by (induction xs) auto

lemma first_index_append:
  "first_index P (xs @ ys) =
    (case first_index P xs of Some k \<Rightarrow> Some k | None \<Rightarrow> map_option (\<lambda>k. length xs + k) (first_index P ys))"
  by (cases "first_index P ys"; induction xs) (auto split: option.splits)

definition hit :: "u8 list \<Rightarrow> u64 \<Rightarrow> u8 \<Rightarrow> entry_t \<Rightarrow> bool" where
  "hit name par ty e \<longleftrightarrow> parent_id e = par \<and> etype e = ty \<and> cstr (ename e) = name"

definition search_result :: "entry_t list \<Rightarrow> u8 list \<Rightarrow> u64 \<Rightarrow> u8 \<Rightarrow> halt + u64" where
  "search_result es name par ty =
    (case first_index (\<lambda>e. parent_id e = 0 \<or> hit name par ty e) es of
       None \<Rightarrow> Inl out_of_bounds
     | Some k \<Rightarrow> Inr (if parent_id (es ! k) = 0 then SEARCH_FAILURE else of_nat k))"

lemma drop_entries:
  "i < ndir s \<Longrightarrow> drop i (entries s) = entries s ! i # drop (Suc i) (entries s)"
  by (simp add: Cons_nth_drop_Suc del: nth_entries)

lemma search_from_spec:
  assumes "layout s" and "i \<le> ndir s"
  shows "search_from s name par ty (of_nat i) =
    Some (case first_index (\<lambda>e. parent_id e = 0 \<or> hit name par ty e) (drop i (entries s)) of
       None \<Rightarrow> Inl out_of_bounds
     | Some k \<Rightarrow> Inr (if parent_id (entries s ! (i + k)) = 0 then SEARCH_FAILURE else of_nat (i + k)))"
  using assms(2)
proof (induction "ndir s - i" arbitrary: i)
  case 0
  then have i: "i = ndir s" by simp
  show ?case unfolding i by (subst search_from.simps) (simp add: rd_entry_end[OF assms(1)])
next
  case (Suc n)
  then have i: "i < ndir s" by simp
  have "unat (of_nat i :: u64) = i" "unat (of_nat (ndir s) :: u64) = ndir s"
    using i dir_bounds(5)[OF assms(1)] by (auto intro!: unat_of_nat_small)
  then have lt: "\<not> dirsize s * ENTRIES_PER_BLOCK s \<le> of_nat i"
    unfolding dir_bounds(7)[OF assms(1)] word_le_nat_alt using i by simp
  have IH: "search_from s name par ty (of_nat i + 1) =
    Some (case first_index (\<lambda>e. parent_id e = 0 \<or> hit name par ty e) (drop (Suc i) (entries s)) of
       None \<Rightarrow> Inl out_of_bounds
     | Some k \<Rightarrow> Inr (if parent_id (entries s ! (Suc i + k)) = 0 then SEARCH_FAILURE else of_nat (Suc i + k)))"
    using Suc.hyps(1)[of "Suc i"] Suc.hyps(2) i by (simp add: add.commute)
  show ?case unfolding drop_entries[OF i]
    by (subst search_from.simps) (auto simp: rd_entry_in[OF assms(1) i] lt IH hit_def split: option.splits simp del: nth_entries)
qed

lemma search_spec:
  assumes "layout s"
  shows "search s name par ty = search_result (entries s) name par ty"
  using search_from_spec[OF assms, of 0 name par ty] by (simp add: search_def search_result_def split: option.splits)

text \<open>Identifiers: the loop counts up through the identifiers it meets in order.\<close>

definition bump :: "entry_t \<Rightarrow> u64 \<Rightarrow> u64" where
  "bump e ident = (if etype e = 1 \<and> payload e = ident then payload e + 1 else ident)"

definition free_id_result :: "entry_t list \<Rightarrow> halt + u64" where
  "free_id_result es =
    (if \<exists>e \<in> set es. parent_id e = 0 then Inr (fold bump (takeWhile (\<lambda>e. parent_id e \<noteq> 0) es) 1)
     else Inl out_of_bounds)"

lemma free_id_from_spec:
  assumes "layout s" and "i \<le> ndir s"
  shows "free_id_from s (of_nat i) ident =
    Some (if \<exists>e \<in> set (drop i (entries s)). parent_id e = 0
      then Inr (fold bump (takeWhile (\<lambda>e. parent_id e \<noteq> 0) (drop i (entries s))) ident)
      else Inl out_of_bounds)"
  using assms(2)
proof (induction "ndir s - i" arbitrary: i ident)
  case 0
  then have i: "i = ndir s" by simp
  show ?case unfolding i by (subst free_id_from.simps) (simp add: rd_entry_end[OF assms(1)])
next
  case (Suc n)
  then have i: "i < ndir s" by simp
  have IH: "free_id_from s (of_nat i + 1) ident =
    Some (if \<exists>e \<in> set (drop (Suc i) (entries s)). parent_id e = 0
      then Inr (fold bump (takeWhile (\<lambda>e. parent_id e \<noteq> 0) (drop (Suc i) (entries s))) ident)
      else Inl out_of_bounds)" for ident
    using Suc.hyps(1)[of "Suc i"] Suc.hyps(2) i by (simp add: add.commute)
  show ?case unfolding drop_entries[OF i]
    by (subst free_id_from.simps) (auto simp: rd_entry_in[OF assms(1) i] IH bump_def simp del: nth_entries)
qed

lemma get_free_id_spec: "layout s \<Longrightarrow> get_free_id s = free_id_result (entries s)"
  using free_id_from_spec[of s 0 1] by (simp add: get_free_id_def free_id_result_def)

definition vacant :: "entry_t \<Rightarrow> bool" where
  "vacant e \<longleftrightarrow> parent_id e = 0 \<or> parent_id e = DELETED_ENTRY"

definition empty_result_of :: "entry_t list \<Rightarrow> halt + u64" where
  "empty_result_of es = (case first_index vacant es of None \<Rightarrow> Inl out_of_bounds | Some k \<Rightarrow> Inr (of_nat k))"

lemma empty_from_spec:
  assumes "layout s" and "i \<le> ndir s"
  shows "empty_from s (of_nat i) =
    Some (case first_index vacant (drop i (entries s)) of None \<Rightarrow> Inl out_of_bounds | Some k \<Rightarrow> Inr (of_nat (i + k)))"
  using assms(2)
proof (induction "ndir s - i" arbitrary: i)
  case 0
  then have i: "i = ndir s" by simp
  show ?case unfolding i by (subst empty_from.simps) (simp add: rd_entry_end[OF assms(1)])
next
  case (Suc n)
  then have i: "i < ndir s" by simp
  have IH: "empty_from s (of_nat i + 1) =
    Some (case first_index vacant (drop (Suc i) (entries s)) of None \<Rightarrow> Inl out_of_bounds | Some k \<Rightarrow> Inr (of_nat (Suc i + k)))"
    using Suc.hyps(1)[of "Suc i"] Suc.hyps(2) i by (simp add: add.commute)
  show ?case unfolding drop_entries[OF i]
    by (subst empty_from.simps)
      (auto simp: rd_entry_in[OF assms(1) i] IH vacant_def split: option.splits simp del: nth_entries)
qed

lemma find_empty_spec: "layout s \<Longrightarrow> find_empty s = empty_result_of (entries s)"
  using empty_from_spec[of s 0] by (simp add: find_empty_def empty_result_of_def split: option.splits)

end
