(* ===== verification/Ech_Cmd.thy ===== *)
theory Ech_Cmd
  imports Ech_Chain Ech_Dir
begin

text \<open>
  The commands of the echidnaFS image tool and its \<open>main\<close> (\<open>echfs-utils/echfs-utils.c\<close>).  The
  progress messages of the \<open>-v\<close> switch change nothing else and are left out; every error
  message is a value of \<open>reply\<close>.
\<close>

section \<open>The host\<close>

text \<open>
  What the tool asks of the system it runs on: whether a path names a regular file
  (\<open>stat\<close>), the contents of a file opened for reading, whether a file can be opened for
  writing, the image file, the time, the contents of a buffer from \<open>malloc\<close>, and whether
  \<open>calloc\<close> succeeds.
\<close>

record host =
  is_regular :: "u8 list \<Rightarrow> bool"
  fopen_read :: "u8 list \<Rightarrow> u8 list option"
  fopen_write :: "u8 list \<Rightarrow> bool"
  fopen_image :: "u8 list \<Rightarrow> file_t option"
  time_now :: u64
  malloc :: "u64 \<Rightarrow> u8 list option"
  calloc_ok :: "u64 \<Rightarrow> bool"

definition bytes :: "string \<Rightarrow> u8 list" where
  "bytes cs = map (\<lambda>c. of_nat (of_char c)) cs"

datatype reply =
    Success
  | Usage
  | MissingDirectoryName
  | MissingSource
  | MissingDestination
  | NotRegular
  | DirectoryExists
  | FileExists
  | NoAccess
  | FileNotFound
  | InvalidDirectory
  | InvalidAction
  | NoAction
  | NoImage
  | NoSignature
  | NotAligned
  | Listing "u8 list"
  | Exported "u8 list" "u8 list"

section \<open>mkdir\<close>

definition mkdir_cmd :: "host \<Rightarrow> u8 list list \<Rightarrow> 'a echfs_scheme \<Rightarrow> halt + (reply \<times> 'a echfs_scheme)" where
  "mkdir_cmd h argv s =
    (if length argv < 4 then Inr (MissingDirectoryName, s)
     else bnd (path_resolver s (argv ! 3) DIRECTORY_TYPE) (\<lambda>path_result.
       if \<not> not_found path_result then Inr (DirectoryExists, s)
       else bnd (find_empty s) (\<lambda>i.
         bnd (get_free_id s) (\<lambda>ident.
           let entry = empty_entry\<lparr>
                 parent_id := payload (parent path_result),
                 etype := DIRECTORY_TYPE,
                 ename := rname path_result @ drop (length (rname path_result)) (ename empty_entry),
                 payload := ident,
                 etime := time_now h\<rparr>
           in bnd (wr_entry i entry s) (\<lambda>s. Inr (Success, s))))))"

section \<open>import\<close>

text \<open>
  The loop at label \<open>subdir\<close>: \<open>newdirname\<close> always holds the part of the destination before the
  next slash.  Without a further slash the loop reads, and copies, past the end of the
  argument; \<open>newdirname\<close> has 4096 bytes.
\<close>

function subdir :: "host \<Rightarrow> u8 list list \<Rightarrow> nat \<Rightarrow> 'a echfs_scheme \<Rightarrow> halt + 'a echfs_scheme" where
  "subdir h argv i s =
    (let path = argv ! 4;
         j = i + length (takeWhile (\<lambda>c. c \<noteq> SLASH) (drop i path));
         newdirname = take j path
     in if length path \<le> j \<or> 4096 \<le> j then Inl Overrun
        else bnd (mkdir_cmd h (argv[3 := newdirname]) s) (\<lambda>(_, s).
          bnd (path_resolver s path FILE_TYPE) (\<lambda>path_result.
            if failure path_result then subdir h argv (Suc j) s else Inr s)))"
  by pat_completeness auto
termination
  by (relation "measure (\<lambda>(h, argv, i, s). length (argv ! 4) - i)") auto

declare subdir.simps [simp del]

definition import_cmd :: "host \<Rightarrow> u8 list list \<Rightarrow> 'a echfs_scheme \<Rightarrow> halt + (reply \<times> 'a echfs_scheme)" where
  "import_cmd h argv s =
    (if length argv < 4 then Inr (MissingSource, s)
     else if length argv < 5 then Inr (MissingDestination, s)
     else if \<not> is_regular h (argv ! 3) then Inr (NotRegular, s)
     else bnd (path_resolver s (argv ! 4) FILE_TYPE) (\<lambda>path_result.
       bnd (if failure path_result then subdir h argv 0 s else Inr s) (\<lambda>s.
       bnd (path_resolver s (argv ! 4) FILE_TYPE) (\<lambda>path_result.
         if \<not> not_found path_result then Inr (FileExists, s)
         else (case fopen_read h (argv ! 3) of
             None \<Rightarrow> Inr (NoAccess, s)
           | Some source \<Rightarrow>
               bnd (import_chain source (malloc h (bytesperblock s)) s) (\<lambda>(start_block, s).
                 let entry = empty_entry\<lparr>
                       parent_id := payload (parent path_result),
                       etype := FILE_TYPE,
                       ename := rname path_result @ drop (length (rname path_result)) (ename empty_entry),
                       payload := start_block,
                       esize := of_nat (length source),
                       etime := time_now h\<rparr>
                 in bnd (find_empty s) (\<lambda>i.
                    bnd (wr_entry i entry s) (\<lambda>s. Inr (Success, s)))))))))"

section \<open>export\<close>

text \<open>The reply names the file written and what was written to it.\<close>

definition export_cmd :: "host \<Rightarrow> u8 list list \<Rightarrow> 'a echfs_scheme \<Rightarrow> halt + (reply \<times> 'a echfs_scheme)" where
  "export_cmd h argv s =
    (if length argv < 4 then Inr (MissingSource, s)
     else if length argv < 5 then Inr (MissingDestination, s)
     else bnd (path_resolver s (argv ! 3) FILE_TYPE) (\<lambda>path_result.
       if not_found path_result then Inr (FileNotFound, s)
       else if \<not> fopen_write h (argv ! 4) then Inr (NoAccess, s)
       else bnd (export_chain s (target path_result) (malloc h (bytesperblock s))) (\<lambda>dest.
         Inr (Exported (argv ! 4) dest, s))))"

section \<open>ls\<close>

text \<open>
  \<open>fputs\<close> prints up to the first zero byte from the name on; a name without one is followed
  by the other fields of the packed entry.
\<close>

definition fputs_name :: "entry_t \<Rightarrow> halt + u8 list" where
  "fputs_name e =
    (let rest = drop 9 (entry_bytes e)
     in if 0 \<in> set rest then Inr (cstr rest) else Inl Overrun)"

definition ls_line :: "entry_t \<Rightarrow> halt + u8 list" where
  "ls_line e = bnd (fputs_name e) (\<lambda>name.
    Inr ((if etype e = DIRECTORY_TYPE then bytes ''['' else []) @ name @
         (if etype e = DIRECTORY_TYPE then bytes '']'' else []) @ [10]))"

partial_function (option) ls_from ::
  "'a echfs_scheme \<Rightarrow> u64 \<Rightarrow> u64 \<Rightarrow> u8 list \<Rightarrow> (halt + u8 list) option" where
  "ls_from s ident i out =
    (case rd_entry s i of
       Inl e \<Rightarrow> Some (Inl e)
     | Inr entry \<Rightarrow>
         if parent_id entry = 0 then Some (Inr out)
         else if parent_id entry \<noteq> ident then ls_from s ident (i + 1) out
         else (case ls_line entry of
             Inl e \<Rightarrow> Some (Inl e)
           | Inr line \<Rightarrow> ls_from s ident (i + 1) (out @ line)))"

definition ls_cmd :: "u8 list list \<Rightarrow> 'a echfs_scheme \<Rightarrow> halt + (reply \<times> 'a echfs_scheme)" where
  "ls_cmd argv s =
    bnd (if length argv < 4 then Inr (Some ROOT_ID)
         else bnd (path_resolver s (argv ! 3) DIRECTORY_TYPE) (\<lambda>path_result.
           Inr (if not_found path_result then None else Some (payload (target path_result))))) (\<lambda>ident.
    case ident of
      None \<Rightarrow> Inr (InvalidDirectory, s)
    | Some ident \<Rightarrow>
        bnd (case ls_from s ident 0 [] of None \<Rightarrow> Inl Diverges | Some r \<Rightarrow> r) (\<lambda>out.
          Inr (Listing out, s)))"

section \<open>format\<close>

text \<open>
  \<open>atoi\<close> of the C library: optional white space and sign, then decimal digits.  Its result
  is an \<open>int\<close>; what happens outside that range is undefined, here \<open>Overrun\<close>.
\<close>

definition is_space :: "u8 \<Rightarrow> bool" where
  "is_space c \<longleftrightarrow> c = 0x20 \<or> (9 \<le> c \<and> c \<le> 13)"

definition is_digit :: "u8 \<Rightarrow> bool" where
  "is_digit c \<longleftrightarrow> 0x30 \<le> c \<and> c \<le> 0x39"

definition decimal :: "u8 list \<Rightarrow> int" where
  "decimal ds = foldl (\<lambda>n d. 10 * n + (uint d - 0x30)) 0 (takeWhile is_digit ds)"

definition host_atoi :: "u8 list \<Rightarrow> halt + int" where
  "host_atoi str =
    (let t = dropWhile is_space str;
         n = (case t of
                [] \<Rightarrow> 0
              | c # cs \<Rightarrow> if c = 0x2D then - decimal cs else if c = 0x2B then decimal cs else decimal t)
     in if - (2 ^ 31) \<le> n \<and> n < 2 ^ 31 then Inr n else Inl Overrun)"

text \<open>The loop that fills the image with zero blocks; the file position is \<open>i\<close>.\<close>

partial_function (option) zero_from :: "u64 \<Rightarrow> u8 list \<Rightarrow> 'a echfs_scheme \<Rightarrow> (halt + 'a echfs_scheme) option" where
  "zero_from i zeroblock s =
    (if i < imgsize s then
       (case wr_bytes i zeroblock s of
          Inl e \<Rightarrow> Some (Inl e)
        | Inr s \<Rightarrow> zero_from (i + bytesperblock s) zeroblock s)
     else Some (Inr s))"

definition SIGNATURE :: "u8 list" where
  "SIGNATURE = bytes ''_ECH_FS_''"

definition format_pass1 :: "host \<Rightarrow> u8 list list \<Rightarrow> 'a echfs_scheme \<Rightarrow> halt + 'a echfs_scheme" where
  "format_pass1 h argv s =
    (if length argv \<le> 3 then Inl (Panic ''unspecified block size'')
     else bnd (host_atoi (argv ! 3)) (\<lambda>n.
       let s = s\<lparr>bytesperblock := of_int n\<rparr>
       in if bytesperblock s \<le> 0 \<or> bytesperblock s mod 512 \<noteq> 0 then
            Inl (Panic ''block size MUST be a multiple of 512'')
          else if imgsize s mod bytesperblock s \<noteq> 0 then Inl (Panic ''image is not block-aligned'')
          else let s = s\<lparr>blocks := imgsize s div bytesperblock s\<rparr>
            in bnd (wr_bytes 4 SIGNATURE s) (\<lambda>s.
               bnd (wr_qword 12 (blocks s) s) (\<lambda>s.
               bnd (wr_qword 20 (blocks s div 20) s) (\<lambda>s.
               bnd (wr_qword 28 (bytesperblock s) s) (\<lambda>s.
               if \<not> calloc_ok h (bytesperblock s) then Inl (Panic ''calloc failure'')
               else (case zero_from (RESERVED_BLOCKS * bytesperblock s)
                   (replicate (unat (bytesperblock s)) 0) s of
                  None \<Rightarrow> Inl Diverges
                | Some r \<Rightarrow> r)))))))"

text \<open>\<open>format_pass2\<close> marks the reserved blocks, the table's own and the directory's.\<close>

definition format_pass2 :: "'a echfs_scheme \<Rightarrow> halt + 'a echfs_scheme" where
  "format_pass2 s =
    fold_res (\<lambda>i s. wr_qword (fatstart s * bytesperblock s + of_nat i * 8) RESERVED_BLOCK s)
      [0..<unat (RESERVED_BLOCKS + fatsize s + dirsize s)] s"

section \<open>main\<close>

text \<open>
  An empty state before the image is opened: the globals are zero but for \<open>fatstart\<close>.  The
  result is the exit status, the reply, whether the warning about the declared block count
  was printed, and the image file as it is left.
\<close>

record outcome =
  status :: int
  answer :: reply
  mismatch :: bool
  final :: "file_t option"

definition stop :: "int \<Rightarrow> reply \<Rightarrow> file_t option \<Rightarrow> halt + outcome" where
  "stop code r f = Inr \<lparr>status = code, answer = r, mismatch = False, final = f\<rparr>"

definition opened :: "file_t \<Rightarrow> echfs" where
  "opened f = \<lparr>img = f, imgsize = of_nat (flen f), blocks = 0, fatsize = 0, fatstart = RESERVED_BLOCKS,
     dirsize = 0, dirstart = 0, datastart = 0, bytesperblock = 0\<rparr>"

text \<open>The geometry of an image, computed from its header (a block size of zero traps).\<close>

definition geometry :: "'a echfs_scheme \<Rightarrow> halt + (reply + 'a echfs_scheme)" where
  "geometry s =
    bnd (rd_bytes 8 4 s) (\<lambda>signature.
    if signature \<noteq> SIGNATURE then Inr (Inl NoSignature)
    else bnd (rd_qword 28 s) (\<lambda>bytesperblock.
      let s = s\<lparr>bytesperblock := bytesperblock\<rparr>
      in if bytesperblock = 0 then Inl (Panic ''division by zero'')
         else if imgsize s mod bytesperblock \<noteq> 0 then Inr (Inl NotAligned)
         else let blocks = imgsize s div bytesperblock;
                  fatsize = blocks * 8 div bytesperblock + (if blocks * 8 mod bytesperblock \<noteq> 0 then 1 else 0)
              in bnd (rd_qword 20 s) (\<lambda>dirsize.
                 Inr (Inr (s\<lparr>blocks := blocks, fatsize := fatsize, dirsize := dirsize,
                   dirstart := fatstart s + fatsize,
                   datastart := RESERVED_BLOCKS + fatsize + dirsize\<rparr>)))))"

definition dispatch :: "host \<Rightarrow> u8 list list \<Rightarrow> 'a echfs_scheme \<Rightarrow> halt + (reply \<times> 'a echfs_scheme)" where
  "dispatch h argv s =
    (if length argv \<le> 2 then Inr (NoAction, s)
     else if argv ! 2 = bytes ''mkdir'' then mkdir_cmd h argv s
     else if argv ! 2 = bytes ''ls'' then ls_cmd argv s
     else if argv ! 2 = bytes ''format'' then bnd (format_pass2 s) (\<lambda>s. Inr (Success, s))
     else if argv ! 2 = bytes ''import'' then import_cmd h argv s
     else if argv ! 2 = bytes ''export'' then export_cmd h argv s
     else Inr (InvalidAction, s))"

definition skip_verbose :: "u8 list list \<Rightarrow> u8 list list" where
  "skip_verbose argv =
    (if 1 < length argv \<and> argv ! 1 = bytes ''-v'' then argv ! 0 # drop 2 argv else argv)"

definition main :: "host \<Rightarrow> u8 list list \<Rightarrow> halt + outcome" where
  "main h argv =
    (let argv = skip_verbose argv
     in if length argv = 1 then stop 0 Usage None
        else (case fopen_image h (argv ! 1) of
            None \<Rightarrow> stop 1 NoImage None
          | Some f \<Rightarrow>
              bnd (if 2 < length argv \<and> argv ! 2 = bytes ''format'' then format_pass1 h argv (opened f)
                   else Inr (opened f)) (\<lambda>s.
              bnd (geometry s) (\<lambda>g.
              case g of
                Inl r \<Rightarrow> stop 1 r (Some (img s))
              | Inr s \<Rightarrow>
                  bnd (rd_qword 12 s) (\<lambda>declared.
                  bnd (dispatch h argv s) (\<lambda>(r, t).
                  Inr \<lparr>status = 0, answer = r, mismatch = (declared \<noteq> blocks s), final = Some (img t)\<rparr>))))))"

end
