(* ===== verification/Ech_Fs.thy ===== *)
theory Ech_Fs
  imports Ech_Cmd
begin

text \<open>
  The directory as a list of entries, the well-formedness the tool's own commands keep, and
  what \<open>mkdir\<close>, \<open>import\<close> and \<open>export\<close> do to it.
\<close>

section \<open>Writing an entry\<close>

definition set_entry :: "nat \<Rightarrow> entry_t \<Rightarrow> 'a echfs_scheme \<Rightarrow> 'a echfs_scheme" where
  "set_entry i e s = s\<lparr>img := fput (img s) (of_nat (unat (dirstart s) * bpb s + 256 * i)) (entry_bytes e)\<rparr>"

lemma set_entry_fields [simp]:
  "bpb (set_entry i e s) = bpb s" "blocks (set_entry i e s) = blocks s" "datastart (set_entry i e s) = datastart s"
  "dirstart (set_entry i e s) = dirstart s" "bytesperblock (set_entry i e s) = bytesperblock s"
  "dirsize (set_entry i e s) = dirsize s" "ndir (set_entry i e s) = ndir s" "fatstart (set_entry i e s) = fatstart s"
  by (simp_all add: set_entry_def bpb_def ndir_def)

lemma set_entry_spec:
  assumes lay: "layout s" and i: "i < ndir s" and e: "length (ename e) = 218"
  shows "wr_entry (of_nat i) e s = Inr (set_entry i e s)"
    and "layout (set_entry i e s)"
    and "entries (set_entry i e s) = (entries s)[i := e]"
    and "\<And>c. c < unat (blocks s) \<Longrightarrow> fat (set_entry i e s) c = fat s c"
    and "\<And>d. unat (datastart s) \<le> d \<Longrightarrow> d < unat (blocks s) \<Longrightarrow> block_at (set_entry i e s) d = block_at s d"
proof -
  note b = dir_bounds[OF lay]
  let ?l = "unat (dirstart s) * bpb s + 256 * i" and ?D = "unat (datastart s) * bpb s"
  have len: "length (entry_bytes e) = 256" using length_entry_bytes[OF e] .
  have l: "?l + 256 \<le> ?D" unfolding b(2)[symmetric] using i by simp
  have D: "?D < 2 ^ 62" using le_less_trans[OF b(3,4)] .
  have lt: "?l < 2 ^ 63" "?l < 2 ^ 64" "?l + 256 < 2 ^ 63" "?D < 2 ^ 64" "?l < ?D" using l D by simp_all
  have u: "unat (of_nat ?l :: u64) = ?l" "unat (of_nat ?D :: u64) = ?D" using lt by (simp_all only: unat_of_nat_small)
  then have "\<not> of_nat ?D \<le> (of_nat ?l :: u64)" unfolding word_le_nat_alt u using lt by linarith
  moreover have "wr_bytes (of_nat ?l) (entry_bytes e) s = Inr (set_entry i e s)"
    unfolding set_entry_def by (rule wr_bytes_small[OF lt(1)])
  ultimately show "wr_entry (of_nat i) e s = Inr (set_entry i e s)"
    unfolding wr_entry_def b(1) layoutD(9)[OF lay] b(6) Let_def by (simp only: if_False)
  have fl: "flen (img (set_entry i e s)) = flen (img s)"
    using flen_fput[of ?l "entry_bytes e" "img s"] len l lt(3) b(3) by (auto simp: set_entry_def max_def)
  show "layout (set_entry i e s)" using lay fl by (simp add: layout_def) (simp add: set_entry_def)
  have sl: "slice (img (set_entry i e s)) n k = slice (img s) n k"
    if "n + k \<le> 2 ^ 63" "n + k \<le> ?l \<or> ?l + 256 \<le> n" for n k
    using slice_fput_other[of ?l "entry_bytes e" n k "img s"] that lt len by (simp add: set_entry_def)
  show "entries (set_entry i e s) = (entries s)[i := e]"
  proof (intro nth_equalityI)
    fix j assume "j < length (entries (set_entry i e s))"
    then have j: "j < ndir s" by simp
    have ja: "unat (dirstart s) * bpb s + 256 * j + 256 \<le> 2 ^ 63" using j b(2) D by simp
    show "entries (set_entry i e s) ! j = (entries s)[i := e] ! j"
    proof (cases "j = i")
      case True
      then show ?thesis using i slice_fput_same[of ?l "entry_bytes e" "img s"] len lt entry_of_bytes[OF e]
        by (simp add: entry_at_def) (simp add: set_entry_def)
    next
      case False
      have "unat (dirstart s) * bpb s + 256 * j + 256 \<le> ?l \<or> ?l + 256 \<le> unat (dirstart s) * bpb s + 256 * j"
        using False by linarith
      then show ?thesis using False i j sl[OF ja] by (simp add: entry_at_def)
    qed
  qed simp
  show "fat (set_entry i e s) c = fat s c" if "c < unat (blocks s)" for c
  proof -
    have "16 * bpb s + 8 * c + 8 \<le> ?l" using fat_below_data[OF lay that] by linarith
    then show ?thesis using sl[of "16 * bpb s + 8 * c" 8] lt by (simp add: fat_def)
  qed
  show "block_at (set_entry i e s) d = block_at s d" if "unat (datastart s) \<le> d" "d < unat (blocks s)" for d
  proof -
    have "Suc d * bpb s < 2 ^ 62" using layoutD(7)[OF lay, of "Suc d"] that by simp
    moreover have "?D \<le> d * bpb s" using that by simp
    then have "?l + 256 \<le> d * bpb s" using l by linarith
    ultimately show ?thesis using sl[of "d * bpb s" "bpb s"] by (simp add: block_at_def)
  qed
qed

section \<open>Well-formed directories\<close>

definition dir_ids :: "entry_t list \<Rightarrow> u64 list" where
  "dir_ids es = map payload (filter (\<lambda>e. etype e = 1) es)"

definition key :: "entry_t \<Rightarrow> u64 \<times> u8 \<times> u8 list" where
  "key e = (parent_id e, etype e, cstr (ename e))"

text \<open>
  The live entries \<open>es\<close> come first, then entries never used.  Directories are numbered from
  one in table order, every entry has the root or one of them as parent, and no two entries
  share parent, type and name.
\<close>

definition dir_wf :: "'a echfs_scheme \<Rightarrow> entry_t list \<Rightarrow> bool" where
  "dir_wf s es \<longleftrightarrow> layout s \<and>
    (\<exists>zs. entries s = es @ zs \<and> (\<forall>z \<in> set zs. parent_id z = 0)) \<and>
    (\<forall>e \<in> set es. parent_id e \<noteq> 0 \<and> parent_id e \<noteq> DELETED_ENTRY) \<and>
    dir_ids es = map of_nat [1..<Suc (length (dir_ids es))] \<and>
    (\<forall>e \<in> set es. parent_id e = ROOT_ID \<or> parent_id e \<in> set (dir_ids es)) \<and>
    distinct (map key es)"

lemma dir_wf_length: "dir_wf s es \<Longrightarrow> length es \<le> ndir s"
  by (metis dir_wf_def length_append length_entries le_add1)

section \<open>Searching and resolving in a well-formed directory\<close>

definition miss :: "'a echfs_scheme \<Rightarrow> entry_t list \<Rightarrow> 'b \<Rightarrow> halt + 'b" where
  "miss s es x = (if length es < ndir s then Inr x else Inl out_of_bounds)"

lemma first_index_cong: "(\<And>x. x \<in> set xs \<Longrightarrow> P x = Q x) \<Longrightarrow> first_index P xs = first_index Q xs"
  by (induction xs) auto

lemma search_wf:
  assumes "dir_wf s es"
  shows "search s name par ty =
    (case first_index (hit name par ty) es of Some k \<Rightarrow> Inr (of_nat k) | None \<Rightarrow> miss s es SEARCH_FAILURE)"
proof -
  obtain zs where zs: "layout s" "entries s = es @ zs" "\<forall>z \<in> set zs. parent_id z = 0" "\<forall>e \<in> set es. parent_id e \<noteq> 0"
    using assms unfolding dir_wf_def by blast
  have n: "ndir s = length es + length zs" using zs(2) length_entries[of s] by simp
  have es: "first_index (\<lambda>e. parent_id e = 0 \<or> hit name par ty e) es = first_index (hit name par ty) es"
    using zs(4) by (intro first_index_cong) auto
  show ?thesis
  proof (cases "first_index (hit name par ty) es")
    case None
    have "first_index (\<lambda>e. parent_id e = 0 \<or> hit name par ty e) zs = (if zs = [] then None else Some 0)"
      using zs(3) by (cases zs) auto
    then show ?thesis using None zs(3) n
      by (cases zs) (auto simp: search_spec[OF zs(1)] search_result_def zs(2) first_index_append es miss_def nth_append)
  next
    case (Some k)
    then have "k < length es" by (simp add: first_index_Some)
    then show ?thesis using Some zs(4) by (simp add: search_spec[OF zs(1)] search_result_def zs(2) first_index_append es nth_append)
  qed
qed

lemma rd_entry_wf: "dir_wf s es \<Longrightarrow> k < length es \<Longrightarrow> rd_entry s (of_nat k) = Inr (es ! k)"
proof -
  assume w: "dir_wf s es" and k: "k < length es"
  obtain zs where "layout s" "entries s = es @ zs" using w unfolding dir_wf_def by blast
  then show ?thesis using rd_entry_in[of s k] dir_wf_length[OF w] k by (simp add: nth_append)
qed

lemma first_index_less: "first_index P xs = Some k \<Longrightarrow> k < length xs"
  by (simp add: first_index_Some)

lemma index_small:
  assumes "dir_wf s es" and "k < length es"
  shows "of_nat k \<noteq> SEARCH_FAILURE" "unat (of_nat k :: u64) = k"
proof -
  have "k < 2 ^ 54" using dir_wf_length[OF assms(1)] dir_bounds(5)[of s] assms by (simp add: dir_wf_def)
  then show u: "unat (of_nat k :: u64) = k" by (intro unat_of_nat_small) simp
  show "of_nat k \<noteq> SEARCH_FAILURE"
  proof
    assume "of_nat k = SEARCH_FAILURE"
    then have "unat (of_nat k :: u64) = 0xFFFFFFFFFFFFFFFF" by (simp add: SEARCH_FAILURE_def)
    then show False using u \<open>k < 2 ^ 54\<close> by simp
  qed
qed

function comps :: "u8 list \<Rightarrow> u8 list list" where
  "comps path = (case dropWhile (\<lambda>c. c \<noteq> SLASH) path of
     [] \<Rightarrow> [path] | _ # rest \<Rightarrow> takeWhile (\<lambda>c. c \<noteq> SLASH) path # comps rest)"
  by pat_completeness auto
termination
proof (relation "measure length", goal_cases)
  case (2 path x y)
  then show ?case using length_dropWhile_le[of "\<lambda>c. c \<noteq> SLASH" path] by (simp del: length_dropWhile_le)
qed simp

declare comps.simps [simp del]

text \<open>Following the directories of a path: the parent entry and the last name.\<close>

fun walk :: "entry_t list \<Rightarrow> entry_t \<Rightarrow> u8 list list \<Rightarrow> (entry_t \<times> u8 list) option" where
  "walk es par [] = None"
| "walk es par [name] = Some (par, name)"
| "walk es par (name # name' # names) =
    (case first_index (hit name (payload par) DIRECTORY_TYPE) es of
       None \<Rightarrow> None
     | Some k \<Rightarrow> walk es (es ! k) (name' # names))"

lemma comps_Cons: "\<exists>n ns. comps path = n # ns"
  by (subst comps.simps) (auto split: list.splits)

definition resolved :: "'a echfs_scheme \<Rightarrow> entry_t list \<Rightarrow> u8 \<Rightarrow> (entry_t \<times> u8 list) option \<Rightarrow> halt + path_result_t" where
  "resolved s es ty w = (case w of
     None \<Rightarrow> miss s es (empty_result\<lparr>failure := True\<rparr>)
   | Some (p, name) \<Rightarrow>
       (case first_index (hit name (payload p) ty) es of
          None \<Rightarrow> miss s es (empty_result\<lparr>not_found := True, parent := p, rname := name\<rparr>)
        | Some k \<Rightarrow> Inr (empty_result\<lparr>target := es ! k, target_entry := of_nat k, parent := p, rname := name\<rparr>)))"

lemma resolve_wf:
  assumes "dir_wf s es" and "\<forall>n \<in> set (comps path). length n < 218"
  shows "resolve s ty par path = resolved s es ty (walk es par (comps path))"
  using assms(2)
proof (induction path arbitrary: par rule: comps.induct)
  case (1 path)
  let ?rest = "dropWhile (\<lambda>c. c \<noteq> SLASH) path" and ?name = "takeWhile (\<lambda>c. c \<noteq> SLASH) path"
  show ?case
  proof (cases ?rest)
    case Nil
    have nm: "?name = path" using Nil by (metis append_Nil2 takeWhile_dropWhile_id)
    have c: "comps path = [path]" by (subst comps.simps, subst Nil) simp
    have "\<not> FILENAME_LEN \<le> length path" using "1.prems" c by (simp add: FILENAME_LEN_def)
    then show ?thesis unfolding resolve.simps[of s ty par path] Nil nm c Let_def list.case
      by (cases "first_index (hit path (payload par) ty) es")
        (simp_all add: search_wf[OF assms(1)] resolved_def miss_def first_index_less index_small(1)[OF assms(1)]
          rd_entry_wf[OF assms(1)])
  next
    case (Cons sl rest)
    have c: "comps path = ?name # comps rest" using Cons by (subst comps.simps) simp
    have len: "\<not> FILENAME_LEN \<le> length ?name" using "1.prems" c by (simp add: FILENAME_LEN_def)
    obtain n ns where ns: "comps rest = n # ns" using comps_Cons by blast
    have IH: "resolve s ty p rest = resolved s es ty (walk es p (comps rest))" for p
      using "1.IH"[OF Cons] "1.prems" c by simp
    show ?thesis unfolding resolve.simps[of s ty par path] Cons c Let_def list.case
      using len by (cases "first_index (hit ?name (payload par) DIRECTORY_TYPE) es")
        (simp_all add: ns IH search_wf[OF assms(1)] resolved_def miss_def first_index_less
          index_small(1)[OF assms(1)] rd_entry_wf[OF assms(1)])
  qed
qed


definition root_entry :: entry_t where
  "root_entry = empty_entry\<lparr>payload := ROOT_ID\<rparr>"

definition strip :: "u8 list \<Rightarrow> u8 list" where
  "strip path = (case path of [] \<Rightarrow> [] | c # cs \<Rightarrow> if c = SLASH then cs else path)"

text \<open>A path the resolver accepts: no component fills its name buffer, and not the root itself.\<close>

definition plain_path :: "u8 list \<Rightarrow> bool" where
  "plain_path path \<longleftrightarrow> path \<noteq> [SLASH] \<and> 0 \<notin> set path \<and> (\<forall>n \<in> set (comps (strip path)). length n < 218)"

lemma path_resolver_wf:
  assumes "dir_wf s es" and "plain_path path"
  shows "path_resolver s path ty = resolved s es ty (walk es root_entry (comps (strip path)))"
  using resolve_wf[OF assms(1), of "strip path" ty root_entry] assms(2)
  by (simp add: path_resolver_def plain_path_def root_entry_def strip_def)

lemma comps_chars: "n \<in> set (comps path) \<Longrightarrow> set n \<subseteq> set path"
proof (induction path rule: comps.induct)
  case (1 path)
  show ?case
  proof (cases "dropWhile (\<lambda>c. c \<noteq> SLASH) path")
    case Nil
    then show ?thesis using "1.prems" by (subst (asm) comps.simps, subst (asm) Nil) simp
  next
    case (Cons sl rest)
    have "set rest \<subseteq> set path" by (metis Cons set_dropWhileD set_subset_Cons subsetD subsetI)
    then show ?thesis using "1.prems" "1.IH"[OF Cons] set_takeWhileD
      by (subst (asm) comps.simps, subst (asm) Cons) fastforce
  qed
qed

lemma walk_name: "walk es par ns = Some (p, name) \<Longrightarrow> name \<in> set ns"
  by (induction es par ns rule: walk.induct) (auto split: option.splits)

text \<open>The parent found is the starting point or a live directory.\<close>

lemma walk_parent:
  "walk es par ns = Some (p, name) \<Longrightarrow> p = par \<or> (p \<in> set es \<and> etype p = DIRECTORY_TYPE)"
proof (induction es par ns rule: walk.induct)
  case (3 es par nm name' names)
  then obtain k where k: "first_index (hit nm (payload par) DIRECTORY_TYPE) es = Some k"
      "walk es (es ! k) (name' # names) = Some (p, name)" by (auto split: option.splits)
  then have "es ! k \<in> set es" "etype (es ! k) = DIRECTORY_TYPE" by (simp_all add: first_index_Some hit_def)
  then show ?case using "3.IH"[OF k] by auto
qed simp_all

lemma first_index_snoc: "first_index P xs = Some k \<Longrightarrow> first_index P (xs @ ys) = Some k"
  by (simp add: first_index_append)

lemma walk_snoc: "walk es par ns = Some r \<Longrightarrow> walk (es @ [e]) par ns = Some r"
  by (induction es par ns rule: walk.induct)
    (auto simp: first_index_append first_index_less nth_append split: option.splits)

lemma plain_path_name:
  assumes "plain_path path" and "walk es par (comps (strip path)) = Some (p, name)"
  shows "length name < 218" "0 \<notin> set name"
proof -
  have n: "name \<in> set (comps (strip path))" using walk_name[OF assms(2)] .
  then show "length name < 218" using assms(1) by (simp add: plain_path_def)
  have "set (strip path) \<subseteq> set path" by (auto simp: strip_def split: list.splits if_splits)
  then show "0 \<notin> set name" using comps_chars[OF n] assms(1) by (auto simp: plain_path_def)
qed

section \<open>Adding an entry\<close>

definition new_entry :: "u8 \<Rightarrow> entry_t \<Rightarrow> u8 list \<Rightarrow> u64 \<Rightarrow> u64 \<Rightarrow> u64 \<Rightarrow> entry_t" where
  "new_entry ty p name pay sz now = empty_entry\<lparr>parent_id := payload p, etype := ty,
     ename := name @ replicate (218 - length name) 0, payload := pay, esize := sz, etime := now\<rparr>"

lemma new_entry_simps [simp]:
  "parent_id (new_entry ty p name pay sz now) = payload p"
  "etype (new_entry ty p name pay sz now) = ty"
  "payload (new_entry ty p name pay sz now) = pay"
  "esize (new_entry ty p name pay sz now) = sz"
  "ename (new_entry ty p name pay sz now) = name @ replicate (218 - length name) 0"
  by (simp_all add: new_entry_def)

lemma cstr_padded [simp]: "0 \<notin> set name \<Longrightarrow> cstr (name @ replicate k 0) = name"
proof -
  assume "0 \<notin> set name"
  then have "takeWhile (\<lambda>b. b \<noteq> 0) (name @ replicate k 0) = name @ takeWhile (\<lambda>b. b \<noteq> 0) (replicate k 0)"
    by (intro takeWhile_append2) auto
  then show ?thesis by (cases k) (simp_all add: cstr_def)
qed

lemma hit_new_entry: "0 \<notin> set name \<Longrightarrow> hit name (payload p) ty (new_entry ty p name pay sz now)"
  by (simp add: hit_def)

lemma vacant_wf:
  assumes "dir_wf s es" and "length es < ndir s"
  shows "find_empty s = Inr (of_nat (length es))"
proof -
  obtain zs where zs: "layout s" "entries s = es @ zs" "\<forall>z \<in> set zs. parent_id z = 0"
      "\<forall>e \<in> set es. parent_id e \<noteq> 0 \<and> parent_id e \<noteq> DELETED_ENTRY"
    using assms(1) unfolding dir_wf_def by blast
  have "zs \<noteq> []" using assms(2) zs(2) length_entries[of s] by auto
  then obtain z zs' where z: "zs = z # zs'" by (cases zs) auto
  have "first_index vacant es = None" using zs(4) by (auto simp: first_index_None vacant_def)
  then have "first_index vacant (entries s) = Some (length es)"
    using zs(2,3) z by (simp add: first_index_append vacant_def)
  then show ?thesis by (simp add: find_empty_spec[OF zs(1)] empty_result_of_def)
qed

lemma dir_ids_snoc: "dir_ids (es @ [e]) = dir_ids es @ (if etype e = 1 then [payload e] else [])"
  by (simp add: dir_ids_def)

lemma bump_ids:
  "dir_ids es = map of_nat [Suc k..<Suc k + m] \<Longrightarrow> fold bump es (of_nat (Suc k)) = of_nat (Suc k + m)"
proof (induction es arbitrary: k m)
  case Nil
  then have "length (map (of_nat :: nat \<Rightarrow> u64) [Suc k..<Suc k + m]) = length (dir_ids [])" by simp
  then show ?case by (simp add: dir_ids_def del: upt_Suc)
next
  case (Cons e es)
  show ?case
  proof (cases "etype e = 1")
    case True
    then obtain m' where m: "m = Suc m'" using Cons.prems by (cases m) (auto simp: dir_ids_def)
    have "[Suc k..<Suc k + m] = Suc k # [Suc (Suc k)..<Suc (Suc k) + m']" unfolding m by (simp add: upt_conv_Cons)
    then have p: "payload e = of_nat (Suc k)" and ids: "dir_ids es = map of_nat [Suc (Suc k)..<Suc (Suc k) + m']"
      using Cons.prems True by (simp_all add: dir_ids_def)
    have "bump e (of_nat (Suc k)) = of_nat (Suc (Suc k))" using True p by (simp add: bump_def)
    then show ?thesis using Cons.IH[OF ids] m by simp
  next
    case False
    then have "dir_ids es = map of_nat [Suc k..<Suc k + m]" using Cons.prems by (simp add: dir_ids_def)
    then show ?thesis using Cons.IH False by (simp add: bump_def)
  qed
qed

lemma free_id_wf:
  assumes "dir_wf s es" and "length es < ndir s"
  shows "get_free_id s = Inr (of_nat (Suc (length (dir_ids es))))"
proof -
  obtain zs where zs: "layout s" "entries s = es @ zs" "\<forall>z \<in> set zs. parent_id z = 0" "\<forall>e \<in> set es. parent_id e \<noteq> 0"
      "dir_ids es = map of_nat [1..<Suc (length (dir_ids es))]"
    using assms(1) unfolding dir_wf_def by blast
  have "zs \<noteq> []" using assms(2) zs(2) length_entries[of s] by auto
  then obtain z zs' where z: "zs = z # zs'" by (cases zs) auto
  have "takeWhile (\<lambda>e. parent_id e \<noteq> 0) (es @ zs) = es"
    using zs(3,4) z by (subst takeWhile_append2) auto
  then show ?thesis using bump_ids[of es 0 "length (dir_ids es)"] zs z
    by (simp add: get_free_id_spec[OF zs(1)] free_id_result_def)
qed

lemma dir_wf_snoc:
  assumes "dir_wf s es" and "length es < ndir s" and "length (ename e) = 218"
    and "parent_id e = ROOT_ID \<or> parent_id e \<in> set (dir_ids es)"
    and "etype e = 1 \<Longrightarrow> payload e = of_nat (Suc (length (dir_ids es)))"
    and "key e \<notin> key ` set es"
  shows "dir_wf (set_entry (length es) e s) (es @ [e])"
proof -
  obtain zs where zs: "layout s" "entries s = es @ zs" "\<forall>z \<in> set zs. parent_id z = 0"
      "\<forall>e \<in> set es. parent_id e \<noteq> 0 \<and> parent_id e \<noteq> DELETED_ENTRY"
      "dir_ids es = map of_nat [1..<Suc (length (dir_ids es))]"
      "\<forall>e \<in> set es. parent_id e = ROOT_ID \<or> parent_id e \<in> set (dir_ids es)" "distinct (map key es)"
    using assms(1) unfolding dir_wf_def by blast
  let ?n = "length (dir_ids es)"
  have "zs \<noteq> []" using assms(2) zs(2) length_entries[of s] by auto
  then obtain z zs' where z: "zs = z # zs'" by (cases zs) auto
  note se = set_entry_spec[OF zs(1) assms(2,3)]
  have ent: "entries (set_entry (length es) e s) = (es @ [e]) @ zs'" unfolding se(3) zs(2) z by simp
  have ids: "dir_ids (es @ [e]) = map of_nat [1..<Suc (length (dir_ids (es @ [e])))]"
  proof (cases "etype e = 1")
    case True
    have "[1..<Suc (Suc ?n)] = [1..<Suc ?n] @ [Suc ?n]" by simp
    then show ?thesis using zs(5) assms(5)[OF True] True by (simp add: dir_ids_snoc del: upt_Suc)
  qed (use zs(5) in \<open>simp add: dir_ids_snoc del: upt_Suc\<close>)
  have small: "?n < 2 ^ 54" using assms(2) dir_bounds(5)[OF zs(1)] by (simp add: dir_ids_def)
      (meson length_filter_le order.strict_trans order.strict_trans1)
  have idok: "x \<noteq> 0 \<and> x \<noteq> DELETED_ENTRY" if "x \<in> set (dir_ids es)" for x
  proof -
    obtain k where k: "x = of_nat k" "1 \<le> k" "k \<le> ?n" using \<open>x \<in> set (dir_ids es)\<close> by (subst (asm) zs(5)) auto
    then have "unat x = k" using small by (simp add: unat_of_nat)
    then show ?thesis using k small by (auto simp: DELETED_ENTRY_def)
  qed
  have p: "parent_id e \<noteq> 0 \<and> parent_id e \<noteq> DELETED_ENTRY"
    using assms(4) idok by (auto simp: ROOT_ID_def DELETED_ENTRY_def)
  have mono: "set (dir_ids es) \<subseteq> set (dir_ids (es @ [e]))" by (auto simp: dir_ids_def)
  show ?thesis unfolding dir_wf_def
    using se(2) ent zs(3,4,6,7) z p ids mono assms(4,6) by (intro conjI) (auto simp: ent)
qed


text \<open>Adding an entry for a name that is not there yet.\<close>

lemma add_entry:
  fixes sz now :: u64
  assumes wf: "dir_wf s es" and room: "length es < ndir s" and path: "plain_path path"
    and w: "walk es root_entry (comps (strip path)) = Some (p, name)"
    and none: "first_index (hit name (payload p) ty) es = None"
    and ident: "ty = 1 \<Longrightarrow> pay = of_nat (Suc (length (dir_ids es)))"
  defines "e \<equiv> new_entry ty p name pay sz now"
  defines "t \<equiv> set_entry (length es) e s"
  shows "wr_entry (of_nat (length es)) e s = Inr t"
    and "dir_wf t (es @ [e])"
    and "path_resolver t path ty =
      Inr (empty_result\<lparr>target := e, target_entry := of_nat (length es), parent := p, rname := name\<rparr>)"
proof -
  have nm: "length name < 218" "0 \<notin> set name" using plain_path_name[OF path w] by simp_all
  then have len: "length (ename e) = 218" by (simp add: e_def)
  have lay: "layout s" using wf by (simp add: dir_wf_def)
  show "wr_entry (of_nat (length es)) e s = Inr t" using set_entry_spec(1)[OF lay room len] by (simp add: t_def)
  have par: "parent_id e = ROOT_ID \<or> parent_id e \<in> set (dir_ids es)"
    using walk_parent[OF w] by (auto simp: e_def root_entry_def dir_ids_def DIRECTORY_TYPE_def)
  have "key e \<notin> key ` set es"
    using none nm(2) by (auto simp: first_index_None key_def hit_def e_def)
  then show wf': "dir_wf t (es @ [e])"
    unfolding t_def using dir_wf_snoc[OF wf room len par] ident by (simp add: e_def)
  have "hit name (payload p) ty e" unfolding e_def using hit_new_entry[OF nm(2)] .
  then have "first_index (hit name (payload p) ty) (es @ [e]) = Some (length es)"
    using none by (simp add: first_index_append)
  then show "path_resolver t path ty =
      Inr (empty_result\<lparr>target := e, target_entry := of_nat (length es), parent := p, rname := name\<rparr>)"
    using path_resolver_wf[OF wf' path, of ty] walk_snoc[OF w] by (simp add: resolved_def)
qed

lemma new_name: "length name < 218 \<Longrightarrow>
    name @ drop (length name) (ename empty_entry) = name @ replicate (218 - length name) 0"
  by (simp add: empty_entry_def FILENAME_LEN_def)

lemma path_missing:
  assumes "dir_wf s es" and "length es < ndir s" and "plain_path path"
    and "walk es root_entry (comps (strip path)) = Some (p, name)"
    and "first_index (hit name (payload p) ty) es = None"
  shows "path_resolver s path ty = Inr (empty_result\<lparr>not_found := True, parent := p, rname := name\<rparr>)"
  using path_resolver_wf[OF assms(1,3)] assms by (simp add: resolved_def miss_def)

lemma mkdir_spec:
  assumes wf: "dir_wf s es" and room: "length es < ndir s" and argv: "3 < length argv" "plain_path (argv ! 3)"
    and w: "walk es root_entry (comps (strip (argv ! 3))) = Some (p, name)"
    and none: "first_index (hit name (payload p) DIRECTORY_TYPE) es = None"
  shows "mkdir_cmd h argv s = Inr (Success, set_entry (length es)
    (new_entry DIRECTORY_TYPE p name (of_nat (Suc (length (dir_ids es)))) 0 (time_now h)) s)"
proof -
  note nm = plain_path_name(1)[OF argv(2) w]
  let ?id = "of_nat (Suc (length (dir_ids es))) :: u64"
  have e: "empty_entry\<lparr>parent_id := payload p, etype := DIRECTORY_TYPE,
      ename := name @ replicate (218 - length name) 0, payload := ?id, etime := time_now h\<rparr>
    = new_entry DIRECTORY_TYPE p name ?id 0 (time_now h)"
    by (simp add: new_entry_def empty_entry_def)
  note wr = add_entry(1)[OF wf room argv(2) w none, where pay = ?id and sz = 0 and now = "time_now h"]
  show ?thesis
    using argv(1) path_missing[OF wf room argv(2) w none] vacant_wf[OF wf room] free_id_wf[OF wf room] wr
    by (simp add: mkdir_cmd_def new_name[OF nm] e Let_def del: of_nat_Suc)
qed

section \<open>Files\<close>

definition files :: "entry_t list \<Rightarrow> entry_t list" where
  "files es = filter (\<lambda>e. etype e = FILE_TYPE) es"

text \<open>The blocks of a file: a chain in the data area, just long enough for its size.\<close>

definition file_chain :: "'a echfs_scheme \<Rightarrow> entry_t \<Rightarrow> nat list \<Rightarrow> bool" where
  "file_chain s e cs \<longleftrightarrow> chain_blocks s cs \<and> payload e = of_nat (hd cs) \<and>
    set cs \<subseteq> {unat (datastart s)..<unat (blocks s)} \<and> unat (esize e) < 2 ^ 62 \<and>
    length cs = max 1 ((unat (esize e) + bpb s - 1) div bpb s)"

definition fs_wf :: "'a echfs_scheme \<Rightarrow> entry_t list \<Rightarrow> nat list list \<Rightarrow> bool" where
  "fs_wf s es C \<longleftrightarrow> dir_wf s es \<and> reserved s \<and> list_all2 (file_chain s) (files es) C \<and> distinct (concat C)"

definition content :: "'a echfs_scheme \<Rightarrow> entry_t \<Rightarrow> nat list \<Rightarrow> u8 list" where
  "content s e cs = take (unat (esize e)) (concat (map (block_at s) cs))"

definition contents :: "'a echfs_scheme \<Rightarrow> entry_t list \<Rightarrow> nat list list \<Rightarrow> u8 list list" where
  "contents s es C = map2 (content s) (files es) C"

lemma chain_blocks_cong:
  "(\<And>c. c \<in> set cs \<Longrightarrow> fat t c = fat s c) \<Longrightarrow> chain_blocks t cs = chain_blocks s cs"
  by (induction s cs rule: chain_blocks.induct) auto

lemma chain_used:
  assumes "chain_blocks s cs" and "\<forall>c \<in> set cs. 0 < c \<and> c < 2 ^ 62" and "c \<in> set cs"
  shows "fat s c \<noteq> 0"
  using assms
proof (induction s cs rule: chain_blocks.induct)
  case (3 s b d cs)
  have "unat (of_nat d :: u64) = d" using "3.prems"(2) by (simp add: unat_of_nat)
  then have "(of_nat d :: u64) \<noteq> 0" using "3.prems"(2) by (auto simp: unat_eq_0[symmetric])
  then show ?case using 3 by auto
qed (auto simp: END_OF_CHAIN_def)

text \<open>Two states that agree on the table and the data blocks of a chain agree on the file.\<close>

definition same_blocks :: "'a echfs_scheme \<Rightarrow> 'a echfs_scheme \<Rightarrow> nat set \<Rightarrow> bool" where
  "same_blocks s t A \<longleftrightarrow> bpb t = bpb s \<and> blocks t = blocks s \<and> datastart t = datastart s \<and>
    (\<forall>c \<in> A. fat t c = fat s c \<and> block_at t c = block_at s c)"

lemma file_chain_cong:
  assumes "same_blocks s t (set cs)"
  shows "file_chain t e cs = file_chain s e cs" and "content t e cs = content s e cs"
proof -
  have "chain_blocks t cs = chain_blocks s cs" using assms by (intro chain_blocks_cong) (simp add: same_blocks_def)
  then show "file_chain t e cs = file_chain s e cs" using assms by (simp add: file_chain_def same_blocks_def)
  have "map (block_at t) cs = map (block_at s) cs" using assms by (simp add: same_blocks_def)
  then show "content t e cs = content s e cs" by (simp only: content_def)
qed

lemma files_cong:
  assumes "list_all2 (file_chain s) (files es) C" and "same_blocks s t (set (concat C))"
  shows "list_all2 (file_chain t) (files es) C" and "contents t es C = contents s es C"
proof -
  have sb: "same_blocks s t (set cs)" if "cs \<in> set C" for cs
    using assms(2) that by (auto simp: same_blocks_def)
  show "list_all2 (file_chain t) (files es) C"
    using assms(1) by (rule list.rel_mono_strong) (use sb file_chain_cong(1) in blast)
  have "content t e cs = content s e cs" if "(e, cs) \<in> set (zip (files es) C)" for e cs
    using file_chain_cong(2)[OF sb[OF set_zip_rightD[OF that]]] .
  then show "contents t es C = contents s es C" by (auto simp: contents_def)
qed

lemma fs_blocks:
  assumes "fs_wf s es C" and "c \<in> set (concat C)"
  shows "unat (datastart s) \<le> c" "c < unat (blocks s)" "fat s c \<noteq> 0"
proof -
  have lay: "layout s" using assms(1) by (simp add: fs_wf_def dir_wf_def)
  obtain cs where cs: "cs \<in> set C" "c \<in> set cs" using assms(2) by auto
  then obtain e where e: "file_chain s e cs" using assms(1) unfolding fs_wf_def
    by (metis in_set_conv_nth list_all2_conv_all_nth)
  then show r: "unat (datastart s) \<le> c" "c < unat (blocks s)" using cs(2) by (auto simp: file_chain_def)
  have "\<forall>c \<in> set cs. 0 < c \<and> c < 2 ^ 62"
    using e layoutD(4,6)[OF lay] by (fastforce simp: file_chain_def)
  then show "fat s c \<noteq> 0" using chain_used[of s cs c] e cs(2) by (simp add: file_chain_def)
qed

lemma set_entry_same_blocks:
  assumes "layout s" and "i < ndir s" and "length (ename e) = 218"
    and "A \<subseteq> {unat (datastart s)..<unat (blocks s)}"
  shows "same_blocks s (set_entry i e s) A"
  using set_entry_spec(4,5)[OF assms(1-3)] assms(4) by (auto simp: same_blocks_def)

lemma keeps_dir_entries:
  assumes "keeps_dir s t" and "layout s"
  shows "entries t = entries s"
proof -
  obtain f where f: "t = s\<lparr>img := f\<rparr>"
    "\<forall>n. n < 16 * bpb s \<or> (unat (dirstart s) * bpb s \<le> n \<and> n < unat (datastart s) * bpb s) \<longrightarrow> fb f n = fb (img s) n"
    using assms(1) unfolding keeps_dir_def by blast
  have nd: "ndir t = ndir s" "bpb t = bpb s" using f(1) by (simp_all add: ndir_def bpb_def)
  have "entry_at t i = entry_at s i" if "i < ndir s" for i
  proof -
    have "unat (dirstart s) * bpb s + 256 * i + 256 \<le> unat (datastart s) * bpb s"
      using that dir_bounds(2)[OF assms(2)] by simp
    then have "slice f (unat (dirstart s) * bpb s + 256 * i) 256 = slice (img s) (unat (dirstart s) * bpb s + 256 * i) 256"
      using f(2) by (intro nth_equalityI) auto
    then show ?thesis using f(1) nd by (simp add: entry_at_def)
  qed
  then show ?thesis unfolding entries_def nd(1) by (intro map_cong) auto
qed

lemma dir_wf_keeps: "keeps_dir s t \<Longrightarrow> dir_wf s es \<Longrightarrow> dir_wf t es"
  using keeps_dir_entries[of s t] keeps_dir_fields(9)[of s t] by (auto simp: dir_wf_def)

end
