(* ===== verification/Ech_Format.thy ===== *)
theory Ech_Format
  imports Ech_Fs
begin

text \<open>
  Formatting an image and opening it again: \<open>format_pass1\<close>, \<open>format_pass2\<close> and the geometry
  \<open>main\<close> reads from the header.
\<close>

section \<open>Zeroing the image\<close>

lemma zero_from_spec:
  assumes "0 < B" and "N * B < 2 ^ 62"
  shows "j \<le> N \<Longrightarrow> imgsize s = of_nat (N * B) \<Longrightarrow> bytesperblock s = of_nat B \<Longrightarrow> flen (img s) = N * B \<Longrightarrow>
    \<exists>f. zero_from (of_nat (j * B)) (replicate B 0) s = Some (Inr (s\<lparr>img := f\<rparr>)) \<and> flen f = N * B \<and>
      (\<forall>n < N * B. fb f n = (if j * B \<le> n then 0 else fb (img s) n))"
proof (induction "N - j" arbitrary: j s)
  case 0
  then have "j = N" by simp
  then show ?case using 0 by (subst zero_from.simps) (auto intro!: exI[of _ "img s"])
next
  case (Suc k)
  then have j: "j < N" by simp
  then have jb: "Suc j * B \<le> N * B" by (intro mult_le_mono1) simp
  then have lt: "j * B < 2 ^ 63" "j * B + B < 2 ^ 63" "j * B < N * B" using assms j by simp_all
  have u: "unat (of_nat (j * B) :: u64) = j * B" "unat (of_nat (N * B) :: u64) = N * B"
    using lt assms(2) by (intro unat_of_nat_small; simp)+
  have go: "of_nat (j * B) < imgsize s" unfolding Suc.prems(2) word_less_nat_alt u by (rule lt(3))
  let ?f = "fput (img s) (of_nat (j * B)) (replicate B 0)"
  let ?s = "s\<lparr>img := ?f\<rparr>"
  have wr: "wr_bytes (of_nat (j * B)) (replicate B 0) s = Inr ?s" by (rule wr_bytes_small[OF lt(1)])
  have len: "flen ?f = N * B" using flen_fput[of "j * B" "replicate B 0" "img s"] lt jb Suc.prems(4) by (auto simp: max_def)
  have next_loc: "of_nat (j * B) + bytesperblock ?s = of_nat (Suc j * B)" using Suc.prems(3) by simp
  have fbf: "fb ?f n = (if j * B \<le> n \<and> n < j * B + B then 0 else fb (img s) n)" if "n < N * B" for n
    using fb_fput[of "j * B" "replicate B 0" n "img s"] lt that assms(2) by auto
  have ex: "\<exists>f. zero_from (of_nat (Suc j * B)) (replicate B 0) ?s = Some (Inr (?s\<lparr>img := f\<rparr>)) \<and> flen f = N * B \<and>
      (\<forall>n < N * B. fb f n = (if Suc j * B \<le> n then 0 else fb (img ?s) n))"
    by (rule Suc.hyps(1)) (use Suc.hyps(2) Suc.prems j len in simp_all)
  obtain f where f: "zero_from (of_nat (Suc j * B)) (replicate B 0) ?s = Some (Inr (?s\<lparr>img := f\<rparr>))" "flen f = N * B"
      "\<forall>n < N * B. fb f n = (if Suc j * B \<le> n then 0 else fb (img ?s) n)"
    using ex by blast
  have "zero_from (of_nat (j * B)) (replicate B 0) s = zero_from (of_nat (Suc j * B)) (replicate B 0) ?s"
    using go wr next_loc by (subst zero_from.simps) (simp del: of_nat_mult mult_Suc)
  then show ?case using f fbf by (intro exI[of _ f]) (auto simp del: of_nat_mult)
qed

section \<open>Marking the reserved blocks\<close>

lemma mark_reserved:
  assumes "layout s" and "n \<le> unat (blocks s)"
  shows "\<exists>t. fold_res (\<lambda>i s. wr_qword (fatstart s * bytesperblock s + of_nat i * 8) RESERVED_BLOCK s) [0..<n] s = Inr t \<and>
    keeps_dir s t \<and> (\<forall>c < unat (blocks s). fat t c = (if c < n then RESERVED_BLOCK else fat s c))"
  using assms(2)
proof (induction n)
  case 0
  have "keeps_dir s s" unfolding keeps_dir_def by (intro exI[of _ "img s"]) simp
  then show ?case by auto
next
  case (Suc n)
  then obtain t where t: "fold_res (\<lambda>i s. wr_qword (fatstart s * bytesperblock s + of_nat i * 8) RESERVED_BLOCK s) [0..<n] s = Inr t"
    "keeps_dir s t" "\<forall>c < unat (blocks s). fat t c = (if c < n then RESERVED_BLOCK else fat s c)" by auto
  note k = keeps_dir_fields[OF t(2)]
  have n: "layout t" "n < unat (blocks t)" using k assms(1) Suc.prems by simp_all
  note sf = set_fat_spec[OF n, where v = RESERVED_BLOCK]
  show ?case
    using t sf(1,3) k keeps_dir_trans[OF t(2) sf(2)] by (intro exI[of _ "set_fat n RESERVED_BLOCK t"]) auto
qed

section \<open>The header\<close>

text \<open>
  The header: the signature at offset 4, then the number of blocks, the size of the directory
  in blocks and the block size.
\<close>

definition header :: "file_t \<Rightarrow> nat \<Rightarrow> nat \<Rightarrow> nat \<Rightarrow> bool" where
  "header f B N D \<longleftrightarrow> slice f 4 8 = SIGNATURE \<and> le_word (slice f 12 8) = of_nat N \<and>
    le_word (slice f 20 8) = of_nat D \<and> le_word (slice f 28 8) = of_nat B"

definition opened_as :: "file_t \<Rightarrow> nat \<Rightarrow> nat \<Rightarrow> nat \<Rightarrow> echfs" where
  "opened_as f B N D = (let F = (8 * N + B - 1) div B in
    \<lparr>img = f, imgsize = of_nat (N * B), blocks = of_nat N, fatsize = of_nat F, fatstart = 16,
     dirsize = of_nat D, dirstart = of_nat (16 + F), datastart = of_nat (16 + F + D), bytesperblock = of_nat B\<rparr>)"

lemma fat_blocks:
  assumes "0 < B" and "B < 2 ^ 62" and "N < 2 ^ 58"
  shows "of_nat N * 8 div of_nat B + (if (of_nat N * 8 mod of_nat B :: u64) \<noteq> 0 then 1 else 0) = (of_nat ((8 * N + B - 1) div B) :: u64)"
proof -
  have e: "(of_nat N * 8 :: u64) = of_nat (8 * N)" by simp
  have u: "unat (of_nat (8 * N) :: u64) = 8 * N" "unat (of_nat B :: u64) = B"
    using assms by (intro unat_of_nat_small; simp)+
  have "unat (of_nat (8 * N) mod of_nat B :: u64) = 8 * N mod B" unfolding unat_mod u ..
  then have m: "(of_nat (8 * N) mod of_nat B :: u64) \<noteq> 0 \<longleftrightarrow> 8 * N mod B \<noteq> 0" by (metis unat_eq_0)
  have "unat (of_nat (8 * N) div of_nat B :: u64) = 8 * N div B" unfolding unat_div u ..
  then have d: "(of_nat (8 * N) div of_nat B :: u64) = of_nat (8 * N div B)" by (rule word_eq_of_nat)
  show ?thesis unfolding e m d ceil_div[OF assms(1)] by simp
qed


lemma header_small:
  assumes "512 \<le> B" and "0 < N" and "N * B < 2 ^ 62"
  shows "B < 2 ^ 62" "N < 2 ^ 53" "unat (of_nat B :: u64) = B" "unat (of_nat (N * B) :: u64) = N * B"
proof -
  have "B \<le> N * B" using assms(2) by simp
  then show B: "B < 2 ^ 62" using assms(3) by linarith
  have "N * 512 \<le> N * B" using assms(1) by simp
  then have "N * 512 < 2 ^ 62" using assms(3) by linarith
  then show "N < 2 ^ 53" by simp
  show "unat (of_nat B :: u64) = B" "unat (of_nat (N * B) :: u64) = N * B"
    using B assms(3) by (intro unat_of_nat_small; simp)+
qed

lemma geometry_spec:
  fixes s :: echfs
  assumes "header (img s) B N D" and "512 \<le> B" and "0 < N" and "N * B < 2 ^ 62"
    and "imgsize s = of_nat (N * B)" and "fatstart s = 16"
  shows "geometry s = Inr (Inr (opened_as (img s) B N D))"
proof -
  note sm = header_small[OF assms(2-4)]
  have sig: "rd_bytes 8 4 s = Inr SIGNATURE"
    using assms(1) rd_bytes_small[of 4 8 s] by (simp add: header_def)
  have rd: "rd_qword 28 t = Inr (of_nat B)" "rd_qword 20 t = Inr (of_nat D)"
    if "img t = img s" for t :: echfs
    using assms(1) that rd_qword_small[of 28 t] rd_qword_small[of 20 t] by (simp_all add: header_def)
  have B0: "(of_nat B :: u64) \<noteq> 0" using sm(3) assms(2) by (auto simp: unat_eq_0[symmetric])
  have "unat (of_nat (N * B) mod of_nat B :: u64) = 0" unfolding unat_mod sm by simp
  then have md: "(of_nat (N * B) mod of_nat B :: u64) = 0" by (simp only: unat_eq_0)
  have "unat (of_nat (N * B) div of_nat B :: u64) = N" unfolding unat_div sm using assms(2) by simp
  then have dv: "(of_nat (N * B) div of_nat B :: u64) = of_nat N" by (rule word_eq_of_nat)
  have "N < 2 ^ 58" using sm(2) by simp
  note fb = fat_blocks[OF _ sm(1) this]
  have D: "opened_as (img s) B N D = s\<lparr>bytesperblock := of_nat B, blocks := of_nat N, fatsize := of_nat ((8 * N + B - 1) div B),
      dirsize := of_nat D, dirstart := 16 + of_nat ((8 * N + B - 1) div B),
      datastart := 16 + of_nat ((8 * N + B - 1) div B) + of_nat D\<rparr>"
    using assms(5,6) by (simp add: opened_as_def Let_def)
  show ?thesis
    unfolding D using assms(2)
    by (simp add: geometry_def Let_def sig rd B0 md dv fb RESERVED_BLOCKS_def assms(5,6) del: of_nat_mult)
qed

text \<open>A state as a later run of the tool finds it.\<close>

definition on_disk :: "echfs \<Rightarrow> bool" where
  "on_disk s \<longleftrightarrow> geometry (opened (img s)) = Inr (Inr s)"

lemma on_disk_update:
  assumes "on_disk s" and "flen g = flen (img s)" and "\<And>n. n < 512 \<Longrightarrow> fb g n = fb (img s) n"
  shows "on_disk (s\<lparr>img := g\<rparr>)"
proof -
  let ?f = "img s"
  have sl: "slice g n 8 = slice ?f n 8" if "n + 8 < 512" for n
    using assms(3) that by (intro nth_equalityI) auto
  have rd: "rd_bytes 8 4 t = Inr (slice (img t) 4 8)" "rd_qword 28 t = Inr (le_word (slice (img t) 28 8))"
    "rd_qword 20 t = Inr (le_word (slice (img t) 20 8))" for t :: echfs
    using rd_bytes_small[of 4 8 t] rd_qword_small[of 28 t] rd_qword_small[of 20 t] by simp_all
  have op: "opened g = (opened ?f)\<lparr>img := g\<rparr>" "img (opened ?f) = ?f"
    using assms(2) by (simp_all add: opened_def)
  have "geometry (u\<lparr>img := g\<rparr>) = map_sum id (map_sum id (\<lambda>t. t\<lparr>img := g\<rparr>)) (geometry u)"
    if "img u = ?f" for u :: echfs
    using that by (cases u) (simp add: geometry_def rd sl Let_def)
  then show ?thesis using assms(1) op by (simp add: on_disk_def)
qed

section \<open>format\<close>

lemma length_SIGNATURE [simp]: "length SIGNATURE = 8"
  by (simp add: SIGNATURE_def bytes_def)

definition header_writes :: "file_t \<Rightarrow> nat \<Rightarrow> nat \<Rightarrow> nat \<Rightarrow> file_t" where
  "header_writes f B N D =
    fput (fput (fput (fput f (of_nat 4) SIGNATURE) (of_nat 12) (le_bytes 8 (of_nat N)))
      (of_nat 20) (le_bytes 8 (of_nat D))) (of_nat 28) (le_bytes 8 (of_nat B))"

lemma header_writes_spec:
  assumes "36 \<le> flen f"
  shows "flen (header_writes f B N D) = flen f" and "header (header_writes f B N D) B N D"
  using assms
  by (simp_all add: header_writes_def header_def flen_fput slice_fput_other
      slice_fput_same[where bs = SIGNATURE, simplified] slice_fput_same[where bs = "le_bytes 8 v" for v, simplified]
      del: of_nat_numeral)

lemma header_cong: "(\<And>n. n < 512 \<Longrightarrow> fb g n = fb f n) \<Longrightarrow> header g B N D = header f B N D"
proof -
  assume eq: "\<And>n. n < 512 \<Longrightarrow> fb g n = fb f n"
  have "slice g n 8 = slice f n 8" if "n + 8 < 512" for n
    using eq that by (intro nth_equalityI) auto
  then show ?thesis by (simp add: header_def)
qed

lemma format_pass1_spec:
  assumes argv: "3 < length argv" "host_atoi (argv ! 3) = Inr (int B)" and "calloc_ok h (of_nat B)"
    and B: "512 dvd B" "512 \<le> B" and N: "16 \<le> N" "N * B < 2 ^ 62" "flen f = N * B"
  shows "\<exists>g. format_pass1 h argv (opened f) = Inr ((opened f)\<lparr>bytesperblock := of_nat B, blocks := of_nat N, img := g\<rparr>) \<and>
    flen g = N * B \<and> header g B N (N div 20) \<and> (\<forall>n < N * B. 16 * B \<le> n \<longrightarrow> fb g n = 0)"
proof -
  have N0: "0 < N" using N(1) by simp
  note sm = header_small[OF B(2) N0 N(2)]
  have B0: "(of_nat B :: u64) \<noteq> 0" using sm(3) B(2) by (auto simp: unat_eq_0[symmetric])
  have "unat (of_nat B mod 512 :: u64) = 0" unfolding unat_mod sm using B(1) by simp
  then have m5: "(of_nat B mod 512 :: u64) = 0" by (simp only: unat_eq_0)
  have "unat (of_nat (N * B) mod of_nat B :: u64) = 0" unfolding unat_mod sm by simp
  then have md: "(of_nat (N * B) mod of_nat B :: u64) = 0" by (simp only: unat_eq_0)
  have "unat (of_nat (N * B) div of_nat B :: u64) = N" unfolding unat_div sm using B(2) by simp
  then have dv: "(of_nat (N * B) div of_nat B :: u64) = of_nat N" by (rule word_eq_of_nat)
  have "unat (of_nat N :: u64) = N" using sm(2) by (intro unat_of_nat_small) simp
  then have "unat (of_nat N div 20 :: u64) = N div 20" unfolding unat_div by simp
  then have dd: "(of_nat N div 20 :: u64) = of_nat (N div 20)" by (rule word_eq_of_nat)
  have im: "imgsize (opened f) = of_nat (N * B)" "img (opened f) = f" using N(3) by (simp_all add: opened_def)
  have big: "36 \<le> flen f" "512 \<le> 16 * B" using N B(2) mult_le_mono[OF N(1) B(2)] by simp_all
  let ?f = "header_writes f B N (N div 20)"
  let ?s = "(opened f)\<lparr>bytesperblock := of_nat B, blocks := of_nat N, img := ?f\<rparr>"
  have wr: "wr_bytes 4 SIGNATURE t = Inr (t\<lparr>img := fput (img t) (of_nat 4) SIGNATURE\<rparr>)"
      "wr_qword 12 x t = Inr (t\<lparr>img := fput (img t) (of_nat 12) (le_bytes 8 x)\<rparr>)"
      "wr_qword 20 x t = Inr (t\<lparr>img := fput (img t) (of_nat 20) (le_bytes 8 x)\<rparr>)"
      "wr_qword 28 x t = Inr (t\<lparr>img := fput (img t) (of_nat 28) (le_bytes 8 x)\<rparr>)" for x and t :: echfs
    using wr_bytes_small[of 4 SIGNATURE t] wr_qword_small[of 12 x t] wr_qword_small[of 20 x t] wr_qword_small[of 28 x t]
    by simp_all
  have "\<exists>g. zero_from (of_nat (16 * B)) (replicate B 0) ?s = Some (Inr (?s\<lparr>img := g\<rparr>)) \<and> flen g = N * B \<and>
      (\<forall>n < N * B. fb g n = (if 16 * B \<le> n then 0 else fb (img ?s) n))"
    by (rule zero_from_spec) (use N B sm header_writes_spec(1)[OF big(1)] im in simp_all)
  then obtain g where g: "zero_from (of_nat (16 * B)) (replicate B 0) ?s = Some (Inr (?s\<lparr>img := g\<rparr>))" "flen g = N * B"
      "\<forall>n < N * B. fb g n = (if 16 * B \<le> n then 0 else fb ?f n)" by auto
  have z: "zero_from (16 * of_nat B) (replicate B 0) ?s = Some (Inr (?s\<lparr>img := g\<rparr>))" using g(1) by simp
  have eqs: "fb g n = fb ?f n" if "n < 512" for n
  proof -
    have a: "n < 16 * B" "16 * B \<le> N * B" using that big(2) mult_le_mono1[OF N(1), of B] by simp_all
    then have "n < N * B" by linarith
    then show ?thesis using g(3) a(1) by (metis not_less)
  qed
  then have "header g B N (N div 20)" using header_cong[of g ?f] header_writes_spec(2)[OF big(1)] by simp
  moreover have "format_pass1 h argv (opened f) = Inr (?s\<lparr>img := g\<rparr>)"
    using argv assms(3) z
    by (simp add: format_pass1_def Let_def im B0 m5 md dv dd wr sm(3) RESERVED_BLOCKS_def header_writes_def del: of_nat_mult of_nat_numeral)
  ultimately show ?thesis using g(2,3) by auto
qed


lemma opened_as_fields [simp]:
  "img (opened_as f B N D) = f" "fatstart (opened_as f B N D) = 16" "blocks (opened_as f B N D) = of_nat N"
  "dirsize (opened_as f B N D) = of_nat D" "bytesperblock (opened_as f B N D) = of_nat B"
  by (simp_all add: opened_as_def Let_def)

lemma opened_as_layout:
  assumes "512 dvd B" and "512 \<le> B" and "0 < N" and "N * B < 2 ^ 62" and "flen f = N * B"
    and fit: "16 + (8 * N + B - 1) div B + D \<le> N"
  shows "layout (opened_as f B N D)" and "bpb (opened_as f B N D) = B" and "unat (blocks (opened_as f B N D)) = N"
    and "unat (datastart (opened_as f B N D)) = 16 + (8 * N + B - 1) div B + D" and "unat (dirsize (opened_as f B N D)) = D"
proof -
  note sm = header_small[OF assms(2-4)]
  let ?F = "(8 * N + B - 1) div B"
  have lt: "16 + ?F + D < 2 ^ 53" using fit sm(2) by linarith
  show bp: "bpb (opened_as f B N D) = B" by (simp add: bpb_def sm(3))
  show bl: "unat (blocks (opened_as f B N D)) = N" using sm(2) by (simp add: unat_of_nat)
  show di: "unat (dirsize (opened_as f B N D)) = D" using lt by (simp add: unat_of_nat)
  have "unat (of_nat (16 + ?F + D) :: u64) = 16 + ?F + D" using lt by (intro unat_of_nat_small) simp
  then show "unat (datastart (opened_as f B N D)) = 16 + ?F + D" by (simp add: opened_as_def Let_def)
  have fs: "unat (fatsize (opened_as f B N D)) = ?F" using lt by (simp add: opened_as_def Let_def unat_of_nat)
  have "8 * N \<le> ?F * B"
  proof -
    have "8 * N = 8 * N div B * B + 8 * N mod B" by simp
    moreover have "8 * N mod B \<le> (if 8 * N mod B = 0 then 0 else B)" using assms(2) by simp
    moreover have "?F * B = 8 * N div B * B + (if 8 * N mod B = 0 then 0 else B)"
      using ceil_div[of B "8 * N"] assms(2) by (simp add: add_mult_distrib)
    ultimately show ?thesis by linarith
  qed
  then show "layout (opened_as f B N D)"
    using assms bp bl fs di by (simp add: layout_def) (simp add: opened_as_def Let_def)
qed


lemma le_word_zeros: "le_word (replicate n 0) = 0"
  by (induction n) simp_all

lemma slice_zero: "(\<And>i. i < k \<Longrightarrow> fb f (n + i) = 0) \<Longrightarrow> slice f n k = replicate k 0"
  by (intro nth_equalityI) simp_all

text \<open>An image whose table and directory are all zero: marking the reserved blocks makes it an empty file system.\<close>

lemma format_pass2_spec:
  assumes lay: "layout s" and zero: "\<And>n. n < unat (blocks s) * bpb s \<Longrightarrow> 16 * bpb s \<le> n \<Longrightarrow> fb (img s) n = 0"
  shows "\<exists>t. format_pass2 s = Inr t \<and> keeps_dir s t \<and> fs_wf t [] [] \<and>
    free_blocks t = {unat (datastart s)..<unat (blocks s)}"
proof -
  have d: "RESERVED_BLOCKS + fatsize s + dirsize s = datastart s" "unat (datastart s) \<le> unat (blocks s)"
    using lay layoutD(6)[OF lay] by (simp_all add: layout_def RESERVED_BLOCKS_def)
  obtain t where t: "format_pass2 s = Inr t" "keeps_dir s t"
      "\<forall>c < unat (blocks s). fat t c = (if c < unat (datastart s) then RESERVED_BLOCK else fat s c)"
    using mark_reserved[OF lay d(2)] unfolding format_pass2_def d(1) by blast
  note k = keeps_dir_fields[OF t(2)]
  have size: "unat (blocks s) * bpb s = flen (img s)" using lay by (simp add: layout_def)
  have f0: "fat s c = 0" if c: "c < unat (blocks s)" for c
  proof -
    have "unat (dirstart s) * bpb s \<le> unat (blocks s) * bpb s"
      using d(2) layoutD(5,6)[OF lay] by (intro mult_le_mono1) simp
    then have "slice (img s) (16 * bpb s + 8 * c) 8 = replicate 8 0"
      using fat_below_data[OF lay c] by (intro slice_zero zero) linarith+
    then show ?thesis by (simp add: fat_def le_word_zeros)
  qed
  have e0: "parent_id e = 0" if e: "e \<in> set (entries s)" for e
  proof -
    obtain i where i: "i < ndir s" "e = entry_at s i" using e by (auto simp: entries_def)
    note b = dir_bounds[OF lay]
    have "unat (dirstart s) * bpb s + 256 * i + 256 \<le> unat (blocks s) * bpb s"
      using i(1) b(2,3) size by linarith
    moreover have "16 * bpb s \<le> unat (dirstart s) * bpb s" using layoutD(5)[OF lay] by (intro mult_le_mono1) simp
    ultimately have "slice (img s) (unat (dirstart s) * bpb s + 256 * i) 256 = replicate 256 0"
      by (intro slice_zero zero) linarith+
    then have "e = entry_of (replicate 256 0)" using i(2) by (simp add: entry_at_def)
    then show ?thesis by (simp add: entry_of_def le_word_zeros take_replicate)
  qed
  have "dir_wf t []" unfolding dir_wf_def
    using k lay keeps_dir_entries[OF t(2) lay] e0 by (auto simp: dir_ids_def)
  moreover have "reserved t" using t(3) k d(2) by (auto simp: reserved_def RESERVED_BLOCK_def)
  ultimately have "fs_wf t [] []" by (simp add: fs_wf_def files_def)
  moreover have "free_blocks t = {unat (datastart s)..<unat (blocks s)}"
    using t(3) f0 k by (auto simp: free_blocks_def RESERVED_BLOCK_def split: if_splits)
  ultimately show ?thesis using t(1,2) by blast
qed

lemma keeps_dir_on_disk:
  assumes "on_disk s" and "keeps_dir s t" and "layout s"
  shows "on_disk t"
proof -
  obtain f where f: "t = s\<lparr>img := f\<rparr>" "flen f = flen (img s)"
      "\<forall>n. n < 16 * bpb s \<or> (unat (dirstart s) * bpb s \<le> n \<and> n < unat (datastart s) * bpb s) \<longrightarrow> fb f n = fb (img s) n"
    using assms(2) unfolding keeps_dir_def by blast
  have "512 \<le> 16 * bpb s" using assms(3) by (auto simp: layout_def dest!: dvd_imp_le)
  then show ?thesis unfolding f(1) using f by (intro on_disk_update[OF assms(1)]) auto
qed

lemma format_spec:
  assumes argv: "argv = [prog, disk, bytes ''format'', sz]" "disk \<noteq> bytes ''-v''"
    and "fopen_image h disk = Some f" and "host_atoi sz = Inr (int B)" and "calloc_ok h (of_nat B)"
    and B: "512 dvd B" "0 < B" and N: "flen f = N * B" "N * B < 2 ^ 62"
    and fit: "16 + (8 * N + B - 1) div B + N div 20 \<le> N"
  shows "\<exists>t. main h argv = Inr \<lparr>status = 0, answer = Success, mismatch = False, final = Some (img t)\<rparr> \<and>
    on_disk t \<and> fs_wf t [] [] \<and> bpb t = B \<and> ndir t = N div 20 * B div 256 \<and>
    free_blocks t = {16 + (8 * N + B - 1) div B + N div 20..<N}"
proof -
  have B2: "512 \<le> B" using B by (auto dest: dvd_imp_le)
  have N2: "16 \<le> N" "0 < N" using fit by linarith+
  let ?D = "N div 20"
  have sk: "skip_verbose argv = argv" using argv by (simp add: skip_verbose_def)
  obtain g where g: "format_pass1 h argv (opened f) = Inr ((opened f)\<lparr>bytesperblock := of_nat B, blocks := of_nat N, img := g\<rparr>)"
      "flen g = N * B" "header g B N ?D" "\<forall>n < N * B. 16 * B \<le> n \<longrightarrow> fb g n = 0"
    using format_pass1_spec[of argv B h N f] argv assms B2 N2 by auto
  let ?s = "opened_as g B N ?D"
  have geo: "geometry s = Inr (Inr ?s)" if "img s = g" "imgsize s = of_nat (N * B)" "fatstart s = 16" for s
    using geometry_spec[of s B N ?D] that g B2 N N2 by simp
  note l = opened_as_layout[OF B(1) B2 N2(2) N(2) g(2) fit]
  have "on_disk ?s" using geo[of "opened g"] g(2) by (simp add: on_disk_def opened_def RESERVED_BLOCKS_def)
  obtain t where t: "format_pass2 ?s = Inr t" "keeps_dir ?s t" "fs_wf t [] []"
      "free_blocks t = {unat (datastart ?s)..<unat (blocks ?s)}"
    using format_pass2_spec[OF l(1)] g(4) l(2,3) by auto
  have decl: "rd_qword 12 ?s = Inr (of_nat N)"
    using rd_qword_small[of 12 ?s] g(3) by (simp add: header_def)
  have acts: "bytes ''format'' \<noteq> bytes ''mkdir''" "bytes ''format'' \<noteq> bytes ''ls''" by (simp_all add: bytes_def)
  have "geometry ((opened f)\<lparr>bytesperblock := of_nat B, blocks := of_nat N, img := g\<rparr>) = Inr (Inr ?s)"
    using N(1) by (intro geo) (simp_all add: opened_def RESERVED_BLOCKS_def)
  then have "main h argv = Inr \<lparr>status = 0, answer = Success, mismatch = False, final = Some (img t)\<rparr>"
    unfolding main_def Let_def sk using argv assms(3) g(1) t(1) decl acts by (simp add: dispatch_def)
  moreover have "ndir t = N div 20 * B div 256"
    using keeps_dir_fields[OF t(2)] l(2,5) by (simp add: ndir_def)
  ultimately show ?thesis
    using t l keeps_dir_fields(1)[OF t(2)] keeps_dir_on_disk[OF \<open>on_disk ?s\<close> t(2) l(1)] by auto
qed

end
