(* ===== verification/Ech_Properties.thy ===== *)
theory Ech_Properties
  imports Ech_Format
begin

text \<open>
  The properties of the image tool: what its commands do to a well-formed file system, from
  formatting to a round trip through \<open>import\<close> and \<open>export\<close>.
\<close>

section \<open>Importing and exporting files\<close>

text \<open>What \<open>malloc\<close> promises: a buffer has the size asked for.\<close>

definition malloc_ok :: "host \<Rightarrow> u64 \<Rightarrow> bool" where
  "malloc_ok h n \<longleftrightarrow> (\<exists>buf. malloc h n = Some buf \<and> length buf = unat n)"

definition blocks_for :: "'a echfs_scheme \<Rightarrow> nat \<Rightarrow> nat" where
  "blocks_for s n = max 1 ((n + bpb s - 1) div bpb s)"

lemma empty_result_flags: "\<not> failure empty_result" "\<not> not_found empty_result"
  by (simp_all add: empty_result_def)

lemma import_spec:
  assumes fs: "fs_wf s es C" and room: "length es < ndir s" and argv: "4 < length argv" "plain_path (argv ! 4)"
    and host: "is_regular h (argv ! 3)" "fopen_read h (argv ! 3) = Some src" "malloc_ok h (bytesperblock s)"
    and w: "walk es root_entry (comps (strip (argv ! 4))) = Some (p, name)"
    and none: "first_index (hit name (payload p) FILE_TYPE) es = None"
    and free: "blocks_for s (length src) \<le> card (free_blocks s)"
  shows "\<exists>t e cs. import_cmd h argv s = Inr (Success, t) \<and> fs_wf t (es @ [e]) (C @ [cs]) \<and>
    contents t (es @ [e]) (C @ [cs]) = contents s es C @ [src] \<and> unat (esize e) = length src \<and>
    e = new_entry FILE_TYPE p name (payload e) (esize e) (time_now h) \<and> set cs \<subseteq> free_blocks s \<and>
    bytesperblock t = bytesperblock s \<and> path_resolver t (argv ! 4) FILE_TYPE =
      Inr (empty_result\<lparr>target := e, target_entry := of_nat (length es), parent := p, rname := name\<rparr>)"
proof -
  have wf: "dir_wf s es" and lay: "layout s" and res: "reserved s" using fs by (auto simp: fs_wf_def dir_wf_def)
  obtain buf where buf: "malloc h (bytesperblock s) = Some buf" "length buf = bpb s"
    using host(3) by (auto simp: malloc_ok_def bpb_def)
  obtain b cs u where u: "import_chain src (Some buf) s = Inr (of_nat b, u)" "imported s u (b # cs) src"
    using import_chain_spec[OF lay res buf(2) free[unfolded blocks_for_def]] by blast
  have len: "length src < 2 ^ 62" using fits[OF lay] free by (simp add: blocks_for_def)
  then have sz: "unat (of_nat (length src) :: u64) = length src" by (simp add: unat_of_nat)
  note i = u(2)[unfolded imported_def]
  have k: "keeps_dir s u" using i by simp
  note f = keeps_dir_fields[OF k]
  have wfu: "dir_wf u es" using dir_wf_keeps[OF k wf] .
  have ndu: "ndir u = ndir s" using f by (simp add: ndir_def)
  have roomu: "length es < ndir u" using room ndu by simp
  let ?e = "new_entry FILE_TYPE p name (of_nat b) (of_nat (length src)) (time_now h)"
  let ?t = "set_entry (length es) ?e u"
  have ft: "FILE_TYPE = 1 \<Longrightarrow> X" for X by (simp add: FILE_TYPE_def)
  note a = add_entry[OF wfu roomu argv(2) w none ft, where pay = "of_nat b" and sz = "of_nat (length src)" and now = "time_now h"]
  have nm: "length name < 218" using plain_path_name[OF argv(2) w] by simp
  have e: "empty_entry\<lparr>parent_id := payload p, etype := FILE_TYPE, ename := name @ replicate (218 - length name) 0,
      payload := of_nat b, esize := of_nat (length src), etime := time_now h\<rparr> = ?e"
    by (simp add: new_entry_def empty_entry_def)
  have run: "import_cmd h argv s = Inr (Success, ?t)"
    using argv(1) host(1,2) buf(1) u(1) path_missing[OF wf room argv(2) w none] vacant_wf[OF wfu roomu] a(1)
    by (simp add: import_cmd_def empty_result_flags new_name[OF nm] e Let_def)
  have layu: "layout u" using f lay by simp
  have ene: "length (ename ?e) = 218" using nm by simp
  note st = set_entry_same_blocks[OF layu roomu ene]
  have r: "unat (datastart s) \<le> c" "c < unat (blocks s)" "c \<notin> set (b # cs)" if "c \<in> set (concat C)" for c
    using fs_blocks[OF fs that] i by (auto simp: free_blocks_def)
  have rC: "set (concat C) \<subseteq> {unat (datastart u)..<unat (blocks u)}"
    using r f by (intro subsetI) simp
  have range: "set (b # cs) \<subseteq> {unat (datastart u)..<unat (blocks u)}"
    using i res f free_block_range[OF res] by (intro subsetI) auto
  have "same_blocks s u (set (concat C))" unfolding same_blocks_def using f i r by blast
  then have old: "same_blocks s ?t (set (concat C))" using st[OF rC] by (simp add: same_blocks_def)
  note new = st[OF range]
  have fc: "file_chain u ?e (b # cs)" unfolding file_chain_def using i f len sz range by simp
  have cu: "content u ?e (b # cs) = src" unfolding content_def using i sz by simp
  have F: "files (es @ [?e]) = files es @ [?e]" by (simp add: files_def)
  have lenC: "length (files es) = length C" using fs by (auto simp: fs_wf_def dest: list_all2_lengthD)
  have fsold: "list_all2 (file_chain s) (files es) C" "distinct (concat C)" using fs by (simp_all add: fs_wf_def)
  have "list_all2 (file_chain ?t) (files (es @ [?e])) (C @ [b # cs])"
    unfolding F using files_cong(1)[OF fsold(1) old] file_chain_cong(1)[OF new] fc by (intro list_all2_appendI) simp_all
  moreover have "distinct (concat (C @ [b # cs]))"
    using fsold(2) i fs_blocks(3)[OF fs] by (auto simp: free_blocks_def)
  moreover have "reserved ?t"
  proof -
    have "unat (datastart u) \<le> unat (blocks u)" using layu layoutD(6)[OF layu] by (simp add: layout_def)
    then show ?thesis using i set_entry_spec(4)[OF layu roomu ene] by (simp add: reserved_def)
  qed
  ultimately have "fs_wf ?t (es @ [?e]) (C @ [b # cs])" using a(2) by (simp add: fs_wf_def)
  moreover have "contents ?t (es @ [?e]) (C @ [b # cs]) = contents s es C @ [src]"
    using files_cong(2)[OF fsold(1) old] file_chain_cong(2)[OF new] cu lenC unfolding contents_def F by simp
  ultimately show ?thesis
    using run sz i f a(3) by (intro exI[of _ ?t] exI[of _ ?e] exI[of _ "b # cs"]) simp
qed

text \<open>Exporting any file of a well-formed file system.\<close>

lemma export_spec:
  assumes fs: "fs_wf s es C" and argv: "4 < length argv"
    and res: "path_resolver s (argv ! 3) FILE_TYPE = Inr r" "\<not> not_found r" "target r = e"
    and host: "fopen_write h (argv ! 4)" "malloc_ok h (bytesperblock s)"
    and chain: "file_chain s e cs"
  shows "export_cmd h argv s = Inr (Exported (argv ! 4)
    (if unat (esize e) mod bpb s = 0 then take (unat (esize e) - bpb s) (content s e cs) else content s e cs), s)"
proof -
  have lay: "layout s" using fs by (simp add: fs_wf_def dir_wf_def)
  obtain buf where buf: "malloc h (bytesperblock s) = Some buf" using host(2) by (auto simp: malloc_ok_def)
  obtain c ds where cs: "cs = c # ds" using chain by (cases cs) (auto simp: file_chain_def)
  have "export_chain s e (Some buf) = Inr (take (if unat (esize e) mod bpb s = 0 then unat (esize e) - bpb s else unat (esize e))
      (concat (map (block_at s) (c # ds))))"
    by (rule export_chain_spec) (use lay chain cs in \<open>auto simp: file_chain_def\<close>)
  then show ?thesis using argv res host(1) buf by (simp add: export_cmd_def content_def cs min_def)
qed


lemma contents_Nil: "contents s [] [] = []"
  by (simp add: contents_def)

lemma import_export:
  assumes "fs_wf s es C" and "length es < ndir s" and "4 < length argv" and "plain_path (argv ! 4)"
    and "is_regular h (argv ! 3)" and "fopen_read h (argv ! 3) = Some src" and "malloc_ok h (bytesperblock s)"
    and "walk es root_entry (comps (strip (argv ! 4))) = Some (p, name)"
    and "first_index (hit name (payload p) FILE_TYPE) es = None"
    and "blocks_for s (length src) \<le> card (free_blocks s)" and "fopen_write h dest"
  shows "\<exists>t. import_cmd h argv s = Inr (Success, t) \<and>
    export_cmd h [prog, disk, action, argv ! 4, dest] t =
      Inr (Exported dest (if length src mod bpb s = 0 then take (length src - bpb s) src else src), t)"
proof -
  obtain t e cs where t: "import_cmd h argv s = Inr (Success, t)" "fs_wf t (es @ [e]) (C @ [cs])"
      "contents t (es @ [e]) (C @ [cs]) = contents s es C @ [src]" "unat (esize e) = length src"
      "e = new_entry FILE_TYPE p name (payload e) (esize e) (time_now h)"
      "bytesperblock t = bytesperblock s"
      "path_resolver t (argv ! 4) FILE_TYPE =
        Inr (empty_result\<lparr>target := e, target_entry := of_nat (length es), parent := p, rname := name\<rparr>)"
    using import_spec[OF assms(1-10)] by blast
  have "etype e = FILE_TYPE" by (subst t(5)) simp
  then have F: "files (es @ [e]) = files es @ [e]" by (simp add: files_def)
  have len: "length (files es) = length C" using assms(1) by (auto simp: fs_wf_def dest: list_all2_lengthD)
  have chain: "file_chain t e cs"
    using t(2) len unfolding fs_wf_def F by (simp add: list_all2_append)
  have "content t e cs = src" using t(3) len unfolding contents_def F by simp
  then show ?thesis
    using export_spec[OF t(2) _ _ _ _ _ _ chain, of "[prog, disk, action, argv ! 4, dest]"] t(1,4,6,7) assms(7,11)
      empty_result_flags by (auto simp: bpb_def)
qed

lemma fresh_id:
  assumes "dir_wf s es" and "length es < ndir s"
  shows "of_nat (Suc (length (dir_ids es))) \<notin> set (dir_ids es)"
proof
  let ?n = "length (dir_ids es)"
  have ids: "dir_ids es = map of_nat [1..<Suc ?n]" using assms(1) unfolding dir_wf_def by blast
  assume "of_nat (Suc ?n) \<in> set (dir_ids es)"
  then have "of_nat (Suc ?n) \<in> (of_nat :: nat \<Rightarrow> u64) ` {1..<Suc ?n}" using arg_cong[OF ids, of set] by (simp del: upt_Suc)
  then obtain k where k: "(of_nat (Suc ?n) :: u64) = of_nat k" "k \<in> {1..<Suc ?n}" by (rule imageE)
  have "?n \<le> length es" by (simp add: dir_ids_def)
  then have "Suc ?n < 2 ^ 64" using assms(2) dir_bounds(5)[of s] assms(1) by (simp add: dir_wf_def)
  then have "unat (of_nat (Suc ?n) :: u64) = Suc ?n" "unat (of_nat k :: u64) = k"
    using k(2) by (intro unat_of_nat_small; simp)+
  then show False using k by (metis atLeastLessThan_iff less_irrefl)
qed

section \<open>A formatted image\<close>

text \<open>
  An image of 64 blocks of 512 bytes: one block of allocation table, three of directory (six
  entries), 44 free blocks.  The host has one source file.
\<close>

definition zero_file :: file_t where
  "zero_file = \<lparr>fdata = \<lambda>_. 0, flen = 32768\<rparr>"

definition demo_host :: "u8 list \<Rightarrow> host" where
  "demo_host src = \<lparr>is_regular = \<lambda>_. True, fopen_read = \<lambda>_. Some src, fopen_write = \<lambda>_. True,
     fopen_image = \<lambda>_. Some zero_file, time_now = 7, malloc = \<lambda>n. Some (replicate (unat n) 0), calloc_ok = \<lambda>_. True\<rparr>"

definition blank :: echfs where
  "blank = (case format_pass2 (opened_as zero_file 512 64 3) of Inr t \<Rightarrow> t | Inl _ \<Rightarrow> opened zero_file)"

lemma blank_fs:
  "fs_wf blank [] []" "ndir blank = 6" "bytesperblock blank = 512" "bpb blank = 512" "free_blocks blank = {20..<64}"
proof -
  let ?s = "opened_as zero_file 512 64 3"
  have fl: "flen zero_file = 64 * 512" by (simp add: zero_file_def)
  have l: "layout ?s" "bpb ?s = 512" "unat (blocks ?s) = 64" "unat (datastart ?s) = 20" "unat (dirsize ?s) = 3"
    using opened_as_layout[OF _ _ _ _ fl, of 3] by simp_all
  have z: "fb zero_file n = 0" for n by (simp add: fb_def fbyte_def zero_file_def)
  obtain t where t: "format_pass2 ?s = Inr t" "keeps_dir ?s t" "fs_wf t [] []" "free_blocks t = {20..<64}"
    using format_pass2_spec[OF l(1)] z l(3,4) by auto
  note k = keeps_dir_fields[OF t(2)]
  have "blank = t" using t(1) by (simp add: blank_def)
  then show "fs_wf blank [] []" "ndir blank = 6" "bytesperblock blank = 512" "bpb blank = 512" "free_blocks blank = {20..<64}"
    using t k l by (simp_all add: ndir_def)
qed

lemma demo_path: "plain_path (bytes ''a'')" "walk [] root_entry (comps (strip (bytes ''a''))) = Some (root_entry, bytes ''a'')"
  by (simp_all add: plain_path_def bytes_def strip_def comps.simps SLASH_def)

section \<open>Properties\<close>

text \<open>C13: Formatting an image of \<open>N\<close> blocks of \<open>B\<close> bytes (a multiple of 512, with room for the
  reserved blocks, the allocation table and the directory) succeeds and leaves an image that a
  later run of the tool opens as an empty file system: every directory entry is unused, and
  exactly the blocks behind the directory are free.\<close>

theorem format_makes_empty_fs:
  assumes "image_path \<noteq> bytes ''-v''" and "fopen_image h image_path = Some f"
    and "host_atoi sz = Inr (int B)" and "calloc_ok h (of_nat B)" and "512 dvd B" and "0 < B"
    and "flen f = N * B" and "N * B < 2 ^ 62" and "16 + (8 * N + B - 1) div B + N div 20 \<le> N"
  shows "\<exists>t. main h [prog, image_path, bytes ''format'', sz] =
      Inr \<lparr>status = 0, answer = Success, mismatch = False, final = Some (img t)\<rparr> \<and>
    geometry (opened (img t)) = Inr (Inr t) \<and> fs_wf t [] [] \<and> bpb t = B \<and>
    ndir t = N div 20 * B div 256 \<and> free_blocks t = {16 + (8 * N + B - 1) div B + N div 20..<N}"
  using format_spec[OF refl assms] by (simp add: on_disk_def)

theorem format_makes_empty_fs_witness:
  "\<exists>t. main (demo_host []) [bytes ''echfs'', bytes ''img'', bytes ''format'', bytes ''512''] =
      Inr \<lparr>status = 0, answer = Success, mismatch = False, final = Some (img t)\<rparr> \<and>
    geometry (opened (img t)) = Inr (Inr t) \<and> fs_wf t [] [] \<and> bpb t = 512 \<and> ndir t = 6 \<and> free_blocks t = {20..<64}"
proof -
  have "host_atoi (bytes ''512'') = Inr (int 512)"
    by (simp add: host_atoi_def bytes_def is_space_def is_digit_def decimal_def)
  then show ?thesis
    using format_makes_empty_fs[of "bytes ''img''" "demo_host []" zero_file "bytes ''512''" 512 64 "bytes ''echfs''"]
    by (simp add: demo_host_def zero_file_def bytes_def)
qed

text \<open>C14: \<open>mkdir\<close> of a path whose parent directories exist and whose last name is new, with an
  unused entry left, succeeds: the directory gains exactly one entry, with an identifier no
  other directory has, the path then resolves to it, the file system stays well formed and no
  file changes.\<close>

theorem mkdir_creates_directory:
  assumes "fs_wf s es C" and "length es < ndir s" and "3 < length argv" and "plain_path (argv ! 3)"
    and "walk es root_entry (comps (strip (argv ! 3))) = Some (p, name)"
    and "first_index (hit name (payload p) DIRECTORY_TYPE) es = None"
  shows "\<exists>t e r. mkdir_cmd h argv s = Inr (Success, t) \<and> fs_wf t (es @ [e]) C \<and>
    e = new_entry DIRECTORY_TYPE p name (payload e) 0 (time_now h) \<and> payload e \<notin> set (dir_ids es) \<and>
    path_resolver t (argv ! 3) DIRECTORY_TYPE = Inr r \<and> \<not> not_found r \<and> target r = e \<and>
    contents t (es @ [e]) C = contents s es C"
proof -
  have wf: "dir_wf s es" and lay: "layout s" using assms(1) by (auto simp: fs_wf_def dir_wf_def)
  define i :: u64 where "i = of_nat (Suc (length (dir_ids es)))"
  let ?e = "new_entry DIRECTORY_TYPE p name i 0 (time_now h)"
  let ?t = "set_entry (length es) ?e s"
  have len: "length (ename ?e) = 218" using plain_path_name[OF assms(4,5)] by simp
  note a = add_entry[OF wf assms(2,4-6) i_def, where sz = 0 and now = "time_now h"]
  have "set (concat C) \<subseteq> {unat (datastart s)..<unat (blocks s)}" using fs_blocks[OF assms(1)] by (intro subsetI) simp
  then have same: "same_blocks s ?t (set (concat C))" using set_entry_same_blocks[OF lay assms(2) len] by blast
  have F: "files (es @ [?e]) = files es" by (simp add: files_def FILE_TYPE_def DIRECTORY_TYPE_def)
  note fc = files_cong[OF _ same]
  have "unat (datastart s) \<le> unat (blocks s)" using lay layoutD(6)[OF lay] by (simp add: layout_def)
  then have "reserved ?t" using assms(1) set_entry_spec(4)[OF lay assms(2) len] by (simp add: fs_wf_def reserved_def)
  then have "fs_wf ?t (es @ [?e]) C" using a(2) fc(1) assms(1) by (simp add: fs_wf_def F)
  moreover have "contents ?t (es @ [?e]) C = contents s es C"
    using fc(2)[of es] assms(1) unfolding contents_def F by (simp only: fs_wf_def)
  moreover have "payload ?e \<notin> set (dir_ids es)" using fresh_id[OF wf assms(2)] by (simp only: i_def new_entry_simps not_False_eq_True)
  ultimately show ?thesis
    using mkdir_spec[OF wf assms(2-6), of h, folded i_def] a(3) empty_result_flags
    by (intro exI[of _ ?t] exI[of _ ?e] exI) auto
qed


theorem mkdir_creates_directory_witness:
  "\<exists>t e r. mkdir_cmd (demo_host []) [bytes ''echfs'', bytes ''img'', bytes ''mkdir'', bytes ''a''] blank = Inr (Success, t) \<and>
    fs_wf t [e] [] \<and> path_resolver t (bytes ''a'') DIRECTORY_TYPE = Inr r \<and> target r = e"
  using mkdir_creates_directory[OF blank_fs(1), of "[bytes ''echfs'', bytes ''img'', bytes ''mkdir'', bytes ''a'']"
      root_entry "bytes ''a''" "demo_host []"] demo_path blank_fs(2)
  by auto

text \<open>C15: \<open>import\<close> of a readable source file to a new name in an existing directory, with an
  unused entry and enough free blocks, succeeds: the new entry records the size, its blocks were
  free before, the file system stays well formed (no block is shared by two files), and the
  contents of the files are the old ones followed by exactly the bytes of the source.\<close>

theorem import_adds_file:
  assumes "fs_wf s es C" and "length es < ndir s" and "4 < length argv" and "plain_path (argv ! 4)"
    and "is_regular h (argv ! 3)" and "fopen_read h (argv ! 3) = Some src" and "malloc_ok h (bytesperblock s)"
    and "walk es root_entry (comps (strip (argv ! 4))) = Some (p, name)"
    and "first_index (hit name (payload p) FILE_TYPE) es = None"
    and "blocks_for s (length src) \<le> card (free_blocks s)"
  shows "\<exists>t e cs. import_cmd h argv s = Inr (Success, t) \<and> fs_wf t (es @ [e]) (C @ [cs]) \<and>
    contents t (es @ [e]) (C @ [cs]) = contents s es C @ [src] \<and> unat (esize e) = length src \<and>
    e = new_entry FILE_TYPE p name (payload e) (esize e) (time_now h) \<and> set cs \<subseteq> free_blocks s"
  using import_spec[OF assms] by blast

theorem import_adds_file_witness:
  "\<exists>t e cs. import_cmd (demo_host [1, 2, 3]) [bytes ''echfs'', bytes ''img'', bytes ''import'', bytes ''f'', bytes ''a''] blank
      = Inr (Success, t) \<and> fs_wf t [e] [cs] \<and> contents t [e] [cs] = [[1, 2, 3]]"
  using import_adds_file[OF blank_fs(1), of "[bytes ''echfs'', bytes ''img'', bytes ''import'', bytes ''f'', bytes ''a'']"
      "demo_host [1, 2, 3]" "[1, 2, 3]" root_entry "bytes ''a''"] demo_path blank_fs
  by (auto simp: demo_host_def malloc_ok_def blocks_for_def contents_Nil)

text \<open>C16: A file whose size is not a multiple of the block size survives a round trip: after a
  successful \<open>import\<close>, \<open>export\<close> of the same path writes exactly the bytes of the source.\<close>

theorem import_export_roundtrip:
  assumes "fs_wf s es C" and "length es < ndir s" and "4 < length argv" and "plain_path (argv ! 4)"
    and "is_regular h (argv ! 3)" and "fopen_read h (argv ! 3) = Some src" and "malloc_ok h (bytesperblock s)"
    and "walk es root_entry (comps (strip (argv ! 4))) = Some (p, name)"
    and "first_index (hit name (payload p) FILE_TYPE) es = None"
    and "blocks_for s (length src) \<le> card (free_blocks s)"
    and "length src mod bpb s \<noteq> 0" and "fopen_write h dest"
  shows "\<exists>t. import_cmd h argv s = Inr (Success, t) \<and>
    export_cmd h [prog, disk, action, argv ! 4, dest] t = Inr (Exported dest src, t)"
  using import_export[OF assms(1-10,12)] assms(11) by auto

theorem import_export_roundtrip_witness:
  "\<exists>t. import_cmd (demo_host [1, 2, 3]) [bytes ''echfs'', bytes ''img'', bytes ''import'', bytes ''f'', bytes ''a''] blank
      = Inr (Success, t) \<and>
    export_cmd (demo_host [1, 2, 3]) [bytes ''echfs'', bytes ''img'', bytes ''export'', bytes ''a'', bytes ''g''] t
      = Inr (Exported (bytes ''g'') [1, 2, 3], t)"
  using import_export_roundtrip[OF blank_fs(1), of "[bytes ''echfs'', bytes ''img'', bytes ''import'', bytes ''f'', bytes ''a'']"
      "demo_host [1, 2, 3]" "[1, 2, 3]" root_entry "bytes ''a''" "bytes ''g''" "bytes ''echfs''" "bytes ''img''" "bytes ''export''"]
    demo_path blank_fs
  by (simp add: demo_host_def malloc_ok_def blocks_for_def)

text \<open>C17: A file whose size is a positive multiple of the block size does not: \<open>export\<close> stops before
  the last block, which it takes to have \<open>size % block size = 0\<close> bytes, and writes the file
  without it.\<close>

theorem export_drops_last_block:
  assumes "fs_wf s es C" and "length es < ndir s" and "4 < length argv" and "plain_path (argv ! 4)"
    and "is_regular h (argv ! 3)" and "fopen_read h (argv ! 3) = Some src" and "malloc_ok h (bytesperblock s)"
    and "walk es root_entry (comps (strip (argv ! 4))) = Some (p, name)"
    and "first_index (hit name (payload p) FILE_TYPE) es = None"
    and "blocks_for s (length src) \<le> card (free_blocks s)"
    and "length src = Suc k * bpb s" and "fopen_write h dest"
  shows "\<exists>t. import_cmd h argv s = Inr (Success, t) \<and>
    export_cmd h [prog, disk, action, argv ! 4, dest] t = Inr (Exported dest (take (k * bpb s) src), t)"
  using import_export[OF assms(1-10,12)] assms(11) by auto

theorem export_drops_last_block_witness:
  "\<exists>t. import_cmd (demo_host (replicate 512 1)) [bytes ''echfs'', bytes ''img'', bytes ''import'', bytes ''f'', bytes ''a''] blank
      = Inr (Success, t) \<and>
    export_cmd (demo_host (replicate 512 1)) [bytes ''echfs'', bytes ''img'', bytes ''export'', bytes ''a'', bytes ''g''] t
      = Inr (Exported (bytes ''g'') [], t)"
  using export_drops_last_block[OF blank_fs(1), of "[bytes ''echfs'', bytes ''img'', bytes ''import'', bytes ''f'', bytes ''a'']"
      "demo_host (replicate 512 1)" "replicate 512 1" root_entry "bytes ''a''" 0 "bytes ''g''" "bytes ''echfs''" "bytes ''img''" "bytes ''export''"]
    demo_path blank_fs
  by (simp add: demo_host_def malloc_ok_def blocks_for_def)

text \<open>C18: A directory entry that is written and read back is the same entry, and every other
  entry, the allocation table and the data blocks are unchanged.\<close>

theorem entry_roundtrip:
  assumes "layout s" and "i < ndir s" and "length (ename e) = 218"
  shows "\<exists>t. wr_entry (of_nat i) e s = Inr t \<and> rd_entry t (of_nat i) = Inr e \<and>
    (\<forall>j < ndir s. j \<noteq> i \<longrightarrow> rd_entry t (of_nat j) = rd_entry s (of_nat j)) \<and>
    (\<forall>c < unat (blocks s). fat t c = fat s c \<and> (unat (datastart s) \<le> c \<longrightarrow> block_at t c = block_at s c))"
proof -
  note se = set_entry_spec[OF assms]
  have rd: "rd_entry (set_entry i e s) (of_nat j) = Inr ((entries s)[i := e] ! j)" if "j < ndir s" for j
    using rd_entry_in[OF se(2), of j] that unfolding se(3) by simp
  have "rd_entry (set_entry i e s) (of_nat j) = rd_entry s (of_nat j)" if "j < ndir s" "j \<noteq> i" for j
    using rd[OF that(1)] rd_entry_in[OF assms(1) that(1)] that(2) by simp
  moreover have "rd_entry (set_entry i e s) (of_nat i) = Inr e" using rd[OF assms(2)] assms(2) by simp
  ultimately show ?thesis using se(1,4,5) by auto
qed

theorem entry_roundtrip_witness:
  "\<exists>t. wr_entry (of_nat 2) empty_entry blank = Inr t \<and> rd_entry t (of_nat 2) = Inr empty_entry"
proof -
  have "layout blank" using blank_fs(1) by (simp add: fs_wf_def dir_wf_def)
  then show ?thesis using entry_roundtrip[of blank 2 empty_entry] blank_fs(2)
    by (auto simp: empty_entry_def FILENAME_LEN_def)
qed

text \<open>C19: On every image with a consistent layout \<open>search\<close> returns, and its result is that of a
  linear search of the directory list: the first entry with the given parent, type and name
  that no unused entry precedes, \<open>SEARCH_FAILURE\<close> when an unused entry comes first, and the abort
  of an out-of-bounds read when the table is full without a match, although the code checks for
  the end of the table.\<close>

theorem search_is_linear_search:
  assumes "layout s"
  shows "search s name par ty =
    (case first_index (\<lambda>e. parent_id e = 0 \<or> hit name par ty e) (entries s) of
       None \<Rightarrow> Inl (Panic ''ATTEMPTING TO READ DIRECTORY OUT OF BOUNDS'')
     | Some k \<Rightarrow> Inr (if parent_id (entries s ! k) = 0 then SEARCH_FAILURE else of_nat k))"
  by (simp only: search_spec[OF assms] search_result_def out_of_bounds_def)

theorem search_is_linear_search_witness:
  "\<exists>r. search blank (bytes ''a'') ROOT_ID FILE_TYPE = r \<and>
    r = (case first_index (\<lambda>e. parent_id e = 0 \<or> hit (bytes ''a'') ROOT_ID FILE_TYPE e) (entries blank) of
       None \<Rightarrow> Inl (Panic ''ATTEMPTING TO READ DIRECTORY OUT OF BOUNDS'')
     | Some k \<Rightarrow> Inr (if parent_id (entries blank ! k) = 0 then SEARCH_FAILURE else of_nat k))"
proof -
  have "layout blank" using blank_fs(1) by (simp add: fs_wf_def dir_wf_def)
  from search_is_linear_search[OF this] show ?thesis by blast
qed

end
