(* ===== verification/Machine.thy ===== *)
theory Machine
  imports Heap_Budget
begin

text \<open>
  What the kernel does to the hardware.  The instructions of
  \<open>kernel/src/asm/cpu.asm\<close> that leave the processor's own registers (port I/O, model-specific
  registers, descriptor table registers) and accesses to memory-mapped registers are events,
  appended to the trace of the machine in program order.  What a device answers to a read
  is not code of this repository: it is the parameter \<open>devices\<close>, a function of
  everything that was done before.  The configuration space accesses of
  \<open>kernel/src/firmware/pci.c\<close> are the first user.
\<close>

section \<open>Events and the machine state\<close>

datatype event =
    Out8 u16 u8 | Out16 u16 u16 | Out32 u16 u32
  | In8 u16 | In16 u16 | In32 u16
  | Write_Msr u32 u64 | Read_Msr u32
  | Mmio_Write u64 u32    \<comment> \<open>physical address and value\<close>
  | Mmio_Read u64
  | Load_Gdt u16 u64 | Load_Idt u16 u64
  | Reload_Segments u16 u16
  | Sti

record machine = heap +
  trace :: "event list"

record devices =
  dev_in8 :: "event list \<Rightarrow> u16 \<Rightarrow> u8"
  dev_in16 :: "event list \<Rightarrow> u16 \<Rightarrow> u16"
  dev_in32 :: "event list \<Rightarrow> u16 \<Rightarrow> u32"
  dev_msr :: "event list \<Rightarrow> u32 \<Rightarrow> u64"
  dev_mmio :: "event list \<Rightarrow> u64 \<Rightarrow> u32"

definition emit :: "event \<Rightarrow> 'a machine_scheme \<Rightarrow> 'a machine_scheme" where
  "emit e s = s\<lparr>trace := trace s @ [e]\<rparr>"

definition outb :: "u16 \<Rightarrow> u8 \<Rightarrow> 'a machine_scheme \<Rightarrow> 'a machine_scheme" where
  "outb port v = emit (Out8 port v)"

definition outw :: "u16 \<Rightarrow> u16 \<Rightarrow> 'a machine_scheme \<Rightarrow> 'a machine_scheme" where
  "outw port v = emit (Out16 port v)"

definition outd :: "u16 \<Rightarrow> u32 \<Rightarrow> 'a machine_scheme \<Rightarrow> 'a machine_scheme" where
  "outd port v = emit (Out32 port v)"

definition inb :: "devices \<Rightarrow> u16 \<Rightarrow> 'a machine_scheme \<Rightarrow> u8 \<times> 'a machine_scheme" where
  "inb d port s = (dev_in8 d (trace s) port, emit (In8 port) s)"

definition inw :: "devices \<Rightarrow> u16 \<Rightarrow> 'a machine_scheme \<Rightarrow> u16 \<times> 'a machine_scheme" where
  "inw d port s = (dev_in16 d (trace s) port, emit (In16 port) s)"

definition ind :: "devices \<Rightarrow> u16 \<Rightarrow> 'a machine_scheme \<Rightarrow> u32 \<times> 'a machine_scheme" where
  "ind d port s = (dev_in32 d (trace s) port, emit (In32 port) s)"

text \<open>\<open>iowait\<close> executes two \<open>nop\<close>s: it leaves no event.\<close>

definition write_msr :: "u32 \<Rightarrow> u64 \<Rightarrow> 'a machine_scheme \<Rightarrow> 'a machine_scheme" where
  "write_msr r v = emit (Write_Msr r v)"

definition read_msr :: "devices \<Rightarrow> u32 \<Rightarrow> 'a machine_scheme \<Rightarrow> u64 \<times> 'a machine_scheme" where
  "read_msr d r s = (dev_msr d (trace s) r, emit (Read_Msr r) s)"

text \<open>
  A \<open>volatile uint32_t\<close> access to a device register goes through the page tables that are in
  use at that moment.
\<close>

definition mmio_write :: "u64 \<Rightarrow> u32 \<Rightarrow> 'a machine_scheme \<Rightarrow> halt + 'a machine_scheme" where
  "mmio_write v x s =
    (case vmm_get_physical s v of
       None \<Rightarrow> Inl (Panic ''page fault'') | Some p \<Rightarrow> Inr (emit (Mmio_Write p x) s))"

definition mmio_read :: "devices \<Rightarrow> u64 \<Rightarrow> 'a machine_scheme \<Rightarrow> halt + (u32 \<times> 'a machine_scheme)" where
  "mmio_read d v s =
    (case vmm_get_physical s v of
       None \<Rightarrow> Inl (Panic ''page fault'')
     | Some p \<Rightarrow> Inr (dev_mmio d (trace s) p, emit (Mmio_Read p) s))"

lemma trace_emit [simp]: "trace (emit e s) = trace s @ [e]"
  by (simp add: emit_def)

lemma emit_fields [simp]:
  "mem (emit e s) = mem s" "cr3 (emit e s) = cr3 s" "machine.more (emit e s) = machine.more s"
  by (simp_all add: emit_def)

lemma vmm_get_physical_emit [simp]: "vmm_get_physical (emit e s) v = vmm_get_physical s v"
  by (rule vmm_get_physical_mem) simp_all

section \<open>PCI configuration space\<close>

record pci_dev_t =
  dev_bus :: u8
  dev_slot :: u8
  dev_function :: u8

text \<open>In the C expression \<open>+\<close> binds tighter than \<open>|\<close>.\<close>

definition pci_address :: "pci_dev_t \<Rightarrow> u32 \<Rightarrow> u32" where
  "pci_address dev offset =
    push_bit 16 (ucast (dev_bus dev)) OR push_bit 11 (ucast (dev_slot dev)) OR
    (push_bit 8 (ucast (dev_function dev)) + (offset AND 0xFC)) OR 0x80000000"

definition pci_read :: "devices \<Rightarrow> pci_dev_t \<Rightarrow> u32 \<Rightarrow> 'a machine_scheme \<Rightarrow> u32 \<times> 'a machine_scheme" where
  "pci_read d dev offset s = ind d 0xCFC (outd 0xCF8 (pci_address dev offset) s)"

definition pci_write :: "pci_dev_t \<Rightarrow> u32 \<Rightarrow> u32 \<Rightarrow> 'a machine_scheme \<Rightarrow> 'a machine_scheme" where
  "pci_write dev offset x s = outd 0xCFC x (outd 0xCF8 (pci_address dev offset) s)"


text \<open>
  The host bridge splits the address into bus (bits 16 to 23), device (bits 11 to 15),
  function (bits 8 to 10) and register (bits 2 to 7).
\<close>

lemma word_bound_bit: "unat w < 2 ^ n \<Longrightarrow> bit w k \<Longrightarrow> k < n" for w :: "'a::len word"
  using bit_take_bit_iff[of n "unat w" k] by (auto simp: take_bit_nat_eq_self bit_unsigned_iff dest: bit_imp_le_length)

lemma bit_run:
  fixes w :: "'a::len word"
  assumes "push_bit m (mask n) = w"
  shows "bit w k \<longleftrightarrow> m \<le> k \<and> k < m + n \<and> k < LENGTH('a)"
  unfolding assms[symmetric] by (auto simp: bit_push_bit_iff bit_mask_iff)

lemma pci_runs:
  "push_bit 2 (mask 6) = (0xFC :: u32)" "push_bit 31 (mask 1) = (0x80000000 :: u32)"
  "push_bit 0 (mask 5) = (31 :: u8)" "push_bit 0 (mask 3) = (7 :: u8)" "push_bit 0 (mask 8) = (0xFF :: u32)"
  by (simp_all add: mask_eq_exp_minus_1)

lemmas pci_constants = pci_runs[THEN bit_run]

lemma pci_address_bit:
  assumes "dev_function dev < 8"
  shows "bit (pci_address dev offset) n \<longleftrightarrow> n < 32 \<and>
    (16 \<le> n \<and> bit (dev_bus dev) (n - 16) \<or> 11 \<le> n \<and> bit (dev_slot dev) (n - 11) \<or>
     8 \<le> n \<and> bit (dev_function dev) (n - 8) \<or> 2 \<le> n \<and> n < 8 \<and> bit offset n \<or> n = 31)"
proof -
  have "push_bit 8 (ucast (dev_function dev)) + (offset AND 0xFC) =
      (push_bit 8 (ucast (dev_function dev)) OR (offset AND 0xFC) :: u32)"
    by (rule disjunctive_add_eq_or) (auto simp: bit_eq_iff bit_and_iff bit_push_bit_iff pci_constants simp del: bit_numeral_word_iff)
  then show ?thesis
    unfolding pci_address_def
    by (auto simp: bit_or_iff bit_and_iff bit_push_bit_iff bit_ucast_iff pci_constants simp del: bit_numeral_word_iff)
qed

lemma pci_address_fields:
  assumes "dev_slot dev < 32" and "dev_function dev < 8" and "a = pci_address dev offset"
  shows "bit a 31" and "ucast (drop_bit 16 a) = dev_bus dev"
    and "ucast (drop_bit 11 a) AND 31 = dev_slot dev"
    and "ucast (drop_bit 8 a) AND 7 = dev_function dev"
    and "a AND 0xFF = offset AND 0xFC"
proof -
  note b = pci_address_bit[OF assms(2)]
  have s: "k < 5" if "bit (dev_slot dev) k" for k
    using word_bound_bit[of "dev_slot dev" 5] assms(1) that by (simp add: word_less_nat_alt)
  have f: "k < 3" if "bit (dev_function dev) k" for k
    using word_bound_bit[of "dev_function dev" 3] assms(2) that by (simp add: word_less_nat_alt)
  note b' = assms(3) b bit_ucast_iff bit_drop_bit_eq bit_and_iff pci_constants
  show "bit a 31" unfolding b' by simp
  show "ucast (drop_bit 16 a) = dev_bus dev"
    by (rule bit_word_eqI) (auto simp: b' simp del: bit_numeral_word_iff dest: s f)
  show "ucast (drop_bit 11 a) AND 31 = dev_slot dev"
    by (rule bit_word_eqI) (auto simp: b' simp del: bit_numeral_word_iff dest: s f)
  show "ucast (drop_bit 8 a) AND 7 = dev_function dev"
    by (rule bit_word_eqI) (auto simp: b' simp del: bit_numeral_word_iff dest: s f)
  show "a AND 0xFF = offset AND 0xFC"
    by (rule bit_word_eqI) (auto simp: b' simp del: bit_numeral_word_iff dest: s f)
qed

end
