(* ===== verification/Descriptors.thy ===== *)
theory Descriptors
  imports Machine Small_Heap
begin

text \<open>
  The segment and interrupt descriptors of \<open>kernel/src/misc/gdt.c\<close> and
  \<open>kernel/src/misc/idt.c\<close>, with the constants of \<open>kernel/src/include/cpu.h\<close>.  Blocks that
  \<open>kcalloc\<close> returned are zeroed and disjoint from everything else on the heap
  (theory \<open>Mm_Properties\<close>), so the tables stored there are kept as typed values beside
  the bytes: \<open>gdt_at\<close> holds the table at each address \<open>gdt_init\<close> filled, \<open>idt\<close> the 256
  gates at \<open>idt_base\<close>.
\<close>

section \<open>Constants and tables\<close>

definition GDT_ENTRIES :: nat where "GDT_ENTRIES = 7"
definition GDT_ENTRY_KCODE :: nat where "GDT_ENTRY_KCODE = 1"
definition GDT_ENTRY_KDATA :: nat where "GDT_ENTRY_KDATA = 2"
definition GDT_ENTRY_UCODE :: nat where "GDT_ENTRY_UCODE = 3"
definition GDT_ENTRY_UDATA :: nat where "GDT_ENTRY_UDATA = 4"

definition KCODE_SEGMENT :: u16 where "KCODE_SEGMENT = 0x08"
definition KDATA_SEGMENT :: u16 where "KDATA_SEGMENT = 0x10"
definition UCODE_SEGMENT :: u16 where "UCODE_SEGMENT = 0x1B"
definition UDATA_SEGMENT :: u16 where "UDATA_SEGMENT = 0x23"

definition GDT_ACCESS_PRESENT :: u8 where "GDT_ACCESS_PRESENT = push_bit 7 1"
definition GDT_ACCESS_USER :: u8 where "GDT_ACCESS_USER = push_bit 5 3"
definition GDT_ACCESS_NOT_TSS :: u8 where "GDT_ACCESS_NOT_TSS = push_bit 4 1"
definition GDT_ACCESS_EXECUTABLE :: u8 where "GDT_ACCESS_EXECUTABLE = push_bit 3 1"
definition GDT_ACCESS_RW :: u8 where "GDT_ACCESS_RW = push_bit 1 1"

definition GDT_FLAGS_GRANULARITY :: u8 where "GDT_FLAGS_GRANULARITY = push_bit 3 1"
definition GDT_FLAGS_LONG_MODE :: u8 where "GDT_FLAGS_LONG_MODE = push_bit 1 1"

definition GDT_KCODE_ACCESS :: u8 where
  "GDT_KCODE_ACCESS = GDT_ACCESS_PRESENT OR GDT_ACCESS_NOT_TSS OR GDT_ACCESS_EXECUTABLE OR GDT_ACCESS_RW"
definition GDT_KDATA_ACCESS :: u8 where
  "GDT_KDATA_ACCESS = GDT_ACCESS_PRESENT OR GDT_ACCESS_NOT_TSS OR GDT_ACCESS_RW"
definition GDT_UCODE_ACCESS :: u8 where "GDT_UCODE_ACCESS = GDT_KCODE_ACCESS OR GDT_ACCESS_USER"
definition GDT_UDATA_ACCESS :: u8 where "GDT_UDATA_ACCESS = GDT_KDATA_ACCESS OR GDT_ACCESS_USER"

lemmas gdt_constants = GDT_ACCESS_PRESENT_def GDT_ACCESS_USER_def GDT_ACCESS_NOT_TSS_def
  GDT_ACCESS_EXECUTABLE_def GDT_ACCESS_RW_def GDT_FLAGS_GRANULARITY_def GDT_FLAGS_LONG_MODE_def
  GDT_KCODE_ACCESS_def GDT_KDATA_ACCESS_def GDT_UCODE_ACCESS_def GDT_UDATA_ACCESS_def

record gdt_t =
  limit_low :: u16
  base_low :: u16
  base_middle :: u8
  gdt_access :: u8
  gdt_flags :: u8
  base_high :: u8

record idt_t =
  handler_low :: u16
  segment :: u16
  idt_reserved0 :: u8
  attributes :: u8
  handler_middle :: u16
  handler_high :: u32
  idt_reserved1 :: u32

definition zero_gdt :: gdt_t where
  "zero_gdt = \<lparr>limit_low = 0, base_low = 0, base_middle = 0, gdt_access = 0, gdt_flags = 0, base_high = 0\<rparr>"

definition zero_idt :: idt_t where
  "zero_idt = \<lparr>handler_low = 0, segment = 0, idt_reserved0 = 0, attributes = 0, handler_middle = 0,
    handler_high = 0, idt_reserved1 = 0\<rparr>"

text \<open>\<open>idtr_at\<close> is the global pointer \<open>idtr\<close> with the limit and base stored there.\<close>

record cpu_tables = machine +
  gdt_at :: "u64 \<Rightarrow> gdt_t list option"
  idt_base :: u64
  idt :: "idt_t list"
  idtr_at :: "u64 \<times> u16 \<times> u64"

section \<open>Segment descriptors\<close>

definition make_gdt_entry :: "u32 \<Rightarrow> u32 \<Rightarrow> u8 \<Rightarrow> u8 \<Rightarrow> gdt_t" where
  "make_gdt_entry base limit access flags =
    (let entry =
       (if flags AND GDT_FLAGS_GRANULARITY \<noteq> 0
        then zero_gdt\<lparr>limit_low := ucast limit, gdt_flags := ucast (drop_bit 16 limit) AND 0x0F\<rparr>
        else zero_gdt\<lparr>limit_low := 0xFFFF, gdt_flags := 0x0F\<rparr>);
       entry = entry\<lparr>base_low := ucast base, base_middle := ucast (drop_bit 16 base) AND 0xFF,
         base_high := ucast (drop_bit 24 base) AND 0xFF, gdt_access := access\<rparr>
     in entry\<lparr>gdt_flags := gdt_flags entry OR push_bit 4 flags\<rparr>)"

text \<open>The table of \<open>gdt_init\<close>; 10 is \<open>sizeof(gdtr_t)\<close> and 8 is \<open>sizeof(gdt_t)\<close>.\<close>

definition gdt_table :: "gdt_t list" where
  "gdt_table =
    (replicate GDT_ENTRIES zero_gdt)
      [GDT_ENTRY_KCODE := make_gdt_entry 0 0xFFFFF GDT_KCODE_ACCESS (GDT_FLAGS_GRANULARITY OR GDT_FLAGS_LONG_MODE),
       GDT_ENTRY_KDATA := make_gdt_entry 0 0xFFFFF GDT_KDATA_ACCESS (GDT_FLAGS_GRANULARITY OR GDT_FLAGS_LONG_MODE),
       GDT_ENTRY_UCODE := make_gdt_entry 0 0xFFFFF GDT_UCODE_ACCESS (GDT_FLAGS_GRANULARITY OR GDT_FLAGS_LONG_MODE),
       GDT_ENTRY_UDATA := make_gdt_entry 0 0xFFFFF GDT_UDATA_ACCESS (GDT_FLAGS_GRANULARITY OR GDT_FLAGS_LONG_MODE)]"

definition gdt_init :: "'a cpu_tables_scheme \<Rightarrow> halt + 'a cpu_tables_scheme" where
  "gdt_init s =
    bnd (kcalloc 10 1 s) (\<lambda>(gdtr, s).
    bnd (kcalloc 8 (of_nat GDT_ENTRIES) s) (\<lambda>(gdt, s).
    if gdtr = 0 \<or> gdt = 0 then Inl (Panic ''unable to allocate memory.'')
    else
      let s = s\<lparr>gdt_at := (gdt_at s)(gdt \<mapsto> gdt_table)\<rparr>;
          s = emit (Load_Gdt (8 * of_nat GDT_ENTRIES - 1) gdt) s
      in Inr (emit (Reload_Segments KCODE_SEGMENT KDATA_SEGMENT) s)))"

section \<open>Interrupt gates\<close>

definition idt_gate :: "u64 \<Rightarrow> idt_t" where
  "idt_gate handler =
    zero_idt\<lparr>handler_low := ucast handler, handler_middle := ucast (drop_bit 16 handler) AND 0xFFFF,
      handler_high := ucast (drop_bit 32 handler) AND 0xFFFFFFFF,
      segment := KCODE_SEGMENT, attributes := 0x8E\<rparr>"

definition idt_install :: "u8 \<Rightarrow> u64 \<Rightarrow> 'a cpu_tables_scheme \<Rightarrow> halt + 'a cpu_tables_scheme" where
  "idt_install vector handler s =
    (if idt_base s = 0 then Inl (Panic ''page fault'')
     else Inr (s\<lparr>idt := (idt s)[unat vector := idt_gate handler]\<rparr>))"

text \<open>
  The addresses of the 32 exception stubs are parameters.  16 is \<open>sizeof(idt_t)\<close>, 10 is
  \<open>sizeof(idtr_t)\<close>.
\<close>

definition idt_init :: "(nat \<Rightarrow> u64) \<Rightarrow> 'a cpu_tables_scheme \<Rightarrow> halt + 'a cpu_tables_scheme" where
  "idt_init int_handler s =
    bnd (kcalloc 16 256 s) (\<lambda>(p, s).
    bnd (kcalloc 10 1 s) (\<lambda>(q, s).
    if p = 0 \<or> q = 0 then Inl (Panic ''unable to allocate memory.'')
    else
      let s = s\<lparr>idt_base := p, idt := replicate 256 zero_idt, idtr_at := (q, 16 * 256 - 1, p)\<rparr>;
          s = emit (Load_Idt (16 * 256 - 1) p) s
      in fold_res (\<lambda>i. idt_install (of_nat i) (int_handler i)) [0..<32] s))"

section \<open>Reading the descriptors the way the processor does\<close>

definition gdt_base :: "gdt_t \<Rightarrow> u32" where
  "gdt_base d = ucast (base_low d) OR push_bit 16 (ucast (base_middle d)) OR push_bit 24 (ucast (base_high d))"

definition gdt_limit :: "gdt_t \<Rightarrow> u32" where
  "gdt_limit d = ucast (limit_low d) OR push_bit 16 (ucast (gdt_flags d AND 0x0F))"

definition gdt_dpl :: "gdt_t \<Rightarrow> u16" where
  "gdt_dpl d = ucast (drop_bit 5 (gdt_access d) AND 3)"

definition gate_handler :: "idt_t \<Rightarrow> u64" where
  "gate_handler g =
    ucast (handler_low g) OR push_bit 16 (ucast (handler_middle g)) OR push_bit 32 (ucast (handler_high g))"

definition gate_present :: "idt_t \<Rightarrow> bool" where
  "gate_present g \<longleftrightarrow> bit (attributes g) 7"

lemma full_masks: "(0xFF :: u8) = - 1" "(0xFFFF :: u16) = - 1" "(0xFFFFFFFF :: u32) = - 1"
  by simp_all

lemma low_nibble_bit: "bit (0x0F :: u8) n \<longleftrightarrow> n < 4"
  using bit_run[of 0 4 "0x0F :: u8" n] by (auto simp: mask_eq_exp_minus_1)

lemma gdt_base_make: "gdt_base (make_gdt_entry base limit access flags) = base"
proof (rule bit_word_eqI)
  fix n
  assume "n < LENGTH(32)"
  consider "n < 16" | "16 \<le> n" "n < 24" | "24 \<le> n" by linarith
  then show "bit (gdt_base (make_gdt_entry base limit access flags)) n = bit base n"
    by cases (use \<open>n < LENGTH(32)\<close> in \<open>simp_all add: gdt_base_def make_gdt_entry_def zero_gdt_def Let_def
      full_masks bit_or_iff bit_push_bit_iff bit_ucast_iff bit_drop_bit_eq less_diff_conv2\<close>)
qed

lemma gdt_limit_make:
  assumes "flags AND GDT_FLAGS_GRANULARITY \<noteq> 0" and "limit < 2 ^ 20"
  shows "gdt_limit (make_gdt_entry base limit access flags) = limit"
proof (rule bit_word_eqI)
  fix n
  assume "n < LENGTH(32)"
  have "\<not> bit limit n" if "20 \<le> n" using word_bound_bit[of limit 20 n] assms(2) that by (auto simp: word_less_nat_alt)
  then consider "n < 16" | "16 \<le> n" "n < 20" | "20 \<le> n" "\<not> bit limit n" by linarith
  then show "bit (gdt_limit (make_gdt_entry base limit access flags)) n = bit limit n"
    by cases (use \<open>n < LENGTH(32)\<close> assms(1) in \<open>simp_all add: gdt_limit_def make_gdt_entry_def zero_gdt_def Let_def
      low_nibble_bit bit_or_iff bit_and_iff bit_push_bit_iff bit_ucast_iff bit_drop_bit_eq less_diff_conv2 le_diff_conv2 del: bit_numeral_word_iff\<close>)
qed

lemma gdt_access_make [simp]: "gdt_access (make_gdt_entry base limit access flags) = access"
  by (simp add: make_gdt_entry_def Let_def)

lemma gate_handler_gate: "gate_handler (idt_gate h) = h"
proof (rule bit_word_eqI)
  fix n
  assume "n < LENGTH(64)"
  consider "n < 16" | "16 \<le> n" "n < 32" | "32 \<le> n" by linarith
  then show "bit (gate_handler (idt_gate h)) n = bit h n"
    by cases (use \<open>n < LENGTH(64)\<close> in \<open>simp_all add: gate_handler_def idt_gate_def zero_idt_def
      full_masks bit_or_iff bit_push_bit_iff bit_ucast_iff bit_drop_bit_eq less_diff_conv2\<close>)
qed

section \<open>The tables after initialisation\<close>

lemma idt_install_fold:
  assumes "idt_base s \<noteq> 0" and "length (idt s) = 256" and "n \<le> 256"
  shows "\<exists>t. fold_res (\<lambda>i. idt_install (of_nat i) (h i)) [0..<n] s = Inr t \<and>
    idt_base t = idt_base s \<and> idtr_at t = idtr_at s \<and> trace t = trace s \<and> cpu_tables.more t = cpu_tables.more s \<and>
    heap.truncate t = heap.truncate s \<and> length (idt t) = 256 \<and>
    (\<forall>v < 256. idt t ! v = (if v < n then idt_gate (h v) else idt s ! v))"
  using assms(3)
proof (induction n)
  case 0
  then show ?case using assms by simp
next
  case (Suc n)
  then obtain t where t: "fold_res (\<lambda>i. idt_install (of_nat i) (h i)) [0..<n] s = Inr t" "idt_base t = idt_base s"
    "idtr_at t = idtr_at s" "trace t = trace s" "cpu_tables.more t = cpu_tables.more s" "heap.truncate t = heap.truncate s"
    "length (idt t) = 256" "\<forall>v < 256. idt t ! v = (if v < n then idt_gate (h v) else idt s ! v)" by auto
  have "unat (of_nat n :: u8) = n" using Suc.prems by (simp add: unat_of_nat)
  then have "idt_install (of_nat n) (h n) t = Inr (t\<lparr>idt := (idt t)[n := idt_gate (h n)]\<rparr>)"
    using assms(1) t(2) by (simp add: idt_install_def)
  then show ?case using t Suc.prems by (auto simp: nth_list_update heap.truncate_def)
qed

lemma pages_of_small: "unat n \<le> 4080 \<Longrightarrow> unat (heap_pages n) = 1"
proof -
  assume n: "unat n \<le> 4080"
  then have "unat (heap_pages n) = (unat n + 4111) div 4096" using heap_pages_unat(1)[of n] by simp
  also have "\<dots> = 1" using n by (simp add: div_nat_eqI)
  finally show ?thesis .
qed

lemma pages_4096: "unat (heap_pages 4096) = 2"
  using heap_pages_unat(1)[of 4096] by simp

text \<open>What a selector must find in the table: a present code or data segment of the selector's
  privilege, flat, and for code in 64-bit mode.\<close>

definition segment_ok :: "gdt_t list \<Rightarrow> u16 \<Rightarrow> bool \<Rightarrow> bool" where
  "segment_ok tbl sel code \<longleftrightarrow>
    (let i = unat (drop_bit 3 sel); d = tbl ! i
     in i < length tbl \<and> bit (gdt_access d) 7 \<and> bit (gdt_access d) 4 \<and> bit (gdt_access d) 3 = code \<and>
        bit (gdt_access d) 1 \<and> gdt_dpl d = sel AND 3 \<and> bit (gdt_flags d) 5 \<and>
        gdt_base d = 0 \<and> gdt_limit d = 0xFFFFF)"

lemma gdt_table_segments:
  "segment_ok gdt_table KCODE_SEGMENT True" "segment_ok gdt_table KDATA_SEGMENT False"
  "segment_ok gdt_table UCODE_SEGMENT True" "segment_ok gdt_table UDATA_SEGMENT False"
  by code_simp+

lemma gdt_init_returns:
  assumes "heap_budget s 2"
  shows "\<exists>g t. gdt_init s = Inr t \<and> g \<noteq> 0 \<and> gdt_at t g = Some gdt_table \<and>
    trace t = trace s @ [Load_Gdt 55 g, Reload_Segments KCODE_SEGMENT KDATA_SEGMENT]"
proof -
  have c: "unat (heap_pages 10) = 1" "unat (heap_pages 56) = 1" by (simp_all add: pages_of_small)
  obtain p q t u where u: "kmalloc 10 s = Inr (p, t)" "kmalloc 56 t = Inr (q, u)" "p \<noteq> 0" "q \<noteq> 0"
    "heap.more u = heap.more s"
    by (rule kheap.alloc_pair[OF assms, of 10 56]) (auto simp: c)
  have "trace u = trace s" using u(5) by (cases u, cases s) simp
  then have "gdt_init s = Inr t' \<Longrightarrow> gdt_at t' q = Some gdt_table \<and>
      trace t' = trace s @ [Load_Gdt 55 q, Reload_Segments KCODE_SEGMENT KDATA_SEGMENT]" for t'
    using u by (auto simp: gdt_init_def kcalloc_def GDT_ENTRIES_def emit_def Let_def)
  moreover have "\<exists>t'. gdt_init s = Inr t'" using u by (simp add: gdt_init_def kcalloc_def GDT_ENTRIES_def)
  ultimately show ?thesis using u(4) by blast
qed


definition small_tables :: cpu_tables where
  "small_tables = heap.extend small_heap \<lparr>trace = [], gdt_at = Map.empty, idt_base = 0, idt = [], idtr_at = (0, 0, 0)\<rparr>"

lemma small_tables_budget: "N \<le> 900 \<Longrightarrow> heap_budget small_tables N"
  using core_budget[of small_tables small_heap N] small_heap_budget[of N] by (simp add: small_tables_def heap.defs)




end
