(* ===== verification/Acpi.thy ===== *)
theory Acpi
  imports Descriptors
begin

text \<open>
  The ACPI tables: \<open>kernel/src/acpi/tables.c\<close> and \<open>kernel/src/acpi/init.c\<close>, with the layouts
  of \<open>kernel/src/include/acpi_tables.h\<close>.  The tables are bytes of physical memory, read
  through the pointers the code forms with \<open>MAP_MEMORY\<close>.  A packed structure is read field
  by field at its offset: in a table header the signature is at 0, the length at 4, the
  revision at 8, and the header is 36 bytes long.  The log output is left out.
\<close>

section \<open>State and access to tables\<close>

definition ACPI_SUCCESS :: u32 where "ACPI_SUCCESS = 0"
definition ACPI_MEMORY :: u32 where "ACPI_MEMORY = 2"
definition ACPI_NO_TABLE :: u32 where "ACPI_NO_TABLE = 3"

definition MAP_MEMORY :: "u64 \<Rightarrow> u64" where "MAP_MEMORY x = x + PHYSICAL_MEMORY"
definition GET_PHYS :: "u64 \<Rightarrow> u64" where "GET_PHYS x = x - PHYSICAL_MEMORY"

record acpi = cpu_tables +
  acpi_rsdp :: u64
  acpi_rsdt :: u64
  acpi_xsdt :: u64
  acpi_fadt :: u64
  acpi_dsdt :: u64

definition vread16 :: "'a vmm_scheme \<Rightarrow> u64 \<Rightarrow> halt + u16" where
  "vread16 s v = bnd (vread s v 2) (\<lambda>bs. Inr (ucast (le_word bs)))"

definition vread32 :: "'a vmm_scheme \<Rightarrow> u64 \<Rightarrow> halt + u32" where
  "vread32 s v = bnd (vread s v 4) (\<lambda>bs. Inr (ucast (le_word bs)))"

definition sdth_signature :: "'a vmm_scheme \<Rightarrow> u64 \<Rightarrow> halt + u8 list" where
  "sdth_signature s h = vread s h 4"

definition sdth_length :: "'a vmm_scheme \<Rightarrow> u64 \<Rightarrow> halt + u32" where
  "sdth_length s h = vread32 s (h + 4)"

definition sdth_revision :: "'a vmm_scheme \<Rightarrow> u64 \<Rightarrow> halt + u8" where
  "sdth_revision s h = vread8 s (h + 8)"

text \<open>
  The root table is the XSDT with entries of 8 bytes if there is one, else the RSDT with
  entries of 4 bytes.  The element count is computed in 64 bits and wraps for a length
  below 36.
\<close>

definition root_table :: "'a acpi_scheme \<Rightarrow> u64 \<times> nat" where
  "root_table s = (if acpi_xsdt s \<noteq> 0 then (acpi_xsdt s, 8) else (acpi_rsdt s, 4))"

definition table_count :: "u32 \<Rightarrow> nat \<Rightarrow> u64" where
  "table_count len w = (ucast len - 36) div of_nat w"

definition table_entry :: "'a vmm_scheme \<Rightarrow> u64 \<Rightarrow> nat \<Rightarrow> nat \<Rightarrow> halt + u64" where
  "table_entry s t w i = bnd (vread s (t + 36 + of_nat (w * i)) w) (\<lambda>bs. Inr (le_word bs))"

section \<open>Finding a table\<close>

text \<open>
  \<open>find_table_loop s t w sig index i n cur\<close> has \<open>n\<close> entries left, starting at number \<open>i\<close>; \<open>cur\<close>
  is \<open>current_index\<close>.  The result is the status and the pointer stored in \<open>*table\<close>, 0 when
  nothing is stored.
\<close>

fun find_table_loop :: "'a vmm_scheme \<Rightarrow> u64 \<Rightarrow> nat \<Rightarrow> u8 list \<Rightarrow> u64 \<Rightarrow> nat \<Rightarrow> nat \<Rightarrow> u64 \<Rightarrow> halt + (u32 \<times> u64)" where
  "find_table_loop s t w sig index i 0 cur = Inr (ACPI_NO_TABLE, 0)"
| "find_table_loop s t w sig index i (Suc n) cur =
    bnd (table_entry s t w i) (\<lambda>e.
    let header = MAP_MEMORY e in
    if header = 0 then Inr (ACPI_MEMORY, 0)
    else
      bnd (sdth_signature s header) (\<lambda>name.
      let cur = (if name = sig then cur + 1 else cur) in
      if index < cur then
        bnd (sdth_length s header) (\<lambda>_. Inr (ACPI_SUCCESS, header))
      else find_table_loop s t w sig index (i + 1) n cur))"

definition acpi_find_table :: "u8 list \<Rightarrow> u64 \<Rightarrow> 'a acpi_scheme \<Rightarrow> halt + (u32 \<times> u64)" where
  "acpi_find_table sig index s =
    (let (t, w) = root_table s
     in bnd (sdth_length s t) (\<lambda>len. find_table_loop s t w sig index 0 (unat (table_count len w)) 0))"

section \<open>Initialisation\<close>

text \<open>In the FADT the 32-bit \<open>dsdt\<close> is at 40, \<open>sci_irq\<close> at 46 and the 64-bit \<open>x_dsdt\<close> at 140.\<close>

definition init_fadt :: "u64 \<Rightarrow> 'a acpi_scheme \<Rightarrow> halt + (u32 \<times> 'a acpi_scheme)" where
  "init_fadt fadt s =
    bnd (sdth_length s fadt) (\<lambda>_.
    let s = s\<lparr>acpi_fadt := MAP_MEMORY (GET_PHYS fadt)\<rparr> in
    if acpi_fadt s = 0 then Inr (ACPI_MEMORY, s)
    else
      bnd (sdth_revision s fadt) (\<lambda>revision.
      bnd (if 2 \<le> revision then vread64 s (fadt + 140) else Inr 0) (\<lambda>x_dsdt.
      bnd (if x_dsdt \<noteq> 0 then Inr x_dsdt else bnd (vread32 s (fadt + 40)) (\<lambda>d. Inr (ucast d))) (\<lambda>dsdt.
      let s = s\<lparr>acpi_dsdt := MAP_MEMORY dsdt\<rparr> in
      if acpi_dsdt s = 0 then Inr (ACPI_MEMORY, s)
      else bnd (sdth_length s (acpi_dsdt s)) (\<lambda>_. Inr (ACPI_SUCCESS, s\<lparr>acpi_dsdt := MAP_MEMORY dsdt\<rparr>))))))"

fun show_tables_loop :: "u64 \<Rightarrow> nat \<Rightarrow> nat \<Rightarrow> nat \<Rightarrow> 'a acpi_scheme \<Rightarrow> halt + (u32 \<times> 'a acpi_scheme)" where
  "show_tables_loop t w i 0 s = Inr (ACPI_SUCCESS, s)"
| "show_tables_loop t w i (Suc n) s =
    bnd (table_entry s t w i) (\<lambda>e.
    let header = MAP_MEMORY e in
    if header = 0 then Inr (ACPI_MEMORY, s)
    else
      bnd (sdth_signature s header) (\<lambda>name.
      if name = [0x46, 0x41, 0x43, 0x50] then
        bnd (init_fadt header s) (\<lambda>(status, s).
          if status \<noteq> ACPI_SUCCESS then Inr (status, s)
          else show_tables_loop t w (i + 1) n s)
      else show_tables_loop t w (i + 1) n s))"

definition show_tables :: "'a acpi_scheme \<Rightarrow> halt + (u32 \<times> 'a acpi_scheme)" where
  "show_tables s =
    (let (t, w) = root_table s
     in bnd (sdth_length s t) (\<lambda>len. show_tables_loop t w 0 (unat (table_count len w)) s))"

text \<open>In the RSDP the revision is at 15, the 32-bit \<open>rsdt\<close> at 16 and the 64-bit \<open>xsdt\<close> at 24.\<close>

definition acpi_init :: "u64 \<Rightarrow> 'a acpi_scheme \<Rightarrow> halt + (u32 \<times> 'a acpi_scheme)" where
  "acpi_init rsdp s =
    (let s = s\<lparr>acpi_rsdp := 0, acpi_rsdt := 0, acpi_xsdt := 0, acpi_fadt := 0, acpi_dsdt := 0\<rparr>
     in bnd (vread8 s (rsdp + 15)) (\<lambda>revision.
        bnd (vread32 s (rsdp + 16)) (\<lambda>rsdt.
        let s = s\<lparr>acpi_rsdp := rsdp, acpi_rsdt := MAP_MEMORY (ucast rsdt)\<rparr> in
        if acpi_rsdt s = 0 then Inr (ACPI_MEMORY, s)
        else
          bnd (sdth_length s (acpi_rsdt s)) (\<lambda>_.
          if revision \<noteq> 0 then
            bnd (vread64 s (rsdp + 24)) (\<lambda>xsdt.
            let s = s\<lparr>acpi_xsdt := MAP_MEMORY xsdt\<rparr> in
            if acpi_xsdt s = 0 then Inr (ACPI_MEMORY, s)
            else bnd (sdth_length s (acpi_xsdt s)) (\<lambda>_. show_tables s))
          else show_tables s))))"

section \<open>Reading tables in the direct map\<close>

text \<open>
  The first 512 GB of physical memory are mapped at \<open>PHYSICAL_MEMORY\<close>; reads of tables there
  return the bytes of physical memory.
\<close>

definition in_direct_map :: "u64 \<Rightarrow> nat \<Rightarrow> bool" where
  "in_direct_map a n \<longleftrightarrow> unat a + n \<le> 2 ^ 39"

lemma vread_direct: "in_direct_map a n \<Longrightarrow> vread s (MAP_MEMORY a) n = Inr (load (mem s) a n)"
proof (induction n arbitrary: a)
  case 0
  then show ?case by (simp add: load_def)
next
  case (Suc n)
  have a: "unat a + Suc n \<le> 2 ^ 39" using Suc.prems by (simp add: in_direct_map_def)
  then have u: "unat (MAP_MEMORY a) = unat a + unat PHYSICAL_MEMORY" "unat (a + 1) = unat a + 1"
    using unat_add_less[of a PHYSICAL_MEMORY] unat_add_less[of a 1] by (simp_all add: MAP_MEMORY_def PHYSICAL_MEMORY_def)
  then have "vmm_get_physical s (MAP_MEMORY a) = Some a"
    using a by (simp add: vmm_get_physical_def word_le_nat_alt word_less_nat_alt MMIO_REGION_def PHYSICAL_MEMORY_def)
      (simp add: MAP_MEMORY_def PHYSICAL_MEMORY_def)
  moreover have "MAP_MEMORY a + 1 = MAP_MEMORY (a + 1)" by (simp add: MAP_MEMORY_def)
  moreover have "in_direct_map (a + 1) n" using a u by (simp add: in_direct_map_def)
  ultimately show ?case using Suc.IH[of "a + 1"] by (simp add: vread8_def load_Suc)
qed

lemma MAP_MEMORY_add: "MAP_MEMORY a + b = MAP_MEMORY (a + b)"
  by (simp add: MAP_MEMORY_def)

lemma MAP_MEMORY_nonzero: "in_direct_map a n \<Longrightarrow> MAP_MEMORY a \<noteq> 0"
proof
  assume "in_direct_map a n" "MAP_MEMORY a = 0"
  then have "unat (a + PHYSICAL_MEMORY) = unat a + unat PHYSICAL_MEMORY" "unat (a + PHYSICAL_MEMORY) = 0"
    using unat_add_less[of a PHYSICAL_MEMORY] by (auto simp: in_direct_map_def MAP_MEMORY_def PHYSICAL_MEMORY_def)
  then show False by (simp add: PHYSICAL_MEMORY_def)
qed

lemma in_direct_map_part:
  assumes "in_direct_map a n" and "k + m \<le> n"
  shows "in_direct_map (a + of_nat k) m" and "unat (a + of_nat k) = unat a + k"
  using assms unat_add_nat[of a k] by (simp_all add: in_direct_map_def)

text \<open>The tables a root table at the physical address \<open>r\<close> lists, as a list of physical addresses.\<close>

definition table_list :: "memory \<Rightarrow> u64 \<Rightarrow> nat \<Rightarrow> u64 list" where
  "table_list m r w =
    map (\<lambda>i. le_word (load m (r + 36 + of_nat (w * i)) w))
      [0..<unat (table_count (ucast (le_word (load m (r + 4) 4))) w)]"

definition tables_mapped :: "memory \<Rightarrow> u64 \<Rightarrow> nat \<Rightarrow> bool" where
  "tables_mapped m r w \<longleftrightarrow> in_direct_map r (36 + w * length (table_list m r w)) \<and>
    (\<forall>a \<in> set (table_list m r w). in_direct_map a 36)"

definition has_signature :: "memory \<Rightarrow> u8 list \<Rightarrow> u64 \<Rightarrow> bool" where
  "has_signature m sig a \<longleftrightarrow> load m a 4 = sig"

lemma table_entry_direct:
  assumes "in_direct_map r (36 + w * n)" and "i < n"
  shows "table_entry s (MAP_MEMORY r) w i = Inr (le_word (load (mem s) (r + 36 + of_nat (w * i)) w))"
proof -
  have "w * i + w \<le> w * n" using assms(2) by (metis Suc_leI mult_Suc_right mult_le_mono2 add.commute)
  then have "in_direct_map (r + of_nat (36 + w * i)) w"
    using in_direct_map_part(1)[OF assms(1), of "36 + w * i" w] by simp
  then have "in_direct_map (r + 36 + of_nat (w * i)) w" by (simp add: algebra_simps)
  then show ?thesis by (simp add: table_entry_def MAP_MEMORY_add vread_direct)
qed

lemma sdth_direct:
  assumes "in_direct_map a 36"
  shows "sdth_signature s (MAP_MEMORY a) = Inr (load (mem s) a 4)"
    and "sdth_length s (MAP_MEMORY a) = Inr (ucast (le_word (load (mem s) (a + 4) 4)))"
  using in_direct_map_part(1)[OF assms, of 0 4] in_direct_map_part(1)[OF assms, of 4 4]
  by (simp_all add: sdth_signature_def sdth_length_def vread32_def MAP_MEMORY_add vread_direct)

lemma find_table_loop_nth:
  assumes map: "tables_mapped (mem s) r w" and len: "i + n = length (table_list (mem s) r w)"
    and "cur \<le> index" and small: "unat cur + n < 2 ^ 64"
  shows "find_table_loop s (MAP_MEMORY r) w sig index i n cur =
    (let ms = filter (has_signature (mem s) sig) (drop i (table_list (mem s) r w)); k = unat (index - cur)
     in if k < length ms then Inr (ACPI_SUCCESS, MAP_MEMORY (ms ! k)) else Inr (ACPI_NO_TABLE, 0))"
  using len assms(3,4)
proof (induction n arbitrary: i cur)
  case 0
  then show ?case by simp
next
  case (Suc n)
  let ?ts = "table_list (mem s) r w"
  define e where "e = ?ts ! i"
  have i: "i < length ?ts" using Suc.prems by simp
  have dm: "in_direct_map r (36 + w * length ?ts)" "in_direct_map e 36"
    using map i by (auto simp: tables_mapped_def e_def)
  have ent: "table_entry s (MAP_MEMORY r) w i = Inr e"
    using table_entry_direct[OF dm(1) i] i by (simp add: e_def table_list_def)
  have drop: "drop i ?ts = e # drop (i + 1) ?ts" using i by (simp add: e_def Cons_nth_drop_Suc)
  let ?next = "\<lambda>cur. find_table_loop s (MAP_MEMORY r) w sig index (i + 1) n cur"
  have unf: "find_table_loop s (MAP_MEMORY r) w sig index i (Suc n) cur =
    (let cur = (if has_signature (mem s) sig e then cur + 1 else cur)
     in if index < cur then Inr (ACPI_SUCCESS, MAP_MEMORY e) else ?next cur)"
    using ent MAP_MEMORY_nonzero[OF dm(2)] by (simp add: sdth_direct[OF dm(2)] has_signature_def Let_def)
  show ?case
  proof (cases "has_signature (mem s) sig e")
    case False
    then show ?thesis using unf Suc.IH[of "i + 1" cur] Suc.prems drop leD[OF Suc.prems(2)] by simp
  next
    case True
    have u: "unat (cur + 1) = unat cur + 1" using Suc.prems(3) unat_add_less[of cur 1] by simp
    show ?thesis
    proof (cases "cur = index")
      case eq: True
      then have "index < cur + 1" using u by (simp add: word_less_nat_alt)
      then show ?thesis using unf True drop eq by simp
    next
      case False
      then have lt: "cur < index" using Suc.prems(2) by simp
      then have "cur + 1 \<le> index" using u by (simp add: word_le_nat_alt word_less_nat_alt)
      moreover have "unat (index - cur) = Suc (unat (index - (cur + 1)))"
        using lt u \<open>cur + 1 \<le> index\<close> by (simp add: unat_sub word_less_nat_alt word_le_nat_alt unat_sub_if')
      moreover have "?next (cur + 1) =
          (let ms = filter (has_signature (mem s) sig) (drop (i + 1) ?ts); k = unat (index - (cur + 1))
           in if k < length ms then Inr (ACPI_SUCCESS, MAP_MEMORY (ms ! k)) else Inr (ACPI_NO_TABLE, 0))"
        using Suc.prems u calculation(1) by (intro Suc.IH) auto
      ultimately show ?thesis unfolding unf using True drop leD[of "cur + 1" index] by (simp add: Let_def)
    qed
  qed
qed

lemma find_table_nth:
  assumes "root_table s = (MAP_MEMORY r, w)" and "tables_mapped (mem s) r w"
  shows "acpi_find_table sig index s =
    (let ms = filter (has_signature (mem s) sig) (table_list (mem s) r w)
     in if unat index < length ms then Inr (ACPI_SUCCESS, MAP_MEMORY (ms ! unat index))
        else Inr (ACPI_NO_TABLE, 0))"
proof -
  let ?ts = "table_list (mem s) r w"
  have "in_direct_map r 36" using assms(2) by (auto simp: tables_mapped_def in_direct_map_def)
  note len = sdth_direct(2)[OF this]
  have n: "unat (table_count (ucast (le_word (load (mem s) (r + 4) 4))) w) = length ?ts" by (simp add: table_list_def)
  have "length ?ts < 2 ^ 64" unfolding n[symmetric] using unat_less_size by simp
  then show ?thesis
    using find_table_loop_nth[OF assms(2), of 0 "length ?ts" 0 index sig]
    by (simp add: acpi_find_table_def assms(1) len n Let_def)
qed

section \<open>Tables that stay where they are\<close>

text \<open>The root table at \<open>r\<close> and the headers it lists lie between \<open>lo\<close> and \<open>hi\<close>; \<open>m'\<close> has the same bytes there.\<close>

definition acpi_layout :: "memory \<Rightarrow> nat \<Rightarrow> nat \<Rightarrow> u64 \<Rightarrow> nat \<Rightarrow> bool" where
  "acpi_layout m lo hi r w \<longleftrightarrow> tables_mapped m r w \<and> hi \<le> 2 ^ 39 \<and> lo \<le> unat r \<and> unat r + 36 + w * length (table_list m r w) \<le> hi \<and>
    (\<forall>a \<in> set (table_list m r w). lo \<le> unat a \<and> unat a + 36 \<le> hi)"

definition agree :: "nat \<Rightarrow> nat \<Rightarrow> memory \<Rightarrow> memory \<Rightarrow> bool" where
  "agree lo hi m m' \<longleftrightarrow> (\<forall>x. lo \<le> unat x \<longrightarrow> unat x < hi \<longrightarrow> m' x = m x)"

lemma load_agree:
  assumes "agree lo hi m m'" and "lo \<le> unat a" and "unat a + n \<le> hi" and "hi \<le> 2 ^ 39"
  shows "load m' a n = load m a n"
proof -
  have "m' (a + of_nat i) = m (a + of_nat i)" if "i < n" for i
    using assms that unat_add_nat[of a i] by (simp add: agree_def)
  then show ?thesis by (simp add: load_def)
qed

lemma layout_agree:
  assumes a: "agree lo hi m m'" and l: "acpi_layout m lo hi r w"
  shows "acpi_layout m' lo hi r w" and "table_list m' r w = table_list m r w"
    and "filter (has_signature m' sig) (table_list m r w) = filter (has_signature m sig) (table_list m r w)"
proof -
  have b: "hi \<le> 2 ^ 39" "lo \<le> unat r" "unat r + 36 + w * length (table_list m r w) \<le> hi" using l by (auto simp: acpi_layout_def)
  define n where "n = unat (table_count (ucast (le_word (load m (r + 4) 4))) w)"
  have len: "length (table_list m r w) = n" by (simp add: table_list_def n_def)
  have "load m' (r + 4) 4 = load m (r + 4) 4" using b unat_add_nat[of r 4] by (intro load_agree[OF a]) simp_all
  moreover have "load m' (r + 36 + of_nat (w * i)) w = load m (r + 36 + of_nat (w * i)) w" if "i < n" for i
  proof -
    have "w * i + w \<le> w * n" using that by (metis Suc_leI mult_Suc_right mult_le_mono2 add.commute)
    then have "unat r + (36 + w * i) + w \<le> hi" using b len by simp
    moreover have "unat (r + of_nat (36 + w * i)) = unat r + (36 + w * i)" using calculation b by (intro unat_add_nat) simp
    ultimately show ?thesis using b by (intro load_agree[OF a]) (simp_all add: add.assoc)
  qed
  ultimately show tl: "table_list m' r w = table_list m r w" by (simp add: table_list_def n_def)
  show "acpi_layout m' lo hi r w" using l by (simp add: acpi_layout_def tables_mapped_def tl)
  have "has_signature m' sig x = has_signature m sig x" if "x \<in> set (table_list m r w)" for x
  proof -
    have "lo \<le> unat x" "unat x + 36 \<le> hi" using l that by (auto simp: acpi_layout_def)
    then show ?thesis using b(1) load_agree[OF a, of x 4] by (simp add: has_signature_def)
  qed
  then show "filter (has_signature m' sig) (table_list m r w) = filter (has_signature m sig) (table_list m r w)"
    by (rule filter_cong[OF refl])
qed

text \<open>C37: with the root table and the tables it lists inside the direct map, \<open>acpi_find_table\<close>
  returns, and it is indexing into the list of tables that carry the signature, in the order of
  the root table: the pointer to the \<open>index\<close>-th of them if there is one, else
  \<open>ACPI_NO_TABLE\<close>.\<close>

theorem acpi_find_table_indexes_matches:
  assumes "root_table s = (MAP_MEMORY r, w)" and "tables_mapped (mem s) r w"
  shows "acpi_find_table sig index s =
    (let ms = filter (has_signature (mem s) sig) (table_list (mem s) r w)
     in if unat index < length ms then Inr (ACPI_SUCCESS, MAP_MEMORY (ms ! unat index))
        else Inr (ACPI_NO_TABLE, 0))"
  using assms by (rule find_table_nth)

text \<open>A machine with an XSDT at 0x1000 that lists an MADT at 0x2000 and a FADT at 0x3000.\<close>

definition acpi_memory :: memory where
  "acpi_memory a =
    (if a = 0x1004 then 52 else if a = 0x1025 then 0x20 else if a = 0x102D then 0x30
     else if a = 0x2000 then 0x41 else if a = 0x2001 then 0x50 else if a = 0x2002 then 0x49 else if a = 0x2003 then 0x43
     else if a = 0x3000 then 0x46 else if a = 0x3001 then 0x41 else if a = 0x3002 then 0x43 else if a = 0x3003 then 0x50
     else 0)"

definition acpi_machine :: acpi where
  "acpi_machine = cpu_tables.extend (small_tables\<lparr>mem := acpi_memory\<rparr>)
    \<lparr>acpi_rsdp = 0, acpi_rsdt = 0, acpi_xsdt = MAP_MEMORY 0x1000, acpi_fadt = 0, acpi_dsdt = 0\<rparr>"

lemma acpi_machine_tables:
  "root_table acpi_machine = (MAP_MEMORY 0x1000, 8)" "mem acpi_machine = acpi_memory"
  "table_list acpi_memory 0x1000 8 = [0x2000, 0x3000]"
proof -
  show "root_table acpi_machine = (MAP_MEMORY 0x1000, 8)" "mem acpi_machine = acpi_memory"
    by (simp_all add: root_table_def acpi_machine_def cpu_tables.defs MAP_MEMORY_def PHYSICAL_MEMORY_def)
  show "table_list acpi_memory 0x1000 8 = [0x2000, 0x3000]"
    by (simp add: table_list_def table_count_def load_def acpi_memory_def upt_rec)
qed

theorem acpi_find_table_indexes_matches_witness:
  "acpi_find_table [0x46, 0x41, 0x43, 0x50] 0 acpi_machine = Inr (ACPI_SUCCESS, MAP_MEMORY 0x3000)"
proof -
  have "tables_mapped (mem acpi_machine) 0x1000 8"
    by (simp add: tables_mapped_def acpi_machine_tables in_direct_map_def)
  note f = acpi_find_table_indexes_matches[OF acpi_machine_tables(1) this]
  have "filter (has_signature acpi_memory [0x46, 0x41, 0x43, 0x50]) [0x2000, 0x3000] = [0x3000]"
    by (simp add: has_signature_def load_def acpi_memory_def upt_rec)
  then show ?thesis unfolding f by (simp add: acpi_machine_tables)
qed

end
