(* ===== verification/Apic.thy ===== *)
theory Apic
  imports Acpi
begin

text \<open>
  Interrupt controllers and processors: \<open>kernel/src/apic/lapic.c\<close>,
  \<open>kernel/src/apic/ioapic.c\<close> and \<open>kernel/src/apic/apic.c\<close>.  The arrays \<open>cpus\<close>, \<open>ioapics\<close> and
  \<open>overrides\<close> are blocks \<open>kcalloc\<close> returned, kept as lists of the length allocated; storing
  behind their end is \<open>Overrun\<close>.  The log output is left out.
\<close>

section \<open>Constants and state\<close>

definition MAX_CPUS :: nat where "MAX_CPUS = 256"
definition MAX_IOAPICS :: nat where "MAX_IOAPICS = 16"
definition MAX_OVERRIDES :: nat where "MAX_OVERRIDES = 16"

definition MADT_CPU :: u8 where "MADT_CPU = 0"
definition MADT_IOAPIC :: u8 where "MADT_IOAPIC = 1"
definition MADT_OVERRIDE :: u8 where "MADT_OVERRIDE = 2"

definition ACTIVE_LOW :: u8 where "ACTIVE_LOW = 0x0002"
definition LEVEL :: u8 where "LEVEL = 0x0008"
definition ACTIVE_HIGH :: u8 where "ACTIVE_HIGH = 0"
definition EDGE :: u8 where "EDGE = 0"

definition IRQ_BASE :: u8 where "IRQ_BASE = 0x30"
definition PIC_BASE :: u8 where "PIC_BASE = 0x20"

definition IA32_APIC_BASE :: u32 where "IA32_APIC_BASE = 0x1B"
definition IA32_APIC_BASE_ENABLED :: u64 where "IA32_APIC_BASE_ENABLED = push_bit 11 1"

definition LAPIC_TPR :: u64 where "LAPIC_TPR = 0x80"
definition LAPIC_EOI :: u64 where "LAPIC_EOI = 0xB0"
definition LAPIC_SPURIOUS :: u64 where "LAPIC_SPURIOUS = 0xF0"
definition LAPIC_COMMAND_LOW :: u64 where "LAPIC_COMMAND_LOW = 0x300"
definition LAPIC_COMMAND_HIGH :: u64 where "LAPIC_COMMAND_HIGH = 0x310"
definition LAPIC_SPURIOUS_ENABLE :: u32 where "LAPIC_SPURIOUS_ENABLE = push_bit 8 1"

definition IOAPIC_VERSION :: u32 where "IOAPIC_VERSION = 1"
definition IOAPIC_TABLES :: u32 where "IOAPIC_TABLES = 16"
definition IOAPIC_ACTIVE_LOW :: u64 where "IOAPIC_ACTIVE_LOW = push_bit 13 1"
definition IOAPIC_LEVEL :: u64 where "IOAPIC_LEVEL = push_bit 15 1"
definition IOAPIC_MASK :: u64 where "IOAPIC_MASK = push_bit 16 1"

text \<open>\<open>vendor\<close>, \<open>model\<close> and \<open>clockspeed\<close> of \<open>cpu_t\<close> are never accessed.\<close>

record cpu_t =
  cpu_apic_id :: u8
  cpu_acpi_id :: u8
  cpu_pid :: u32
  cpu_tid :: u32
  cpu_sys_ready :: u32

record ioapic_t =
  ioapic_id :: u8
  gsi_start :: u32
  gsi_end :: u32
  mmio_phys :: u64
  ioapic_mmio :: u64

record override_t =
  override_source :: u8
  override_destination :: u8
  override_flags :: u16

definition zero_cpu :: cpu_t where
  "zero_cpu = \<lparr>cpu_apic_id = 0, cpu_acpi_id = 0, cpu_pid = 0, cpu_tid = 0, cpu_sys_ready = 0\<rparr>"

definition zero_ioapic :: ioapic_t where
  "zero_ioapic = \<lparr>ioapic_id = 0, gsi_start = 0, gsi_end = 0, mmio_phys = 0, ioapic_mmio = 0\<rparr>"

definition zero_override :: override_t where
  "zero_override = \<lparr>override_source = 0, override_destination = 0, override_flags = 0\<rparr>"

record apic = acpi +
  madt :: u64
  cpus :: "cpu_t list"
  ioapics :: "ioapic_t list"
  overrides :: "override_t list"
  cpu_count :: u64
  ioapic_count :: u64
  override_count :: u64
  cpu_slot_count :: u64
  lapic_physical :: u64
  lapic :: u64
  pic_spurious :: u64
  lapic_spurious_count :: u64

section \<open>The local APIC\<close>

definition lapic_read :: "devices \<Rightarrow> u64 \<Rightarrow> 'a apic_scheme \<Rightarrow> halt + (u32 \<times> 'a apic_scheme)" where
  "lapic_read d index s = mmio_read d (lapic s + index) s"

definition lapic_write :: "u64 \<Rightarrow> u32 \<Rightarrow> 'a apic_scheme \<Rightarrow> halt + 'a apic_scheme" where
  "lapic_write index x s = mmio_write (lapic s + index) x s"

definition lapic_configure :: "u64 \<Rightarrow> 'a apic_scheme \<Rightarrow> halt + 'a apic_scheme" where
  "lapic_configure lapic_spurious_stub s =
    bnd (idt_install 0xFF lapic_spurious_stub s) (\<lambda>s.
    bnd (lapic_write LAPIC_SPURIOUS (LAPIC_SPURIOUS_ENABLE OR 0xFF) s) (\<lambda>s.
    bnd (lapic_write LAPIC_TPR 0 s) (\<lambda>s.
    lapic_write LAPIC_EOI 0 s)))"

definition lapic_spurious :: "'a apic_scheme \<Rightarrow> 'a apic_scheme" where
  "lapic_spurious s = s\<lparr>lapic_spurious_count := lapic_spurious_count s + 1\<rparr>"

definition lapic_eoi :: "'a apic_scheme \<Rightarrow> halt + 'a apic_scheme" where
  "lapic_eoi s = lapic_write LAPIC_EOI 0 s"

section \<open>The I/O APICs\<close>

text \<open>Indexing an array that \<open>kcalloc\<close> returned.\<close>

definition elem :: "'b list \<Rightarrow> u64 \<Rightarrow> halt + 'b" where
  "elem xs i = (if unat i < length xs then Inr (xs ! unat i) else Inl Overrun)"

definition ioapic_read :: "devices \<Rightarrow> u64 \<Rightarrow> u32 \<Rightarrow> 'a apic_scheme \<Rightarrow> halt + (u32 \<times> 'a apic_scheme)" where
  "ioapic_read d i index s =
    bnd (elem (ioapics s) i) (\<lambda>a.
    bnd (mmio_write (ioapic_mmio a) index s) (\<lambda>s.
    mmio_read d (ioapic_mmio a + 16) s))"

definition ioapic_write :: "u64 \<Rightarrow> u32 \<Rightarrow> u32 \<Rightarrow> 'a apic_scheme \<Rightarrow> halt + 'a apic_scheme" where
  "ioapic_write i index x s =
    bnd (elem (ioapics s) i) (\<lambda>a.
    bnd (mmio_write (ioapic_mmio a) index s) (\<lambda>s.
    mmio_write (ioapic_mmio a + 16) x s))"

text \<open>The highest redirection entry: \<open>(ioapic_read(i, IOAPIC_VERSION) >> 16) & 0xFF\<close>.\<close>

definition ioapic_max :: "devices \<Rightarrow> u64 \<Rightarrow> 'a apic_scheme \<Rightarrow> halt + (u32 \<times> 'a apic_scheme)" where
  "ioapic_max d i s = bnd (ioapic_read d i IOAPIC_VERSION s) (\<lambda>(v, s). Inr (drop_bit 16 v AND 0xFF, s))"

definition ioapic_init_entry :: "u64 \<Rightarrow> nat \<Rightarrow> 'a apic_scheme \<Rightarrow> halt + 'a apic_scheme" where
  "ioapic_init_entry i j s =
    bnd (elem (ioapics s) i) (\<lambda>a.
    let config = (ucast (gsi_start a + ucast IRQ_BASE) :: u64) + of_nat j;
        config = config OR IOAPIC_MASK;
        index = of_nat (j * 2) + IOAPIC_TABLES
    in bnd (ioapic_write i index (ucast config) s) (\<lambda>s.
       ioapic_write i (index + 1) (ucast (drop_bit 32 config)) s))"

definition ioapic_init :: "devices \<Rightarrow> 'a apic_scheme \<Rightarrow> halt + 'a apic_scheme" where
  "ioapic_init d s =
    fold_res (\<lambda>i s.
      bnd (ioapic_max d (of_nat i) s) (\<lambda>(max_irq, s).
      fold_res (ioapic_init_entry (of_nat i)) [0..<unat max_irq + 1] s))
      [0..<unat (ioapic_count s)] s"

definition get_ioapic :: "'a apic_scheme \<Rightarrow> u8 \<Rightarrow> u64" where
  "get_ioapic s gsi =
    (case filter (\<lambda>i. gsi_start (ioapics s ! i) \<le> ucast gsi \<and> ucast gsi \<le> gsi_end (ioapics s ! i))
       [0..<unat (ioapic_count s)] of
       [] \<Rightarrow> 0xFF | i # _ \<Rightarrow> of_nat i)"

text \<open>The first override of the line; its 16-bit flags are cut to the 8 bits of the parameter.\<close>

definition find_override :: "'a apic_scheme \<Rightarrow> u8 \<Rightarrow> u8 \<Rightarrow> u8 \<times> u8" where
  "find_override s line flags =
    (case filter (\<lambda>v. override_source v = line) (take (unat (override_count s)) (overrides s)) of
       [] \<Rightarrow> (line, flags)
     | v # _ \<Rightarrow> (override_destination v, ucast (override_flags v)))"

definition irq_config :: "u8 \<Rightarrow> u64 \<Rightarrow> u64" where
  "irq_config flags config =
    (let config = (if flags AND ACTIVE_LOW \<noteq> 0 then config OR IOAPIC_ACTIVE_LOW else config AND NOT IOAPIC_ACTIVE_LOW)
     in if flags AND LEVEL \<noteq> 0 then config OR IOAPIC_LEVEL else config AND NOT IOAPIC_LEVEL)"

definition irq_configure ::
  "devices \<Rightarrow> u8 \<Rightarrow> u64 \<Rightarrow> u8 \<Rightarrow> 'a apic_scheme \<Rightarrow> halt + (u8 \<times> 'a apic_scheme)" where
  "irq_configure d line0 handler flags0 s =
    (let (line, flags) = find_override s line0 flags0;
         ioapic = get_ioapic s line
     in if ioapic_count s < ioapic then Inr (0xFF, s)
        else
          let index = IOAPIC_TABLES + ucast line * 2
          in bnd (idt_install (line + IRQ_BASE) handler s) (\<lambda>s.
             bnd (ioapic_read d ioapic index s) (\<lambda>(low, s).
             bnd (ioapic_read d ioapic (index + 1) s) (\<lambda>(high, s).
             let config = irq_config flags (ucast low OR push_bit 32 (ucast high))
             in bnd (ioapic_write ioapic index (ucast config) s) (\<lambda>s.
                bnd (ioapic_write ioapic (index + 1) (ucast (drop_bit 32 config)) s) (\<lambda>s.
                Inr (line, s)))))))"

definition irq_mask :: "devices \<Rightarrow> u8 \<Rightarrow> 'a apic_scheme \<Rightarrow> halt + 'a apic_scheme" where
  "irq_mask d line s =
    (let ioapic = get_ioapic s line; index = IOAPIC_TABLES + ucast line * 2
     in if ioapic_count s < ioapic then Inr s
        else bnd (ioapic_read d ioapic index s) (\<lambda>(config, s).
             ioapic_write ioapic index (config OR ucast IOAPIC_MASK) s))"

definition irq_unmask :: "devices \<Rightarrow> u8 \<Rightarrow> 'a apic_scheme \<Rightarrow> halt + 'a apic_scheme" where
  "irq_unmask d line s =
    (let ioapic = get_ioapic s line; index = IOAPIC_TABLES + ucast line * 2
     in if ioapic_count s < ioapic then Inr s
        else bnd (ioapic_read d ioapic index s) (\<lambda>(config, s).
             ioapic_write ioapic index (config AND NOT (ucast IOAPIC_MASK)) s))"

section \<open>The MADT\<close>

text \<open>
  The entries of the table are read at the pointer \<open>p\<close>.  A processor entry has the ACPI id at 2,
  the APIC id at 3 and the flags at 4; an I/O APIC entry has the APIC id at 2, the address at
  4 and the first interrupt at 8; an override has the source at 3, the destination at 4 and
  the flags at 8.
\<close>

definition create_cpu :: "u64 \<Rightarrow> 'a apic_scheme \<Rightarrow> halt + 'a apic_scheme" where
  "create_cpu p s =
    bnd (vread8 s (p + 2)) (\<lambda>acpi_id.
    bnd (vread8 s (p + 3)) (\<lambda>apic_id.
    bnd (vread32 s (p + 4)) (\<lambda>flags.
    let s = s\<lparr>cpu_slot_count := cpu_slot_count s + 1\<rparr> in
    if flags AND 1 \<noteq> 0 then
      bnd (elem (cpus s) (cpu_count s)) (\<lambda>c.
      Inr (s\<lparr>cpus := (cpus s)[unat (cpu_count s) := c\<lparr>cpu_apic_id := apic_id, cpu_acpi_id := acpi_id\<rparr>],
             cpu_count := cpu_count s + 1\<rparr>))
    else Inr s)))"

definition create_ioapic :: "devices \<Rightarrow> u64 \<Rightarrow> 'a apic_scheme \<Rightarrow> halt + 'a apic_scheme" where
  "create_ioapic d p s =
    bnd (vread8 s (p + 2)) (\<lambda>apic_id.
    bnd (vread32 s (p + 4)) (\<lambda>mmio.
    bnd (vread32 s (p + 8)) (\<lambda>gsi.
    bnd (elem (ioapics s) (ioapic_count s)) (\<lambda>_.
    bnd (vmm_create_mmio (ucast mmio) 1 [0x69, 0x6F, 0x61, 0x70, 0x69, 0x63] s) (\<lambda>(v, s).
    let a = \<lparr>ioapic_id = apic_id, gsi_start = gsi, gsi_end = gsi, mmio_phys = ucast mmio, ioapic_mmio = v\<rparr>;
        s = s\<lparr>ioapics := (ioapics s)[unat (ioapic_count s) := a]\<rparr>
    in bnd (ioapic_max d (ioapic_count s) s) (\<lambda>(n, s).
       Inr (s\<lparr>ioapics := (ioapics s)[unat (ioapic_count s) := a\<lparr>gsi_end := gsi + n\<rparr>],
              ioapic_count := ioapic_count s + 1\<rparr>)))))))"

definition create_override :: "u64 \<Rightarrow> 'a apic_scheme \<Rightarrow> halt + 'a apic_scheme" where
  "create_override p s =
    bnd (vread8 s (p + 3)) (\<lambda>irq.
    bnd (vread32 s (p + 4)) (\<lambda>gsi.
    bnd (vread16 s (p + 8)) (\<lambda>flags.
    bnd (elem (overrides s) (override_count s)) (\<lambda>_.
    Inr (s\<lparr>overrides := (overrides s)[unat (override_count s) :=
             \<lparr>override_source = irq, override_destination = ucast gsi, override_flags = flags\<rparr>],
           override_count := override_count s + 1\<rparr>)))))"

definition madt_entry :: "devices \<Rightarrow> u8 \<Rightarrow> u64 \<Rightarrow> 'a apic_scheme \<Rightarrow> halt + 'a apic_scheme" where
  "madt_entry d type p s =
    (if type = MADT_CPU then create_cpu p s
     else if type = MADT_IOAPIC then create_ioapic d p s
     else if type = MADT_OVERRIDE then create_override p s
     else Inr s)"

partial_function (option) madt_loop ::
  "devices \<Rightarrow> u64 \<Rightarrow> u64 \<Rightarrow> 'a apic_scheme \<Rightarrow> (halt + 'a apic_scheme) option" where
  "madt_loop d p e s =
    (if p < e then
       case vread s p 2 of
         Inl h \<Rightarrow> Some (Inl h)
       | Inr bs \<Rightarrow>
           if bs ! 1 \<le> 2 then Some (Inr s)
           else case madt_entry d (bs ! 0) p s of
                  Inl h \<Rightarrow> Some (Inl h)
                | Inr s \<Rightarrow>
                    (case vread8 s (p + 1) of
                       Inl h \<Rightarrow> Some (Inl h)
                     | Inr len \<Rightarrow> madt_loop d (p + ucast len) e s)
     else Some (Inr s))"

declare madt_loop.simps [code]

section \<open>Initialisation\<close>

definition pic_remap :: "'a machine_scheme \<Rightarrow> 'a machine_scheme" where
  "pic_remap =
    outb 0xA1 0xFF \<circ> outb 0x21 0xFB \<circ> outb 0xA1 1 \<circ> outb 0x21 1 \<circ> outb 0xA1 2 \<circ> outb 0x21 4 \<circ>
    outb 0xA1 (PIC_BASE + 8) \<circ> outb 0x21 PIC_BASE \<circ> outb 0xA0 0x11 \<circ> outb 0x20 0x11"

text \<open>
  The three blocks hold 256 processors of 112 bytes, 16 I/O APICs of 32 bytes and 16 overrides
  of 4 bytes.  \<open>pic0\<close>, \<open>pic1\<close> and \<open>spurious\<close> are the addresses of the interrupt stubs; the
  string is the signature of the MADT, \<open>APIC\<close>.
\<close>

definition apic_init :: "devices \<Rightarrow> u64 \<Rightarrow> u64 \<Rightarrow> u64 \<Rightarrow> 'a apic_scheme \<Rightarrow> halt + 'a apic_scheme" where
  "apic_init d pic0 pic1 spurious s =
    bnd (kcalloc 112 (of_nat MAX_CPUS) s) (\<lambda>(p, s).
    bnd (kcalloc 32 (of_nat MAX_IOAPICS) s) (\<lambda>(q, s).
    bnd (kcalloc 4 (of_nat MAX_OVERRIDES) s) (\<lambda>(r, s).
    let s = s\<lparr>cpu_count := 0, cpu_slot_count := 0, ioapic_count := 0, override_count := 0,
             cpus := replicate MAX_CPUS zero_cpu, ioapics := replicate MAX_IOAPICS zero_ioapic,
             overrides := replicate MAX_OVERRIDES zero_override\<rparr> in
    if p = 0 \<or> q = 0 \<or> r = 0 then Inl (Panic ''unable to allocate memory.'')
    else
      bnd (acpi_find_table [0x41, 0x50, 0x49, 0x43] 0 s) (\<lambda>(status, table).
      if status \<noteq> ACPI_SUCCESS then Inl (Panic ''ACPI MADT table not present.'')
      else
        let s = s\<lparr>madt := table\<rparr> in
        bnd (vread32 s (table + 36)) (\<lambda>local_apic.
        let s = s\<lparr>lapic_physical := ucast local_apic\<rparr> in
        bnd (vmm_create_mmio (lapic_physical s) 1 [0x6C, 0x61, 0x70, 0x69, 0x63] s) (\<lambda>(v, s).
        let s = s\<lparr>lapic := v\<rparr>;
            (apic_base, s) = read_msr d IA32_APIC_BASE s;
            apic_base = ((apic_base OR IA32_APIC_BASE_ENABLED) AND 0xFFF) OR lapic_physical s;
            s = write_msr IA32_APIC_BASE apic_base s
        in bnd (sdth_length s table) (\<lambda>len.
           case madt_loop d (table + 44) (table + ucast len - 2) s of
             None \<Rightarrow> Inl Diverges
           | Some res \<Rightarrow>
           bnd res (\<lambda>s.
           if ioapic_count s = 0 then Inl (Panic ''IOAPIC is not present.'')
           else if cpu_count s = 0 then Inl (Panic ''MADT doesn't contain any CPU declarations.'')
           else
             bnd (vread32 s (table + 40)) (\<lambda>flags.
             bnd (if flags AND 1 \<noteq> 0
                  then bnd (idt_install (PIC_BASE + 7) pic0 (pic_remap s)) (idt_install (PIC_BASE + 15) pic1)
                  else Inr s) (\<lambda>s.
             bnd (lapic_configure spurious (emit Sti s)) (ioapic_init d)))))))))))"

definition get_cpu :: "u8 \<Rightarrow> 'a apic_scheme \<Rightarrow> halt + nat" where
  "get_cpu apic_id s =
    (case filter (\<lambda>i. cpu_apic_id (cpus s ! i) = apic_id) [0..<unat (cpu_count s)] of
       [] \<Rightarrow> Inl (Panic ''unable to find local APIC ID'') | i # _ \<Rightarrow> Inr i)"

definition pic0_spurious :: "'a apic_scheme \<Rightarrow> 'a apic_scheme" where
  "pic0_spurious s = s\<lparr>pic_spurious := pic_spurious s + 1\<rparr>"

definition pic1_spurious :: "'a apic_scheme \<Rightarrow> 'a apic_scheme" where
  "pic1_spurious s = outb 0x20 0x20 (s\<lparr>pic_spurious := pic_spurious s + 1\<rparr>)"

end
