(* ===== verification/Apic_Properties.thy ===== *)
theory Apic_Properties
  imports Apic Mmio_Budget
begin

text \<open>
  The properties of the interrupt controllers: what \<open>apic_init\<close> collects from the MADT, and what
  the redirection entries of an I/O APIC hold after the interrupt operations.
\<close>

section \<open>The entries of a MADT\<close>

text \<open>
  The reference reading of the table in physical memory: entries follow each other by their
  lengths until the end, or until a length is 2 or less.
\<close>

function madt_list :: "memory \<Rightarrow> nat \<Rightarrow> nat \<Rightarrow> (u8 \<times> u64) list" where
  "madt_list m a e =
    (if a < e \<and> 2 < unat (m (of_nat a + 1))
     then (m (of_nat a), of_nat a) # madt_list m (a + unat (m (of_nat a + 1))) e else [])"
  by pat_completeness auto

termination by (relation "measure (\<lambda>(m, a, e). e - a)") auto

declare madt_list.simps [simp del]

definition field16 :: "memory \<Rightarrow> u64 \<Rightarrow> u16" where "field16 m a = ucast (le_word (load m a 2))"
definition field32 :: "memory \<Rightarrow> u64 \<Rightarrow> u32" where "field32 m a = ucast (le_word (load m a 4))"

definition madt_slots :: "(u8 \<times> u64) list \<Rightarrow> u64 list" where
  "madt_slots es = map snd (filter (\<lambda>(ty, p). ty = MADT_CPU) es)"

definition madt_cpus :: "memory \<Rightarrow> (u8 \<times> u64) list \<Rightarrow> (u8 \<times> u8) list" where
  "madt_cpus m es = map (\<lambda>p. (m (p + 3), m (p + 2))) (filter (\<lambda>p. field32 m (p + 4) AND 1 \<noteq> 0) (madt_slots es))"

definition madt_ioapics :: "memory \<Rightarrow> (u8 \<times> u64) list \<Rightarrow> (u8 \<times> u64 \<times> u32) list" where
  "madt_ioapics m es =
    map (\<lambda>(ty, p). (m (p + 2), ucast (field32 m (p + 4)), field32 m (p + 8))) (filter (\<lambda>(ty, p). ty = MADT_IOAPIC) es)"

definition madt_overrides :: "memory \<Rightarrow> (u8 \<times> u64) list \<Rightarrow> override_t list" where
  "madt_overrides m es =
    map (\<lambda>(ty, p). \<lparr>override_source = m (p + 3), override_destination = ucast (field32 m (p + 4)),
      override_flags = field16 m (p + 8)\<rparr>) (filter (\<lambda>(ty, p). ty = MADT_OVERRIDE) es)"

text \<open>What the arrays and counters of the kernel say.\<close>

definition collected :: "'a apic_scheme \<Rightarrow> nat \<Rightarrow> (u8 \<times> u8) list \<Rightarrow> (u8 \<times> u64 \<times> u32) list \<Rightarrow> override_t list \<Rightarrow> bool" where
  "collected s slots cs ios ovs \<longleftrightarrow>
    length (cpus s) = MAX_CPUS \<and> length (ioapics s) = MAX_IOAPICS \<and> length (overrides s) = MAX_OVERRIDES \<and>
    cpu_slot_count s = of_nat slots \<and>
    cpu_count s = of_nat (length cs) \<and> length cs \<le> MAX_CPUS \<and>
    map (\<lambda>c. (cpu_apic_id c, cpu_acpi_id c)) (take (length cs) (cpus s)) = cs \<and>
    ioapic_count s = of_nat (length ios) \<and> length ios \<le> MAX_IOAPICS \<and>
    map (\<lambda>a. (ioapic_id a, mmio_phys a, gsi_start a)) (take (length ios) (ioapics s)) = ios \<and>
    override_count s = of_nat (length ovs) \<and> length ovs \<le> MAX_OVERRIDES \<and>
    take (length ovs) (overrides s) = ovs"

lemma take_update_snoc: "n < length xs \<Longrightarrow> take (Suc n) (xs[n := x]) = take n xs @ [x]"
  by (simp add: take_Suc_conv_app_nth)

lemma entry_reads:
  assumes "in_direct_map p 16"
  shows "vread8 s (MAP_MEMORY p + 2) = Inr (mem s (p + 2))" "vread8 s (MAP_MEMORY p + 3) = Inr (mem s (p + 3))"
    "vread8 s (MAP_MEMORY p + 1) = Inr (mem s (p + 1))"
    "vread32 s (MAP_MEMORY p + 4) = Inr (field32 (mem s) (p + 4))"
    "vread32 s (MAP_MEMORY p + 8) = Inr (field32 (mem s) (p + 8))"
    "vread16 s (MAP_MEMORY p + 8) = Inr (field16 (mem s) (p + 8))"
    "vread s (MAP_MEMORY p) 2 = Inr [mem s p, mem s (p + 1)]"
proof -
  have d: "in_direct_map (p + of_nat k) n" if "k + n \<le> 16" for k n using in_direct_map_part(1)[OF assms that] .
  have one: "vread8 s (MAP_MEMORY q) = Inr (mem s q)" if "in_direct_map q 1" for q
    using vread_direct[OF that, of s] by (auto simp: bnd_Inr_iff load_def)
  show "vread8 s (MAP_MEMORY p + 2) = Inr (mem s (p + 2))" "vread8 s (MAP_MEMORY p + 3) = Inr (mem s (p + 3))"
    "vread8 s (MAP_MEMORY p + 1) = Inr (mem s (p + 1))"
    using d[of 2 1] d[of 3 1] d[of 1 1] by (simp_all add: MAP_MEMORY_add one)
  show "vread32 s (MAP_MEMORY p + 4) = Inr (field32 (mem s) (p + 4))"
    "vread32 s (MAP_MEMORY p + 8) = Inr (field32 (mem s) (p + 8))"
    "vread16 s (MAP_MEMORY p + 8) = Inr (field16 (mem s) (p + 8))"
    using d[of 4 4] d[of 8 4] d[of 8 2]
    by (simp_all add: MAP_MEMORY_add vread32_def vread16_def vread_direct field32_def field16_def)
  show "vread s (MAP_MEMORY p) 2 = Inr [mem s p, mem s (p + 1)]"
    using d[of 0 2] by (simp add: vread_direct load_def upt_rec)
qed

section \<open>One entry\<close>

text \<open>
  Steps that leave alone the mapped device pages, the memory of others and everything but the three
  arrays, and do not touch devices but to read a version register.
\<close>

abbreviation device_flags :: u64 where
  "device_flags \<equiv> PAGE_PRESENT OR PAGE_WRITE OR PAGE_UNCACHEABLE"

definition device_page :: "'a vmm_scheme \<Rightarrow> u64 \<Rightarrow> u64 \<Rightarrow> bool" where
  "device_page s v phys \<longleftrightarrow> vmm_get_page s v = phys OR device_flags \<and> aligned 4096 v \<and> MMIO_REGION \<le> v \<and> v < KERNEL_HEAP"

definition apic_rest :: "'a apic_scheme \<Rightarrow> _" where
  "apic_rest s = ((gdt_at s, idt_base s, idt s, idtr_at s), (acpi_rsdp s, acpi_rsdt s, acpi_xsdt s, acpi_fadt s, acpi_dsdt s),
    madt s, lapic_physical s, lapic s, pic_spurious s, lapic_spurious_count s, apic.more s)"

definition version_event :: "event \<Rightarrow> bool" where
  "version_event e \<longleftrightarrow> (\<exists>b. aligned 4096 b \<and> e = Mmio_Write b IOAPIC_VERSION) \<or> (\<exists>b. e = Mmio_Read b)"

definition keeps_mm :: "'a apic_scheme \<Rightarrow> 'a apic_scheme \<Rightarrow> bool" where
  "keeps_mm s t \<longleftrightarrow> (\<forall>a. foreign s a \<longrightarrow> foreign t a \<and> mem t a = mem s a) \<and>
    (\<forall>w. MMIO_REGION \<le> w \<longrightarrow> vmm_get_physical s w \<noteq> None \<longrightarrow> vmm_get_page t w = vmm_get_page s w) \<and>
    cr3 t = cr3 s \<and> bsp_pml4 t = bsp_pml4 s \<and> apic_rest t = apic_rest s \<and>
    (\<exists>es. trace t = trace s @ es \<and> (\<forall>e \<in> set es. version_event e))"

lemma keeps_mm_refl [simp]: "keeps_mm s s"
  by (simp add: keeps_mm_def)

lemma mapped_page:
  assumes "MMIO_REGION \<le> w" and "vmm_get_physical s w \<noteq> None" and "vmm_get_page t w = vmm_get_page s w"
  shows "vmm_get_physical t w = vmm_get_physical s w"
  using assms by (auto simp: vmm_get_physical_def Let_def split: if_splits)

lemma keeps_mm_trans:
  assumes "keeps_mm s t" and "keeps_mm t u"
  shows "keeps_mm s u"
proof -
  have pages: "vmm_get_page u w = vmm_get_page s w" if w: "MMIO_REGION \<le> w" "vmm_get_physical s w \<noteq> None" for w
    using assms w mapped_page[OF w, of t] by (simp add: keeps_mm_def)
  obtain es where "trace t = trace s @ es" "\<forall>e \<in> set es. version_event e" using assms(1) by (auto simp: keeps_mm_def)
  moreover obtain es' where "trace u = trace t @ es'" "\<forall>e \<in> set es'. version_event e" using assms(2) by (auto simp: keeps_mm_def)
  ultimately have "\<exists>es. trace u = trace s @ es \<and> (\<forall>e \<in> set es. version_event e)" by (intro exI[of _ "es @ es'"]) auto
  then show ?thesis using assms pages by (simp add: keeps_mm_def)
qed

lemma keeps_mm_core:
  assumes "heap.truncate t = heap.truncate s" and "apic_rest t = apic_rest s" and "trace t = trace s"
  shows "keeps_mm s t"
  using assms core_mmio(2)[OF assms(1)] core_fields[OF assms(1)] core_heap(1)[OF assms(1)] by (simp add: keeps_mm_def)

lemma device_page_physical:
  assumes "device_page s v phys" and "aligned 4096 phys" and "i < 4096"
  shows "vmm_get_physical s (v + of_nat i) = Some (phys + of_nat i)"
proof -
  have "(phys OR device_flags) AND PAGE_MASK = phys"
    using assms(2) by (simp add: bit.conj_disj_distrib2 mask_aligned) (simp add: PAGE_PRESENT_def PAGE_WRITE_def PAGE_UNCACHEABLE_def PAGE_MASK_def)
  then show ?thesis using device_physical[of s v phys i] assms by (simp add: device_page_def)
qed

lemma device_page_keep:
  assumes "device_page s v phys" and "\<And>w. MMIO_REGION \<le> w \<Longrightarrow> vmm_get_physical s w \<noteq> None \<Longrightarrow> vmm_get_page t w = vmm_get_page s w"
  shows "device_page t v phys"
  using assms(1) assms(2)[of v] device_physical[of s v phys 0] by (simp add: device_page_def)

text \<open>The I/O APICs of the array are mapped, and the last interrupt of each is what its version register says.\<close>

definition ioapics_ready :: "(u64 \<Rightarrow> u32) \<Rightarrow> 'a apic_scheme \<Rightarrow> bool" where
  "ioapics_ready V s \<longleftrightarrow> (\<forall>i < unat (ioapic_count s). device_page s (ioapic_mmio (ioapics s ! i)) (mmio_phys (ioapics s ! i)) \<and>
    gsi_end (ioapics s ! i) = gsi_start (ioapics s ! i) + (drop_bit 16 (V (mmio_phys (ioapics s ! i))) AND 0xFF))"

definition version_device :: "devices \<Rightarrow> (u64 \<Rightarrow> u32) \<Rightarrow> u64 \<Rightarrow> bool" where
  "version_device d V phys \<longleftrightarrow> aligned 4096 phys \<and>
    (\<forall>tr. dev_mmio d (tr @ [Mmio_Write phys IOAPIC_VERSION]) (phys + 16) = V phys)"

lemma ioapics_ready_keep:
  assumes "ioapics_ready V s" and "keeps_mm s t" and "ioapics t = ioapics s" and "ioapic_count t = ioapic_count s"
  shows "ioapics_ready V t"
  using assms device_page_keep[of s _ _ t] by (auto simp: ioapics_ready_def keeps_mm_def)

definition untouched :: "'a apic_scheme \<Rightarrow> 'a apic_scheme \<Rightarrow> bool" where
  "untouched s t \<longleftrightarrow> apic_rest t = apic_rest s \<and> trace t = trace s \<and> ioapics t = ioapics s \<and> ioapic_count t = ioapic_count s"

lemma untouched_keeps:
  assumes "heap.truncate t = heap.truncate s" and "untouched s t"
  shows "keeps_mm s t" and "ioapics_ready V s \<Longrightarrow> ioapics_ready V t"
  using keeps_mm_core[OF assms(1)] ioapics_ready_keep[of V s t] assms(2) by (simp_all add: untouched_def)

lemma create_cpu_collects:
  assumes "in_direct_map p 16" and c: "collected s n cs ios ovs"
    and "field32 (mem s) (p + 4) AND 1 \<noteq> 0 \<Longrightarrow> length cs < MAX_CPUS"
  shows "\<exists>t. create_cpu (MAP_MEMORY p) s = Inr t \<and> heap.truncate t = heap.truncate s \<and> untouched s t \<and>
    collected t (n + 1) (if field32 (mem s) (p + 4) AND 1 \<noteq> 0 then cs @ [(mem s (p + 3), mem s (p + 2))] else cs) ios ovs"
proof -
  have u: "unat (of_nat (length cs) :: u64) = length cs" using c by (simp add: collected_def unat_of_nat MAX_CPUS_def)
  show ?thesis
    using assms u
    by (simp add: create_cpu_def entry_reads[OF assms(1)] collected_def elem_def take_update_snoc Let_def
        heap.truncate_def MAX_CPUS_def add.commute untouched_def apic_rest_def) fastforce
qed

lemma create_override_collects:
  assumes "in_direct_map p 16" and c: "collected s n cs ios ovs" and "length ovs < MAX_OVERRIDES"
  shows "\<exists>t. create_override (MAP_MEMORY p) s = Inr t \<and> heap.truncate t = heap.truncate s \<and> untouched s t \<and>
    collected t n cs ios (ovs @ [\<lparr>override_source = mem s (p + 3), override_destination = ucast (field32 (mem s) (p + 4)),
      override_flags = field16 (mem s) (p + 8)\<rparr>])"
proof -
  have u: "unat (of_nat (length ovs) :: u64) = length ovs" using assms(3) by (simp add: unat_of_nat MAX_OVERRIDES_def)
  show ?thesis
    using assms u
    by (simp add: create_override_def entry_reads[OF assms(1)] collected_def elem_def take_update_snoc Let_def
        heap.truncate_def MAX_OVERRIDES_def add.commute untouched_def apic_rest_def)
qed

lemma ioapic_max_mapped:
  assumes "unat i < length (ioapics s)" and "ioapic_mmio (ioapics s ! unat i) = v" and "device_page s v phys" and "version_device d V phys"
  shows "ioapic_max d i s = Inr (drop_bit 16 (V phys) AND 0xFF,
    s\<lparr>trace := trace s @ [Mmio_Write phys IOAPIC_VERSION, Mmio_Read (phys + 16)]\<rparr>)"
proof -
  have al: "aligned 4096 phys" using assms(4) by (simp add: version_device_def)
  have "vmm_get_physical s v = Some phys" "vmm_get_physical s (v + 16) = Some (phys + 16)"
    using device_page_physical[OF assms(3) al, of 0] device_page_physical[OF assms(3) al, of 16] by simp_all
  then show ?thesis using assms(1,2,4)
    by (simp add: ioapic_max_def ioapic_read_def elem_def mmio_write_def mmio_read_def version_device_def) (simp add: emit_def)
qed

lemma create_ioapic_collects:
  assumes p: "in_direct_map p 16" and c: "collected s n cs ios ovs" and "length ios < MAX_IOAPICS"
    and b: "mmio_budget s N" and "0 < N" and ph: "phys = ucast (field32 (mem s) (p + 4))" and dev: "version_device d V phys"
    and r: "ioapics_ready V s"
  shows "\<exists>t. create_ioapic d (MAP_MEMORY p) s = Inr t \<and> mmio_budget t (N - 1) \<and> keeps_mm s t \<and> ioapics_ready V t \<and>
    (\<forall>M. heap_budget s M \<and> 0 < M \<longrightarrow> heap_budget t (M - 1)) \<and>
    collected t n cs (ios @ [(mem s (p + 2), phys, field32 (mem s) (p + 8))]) ovs"
proof -
  let ?n = "length ios" and ?gsi = "field32 (mem s) (p + 8)" and ?x = "drop_bit 16 (V phys) AND 0xFF"
  have u: "unat (of_nat ?n :: u64) = ?n" "unat (of_nat ?n + 1 :: u64) = ?n + 1"
    using assms(3) unat_of_nat_small[of ?n] unat_of_nat_small[of "?n + 1"] by (simp_all add: MAX_IOAPICS_def add.commute)
  obtain v w where w: "vmm_create_mmio phys 1 [0x69, 0x6F, 0x61, 0x70, 0x69, 0x63] s = Inr (v, w)"
    "mmio_budget w (N - 1)" "mmio_step s w" and pg: "device_page w v phys"
    and hb: "\<forall>M. heap_budget s M \<and> 0 < M \<longrightarrow> heap_budget w (M - 1)"
    by (rule create_mmio_page[OF b \<open>0 < N\<close>, of "[0x69, 0x6F, 0x61, 0x70, 0x69, 0x63]" phys]) (auto simp: device_page_def)
  have mo: "ioapics w = ioapics s" "ioapic_count w = ioapic_count s" "collected w n cs ios ovs" "apic_rest w = apic_rest s" "trace w = trace s"
    using w(3) c by (cases w, cases s, simp add: mmio_step_def collected_def apic_rest_def)+
  have len: "length (ioapics s) = MAX_IOAPICS" "ioapic_count s = of_nat ?n" using c by (auto simp: collected_def)
  let ?a = "\<lparr>ioapic_id = mem s (p + 2), gsi_start = ?gsi, gsi_end = ?gsi, mmio_phys = phys, ioapic_mmio = v\<rparr>"
  let ?w = "w\<lparr>ioapics := (ioapics s)[?n := ?a]\<rparr>"
  have "device_page ?w v phys" using pg core_heap(1)[of ?w w] by (simp add: device_page_def heap.truncate_def)
  then have x: "ioapic_max d (of_nat ?n) ?w =
      Inr (?x, ?w\<lparr>trace := trace w @ [Mmio_Write phys IOAPIC_VERSION, Mmio_Read (phys + 16)]\<rparr>)"
    using ioapic_max_mapped[of "of_nat ?n" ?w v phys d V] dev u len(1) assms(3) by simp
  let ?t = "?w\<lparr>trace := trace w @ [Mmio_Write phys IOAPIC_VERSION, Mmio_Read (phys + 16)],
      ioapics := (ioapics s)[?n := ?a\<lparr>gsi_end := ?gsi + ?x\<rparr>], ioapic_count := of_nat ?n + 1\<rparr>"
  have run: "create_ioapic d (MAP_MEMORY p) s = Inr ?t"
    using w(1) x u len assms(3) mo ph by (simp add: create_ioapic_def entry_reads[OF p] elem_def Let_def)
  have tt: "heap.truncate ?t = heap.truncate w" by (simp add: heap.truncate_def)
  have "collected ?t n cs (ios @ [(mem s (p + 2), phys, ?gsi)]) ovs"
    using mo(3) len assms(3) mo(1) by (simp add: collected_def take_update_snoc)
  moreover have "keeps_mm s ?t"
  proof -
    have "\<forall>e \<in> set [Mmio_Write phys IOAPIC_VERSION, Mmio_Read (phys + 16)]. version_event e"
      using dev by (auto simp: version_event_def version_device_def)
    moreover have "apic_rest ?t = apic_rest w" by (simp add: apic_rest_def)
    ultimately show ?thesis
      using w(3) mo(4,5) core_mmio(2)[OF tt] core_fields[OF tt] core_heap(1)[OF tt] by (simp add: keeps_mm_def mmio_step_def)
  qed
  moreover have "ioapics_ready V ?t"
  proof -
    have old: "device_page ?t (ioapic_mmio (ioapics s ! i)) (mmio_phys (ioapics s ! i))" if "i < ?n" for i
      using r that u len calculation(2) device_page_keep[of s _ _ ?t] by (simp add: ioapics_ready_def keeps_mm_def)
    have "device_page ?t v phys" using pg core_heap(1)[OF tt] by (simp add: device_page_def)
    then show ?thesis using r u len assms(3) old by (auto simp: ioapics_ready_def nth_list_update less_Suc_eq)
  qed
  moreover have "mmio_budget ?t (N - 1)" using w(2) core_mmio(1)[OF tt] by simp
  moreover have "\<forall>M. heap_budget s M \<and> 0 < M \<longrightarrow> heap_budget ?t (M - 1)" using hb core_budget[OF tt] by simp
  ultimately show ?thesis using run by blast
qed

section \<open>The whole table\<close>

text \<open>Memory of the table that the kernel neither owns nor changes.\<close>

definition madt_memory :: "'a vmm_scheme \<Rightarrow> memory \<Rightarrow> nat \<Rightarrow> nat \<Rightarrow> bool" where
  "madt_memory s m a e \<longleftrightarrow> (\<forall>x. a \<le> unat x \<and> unat x < e + 16 \<longrightarrow> foreign s x \<and> mem s x = m x)"

lemma madt_memory_keep: "madt_memory s m a e \<Longrightarrow> keeps_mm s t \<Longrightarrow> a \<le> a' \<Longrightarrow> madt_memory t m a' e"
  unfolding madt_memory_def keeps_mm_def by force

lemma MAP_MEMORY_less:
  assumes "a < 2 ^ 40" and "e < 2 ^ 40"
  shows "MAP_MEMORY (of_nat a) < MAP_MEMORY (of_nat e) \<longleftrightarrow> a < e"
proof -
  have "unat (MAP_MEMORY (of_nat x)) = x + unat PHYSICAL_MEMORY" if "x < 2 ^ 40" for x
    using that unat_add_less[of "of_nat x" PHYSICAL_MEMORY] unat_of_nat_small[of x]
    by (simp add: MAP_MEMORY_def PHYSICAL_MEMORY_def)
  then show ?thesis using assms by (simp add: word_less_nat_alt)
qed

lemma entry_fields:
  assumes "madt_memory s m a e" and "a < e" and "e + 256 \<le> 2 ^ 39" and "p = of_nat a"
  shows "in_direct_map p 16" and "\<And>k. k < 16 \<Longrightarrow> mem s (p + of_nat k) = m (p + of_nat k)"
    and "field32 (mem s) (p + 4) = field32 m (p + 4)" and "field32 (mem s) (p + 8) = field32 m (p + 8)"
    and "field16 (mem s) (p + 8) = field16 m (p + 8)"
proof -
  have u: "unat p = a" using assms(2-4) by (simp add: unat_of_nat)
  show dm: "in_direct_map p 16" using u assms(2,3) by (simp add: in_direct_map_def)
  show eq: "mem s (p + of_nat k) = m (p + of_nat k)" if "k < 16" for k
    using in_direct_map_part(2)[OF dm, of k 1] that u assms(1,2) by (simp add: madt_memory_def)
  have ld: "load (mem s) (p + of_nat j) n = load m (p + of_nat j) n" if "j + n \<le> 16" for j n
    using eq[of "j + _"] that by (auto simp: load_def add.assoc)
  show "field32 (mem s) (p + 4) = field32 m (p + 4)" "field32 (mem s) (p + 8) = field32 m (p + 8)"
    "field16 (mem s) (p + 8) = field16 m (p + 8)"
    using ld[of 4 4] ld[of 8 4] ld[of 8 2] by (simp_all add: field32_def field16_def)
qed

lemma madt_entry_collects:
  assumes mm: "madt_memory s m a e" and "a < e" and "e + 256 \<le> 2 ^ 39" and p: "p = of_nat a"
    and c: "collected s n cs ios ovs" and b: "mmio_budget s N"
    and es: "es = [(m p, p)]" and "length cs + length (madt_cpus m es) \<le> MAX_CPUS"
    and "length ios + length (madt_ioapics m es) \<le> MAX_IOAPICS" and "length (madt_ioapics m es) \<le> N"
    and "length ovs + length (madt_overrides m es) \<le> MAX_OVERRIDES"
    and dev: "\<forall>(i, phys, g) \<in> set (madt_ioapics m es). version_device d V phys" and r: "ioapics_ready V s"
  shows "\<exists>t. madt_entry d (m p) (MAP_MEMORY p) s = Inr t \<and> keeps_mm s t \<and> mmio_budget t (N - length (madt_ioapics m es)) \<and>
    ioapics_ready V t \<and> (\<forall>M. heap_budget s M \<and> length (madt_ioapics m es) \<le> M \<longrightarrow> heap_budget t (M - length (madt_ioapics m es))) \<and>
    collected t (n + length (madt_slots es)) (cs @ madt_cpus m es) (ios @ madt_ioapics m es) (ovs @ madt_overrides m es)"
proof -
  note f = entry_fields[OF mm assms(2,3) p]
  have m: "mem s (p + 2) = m (p + 2)" "mem s (p + 3) = m (p + 3)" using f(2)[of 2] f(2)[of 3] by simp_all
  note defs = madt_entry_def es madt_slots_def madt_cpus_def madt_ioapics_def madt_overrides_def
    MADT_CPU_def MADT_IOAPIC_def MADT_OVERRIDE_def
  consider "m p = MADT_CPU" | "m p = MADT_IOAPIC" | "m p = MADT_OVERRIDE"
    | "m p \<noteq> MADT_CPU" "m p \<noteq> MADT_IOAPIC" "m p \<noteq> MADT_OVERRIDE" by blast
  then show ?thesis
  proof cases
    case 1
    then have "field32 (mem s) (p + 4) AND 1 \<noteq> 0 \<Longrightarrow> length cs < MAX_CPUS" using assms(8) f(3) by (simp add: defs)
    from create_cpu_collects[OF f(1) c this] obtain t where t: "create_cpu (MAP_MEMORY p) s = Inr t"
      "heap.truncate t = heap.truncate s" "untouched s t" "collected t (n + 1)
        (if field32 m (p + 4) AND 1 \<noteq> 0 then cs @ [(m (p + 3), m (p + 2))] else cs) ios ovs"
      unfolding f(3) m by blast
    then show ?thesis using 1 untouched_keeps[OF t(2,3)] r core_mmio(1)[OF t(2), of N] core_budget[OF t(2)] b
      by (auto simp: defs split: if_splits)
  next
    case 2
    then have "length ios < MAX_IOAPICS" "0 < N" using assms(9,10) by (simp_all add: defs)
    moreover have "version_device d V (ucast (field32 m (p + 4)))" using 2 dev by (simp add: defs)
    ultimately show ?thesis
      using create_ioapic_collects[OF f(1) c _ b _ _ _ r, of "ucast (field32 m (p + 4))" d] 2 unfolding f(4,3) m
      by (auto simp: defs Suc_le_eq)
  next
    case 3
    then have "length ovs < MAX_OVERRIDES" using assms(11) by (simp add: defs)
    from create_override_collects[OF f(1) c this] obtain t where t: "create_override (MAP_MEMORY p) s = Inr t"
      "heap.truncate t = heap.truncate s" "untouched s t" "collected t n cs ios (ovs @ [\<lparr>override_source = m (p + 3),
        override_destination = ucast (field32 m (p + 4)), override_flags = field16 m (p + 8)\<rparr>])"
      unfolding f(3,5) m by blast
    then show ?thesis using 3 untouched_keeps[OF t(2,3)] r core_mmio(1)[OF t(2), of N] core_budget[OF t(2)] b by (simp add: defs)
  next
    case 4
    then show ?thesis using c b r by (simp add: defs)
  qed
qed

lemma madt_loop_collects:
  assumes "madt_memory s m a e" and "e + 256 \<le> 2 ^ 39" and "a < e + 256"
    and "collected s n cs ios ovs" and "mmio_budget s N" and "es = madt_list m a e"
    and "length cs + length (madt_cpus m es) \<le> MAX_CPUS"
    and "length ios + length (madt_ioapics m es) \<le> MAX_IOAPICS" and "length (madt_ioapics m es) \<le> N"
    and "length ovs + length (madt_overrides m es) \<le> MAX_OVERRIDES"
    and "\<forall>(i, phys, g) \<in> set (madt_ioapics m es). version_device d V phys" and "ioapics_ready V s"
  shows "\<exists>t. madt_loop d (MAP_MEMORY (of_nat a)) (MAP_MEMORY (of_nat e)) s = Some (Inr t) \<and> keeps_mm s t \<and>
    mmio_budget t (N - length (madt_ioapics m es)) \<and> ioapics_ready V t \<and>
    (\<forall>M. heap_budget s M \<and> length (madt_ioapics m es) \<le> M \<longrightarrow> heap_budget t (M - length (madt_ioapics m es))) \<and>
    collected t (n + length (madt_slots es)) (cs @ madt_cpus m es) (ios @ madt_ioapics m es) (ovs @ madt_overrides m es)"
  using assms
proof (induction "e - a" arbitrary: a s n cs ios ovs N es rule: less_induct)
  case less
  let ?p = "of_nat a :: u64"
  have cmp: "MAP_MEMORY ?p < MAP_MEMORY (of_nat e) \<longleftrightarrow> a < e" using less.prems(2,3) by (intro MAP_MEMORY_less) simp_all
  show ?case
  proof (cases "a < e \<and> 2 < unat (m (?p + 1))")
    case False
    then have es: "es = []" using less.prems(6) by (subst (asm) madt_list.simps) simp
    have "madt_loop d (MAP_MEMORY ?p) (MAP_MEMORY (of_nat e)) s = Some (Inr s)"
    proof (cases "a < e")
      case True
      note f = entry_fields[OF less.prems(1) True less.prems(2) refl]
      show ?thesis using False True cmp f(2)[of 1] entry_reads(7)[OF f(1), of s]
        by (subst madt_loop.simps) (simp add: word_le_nat_alt)
    next
      case False
      then show ?thesis using cmp by (subst madt_loop.simps) simp
    qed
    then show ?thesis using less.prems(4,5,12)
      by (simp add: es madt_slots_def madt_cpus_def madt_ioapics_def madt_overrides_def)
  next
    case True
    define len where "len = unat (m (?p + 1))"
    define es' where "es' = madt_list m (a + len) e"
    have es: "es = [(m ?p, ?p)] @ es'" unfolding less.prems(6) es'_def len_def using True by (subst madt_list.simps) simp
    have app: "madt_slots (xs @ ys) = madt_slots xs @ madt_slots ys" "madt_cpus m (xs @ ys) = madt_cpus m xs @ madt_cpus m ys"
      "madt_ioapics m (xs @ ys) = madt_ioapics m xs @ madt_ioapics m ys"
      "madt_overrides m (xs @ ys) = madt_overrides m xs @ madt_overrides m ys" for xs ys
      by (simp_all add: madt_slots_def madt_cpus_def madt_ioapics_def madt_overrides_def)
    note f = entry_fields[OF less.prems(1) conjunct1[OF True] less.prems(2) refl]
    let ?h = "[(m ?p, ?p)]"
    obtain u where u: "madt_entry d (m ?p) (MAP_MEMORY ?p) s = Inr u" "keeps_mm s u"
      "mmio_budget u (N - length (madt_ioapics m ?h))" "ioapics_ready V u"
      "\<forall>M. heap_budget s M \<and> length (madt_ioapics m ?h) \<le> M \<longrightarrow> heap_budget u (M - length (madt_ioapics m ?h))"
      "collected u (n + length (madt_slots ?h)) (cs @ madt_cpus m ?h) (ios @ madt_ioapics m ?h) (ovs @ madt_overrides m ?h)"
      using madt_entry_collects[OF less.prems(1) conjunct1[OF True] less.prems(2) refl less.prems(4,5) refl _ _ _ _ _ less.prems(12), of d]
        less.prems(7-11) unfolding es app by auto
    have mu: "madt_memory u m a e" using madt_memory_keep[OF less.prems(1) u(2)] by simp
    note fu = entry_fields[OF mu conjunct1[OF True] less.prems(2) refl]
    have "MAP_MEMORY ?p + ucast (m (?p + 1)) = MAP_MEMORY (of_nat (a + len))"
      using of_nat_unat[of "m (?p + 1)", where 'a = 64] by (simp add: MAP_MEMORY_def len_def algebra_simps)
    then have step: "madt_loop d (MAP_MEMORY ?p) (MAP_MEMORY (of_nat e)) s =
        madt_loop d (MAP_MEMORY (of_nat (a + len))) (MAP_MEMORY (of_nat e)) u"
      using True cmp f(2)[of 0] f(2)[of 1] fu(2)[of 1] entry_reads(7)[OF f(1), of s] entry_reads(3)[OF fu(1), of u] u(1)
      by (subst madt_loop.simps) (simp add: word_le_nat_alt)
    have "len < 256" using unsigned_less[of "m (?p + 1)"] by (simp add: len_def)
    then have "\<exists>t. madt_loop d (MAP_MEMORY (of_nat (a + len))) (MAP_MEMORY (of_nat e)) u = Some (Inr t) \<and> keeps_mm u t \<and>
      mmio_budget t (N - length (madt_ioapics m ?h) - length (madt_ioapics m es')) \<and> ioapics_ready V t \<and>
      (\<forall>M. heap_budget u M \<and> length (madt_ioapics m es') \<le> M \<longrightarrow> heap_budget t (M - length (madt_ioapics m es'))) \<and>
      collected t (n + length (madt_slots ?h) + length (madt_slots es')) ((cs @ madt_cpus m ?h) @ madt_cpus m es')
        ((ios @ madt_ioapics m ?h) @ madt_ioapics m es') ((ovs @ madt_overrides m ?h) @ madt_overrides m es')"
      using True less.prems(2) u(3,4,6) less.prems(7-11) len_def unfolding es app
      by (intro less.hyps madt_memory_keep[OF less.prems(1) u(2)]) (auto simp: es'_def)
    then obtain t where t: "madt_loop d (MAP_MEMORY (of_nat (a + len))) (MAP_MEMORY (of_nat e)) u = Some (Inr t)" "keeps_mm u t"
      "mmio_budget t (N - length (madt_ioapics m ?h) - length (madt_ioapics m es'))" "ioapics_ready V t"
      "\<forall>M. heap_budget u M \<and> length (madt_ioapics m es') \<le> M \<longrightarrow> heap_budget t (M - length (madt_ioapics m es'))"
      "collected t (n + length (madt_slots ?h) + length (madt_slots es')) ((cs @ madt_cpus m ?h) @ madt_cpus m es')
        ((ios @ madt_ioapics m ?h) @ madt_ioapics m es') ((ovs @ madt_overrides m ?h) @ madt_overrides m es')" by blast
    have "heap_budget t (M - length (madt_ioapics m es))" if "heap_budget s M" "length (madt_ioapics m es) \<le> M" for M
    proof -
      have len: "length (madt_ioapics m es) = length (madt_ioapics m ?h) + length (madt_ioapics m es')" unfolding es app by simp
      then have "heap_budget u (M - length (madt_ioapics m ?h))" using u(5) that by simp
      moreover have "length (madt_ioapics m es') \<le> M - length (madt_ioapics m ?h)" using that(2) len by simp
      ultimately have "heap_budget t (M - length (madt_ioapics m ?h) - length (madt_ioapics m es'))" using t(5) by blast
      then show ?thesis by (simp only: len diff_diff_left)
    qed
    then show ?thesis using t(1,3,4,6) keeps_mm_trans[OF u(2) t(2)] unfolding step es app
      by (intro exI[of _ t]) (simp add: add.assoc diff_diff_left)
  qed
qed

text \<open>Devices of which every register reads 0.\<close>

definition silent_devices :: devices where
  "silent_devices = \<lparr>dev_in8 = \<lambda>_ _. 0, dev_in16 = \<lambda>_ _. 0, dev_in32 = \<lambda>_ _. 0, dev_msr = \<lambda>_ _. 0, dev_mmio = \<lambda>_ _. 0\<rparr>"

text \<open>A table at 0x3000 with one enabled and one disabled processor, an I/O APIC and an override.\<close>

definition madt_bytes :: memory where
  "madt_bytes x =
    (if x = 0x3001 then 8 else if x = 0x3003 then 5 else if x = 0x3004 then 1
     else if x = 0x3009 then 8 else if x = 0x300B then 6
     else if x = 0x3010 then 1 else if x = 0x3011 then 12 else if x = 0x3016 then 0xC0 else if x = 0x3017 then 0xFE
     else if x = 0x301C then 2 else if x = 0x301D then 10 else if x = 0x3020 then 2 else 0)"

definition madt_machine :: apic where
  "madt_machine = heap.extend (small_heap\<lparr>mem := madt_bytes\<rparr>)
    \<lparr>trace = [], gdt_at = Map.empty, idt_base = 0, idt = [], idtr_at = (0, 0, 0),
     acpi_rsdp = 0, acpi_rsdt = 0, acpi_xsdt = 0, acpi_fadt = 0, acpi_dsdt = 0,
     madt = 0, cpus = replicate MAX_CPUS zero_cpu, ioapics = replicate MAX_IOAPICS zero_ioapic,
     overrides = replicate MAX_OVERRIDES zero_override, cpu_count = 0, ioapic_count = 0, override_count = 0,
     cpu_slot_count = 0, lapic_physical = 0, lapic = 0, pic_spurious = 0, lapic_spurious_count = 0\<rparr>"

lemma madt_machine_tables:
  "madt_list madt_bytes 0x3000 0x3026 = [(0, 0x3000), (0, 0x3008), (1, 0x3010), (2, 0x301C)]"
  by (subst madt_list.simps, simp add: madt_bytes_def)+

lemma madt_machine_memory: "madt_memory madt_machine madt_bytes 0x3000 0x3026" "mmio_budget madt_machine 900"
proof -
  let ?s = "small_heap\<lparr>mem := madt_bytes\<rparr>"
  have tr: "heap.truncate madt_machine = heap.truncate ?s" by (simp add: madt_machine_def heap.defs)
  have z: "madt_bytes a = 0" if "a AND PAGE_MASK = 0x1000" for a
  proof -
    have "unat a div 4096 = 1" using that unat_mask[of a] by simp
    then have "unat a < 0x2000" by simp
    then show ?thesis by (auto simp: madt_bytes_def)
  qed
  note sm = small_heap_with[of madt_bytes, OF z]
  show "mmio_budget madt_machine 900" using sm(2) core_mmio(1)[OF tr] by simp
  show "madt_memory madt_machine madt_bytes 0x3000 0x3026"
    unfolding madt_memory_def
  proof (intro allI impI conjI)
    fix x :: u64
    assume x: "0x3000 \<le> unat x \<and> unat x < 0x3026 + 16"
    have "x AND PAGE_MASK \<noteq> 0x1000"
    proof
      assume "x AND PAGE_MASK = 0x1000"
      then have "unat x div 4096 = 1" using unat_mask[of x] by simp
      then have "unat x < 4096 * 2" using dividend_less_times_div[of 4096 "unat x"] by simp
      then show False using x by simp
    qed
    then show "foreign madt_machine x" using x sm(3)[of x] core_mmio(2)[OF tr] by simp
    show "mem madt_machine x = madt_bytes x" using core_fields(1)[OF tr] by simp
  qed
qed


end
