(* ===== verification/Screen.thy ===== *)
theory Screen
  imports CString
begin

text \<open>
  The text console on the boot framebuffer, \<open>kernel/src/gfx/screen.c\<close>, and the number scanner
  \<open>copy_number\<close> of \<open>kernel/src/misc/debug.c\<close> it uses.  The routines that draw work on the
  kernel's address space as a map from addresses to bytes; the glyph table \<open>font\<close>, a binary
  file linked into the kernel, is a parameter.
\<close>

section \<open>Scanning a number\<close>

definition is_digit :: "u8 \<Rightarrow> bool" where
  "is_digit c \<longleftrightarrow> 0x30 \<le> c \<and> c \<le> 0x39"

partial_function (option) copy_number_loop ::
  "memory \<Rightarrow> u64 \<Rightarrow> u64 \<Rightarrow> u64 \<Rightarrow> (memory \<times> u64) option" where
  "copy_number_loop m destination source i =
    (if is_digit (m (source + i)) then
       copy_number_loop (m(destination + i := m (source + i))) destination source (i + 1)
     else Some (m(destination + i := 0), i))"

declare copy_number_loop.simps [code] strlen_from.simps [code]

definition copy_number :: "memory \<Rightarrow> u64 \<Rightarrow> u64 \<Rightarrow> (memory \<times> u64) option" where
  "copy_number m destination source = copy_number_loop m destination source 0"

section \<open>State\<close>

record screen_t =
  using_back_buffer :: bool
  locked :: bool
  swidth :: u16
  sheight :: u16
  pitch :: u16
  ssize :: u64
  x_max :: u16
  y_max :: u16
  cur_x :: u16
  cur_y :: u16
  bg :: u32
  fg :: u32
  framebuffer :: u64
  back_buffer :: u64
  escape_seq_buffer :: "u8 list"
  is_escape_seq :: bool
  escape_seq_size :: u64

definition CHAR_WIDTH :: u16 where "CHAR_WIDTH = 9"

definition ansi_colors :: "u32 list" where
  "ansi_colors = [0x3F3F3F, 0x705050, 0x60B48A, 0xDFAF8F, 0x9AB8D7, 0xDC8CC3, 0x8CD0D3, 0xDCDCDC]"

definition background :: u32 where "background = 0x1C101C"

type_synonym console = "memory \<times> screen_t"

section \<open>Drawing\<close>

definition write32 :: "memory \<Rightarrow> u64 \<Rightarrow> u32 \<Rightarrow> memory" where
  "write32 m a v = store m a (le_bytes 4 (ucast v))"

text \<open>
  \<open>uint16_t\<close> operands are promoted to \<open>int\<close>: products are computed in 32 bits and then
  sign-extended to an address or a \<open>size_t\<close>.
\<close>

definition int_mult :: "u16 \<Rightarrow> u16 \<Rightarrow> u32" where
  "int_mult a b = ucast a * ucast b"

definition pixel_offset :: "screen_t \<Rightarrow> u16 \<Rightarrow> u16 \<Rightarrow> u64" where
  "pixel_offset scr x y =
    (let ptr = scast (int_mult y (pitch scr) + push_bit 2 (ucast x) :: u32)
     in if using_back_buffer scr then ptr + back_buffer scr else ptr + framebuffer scr)"

definition redraw :: "console \<Rightarrow> console" where
  "redraw = (\<lambda>(m, scr).
    (if \<not> locked scr \<and> using_back_buffer scr
     then memmove m (framebuffer scr) (back_buffer scr) (ssize scr) else m, scr))"

definition fill_pixels :: "memory \<Rightarrow> u64 \<Rightarrow> u32 \<Rightarrow> nat \<Rightarrow> memory" where
  "fill_pixels m pixels color count = fold (\<lambda>i m. write32 m (pixels + 4 * of_nat i) color) [0..<count] m"

definition clear_screen :: "u32 \<Rightarrow> console \<Rightarrow> console" where
  "clear_screen color = (\<lambda>(m, scr).
    let pixels = pixel_offset scr 0 0;
        count = ssize scr div 4
    in redraw (fill_pixels m pixels color (unat count), scr))"

text \<open>
  \<open>memcpy\<close> (\<open>cpu.asm\<close>) copies upwards in words of 8 bytes: as \<open>memmove\<close> does, unless the blocks
  overlap at a distance of less than 8.
\<close>

definition scroll :: "console \<Rightarrow> console" where
  "scroll = (\<lambda>(m, scr).
    let top = pixel_offset scr 0 0;
        first_line = top + scast (push_bit 4 (ucast (pitch scr)) :: u32);
        n = scast ((ucast (sheight scr) - 16) * ucast (pitch scr) :: u32);
        m = memmove m top first_line n;
        bottom = pixel_offset scr 0 (y_max scr * 16);
        m = fold (\<lambda>j m. fill_pixels m (bottom + of_nat j * ucast (pitch scr)) (bg scr) (unat (swidth scr))) [0..<16] m
    in redraw (m, scr\<lparr>cur_x := 0, cur_y := y_max scr\<rparr>))"

section \<open>Escape sequences\<close>

text \<open>
  The local arrays \<open>seq\<close> and \<open>numstr\<close>, at addresses 0 and 64 of a scratch memory.  The buffer ends
  in the letter \<open>m\<close>, so the number always ends within it.
\<close>

definition escape_number :: "u8 list \<Rightarrow> u32 option" where
  "escape_number seq =
    (case copy_number (store (\<lambda>_. 0) 0 seq) 64 2 of
       None \<Rightarrow> None
     | Some (m, _) \<Rightarrow> atoi m 64)"

definition parse_escape_sequence :: "screen_t \<Rightarrow> halt + screen_t" where
  "parse_escape_sequence scr =
    (let seq = escape_seq_buffer scr
     in if seq ! 1 \<noteq> 0x5B then Inr scr
        else (case escape_number seq of
          None \<Rightarrow> Inl Diverges
        | Some number \<Rightarrow>
            if number = 0 then Inr (scr\<lparr>bg := background, fg := ansi_colors ! 7\<rparr>)
            else if 30 \<le> sint number \<and> sint number \<le> 37 then
              Inr (scr\<lparr>fg := ansi_colors ! nat (sint number - 30)\<rparr>)
            else if 40 \<le> sint number \<and> sint number \<le> 47 then
              Inr (scr\<lparr>bg := ansi_colors ! nat (sint number - 40)\<rparr>)
            else Inr scr))"

section \<open>Characters\<close>

definition draw_row :: "u8 \<Rightarrow> u32 \<Rightarrow> u32 \<Rightarrow> u64 \<Rightarrow> memory \<Rightarrow> memory" where
  "draw_row font_data fgc bgc pixels m =
    fold (\<lambda>i m. write32 m (pixels + 4 * of_nat i) (if bit font_data (7 - i) then fgc else bgc)) [0..<8] m"

definition draw_glyph :: "(nat \<Rightarrow> u8) \<Rightarrow> nat \<Rightarrow> screen_t \<Rightarrow> u64 \<Rightarrow> memory \<Rightarrow> memory" where
  "draw_glyph font value scr pixels m =
    fold (\<lambda>j m. draw_row (font (value * 16 + j)) (fg scr) (bg scr) (pixels + of_nat j * ucast (pitch scr)) m)
      [0..<16] m"

text \<open>
  A \<open>char\<close> is signed: a value of 128 or more is a negative index and reads before the glyph
  table.  The escape buffer has 16 bytes; nothing stops a longer sequence.
\<close>

definition putc :: "(nat \<Rightarrow> u8) \<Rightarrow> u8 \<Rightarrow> console \<Rightarrow> halt + console" where
  "putc font value = (\<lambda>(m, scr).
    let pixels = pixel_offset scr (cur_x scr * CHAR_WIDTH) (cur_y scr * 16)
    in if value = 13 then Inr (m, scr\<lparr>cur_x := 0\<rparr>)
       else if value = 10 then
         (let scr = scr\<lparr>cur_x := 0, cur_y := cur_y scr + 1\<rparr>
          in Inr (if y_max scr < cur_y scr then scroll (m, scr) else redraw (m, scr)))
       else if value = 0x1B then
         Inr (m, scr\<lparr>escape_seq_buffer := (replicate 16 0)[0 := 0x1B], is_escape_seq := True, escape_seq_size := 1\<rparr>)
       else if is_escape_seq scr then
         (if 16 \<le> escape_seq_size scr then Inl Overrun
          else let scr = scr\<lparr>escape_seq_buffer := (escape_seq_buffer scr)[unat (escape_seq_size scr) := value],
                             escape_seq_size := escape_seq_size scr + 1\<rparr>
               in if value = 0x6D then bnd (parse_escape_sequence (scr\<lparr>is_escape_seq := False\<rparr>)) (\<lambda>scr. Inr (m, scr))
                  else Inr (m, scr))
       else if 128 \<le> value then Inl Overrun
       else let m = draw_glyph font (unat value) scr pixels m;
                scr = scr\<lparr>cur_x := cur_x scr + 1\<rparr>
            in if x_max scr < cur_x scr then
                 (let scr = scr\<lparr>cur_x := 0, cur_y := cur_y scr + 1\<rparr>
                  in Inr (if y_max scr < cur_y scr then scroll (m, scr) else (m, scr)))
               else Inr (m, scr))"

partial_function (option) puts_from ::
  "(nat \<Rightarrow> u8) \<Rightarrow> u64 \<Rightarrow> u64 \<Rightarrow> console \<Rightarrow> (halt + console) option" where
  "puts_from font str i c =
    (if fst c (str + i) \<noteq> 0 then
       (case putc font (fst c (str + i)) c of
          Inl e \<Rightarrow> Some (Inl e)
        | Inr c \<Rightarrow> puts_from font str (i + 1) c)
     else Some (Inr c))"

definition puts :: "(nat \<Rightarrow> u8) \<Rightarrow> u64 \<Rightarrow> console \<Rightarrow> halt + console" where
  "puts font str c = (case puts_from font str 0 c of None \<Rightarrow> Inl Diverges | Some r \<Rightarrow> r)"

section \<open>Initialisation\<close>

record vbe_mode_info_t =
  mode_attributes :: u16
  mode_window_a :: u8
  mode_window_b :: u8
  mode_granularity :: u16
  mode_window_size :: u16
  mode_segment_a :: u16
  mode_segment_b :: u16
  mode_win_func_ptr :: u32
  mode_pitch :: u16
  mode_width :: u16
  mode_height :: u16
  mode_w_char :: u8
  mode_y_char :: u8
  mode_planes :: u8
  mode_bpp :: u8
  mode_banks :: u8
  mode_memory_model :: u8
  mode_bank_size :: u8
  mode_image_pages :: u8
  mode_reserved0 :: u8
  mode_red :: u16
  mode_green :: u16
  mode_blue :: u16
  mode_reserved :: u16
  mode_direct_color :: u8
  mode_framebuffer :: u32
  mode_invisible_vram :: u32
  mode_invisible_vram_size :: u16
  mode_reserved1 :: "u8 list"

text \<open>
  \<open>screen_init\<close> without its log output and without the adapter's vendor and product strings,
  which only that output uses.  The result includes the new value of \<open>display_debug\<close>.
\<close>

definition screen_setup :: "vbe_mode_info_t \<Rightarrow> screen_t \<Rightarrow> screen_t" where
  "screen_setup mode scr = scr\<lparr>bg := ansi_colors ! 0, fg := ansi_colors ! 7, cur_x := 0, cur_y := 0,
     using_back_buffer := False, locked := False,
     swidth := mode_width mode, sheight := mode_height mode, pitch := mode_pitch mode,
     ssize := scast (int_mult (mode_height mode) (mode_pitch mode)),
     x_max := mode_width mode div CHAR_WIDTH - 1, y_max := mode_height mode div 16 - 1,
     framebuffer := ucast (mode_framebuffer mode) + 0xFFFF800000000000\<rparr>"

definition screen_init :: "bool \<Rightarrow> vbe_mode_info_t \<Rightarrow> console \<Rightarrow> halt + (console \<times> bool)" where
  "screen_init uefi mode = (\<lambda>(m, scr).
    if uefi then Inl (Panic ''UEFI not implemented yet'')
    else Inr (clear_screen background (m, screen_setup mode scr), True))"


section \<open>What the scanner returns\<close>

lemma load_snoc: "load m a (Suc n) = load m a n @ [m (a + of_nat n)]"
  by (simp add: load_def)

lemma store_snoc:
  assumes "length bs < 2 ^ 64"
  shows "store m p (bs @ [v]) = (store m p bs)(p + of_nat (length bs) := v)"
  using offset_iff[OF assms] by (auto simp: store_def fun_eq_iff nth_append less_Suc_eq)

lemma copy_number_loop_spec:
  assumes digits: "\<forall>i < n. is_digit (m (source + of_nat i))" and stop: "\<not> is_digit (m (source + of_nat n))"
    and n: "n < 2 ^ 64" and disj: "\<And>i j. i \<le> n \<Longrightarrow> j < n \<Longrightarrow> source + of_nat i \<noteq> dest + of_nat j"
  shows "k \<le> n \<Longrightarrow> copy_number_loop (store m dest (load m source k)) dest source (of_nat k) =
    Some (store m dest (load m source n @ [0]), of_nat n)"
proof (induction "n - k" arbitrary: k)
  case 0
  let ?m = "store m dest (load m source n)"
  have k: "k = n" using 0 by simp
  have src: "?m (source + of_nat n) = m (source + of_nat n)"
  proof -
    have "\<not> unat (source + of_nat n - dest) < n"
    proof
      assume "unat (source + of_nat n - dest) < n"
      then show False using disj[of n "unat (source + of_nat n - dest)"] by simp
    qed
    then show ?thesis by (simp add: store_def)
  qed
  then show ?case unfolding k using stop store_snoc[of "load m source n" m dest 0] n
    by (subst copy_number_loop.simps) simp
next
  case (Suc d)
  let ?m = "store m dest (load m source k)"
  have k: "k < n" using Suc by simp
  have src: "?m (source + of_nat k) = m (source + of_nat k)"
  proof -
    have "\<not> unat (source + of_nat k - dest) < k"
    proof
      assume "unat (source + of_nat k - dest) < k"
      then show False using disj[of k "unat (source + of_nat k - dest)"] k by simp
    qed
    then show ?thesis by (simp add: store_def)
  qed
  have "?m(dest + of_nat k := m (source + of_nat k)) = store m dest (load m source (Suc k))"
    using store_snoc[of "load m source k" m dest] k n by (simp add: load_snoc)
  moreover have "copy_number_loop (store m dest (load m source (Suc k))) dest source (of_nat (Suc k)) =
      Some (store m dest (load m source n @ [0]), of_nat n)" using Suc k by (intro Suc.hyps(1)) auto
  ultimately show ?case using digits k src
    by (subst copy_number_loop.simps) (simp add: add.commute)
qed

lemma copy_number_spec:
  assumes "\<forall>i < n. is_digit (m (source + of_nat i))" and "\<not> is_digit (m (source + of_nat n))" and "n < 2 ^ 64"
    and "\<And>i j. i \<le> n \<Longrightarrow> j < n \<Longrightarrow> source + of_nat i \<noteq> dest + of_nat j"
  shows "copy_number m dest source = Some (store m dest (load m source n @ [0]), of_nat n)"
  using copy_number_loop_spec[OF assms, of 0] by (simp add: copy_number_def load_def store_def)

lemma cstr_stored:
  assumes "length xs < 2 ^ 64" and "0 \<notin> set xs"
  shows "cstr (store m p (xs @ [0])) p xs"
  using assms by (intro cstrI) (auto simp: store_def unat_of_nat nth_append)

text \<open>A number is always found in the escape buffer.\<close>

lemma escape_number_returns:
  assumes "length seq = 16"
  shows "\<exists>v. escape_number seq = Some v"
proof -
  let ?m = "store (\<lambda>_. 0) 0 seq :: memory"
  define n where "n = (LEAST n. \<not> is_digit (?m (2 + of_nat n)))"
  have end_: "\<not> is_digit (?m (2 + of_nat 14))" using assms by (simp add: store_def is_digit_def)
  then have n14: "n \<le> 14" unfolding n_def by (rule Least_le)
  have stop: "\<not> is_digit (?m (2 + of_nat n))" unfolding n_def using end_ by (rule LeastI)
  have dig: "\<forall>i < n. is_digit (?m (2 + of_nat i))" unfolding n_def using not_less_Least by blast
  have disj: "(2 :: u64) + of_nat i \<noteq> 64 + of_nat j" if ij: "i \<le> n" "j < n" for i j
  proof
    assume "(2 :: u64) + of_nat i = 64 + of_nat j"
    then have "of_nat (2 + i) = (of_nat (64 + j) :: u64)" by simp
    then have "unat (of_nat (2 + i) :: u64) = unat (of_nat (64 + j) :: u64)" by (rule arg_cong)
    moreover have "unat (of_nat (2 + i) :: u64) = 2 + i" "unat (of_nat (64 + j) :: u64) = 64 + j"
      using ij n14 by (subst unat_of_nat; simp)+
    ultimately show False using ij n14 by linarith
  qed
  let ?ds = "load ?m 2 n"
  have "copy_number ?m 64 2 = Some (store ?m 64 (?ds @ [0]), of_nat n)"
    using n14 by (intro copy_number_spec[OF dig stop _ disj]) simp_all
  moreover have "0 \<notin> set ?ds" using dig by (auto simp: load_def is_digit_def)
  then have "cstr (store ?m 64 (?ds @ [0])) 64 ?ds" using n14 by (intro cstr_stored) auto
  ultimately show ?thesis using strlen_cstr by (fastforce simp: escape_number_def atoi_def Let_def)
qed

section \<open>Where the console writes\<close>

text \<open>Only the \<open>n\<close> bytes from \<open>f\<close> and from \<open>b\<close> may differ.\<close>

definition only_in :: "u64 \<Rightarrow> u64 \<Rightarrow> nat \<Rightarrow> memory \<Rightarrow> memory \<Rightarrow> bool" where
  "only_in f b n m m' \<longleftrightarrow> (\<forall>a. n \<le> unat (a - f) \<longrightarrow> n \<le> unat (a - b) \<longrightarrow> m' a = m a)"

lemma only_in_refl [simp]: "only_in f b n m m"
  by (simp add: only_in_def)

lemma only_in_trans: "only_in f b n m m' \<Longrightarrow> only_in f b n m' m'' \<Longrightarrow> only_in f b n m m''"
  by (simp add: only_in_def)

lemma only_in_fold:
  "(\<And>i m. i \<in> set is \<Longrightarrow> only_in f b n m (g i m)) \<Longrightarrow> only_in f b n m (fold g is m)"
proof (induction "is" arbitrary: m)
  case (Cons i "is")
  then show ?case using only_in_trans by (metis fold_simps(2) list.set_intros)
qed simp

lemma store_offset:
  assumes "off + length bs \<le> n" and "n < 2 ^ 64" and "n \<le> unat (a - base)"
  shows "store m (base + of_nat off) bs a = m a"
proof -
  have "\<not> unat (a - (base + of_nat off)) < length bs"
  proof
    assume lt: "unat (a - (base + of_nat off)) < length bs"
    have "a - base = (a - (base + of_nat off)) + of_nat off" by simp
    moreover have "unat ((a - (base + of_nat off)) + of_nat off) = unat (a - (base + of_nat off)) + off"
      using lt assms by (intro unat_add_nat) linarith
    ultimately show False using lt assms by simp
  qed
  then show ?thesis by (simp add: store_def)
qed

lemma only_in_store:
  assumes "base = f \<or> base = b" and "off + length bs \<le> n" and "n < 2 ^ 64"
  shows "only_in f b n m (store m (base + of_nat off) bs)"
  using assms store_offset[OF assms(2,3)] by (auto simp: only_in_def)

lemma only_in_write32:
  assumes "base = f \<or> base = b" and "off + 4 \<le> n" and "n < 2 ^ 64"
  shows "only_in f b n m (write32 m (base + of_nat off) v)"
  unfolding write32_def using assms by (intro only_in_store) simp_all

lemma only_in_fill:
  assumes "base = f \<or> base = b" and "off + 4 * k \<le> n" and "n < 2 ^ 64"
  shows "only_in f b n m (fill_pixels m (base + of_nat off) color k)"
  unfolding fill_pixels_def
proof (rule only_in_fold)
  fix i m assume "i \<in> set [0..<k]"
  then have "only_in f b n m (write32 m (base + of_nat (off + 4 * i)) color)"
    using assms by (intro only_in_write32) auto
  then show "only_in f b n m (write32 m (base + of_nat off + 4 * of_nat i) color)" by (simp add: add.assoc)
qed

lemma only_in_memmove:
  assumes "base = f \<or> base = b" and "off + unat num \<le> n" and "n < 2 ^ 64"
  shows "only_in f b n m (memmove m (base + of_nat off) src num)"
  unfolding memmove_def
proof (rule only_in_fold)
  fix i m assume "i \<in> set [0..<unat num]"
  then have "only_in f b n m (store m (base + of_nat (off + i)) [m (src + of_nat i)])"
    using assms by (intro only_in_store) auto
  then show "only_in f b n m (m(base + of_nat off + of_nat i := m (src + of_nat i)))" by (simp add: add.assoc store_single)
qed

section \<open>The geometry of the screen\<close>

definition sbase :: "screen_t \<Rightarrow> u64" where
  "sbase scr = (if using_back_buffer scr then back_buffer scr else framebuffer scr)"

text \<open>The characters fit on the screen and the cursor is on it.\<close>

definition geometry_ok :: "screen_t \<Rightarrow> bool" where
  "geometry_ok scr \<longleftrightarrow> (unat (x_max scr) + 1) * 9 \<le> unat (swidth scr) \<and> (unat (y_max scr) + 1) * 16 \<le> unat (sheight scr) \<and>
    4 * unat (swidth scr) \<le> unat (pitch scr) \<and> unat (sheight scr) * unat (pitch scr) < 2 ^ 31 \<and>
    unat (ssize scr) = unat (sheight scr) * unat (pitch scr)"

definition screen_ok :: "screen_t \<Rightarrow> bool" where
  "screen_ok scr \<longleftrightarrow> geometry_ok scr \<and> cur_x scr \<le> x_max scr \<and> cur_y scr \<le> y_max scr \<and>
    length (escape_seq_buffer scr) = 16 \<and> 1 \<le> escape_seq_size scr"

lemma unat_less16: "unat a < 65536" for a :: u16
  using unsigned_less[of a] by simp

lemma pixel_offset_eq:
  assumes "unat y * unat (pitch scr) + 4 * unat x < 2 ^ 31"
  shows "pixel_offset scr x y = sbase scr + of_nat (unat y * unat (pitch scr) + 4 * unat x)"
proof -
  let ?w = "int_mult y (pitch scr) + push_bit 2 (ucast x) :: u32"
  have "?w = of_nat (unat y * unat (pitch scr) + 4 * unat x)"
    by (simp add: int_mult_def push_bit_eq_mult unsigned_ucast_eq mult.commute) 
  then have "unat ?w = unat (of_nat (unat y * unat (pitch scr) + 4 * unat x) :: u32)" by (rule arg_cong)
  also have "\<dots> = unat y * unat (pitch scr) + 4 * unat x" using assms by (subst unat_of_nat) simp
  finally have u: "unat ?w = unat y * unat (pitch scr) + 4 * unat x" .
  then have "scast ?w = (of_nat (unat y * unat (pitch scr) + 4 * unat x) :: u64)"
    using scast_small[of ?w] assms by (simp only: u)
  then show ?thesis by (simp add: pixel_offset_def Let_def sbase_def add.commute)
qed


abbreviation (input) on_screen :: "screen_t \<Rightarrow> memory \<Rightarrow> memory \<Rightarrow> bool" where
  "on_screen scr \<equiv> only_in (framebuffer scr) (back_buffer scr) (unat (ssize scr))"

lemma geometryD:
  assumes "geometry_ok scr"
  shows "unat (ssize scr) < 2 ^ 31" "unat (ssize scr) < 2 ^ 64"
    and "r < unat (sheight scr) \<Longrightarrow> c + k \<le> unat (pitch scr) \<Longrightarrow> r * unat (pitch scr) + c + k \<le> unat (ssize scr)"
    and "sbase scr = framebuffer scr \<or> sbase scr = back_buffer scr"
proof -
  note g = assms[unfolded geometry_ok_def]
  show "unat (ssize scr) < 2 ^ 31" "unat (ssize scr) < 2 ^ 64" using g by simp_all
  show "r * unat (pitch scr) + c + k \<le> unat (ssize scr)" if "r < unat (sheight scr)" "c + k \<le> unat (pitch scr)"
  proof -
    have "Suc r * unat (pitch scr) \<le> unat (sheight scr) * unat (pitch scr)" using that(1) by (intro mult_le_mono1) simp
    then show ?thesis using that(2) g by simp
  qed
  show "sbase scr = framebuffer scr \<or> sbase scr = back_buffer scr" by (simp add: sbase_def)
qed

lemma redraw_screen:
  assumes "geometry_ok scr"
  shows "on_screen scr m (fst (redraw (m, scr)))" and "snd (redraw (m, scr)) = scr"
  using only_in_memmove[of "framebuffer scr" "framebuffer scr" "back_buffer scr" 0 "ssize scr" "unat (ssize scr)" m "back_buffer scr"]
    geometryD(2)[OF assms]
  by (auto simp: redraw_def)

lemma scroll_count:
  assumes g: "geometry_ok scr"
  shows "unat (scast ((ucast (sheight scr) - 16) * ucast (pitch scr) :: u32) :: u64) =
    (unat (sheight scr) - 16) * unat (pitch scr)"
proof -
  let ?p = "unat (pitch scr)" and ?h = "unat (sheight scr)"
  note gd = g[unfolded geometry_ok_def]
  let ?w = "(ucast (sheight scr) - 16) * ucast (pitch scr) :: u32"
  have h: "16 \<le> ?h" using gd by simp
  have "(?h - 16) * ?p \<le> ?h * ?p" by (intro mult_le_mono1) simp
  then have lt: "(?h - 16) * ?p < 2 ^ 31" using gd by linarith
  have "?w = of_nat ((?h - 16) * ?p)" using h by (simp add: of_nat_diff)
  then have "unat ?w = unat (of_nat ((?h - 16) * ?p) :: u32)" by (rule arg_cong)
  also have "\<dots> = (?h - 16) * ?p" using lt by (subst unat_of_nat) simp
  finally have u: "unat ?w = (?h - 16) * ?p" .
  then have "scast ?w = (of_nat ((?h - 16) * ?p) :: u64)" using scast_small[of ?w] lt by (simp only: u)
  then have "unat (scast ?w :: u64) = unat (of_nat ((?h - 16) * ?p) :: u64)" by (rule arg_cong)
  also have "\<dots> = (?h - 16) * ?p" using lt by (subst unat_of_nat) simp
  finally show ?thesis .
qed

lemma scroll_screen:
  assumes g: "geometry_ok scr"
  shows "on_screen scr m (fst (scroll (m, scr)))" and "snd (scroll (m, scr)) = scr\<lparr>cur_x := 0, cur_y := y_max scr\<rparr>"
proof -
  let ?p = "unat (pitch scr)" and ?h = "unat (sheight scr)"
  note gd = g[unfolded geometry_ok_def]
  let ?scr = "scr\<lparr>cur_x := 0, cur_y := y_max scr\<rparr>"
  have g': "geometry_ok ?scr" using g by (simp add: geometry_ok_def)
  have top: "pixel_offset scr 0 0 = sbase scr + of_nat 0" by (subst pixel_offset_eq) simp_all
  have n: "unat (scast ((ucast (sheight scr) - 16) * ucast (pitch scr) :: u32) :: u64) = (?h - 16) * ?p"
    by (rule scroll_count[OF g])
  have ym: "unat (y_max scr * 16) = unat (y_max scr) * 16"
    using gd unat_less16[of "sheight scr"] by (subst unat_word_ariths) simp
  have row: "unat (y_max scr) * 16 + j < ?h" if "j < 16" for j using that gd by simp
  have "unat (y_max scr * 16) * ?p + 4 * unat (0 :: u16) < 2 ^ 31"
    using le_less_trans[OF geometryD(3)[OF g row[of 0], of 0 0] geometryD(1)[OF g]] ym by simp
  then have bottom: "pixel_offset scr 0 (y_max scr * 16) = sbase scr + of_nat (unat (y_max scr) * 16 * ?p)"
    by (subst pixel_offset_eq) (simp_all add: ym)
  define m1 where "m1 = memmove m (pixel_offset scr 0 0) (pixel_offset scr 0 0 + scast (push_bit 4 (ucast (pitch scr)) :: u32))
    (scast ((ucast (sheight scr) - 16) * ucast (pitch scr) :: u32))"
  define m2 where "m2 = fold (\<lambda>j m. fill_pixels m (pixel_offset scr 0 (y_max scr * 16) + of_nat j * ucast (pitch scr)) (bg scr)
    (unat (swidth scr))) [0..<16] m1"
  have s: "scroll (m, scr) = redraw (m2, ?scr)" by (simp add: scroll_def m1_def m2_def Let_def)
  have "(?h - 16) * ?p \<le> unat (ssize scr)" using gd by simp
  then have "on_screen scr m m1" unfolding m1_def top
    using n geometryD(2,4)[OF g] by (intro only_in_memmove) auto
  moreover have "on_screen scr m1 m2" unfolding m2_def
  proof (rule only_in_fold)
    fix j m assume "j \<in> set [0..<16]"
    then have j: "j < 16" by simp
    have "unat (y_max scr) * 16 * ?p + j * ?p + 4 * unat (swidth scr) \<le> unat (ssize scr)"
      using geometryD(3)[OF g row[OF j], of 0 "4 * unat (swidth scr)"] gd by (simp add: add_mult_distrib)
    then have "on_screen scr m (fill_pixels m (sbase scr + of_nat (unat (y_max scr) * 16 * ?p + j * ?p)) (bg scr) (unat (swidth scr)))"
      using geometryD(2,4)[OF g] by (intro only_in_fill) auto
    moreover have "sbase scr + of_nat (unat (y_max scr) * 16 * ?p + j * ?p)
        = pixel_offset scr 0 (y_max scr * 16) + of_nat j * ucast (pitch scr)"
      unfolding bottom by (simp add: add.assoc)
    ultimately show "on_screen scr m (fill_pixels m (pixel_offset scr 0 (y_max scr * 16) + of_nat j * ucast (pitch scr)) (bg scr) (unat (swidth scr)))"
      by (simp only:)
  qed
  moreover have "on_screen scr m2 (fst (redraw (m2, ?scr)))" using redraw_screen(1)[OF g'] by simp
  ultimately show "on_screen scr m (fst (scroll (m, scr)))" unfolding s by (blast intro: only_in_trans)
  show "snd (scroll (m, scr)) = ?scr" unfolding s using redraw_screen(2)[OF g'] .
qed

lemma glyph_screen:
  assumes g: "geometry_ok scr" and x: "cur_x scr \<le> x_max scr" and y: "cur_y scr \<le> y_max scr"
  shows "on_screen scr m (draw_glyph font v scr (pixel_offset scr (cur_x scr * CHAR_WIDTH) (cur_y scr * 16)) m)"
proof -
  let ?p = "unat (pitch scr)"
  note gd = g[unfolded geometry_ok_def]
  have ux: "unat (cur_x scr * CHAR_WIDTH) = unat (cur_x scr) * 9" 
    using gd x unat_less16[of "swidth scr"] by (simp add: CHAR_WIDTH_def unat_word_ariths word_le_nat_alt)
  have uy: "unat (cur_y scr * 16) = unat (cur_y scr) * 16"
    using gd y unat_less16[of "sheight scr"] by (simp add: unat_word_ariths word_le_nat_alt)
  let ?c = "4 * (unat (cur_x scr) * 9)"
  have col: "?c + 4 * 8 \<le> ?p" using gd x by (simp add: word_le_nat_alt)
  have row: "unat (cur_y scr) * 16 + j < unat (sheight scr)" if "j < 16" for j using that gd y by (simp add: word_le_nat_alt)
  have "unat (cur_y scr) * 16 * ?p + ?c < 2 ^ 31"
    using geometryD(3)[OF g row[of 0], of ?c 0] geometryD(1)[OF g] col by simp
  then have po: "pixel_offset scr (cur_x scr * CHAR_WIDTH) (cur_y scr * 16) = sbase scr + of_nat (unat (cur_y scr) * 16 * ?p + ?c)"
    by (subst pixel_offset_eq) (simp_all add: ux uy)
  show ?thesis unfolding draw_glyph_def draw_row_def
  proof (intro only_in_fold)
    fix j i m assume "j \<in> set [0..<16]" "i \<in> set [0..<8]"
    then have j: "j < 16" "i < 8" by simp_all
    let ?o = "unat (cur_y scr) * 16 * ?p + ?c + j * ?p + 4 * i"
    have "?o + 4 \<le> unat (ssize scr)"
      using geometryD(3)[OF g row[OF j(1)], of ?c "4 * i + 4"] col j(2) by (simp add: add_mult_distrib)
    then have w: "on_screen scr m (write32 m (sbase scr + of_nat ?o) v)" for v
      using geometryD(2,4)[OF g] by (intro only_in_write32) auto
    have "sbase scr + of_nat ?o = pixel_offset scr (cur_x scr * CHAR_WIDTH) (cur_y scr * 16) + of_nat j * ucast (pitch scr) + 4 * of_nat i"
      unfolding po by (simp add: add.assoc)
    then show "on_screen scr m (write32 m (pixel_offset scr (cur_x scr * CHAR_WIDTH) (cur_y scr * 16) + of_nat j * ucast (pitch scr) + 4 * of_nat i)
        (if bit (font (v * 16 + j)) (7 - i) then fg scr else bg scr))" using w by (simp only:)
  qed
qed


section \<open>Filling and scrolling\<close>

lemma fill_pixels_store:
  "4 * k < 2 ^ 64 \<Longrightarrow> fill_pixels m p color k = store m p (concat (replicate k (le_bytes 4 (ucast color))))"
proof (induction k)
  case 0
  then show ?case by (simp add: fill_pixels_def store_def)
next
  case (Suc k)
  let ?c = "le_bytes 4 (ucast color)"
  have len: "length (concat (replicate k ?c)) = 4 * k" by (induction k) simp_all
  have "fill_pixels m p color (Suc k) = write32 (fill_pixels m p color k) (p + of_nat (4 * k)) color"
    by (simp add: fill_pixels_def)
  also have "\<dots> = store m p (concat (replicate k ?c) @ ?c)"
    unfolding write32_def using Suc store_append[of "concat (replicate k ?c)" ?c m p] by (simp add: len)
  also have "concat (replicate k ?c) @ ?c = concat (replicate (Suc k) ?c)"
    by (simp flip: replicate_append_same)
  finally show ?case .
qed

text \<open>Rows below the first \<open>r\<close> bytes do not touch what is above them.\<close>

lemma rows_below:
  assumes "o1 < r" and "r + 16 * p \<le> n" and "n < 2 ^ 64" and "4 * w \<le> p"
  shows "k \<le> 16 \<Longrightarrow> fold (\<lambda>j m. fill_pixels m (base + of_nat r + of_nat j * of_nat p) color w) [0..<k] m (base + of_nat o1)
    = m (base + of_nat o1)"
proof (induction k)
  case (Suc k)
  let ?bs = "concat (replicate w (le_bytes 4 (ucast color)))"
  have len: "length ?bs = 4 * w" by (induction w) simp_all
  have lim: "r + k * p + 4 * w \<le> n" using assms mult_le_mono1[OF Suc.prems, of p] by (simp only: mult_Suc)
  have "\<not> unat (base + of_nat o1 - (base + of_nat (r + k * p))) < 4 * w"
  proof
    assume lt: "unat (base + of_nat o1 - (base + of_nat (r + k * p))) < 4 * w"
    let ?d = "unat (base + of_nat o1 - (base + of_nat (r + k * p)))"
    have "of_nat o1 = (of_nat (r + k * p + ?d) :: u64)" by simp
    then have "unat (of_nat o1 :: u64) = unat (of_nat (r + k * p + ?d) :: u64)" by (rule arg_cong)
    moreover have "unat (of_nat (r + k * p + ?d) :: u64) = r + k * p + ?d" "unat (of_nat o1 :: u64) = o1"
      using lt lim assms by (subst unat_of_nat; simp)+
    ultimately show False using assms(1) by simp
  qed
  then have "fill_pixels m' (base + of_nat r + of_nat k * of_nat p) color w (base + of_nat o1) = m' (base + of_nat o1)" for m'
    using fill_pixels_store[of w m' "base + of_nat (r + k * p)" color] len lim assms(3) by (simp add: store_def add.assoc)
  then show ?case using Suc by simp
qed simp

text \<open>Screens that differ in their colours only.\<close>

definition recoloured :: "screen_t \<Rightarrow> screen_t \<Rightarrow> bool" where
  "recoloured scr scr' \<longleftrightarrow> scr' = scr\<lparr>bg := bg scr', fg := fg scr'\<rparr>"

lemma recoloured_updates [simp]:
  "recoloured scr scr" "recoloured scr (scr\<lparr>bg := b\<rparr>)" "recoloured scr (scr\<lparr>fg := f\<rparr>)"
  "recoloured scr (scr\<lparr>bg := b, fg := f\<rparr>)"
  by (simp_all add: recoloured_def)

lemma recoloured_ok: "recoloured scr scr' \<Longrightarrow> screen_ok scr' = screen_ok scr"
  unfolding recoloured_def by (cases scr; cases scr') (simp add: screen_ok_def geometry_ok_def)

lemma parse_escape_screen:
  assumes "length (escape_seq_buffer scr) = 16"
  shows "\<exists>scr'. parse_escape_sequence scr = Inr scr' \<and> recoloured scr scr'"
proof -
  obtain n where "escape_number (escape_seq_buffer scr) = Some n" using escape_number_returns[OF assms] by blast
  then show ?thesis by (simp add: parse_escape_sequence_def Let_def)
qed

lemma escape_step:
  assumes "screen_ok scr" and "escape_seq_size scr < 16" and "v \<noteq> 13" "v \<noteq> 10" "v \<noteq> 0x1B" "is_escape_seq scr"
  shows "\<exists>scr'. putc font v (m, scr) = Inr (m, scr') \<and> screen_ok scr'"
proof -
  let ?e = "scr\<lparr>escape_seq_buffer := (escape_seq_buffer scr)[unat (escape_seq_size scr) := v],
      escape_seq_size := escape_seq_size scr + 1\<rparr>"
  have "unat (escape_seq_size scr + 1) = unat (escape_seq_size scr) + 1" using assms(2) by (rule unat_plus_one_less)
  then have "1 \<le> escape_seq_size scr + 1" by (simp add: word_le_nat_alt)
  then have ok: "screen_ok (?e\<lparr>is_escape_seq := b\<rparr>)" "screen_ok ?e" for b
    using assms(1) by (simp_all add: screen_ok_def geometry_ok_def)
  show ?thesis
  proof (cases "v = 0x6D")
    case True
    have "length (escape_seq_buffer (?e\<lparr>is_escape_seq := False\<rparr>)) = 16" using assms(1) by (simp add: screen_ok_def)
    then obtain scr' where p: "parse_escape_sequence (?e\<lparr>is_escape_seq := False\<rparr>) = Inr scr'"
        "recoloured (?e\<lparr>is_escape_seq := False\<rparr>) scr'"
      using parse_escape_screen by blast
    have "putc font v (m, scr) = Inr (m, scr')"
      using True assms p by (simp add: putc_def Let_def not_le[symmetric])
    moreover have "screen_ok scr'" using ok(1)[of False] recoloured_ok[OF p(2)] by blast
    ultimately show ?thesis by blast
  next
    case False
    then have "putc font v (m, scr) = Inr (m, ?e)" using assms by (simp add: putc_def Let_def not_le[symmetric])
    then show ?thesis using ok(2) by blast
  qed
qed

lemma moved_cursor:
  assumes "screen_ok scr"
  shows "screen_ok (scr\<lparr>cur_x := 0, cur_y := y\<rparr>) \<longleftrightarrow> y \<le> y_max scr"
    and "fst (scroll (m, scr\<lparr>cur_x := x, cur_y := y\<rparr>)) = m' \<Longrightarrow> on_screen scr m m'"
    and "snd (scroll (m, scr\<lparr>cur_x := x, cur_y := y\<rparr>)) = scr\<lparr>cur_x := 0, cur_y := y_max scr\<rparr>"
    and "fst (redraw (m, scr\<lparr>cur_x := x, cur_y := y\<rparr>)) = m' \<Longrightarrow> on_screen scr m m'"
    and "snd (redraw (m, scr\<lparr>cur_x := x, cur_y := y\<rparr>)) = scr\<lparr>cur_x := x, cur_y := y\<rparr>"
proof -
  have g: "geometry_ok (scr\<lparr>cur_x := x, cur_y := y\<rparr>)" using assms by (simp add: screen_ok_def geometry_ok_def)
  show "screen_ok (scr\<lparr>cur_x := 0, cur_y := y\<rparr>) \<longleftrightarrow> y \<le> y_max scr"
    using assms by (auto simp: screen_ok_def geometry_ok_def)
  show "fst (scroll (m, scr\<lparr>cur_x := x, cur_y := y\<rparr>)) = m' \<Longrightarrow> on_screen scr m m'"
    "snd (scroll (m, scr\<lparr>cur_x := x, cur_y := y\<rparr>)) = scr\<lparr>cur_x := 0, cur_y := y_max scr\<rparr>"
    using scroll_screen[OF g] by auto
  show "fst (redraw (m, scr\<lparr>cur_x := x, cur_y := y\<rparr>)) = m' \<Longrightarrow> on_screen scr m m'"
    "snd (redraw (m, scr\<lparr>cur_x := x, cur_y := y\<rparr>)) = scr\<lparr>cur_x := x, cur_y := y\<rparr>"
    using redraw_screen[OF g] by auto
qed

lemma putc_glyph:
  assumes ok: "screen_ok scr" and v: "v < 128" "v \<noteq> 13" "v \<noteq> 10" "v \<noteq> 0x1B" "\<not> is_escape_seq scr"
  shows "\<exists>m' scr'. putc font v (m, scr) = Inr (m', scr') \<and> screen_ok scr' \<and> on_screen scr m m'"
proof -
  have g: "geometry_ok scr" and xy: "cur_x scr \<le> x_max scr" "cur_y scr \<le> y_max scr" using ok by (auto simp: screen_ok_def)
  note gd = g[unfolded geometry_ok_def] and mv = moved_cursor[OF ok]
  have "unat (y_max scr) < 65535" "unat (x_max scr) < 65535"
    using gd unat_less16[of "sheight scr"] unat_less16[of "swidth scr"] by simp_all
  let ?m = "draw_glyph font (unat v) scr (pixel_offset scr (cur_x scr * CHAR_WIDTH) (cur_y scr * 16)) m"
  have gl: "on_screen scr m ?m" by (rule glyph_screen[OF g xy])
  let ?c = "if \<not> x_max scr < cur_x scr + 1 then (?m, scr\<lparr>cur_x := cur_x scr + 1\<rparr>)
      else if y_max scr < cur_y scr + 1 then scroll (?m, scr\<lparr>cur_x := 0, cur_y := cur_y scr + 1\<rparr>)
      else (?m, scr\<lparr>cur_x := 0, cur_y := cur_y scr + 1\<rparr>)"
  have "putc font v (m, scr) = Inr (fst ?c, snd ?c)" using v by (simp add: putc_def Let_def)
  moreover have "screen_ok (snd ?c)"
    using mv(1,3) ok by (simp add: not_less) (simp add: screen_ok_def geometry_ok_def)
  moreover have "on_screen scr m (fst ?c)" using gl only_in_trans[OF gl mv(2)[OF refl]] by simp
  ultimately show ?thesis by blast
qed



lemma scroll_rows:
  assumes g: "geometry_ok scr" and direct: "\<not> using_back_buffer scr"
    and k: "k < unat (y_max scr) * 16 * unat (pitch scr)"
  shows "fst (scroll (m, scr)) (framebuffer scr + of_nat k) = m (framebuffer scr + of_nat (k + 16 * unat (pitch scr)))"
proof -
  let ?p = "unat (pitch scr)" and ?h = "unat (sheight scr)" and ?f = "framebuffer scr"
  let ?n = "(?h - 16) * ?p" and ?r = "unat (y_max scr) * 16 * unat (pitch scr)"
  note gd = g[unfolded geometry_ok_def]
  have base: "sbase scr = ?f" using direct by (simp add: sbase_def)
  have lim: "?r + 16 * ?p \<le> unat (ssize scr)"
  proof -
    have "(unat (y_max scr) * 16 + 16) * ?p \<le> ?h * ?p" using gd by (intro mult_le_mono1) simp
    then show ?thesis using gd by (simp add: add_mult_distrib)
  qed
  have "unat (y_max scr) * 16 + 16 \<le> ?h" using gd by simp
  then have "unat (y_max scr) * 16 \<le> ?h - 16" by linarith
  then have rn: "?r \<le> ?n" by (rule mult_le_mono1)
  have p16: "16 * ?p < 2 ^ 31" using lim geometryD(1)[OF g] by linarith
  have "?r < 2 ^ 31" using lim geometryD(1)[OF g] by linarith
  moreover have "unat (y_max scr * 16) = unat (y_max scr) * 16"
    using gd unat_less16[of "sheight scr"] by (subst unat_word_ariths) simp
  ultimately have bottom: "pixel_offset scr 0 (y_max scr * 16) = ?f + of_nat ?r"
    by (subst pixel_offset_eq) (simp_all add: base)
  have top: "pixel_offset scr 0 0 = ?f" by (subst pixel_offset_eq) (simp_all add: base)
  have fl: "scast (push_bit 4 (ucast (pitch scr)) :: u32) = (of_nat (16 * ?p) :: u64)"
  proof -
    have "(push_bit 4 (ucast (pitch scr)) :: u32) = of_nat (16 * ?p)" by (simp add: push_bit_eq_mult)
    moreover have "unat (of_nat (16 * ?p) :: u32) = 16 * ?p" using p16 by (subst unat_of_nat) simp
    ultimately show ?thesis using scast_small[of "of_nat (16 * ?p)"] p16 by simp
  qed
  let ?m1 = "memmove m ?f (?f + of_nat (16 * ?p)) (scast ((ucast (sheight scr) - 16) * ucast (pitch scr) :: u32))"
  have "fst (scroll (m, scr)) = fold (\<lambda>j m. fill_pixels m (?f + of_nat ?r + of_nat j * of_nat ?p) (bg scr) (unat (swidth scr))) [0..<16] ?m1"
    using direct by (simp add: scroll_def Let_def redraw_def top fl bottom del: of_nat_mult)
  then have "fst (scroll (m, scr)) (?f + of_nat k) = ?m1 (?f + of_nat k)"
    using rows_below[OF k lim geometryD(2)[OF g], of "unat (swidth scr)" 16 ?f "bg scr" ?m1] gd by simp
  also have "?m1 = store m ?f (load m (?f + of_nat (16 * ?p)) ?n)"
  proof -
    have nn: "unat (scast ((ucast (sheight scr) - 16) * ucast (pitch scr) :: u32) :: u64) = ?n" by (rule scroll_count[OF g])
    have "?n + 16 * ?p < 2 ^ 64" using gd by (simp add: diff_mult_distrib)
    moreover have "unat (?f - (?f + of_nat (16 * ?p))) = 2 ^ 64 - 16 * ?p" if "0 < 16 * ?p"
      using unat_minus_of_nat[of "16 * ?p" 0] that p16 by (simp del: of_nat_mult)
    ultimately have "0 < 16 * ?p \<longrightarrow> ?n \<le> unat (?f - (?f + of_nat (16 * ?p)))" by linarith
    then show ?thesis unfolding nn[symmetric] by (intro memmove_eq_store) (auto simp: nn)
  qed
  also have "\<dots> (?f + of_nat k) = m (?f + of_nat (k + 16 * ?p))"
  proof -
    have "k < ?n" "k < 2 ^ 64" using k rn lim geometryD(2)[OF g] by linarith+
    then show ?thesis using store_in[of k "load m (?f + of_nat (16 * ?p)) ?n" m ?f] by (simp add: algebra_simps)
  qed
  finally show ?thesis .
qed

lemma colour_codes:
  "escape_number [0x1B, 0x5B, 0x33, 0x30, 0x6D, 0, 0, 0, 0, 0, 0, 0, 0, 0, 0, 0] = Some 30"
  "escape_number [0x1B, 0x5B, 0x33, 0x31, 0x6D, 0, 0, 0, 0, 0, 0, 0, 0, 0, 0, 0] = Some 31"
  "escape_number [0x1B, 0x5B, 0x33, 0x32, 0x6D, 0, 0, 0, 0, 0, 0, 0, 0, 0, 0, 0] = Some 32"
  "escape_number [0x1B, 0x5B, 0x33, 0x33, 0x6D, 0, 0, 0, 0, 0, 0, 0, 0, 0, 0, 0] = Some 33"
  "escape_number [0x1B, 0x5B, 0x33, 0x34, 0x6D, 0, 0, 0, 0, 0, 0, 0, 0, 0, 0, 0] = Some 34"
  "escape_number [0x1B, 0x5B, 0x33, 0x35, 0x6D, 0, 0, 0, 0, 0, 0, 0, 0, 0, 0, 0] = Some 35"
  "escape_number [0x1B, 0x5B, 0x33, 0x36, 0x6D, 0, 0, 0, 0, 0, 0, 0, 0, 0, 0, 0] = Some 36"
  "escape_number [0x1B, 0x5B, 0x33, 0x37, 0x6D, 0, 0, 0, 0, 0, 0, 0, 0, 0, 0, 0] = Some 37"
  by code_simp+

definition vga_mode :: vbe_mode_info_t where
  "vga_mode =
    \<lparr>mode_attributes = 0, mode_window_a = 0, mode_window_b = 0, mode_granularity = 0,
     mode_window_size = 0, mode_segment_a = 0, mode_segment_b = 0, mode_win_func_ptr = 0,
     mode_pitch = 2560, mode_width = 640, mode_height = 480, mode_w_char = 0, mode_y_char = 0,
     mode_planes = 0, mode_bpp = 32, mode_banks = 0, mode_memory_model = 0, mode_bank_size = 0,
     mode_image_pages = 0, mode_reserved0 = 0, mode_red = 0, mode_green = 0, mode_blue = 0,
     mode_reserved = 0, mode_direct_color = 0, mode_framebuffer = 0xFD000000,
     mode_invisible_vram = 0, mode_invisible_vram_size = 0, mode_reserved1 = replicate 206 0\<rparr>"

definition vga_screen :: screen_t where
  "vga_screen = screen_setup vga_mode \<lparr>using_back_buffer = False, locked = False, swidth = 0, sheight = 0, pitch = 0, ssize = 0,
     x_max = 0, y_max = 0, cur_x = 0, cur_y = 0, bg = 0, fg = 0, framebuffer = 0, back_buffer = 0,
     escape_seq_buffer = replicate 16 0, is_escape_seq = False, escape_seq_size = 1\<rparr>"

lemma vga_screen_ok: "screen_ok vga_screen" "\<not> is_escape_seq vga_screen" "\<not> using_back_buffer vga_screen"
  "y_max vga_screen = 29" "pitch vga_screen = 2560" "screen_ok (vga_screen\<lparr>cur_y := 29\<rparr>)"
  by (simp_all add: vga_screen_def screen_setup_def vga_mode_def CHAR_WIDTH_def int_mult_def screen_ok_def geometry_ok_def)


text \<open>A line feed on the last line scrolls: the cursor goes to the start of the last line and
  every pixel row above that line shows what was 16 rows below it.\<close>

theorem newline_scrolls:
  assumes "screen_ok scr" and "\<not> using_back_buffer scr" and "cur_y scr = y_max scr"
  shows "\<exists>m' scr'. putc font 10 (m, scr) = Inr (m', scr') \<and> cur_x scr' = 0 \<and> cur_y scr' = y_max scr \<and>
    (\<forall>k < unat (y_max scr) * 16 * unat (pitch scr).
      m' (framebuffer scr + of_nat k) = m (framebuffer scr + of_nat (k + 16 * unat (pitch scr))))"
proof -
  have g: "geometry_ok scr" using assms(1) by (simp add: screen_ok_def)
  note gd = g[unfolded geometry_ok_def]
  let ?scr = "scr\<lparr>cur_x := 0, cur_y := cur_y scr + 1\<rparr>"
  have g': "geometry_ok ?scr" using g by (simp add: geometry_ok_def)
  have "unat (y_max scr) < 65535" using gd unat_less16[of "sheight scr"] by simp
  then have "unat (cur_y scr + 1) = unat (y_max scr) + 1"
    unfolding assms(3) by (subst unat_word_ariths) simp
  then have down: "y_max scr < cur_y scr + 1" by (simp add: word_less_nat_alt)
  have "putc font 10 (m, scr) = Inr (scroll (m, ?scr))" using down by (simp add: putc_def)
  moreover have "fst (scroll (m, ?scr)) (framebuffer scr + of_nat k) = m (framebuffer scr + of_nat (k + 16 * unat (pitch scr)))"
    if "k < unat (y_max scr) * 16 * unat (pitch scr)" for k
    using scroll_rows[OF g', of k m] that assms(2) by simp
  ultimately show ?thesis using scroll_screen(2)[OF g', of m] by (cases "scroll (m, ?scr)") auto
qed

theorem newline_scrolls_witness:
  "\<exists>m' scr'. putc (\<lambda>_. 0) 10 (\<lambda>a. if a = 0xFFFF8000FD00A000 then 7 else 0, vga_screen\<lparr>cur_y := 29\<rparr>) = Inr (m', scr') \<and>
    m' 0xFFFF8000FD000000 = 7"
proof -
  have f: "framebuffer vga_screen = 0xFFFF8000FD000000" by code_simp
  show ?thesis
    using newline_scrolls[OF vga_screen_ok(6), of "\<lambda>_. 0" "\<lambda>a. if a = 0xFFFF8000FD00A000 then 7 else 0"] vga_screen_ok(3-5) f
    by (auto elim!: allE[of _ 0])
qed

text \<open>The escape sequences for the foreground colours 30 to 37 set the foreground colour, draw
  nothing and leave the cursor, the background and the memory alone.\<close>

theorem escape_sets_foreground:
  assumes "k < 8"
  shows "\<exists>scr'. fold_res (putc font) [0x1B, 0x5B, 0x33, 0x30 + of_nat k, 0x6D] (m, scr) = Inr (m, scr') \<and>
    fg scr' = ansi_colors ! k \<and> bg scr' = bg scr \<and> cur_x scr' = cur_x scr \<and> cur_y scr' = cur_y scr \<and> \<not> is_escape_seq scr'"
proof -
  have ks: "k = 0 \<or> k = 1 \<or> k = 2 \<or> k = 3 \<or> k = 4 \<or> k = 5 \<or> k = 6 \<or> k = 7" using assms by linarith
  have v: "(0x30 + of_nat k :: u8) \<noteq> 13" "(0x30 + of_nat k :: u8) \<noteq> 10" "(0x30 + of_nat k :: u8) \<noteq> 0x1B" "(0x30 + of_nat k :: u8) \<noteq> 0x6D"
    and n: "escape_number [0x1B, 0x5B, 0x33, 0x30 + of_nat k, 0x6D, 0, 0, 0, 0, 0, 0, 0, 0, 0, 0, 0] = Some (30 + of_nat k)"
    and s: "sint (30 + of_nat k :: u32) = 30 + int k" "(30 + of_nat k :: u32) \<noteq> 0"
    using ks by (elim disjE; simp add: colour_codes)+
  have buf: "(replicate 16 0)[0 := 0x1B, Suc 0 := 0x5B, 2 := 0x33, 3 := x, 4 := 0x6D] =
    [0x1B, 0x5B, 0x33, x, 0x6D, 0, 0, 0, 0, 0, 0, 0, 0, 0, 0, 0]" for x :: u8 by (simp add: numeral_eq_Suc)
  have small: "\<not> (16 :: u64) \<le> 1" by (simp add: word_le_nat_alt)
  show ?thesis using v s assms by (simp add: putc_def Let_def parse_escape_sequence_def buf n small)
qed


theorem escape_sets_foreground_witness:
  "\<exists>scr'. fold_res (putc (\<lambda>_. 0)) [0x1B, 0x5B, 0x33, 0x30 + of_nat 1, 0x6D] (\<lambda>_. 0, vga_screen) = Inr (\<lambda>_. 0, scr') \<and>
    fg scr' = ansi_colors ! 1"
  using escape_sets_foreground[of 1 "\<lambda>_. 0" "\<lambda>_. 0" vga_screen] by auto

text \<open>The escape buffer is not protected: an escape character followed by 15 ordinary characters
  fills it, and the next one is written past its end.\<close>

theorem escape_buffer_overrun:
  assumes "\<forall>v \<in> set vs. v \<noteq> 13 \<and> v \<noteq> 10 \<and> v \<noteq> 0x1B \<and> v \<noteq> 0x6D" and "length vs = 16"
  shows "fold_res (putc font) (0x1B # vs) (m, scr) = Inl Overrun"
proof -
  have fill: "\<exists>scr'. fold_res (putc font) xs (m, s) = Inr (m, scr') \<and> is_escape_seq scr' \<and>
      escape_seq_size scr' = escape_seq_size s + of_nat (length xs)"
    if "is_escape_seq s" "\<forall>v \<in> set xs. v \<noteq> 13 \<and> v \<noteq> 10 \<and> v \<noteq> 0x1B \<and> v \<noteq> 0x6D"
      "unat (escape_seq_size s) + length xs \<le> 16" for s xs
    using that
  proof (induction xs arbitrary: s)
    case (Cons x xs)
    let ?s = "s\<lparr>escape_seq_buffer := (escape_seq_buffer s)[unat (escape_seq_size s) := x], escape_seq_size := escape_seq_size s + 1\<rparr>"
    have lt: "escape_seq_size s < 16" using Cons.prems(3) by (simp add: word_less_nat_alt)
    then have step: "putc font x (m, s) = Inr (m, ?s)" using Cons.prems by (simp add: putc_def Let_def not_le[symmetric])
    have "unat (escape_seq_size s + 1) = unat (escape_seq_size s) + 1" using lt by (rule unat_plus_one_less)
    then show ?case using Cons.IH[of ?s] Cons.prems step by (auto simp: add.assoc add.commute)
  qed auto
  obtain ws w where vs: "vs = ws @ [w]" "length ws = 15" using assms(2) by (cases vs rule: rev_cases) auto
  let ?s = "scr\<lparr>escape_seq_buffer := (replicate 16 0)[0 := 0x1B], is_escape_seq := True, escape_seq_size := 1\<rparr>"
  have esc: "putc font 0x1B (m, scr) = Inr (m, ?s)" by (simp add: putc_def)
  obtain s2 where s2: "fold_res (putc font) ws (m, ?s) = Inr (m, s2)" "is_escape_seq s2" "escape_seq_size s2 = 16"
    using fill[of ?s ws] assms(1) vs by auto
  have "putc font w (m, s2) = Inl Overrun" using s2 assms(1) vs by (simp add: putc_def)
  then show ?thesis using esc s2(1) vs(1) by (simp del: list_update_code)
qed

theorem escape_buffer_overrun_witness:
  "fold_res (putc (\<lambda>_. 0)) (0x1B # replicate 16 0x41) (\<lambda>_. 0, vga_screen) = Inl Overrun"
  using escape_buffer_overrun[of "replicate 16 0x41"] by simp

end
