(* ===== verification/CString_Numbers.thy ===== *)
theory CString_Numbers
  imports CString
begin

text \<open>
  What the number routines of \<open>kernel/src/misc/string.c\<close> compute: \<open>ltoa\<close> writes the digits of a
  number, \<open>atoi\<close> reads them back.
\<close>

section \<open>Digits\<close>

definition digit :: "nat \<Rightarrow> u8" where
  "digit d = (if d \<le> 9 then of_nat (d + 0x30) else of_nat (d - 10 + 0x41))"

fun digits :: "nat \<Rightarrow> nat \<Rightarrow> u8 list" where
  "digits b n = (if n < b \<or> b < 2 then [digit (n mod b)] else digits b (n div b) @ [digit (n mod b)])"

declare digits.simps [simp del]

lemma sint_of_nat_small:
  assumes "n < 2 ^ 63"
  shows "sint (of_nat n :: u64) = int n"
proof -
  have "take_bit 64 n = n" using assms by (intro take_bit_nat_eq_self) simp
  then have "uint (of_nat n :: u64) = int n" by (simp add: unsigned_of_nat)
  moreover have "signed_take_bit 63 (int n) = int n" using assms by (intro signed_take_bit_int_eq_self) simp_all
  ultimately show ?thesis by (simp add: sint_uint)
qed

lemma digit_char_eq: "d < 36 \<Longrightarrow> digit_char (of_nat d) = digit d"
proof -
  assume "d < 36"
  then have "d \<in> set [0..<36]" by simp
  then show ?thesis by (simp only: upt_rec[of 0 36]) (auto simp: digit_char_def digit_def upt_rec)
qed

lemma digits_length: "2 \<le> b \<Longrightarrow> n < b ^ k \<Longrightarrow> 0 < k \<Longrightarrow> length (digits b n) \<le> k"
proof (induction k arbitrary: n)
  case (Suc k)
  show ?case
  proof (cases "n < b")
    case True
    then show ?thesis by (subst digits.simps) simp
  next
    case False
    then have "0 < k" using Suc.prems by (cases k) auto
    moreover have "n div b < b ^ k" using Suc.prems by (simp add: less_mult_imp_div_less mult.commute)
    ultimately have "length (digits b (n div b)) \<le> k" using Suc by simp
    then show ?thesis using False Suc.prems(1) by (subst digits.simps) simp
  qed
qed simp

lemma digits_length64:
  assumes "2 \<le> b" and "n < 2 ^ 64"
  shows "length (digits b n) \<le> 64"
proof -
  have "2 ^ 64 \<le> b ^ 64" using assms(1) by (intro power_mono) simp_all
  then show ?thesis using digits_length[OF assms(1), of n 64] assms(2) by linarith
qed

lemma digit_nonzero: "d < 36 \<Longrightarrow> digit d \<noteq> 0"
proof -
  assume "d < 36"
  then have "d \<in> set [0..<36]" by simp
  then show ?thesis by (simp only: upt_rec[of 0 36]) (auto simp: digit_def upt_rec)
qed

lemma digits_nonzero: "2 \<le> b \<Longrightarrow> b \<le> 36 \<Longrightarrow> 0 \<notin> set (digits b n)"
proof (induction b n rule: digits.induct)
  case (1 b n)
  have "n mod b < b" using 1 by simp
  then have "digit (n mod b) \<noteq> 0" using 1 by (intro digit_nonzero) linarith
  then show ?case using 1 by (subst digits.simps) auto
qed


section \<open>ltoa\<close>

lemma ltoa_digits_spec:
  assumes b: "2 \<le> b" "b \<le> 36" and i: "i + length (digits b (unat x)) < 2 ^ 64"
  shows "ltoa_digits m buffer (of_nat i) x (of_nat b) =
    Some (store m (buffer + of_nat i) (rev (digits b (unat x))), of_nat (i + length (digits b (unat x))))"
  using i
proof (induction "unat x" arbitrary: x m i rule: less_induct)
  case less
  have ub: "unat (of_nat b :: u64) = b" using b by (simp add: unat_of_nat)
  have b0: "(of_nat b :: u64) \<noteq> 0" using ub b by (auto simp: unat_eq_0[symmetric])
  let ?d = "unat x mod b" and ?q = "unat x div b"
  have um: "unat (x mod of_nat b) = ?d" and uq: "unat (x div of_nat b) = ?q" by (simp_all add: unat_mod unat_div ub)
  have "?d < b" using b by simp
  moreover have "x mod of_nat b = of_nat ?d" using um by (rule word_eq_of_nat)
  moreover have "?d < 36" using \<open>?d < b\<close> b by linarith
  ultimately have dc: "digit_char (x mod of_nat b) = digit ?d" by (simp only: digit_char_eq)
  show ?case
  proof (cases "unat x < b")
    case True
    then have "x div of_nat b = 0" using uq by (simp flip: unat_eq_0)
    moreover have ds: "digits b (unat x) = [digit ?d]" using True by (subst digits.simps) simp
    ultimately show ?thesis using b0 dc by (subst ltoa_digits.simps) (simp add: Let_def store_single add.commute)
  next
    case False
    then have ds: "digits b (unat x) = digits b ?q @ [digit ?d]" using b by (subst digits.simps) simp
    have lt: "?q < unat x" using False b by (intro div_less_dividend) linarith+
    have q0: "x div of_nat b \<noteq> 0" using uq False b by (auto simp: unat_eq_0[symmetric] div_eq_0_iff)
    let ?m = "m(buffer + of_nat i := digit ?d)"
    have "ltoa_digits ?m buffer (of_nat (Suc i)) (x div of_nat b) (of_nat b) =
      Some (store ?m (buffer + of_nat (Suc i)) (rev (digits b ?q)), of_nat (Suc i + length (digits b ?q)))"
      using less.hyps[of "x div of_nat b" "Suc i" ?m] less.prems lt ds by (simp add: uq)
    moreover have "store ?m (buffer + of_nat (Suc i)) (rev (digits b ?q)) = store m (buffer + of_nat i) (rev (digits b (unat x)))"
      using store_Cons[of "rev (digits b ?q)" m "buffer + of_nat i" "digit ?d"] less.prems ds by (simp add: ac_simps)
    ultimately show ?thesis using b0 q0 dc ds by (subst ltoa_digits.simps) (simp add: Let_def add.commute)
  qed
qed

text \<open>Reversing a block in place.\<close>

lemma ltoa_reverse_spec:
  "xs \<noteq> [] \<Longrightarrow> lo + length xs \<le> 2 ^ 64 \<Longrightarrow>
    ltoa_reverse (store m (buffer + of_nat lo) xs) buffer (of_nat lo) (of_nat (lo + length xs - 1)) =
      store m (buffer + of_nat lo) (rev xs)"
proof (induction "length xs" arbitrary: xs m lo rule: less_induct)
  case less
  let ?p = "buffer + of_nat lo" and ?hi = "lo + length xs - 1"
  have "0 < length xs" using less.prems(1) by simp
  then have "lo < 2 ^ 64" "?hi < 2 ^ 64" using less.prems(2) by linarith+
  then have u: "unat (of_nat lo :: u64) = lo" "unat (of_nat ?hi :: u64) = ?hi" by (simp_all only: unat_of_nat_small)
  show ?case
  proof (cases xs rule: rev_cases)
    case (snoc zs b)
    show ?thesis
    proof (cases zs)
      case Nil
      then have "\<not> (of_nat lo :: u64) < of_nat ?hi" using snoc by simp
      then show ?thesis using snoc Nil by (subst ltoa_reverse.simps) simp
    next
      case (Cons a ys)
      have xs: "xs = a # ys @ [b]" using snoc Cons by simp
      have hi: "?hi = lo + Suc (length ys)" using xs by simp
      have lt: "(of_nat lo :: u64) < of_nat ?hi" unfolding word_less_nat_alt u using hi by simp
      have l64: "Suc (length ys) < 2 ^ 64" "lo + Suc (length ys) < 2 ^ 64" using less.prems(2) xs by simp_all
      have addr: "buffer + of_nat ?hi = ?p + of_nat (Suc (length ys))" unfolding hi by (simp add: add.assoc)
      have rd: "store m ?p xs ?p = a" "store m ?p xs (buffer + of_nat ?hi) = b"
        using store_in[of 0 xs m ?p] store_in[of "Suc (length ys)" xs m ?p] xs l64 unfolding addr
        by (simp_all add: nth_append)
      have sw: "(store m ?p xs)(?p := b, buffer + of_nat ?hi := a) = store m ?p (b # ys @ [a])"
        using store_update[of 0 xs m ?p b] store_update[of "Suc (length ys)" "xs[0 := b]" m ?p a] xs l64 unfolding addr
        by (simp add: list_update_append)
      let ?m = "m(?p := b, ?p + of_nat (Suc (length ys)) := a)"
      have split: "store m ?p (b # zs @ [a]) = store ?m (?p + 1) zs" if "length zs = length ys" for zs
      proof -
        have "store m ?p ((b # zs) @ [a]) = (store m ?p (b # zs))(?p + of_nat (Suc (length ys)) := a)"
          using store_append[of "b # zs" "[a]" m ?p] l64 that by (simp add: store_single)
        also have "store m ?p (b # zs) = store (m(?p := b)) (?p + 1) zs" using store_Cons[of zs m ?p b] l64 that by simp
        also have "(store (m(?p := b)) (?p + 1) zs)(?p + of_nat (Suc (length ys)) := a) = store ?m (?p + 1) zs"
        proof -
          have "?p + of_nat (Suc (length ys)) = ?p + 1 + of_nat (length zs)" using that by simp
          then have "unat (?p + of_nat (Suc (length ys)) - (?p + 1)) = length zs" using l64 that by (simp add: unat_of_nat)
          then show ?thesis by (auto simp: store_def fun_eq_iff)
        qed
        finally show ?thesis by simp
      qed
      have step: "ltoa_reverse (store m ?p xs) buffer (of_nat lo) (of_nat ?hi) =
          ltoa_reverse (store ?m (?p + 1) ys) buffer (of_nat lo + 1) (of_nat ?hi - 1)"
        using lt rd sw split[of ys] by (subst ltoa_reverse.simps) (simp add: Let_def)
      show ?thesis
      proof (cases "ys = []")
        case True
        have "unat (of_nat (Suc lo) :: u64) = Suc lo" using l64 by (intro unat_of_nat_small) simp
        then have "\<not> (of_nat lo + 1 :: u64) < of_nat ?hi - 1" using hi True u by (simp add: word_less_nat_alt add.commute)
        then show ?thesis using step True xs split[of "[]"] by (subst (asm) ltoa_reverse.simps) simp
      next
        case False
        have e: "of_nat lo + 1 = (of_nat (Suc lo) :: u64)" "of_nat ?hi - 1 = (of_nat (Suc lo + length ys - 1) :: u64)"
          "?p + 1 = buffer + of_nat (Suc lo)" using hi False by (simp_all add: of_nat_diff Suc_le_eq)
        have "ltoa_reverse (store ?m (?p + 1) ys) buffer (of_nat lo + 1) (of_nat ?hi - 1) = store ?m (?p + 1) (rev ys)"
          unfolding e using less.hyps[of ys "Suc lo" ?m] False xs less.prems(2) by simp
        then show ?thesis using step split[of "rev ys"] xs by simp
      qed
    qed
  qed (use less.prems in simp)
qed


lemma store_end:
  assumes "length xs < 2 ^ 64"
  shows "(store m p xs)(p + of_nat (length xs) := v) = store m p (xs @ [v])"
    and "store (m(p + of_nat (length xs) := v)) p xs = store m p (xs @ [v])"
proof -
  show "(store m p xs)(p + of_nat (length xs) := v) = store m p (xs @ [v])"
    using store_append[of xs "[v]" m p] assms by (simp add: store_single)
  show "store (m(p + of_nat (length xs) := v)) p xs = store m p (xs @ [v])"
    using offset_iff[OF assms, of _ p] by (auto simp: store_def fun_eq_iff nth_append less_Suc_eq)
qed

lemma cstr_store:
  assumes "length xs < 2 ^ 63" and "0 \<notin> set xs"
  shows "cstr (store m p (xs @ [0])) p xs"
  using assms by (intro cstrI) (auto simp: store_def unat_of_nat nth_append)

text \<open>The common part of \<open>ltoa\<close>: digits behind a prefix, terminated and reversed.\<close>

lemma ltoa_tail:
  assumes pre: "length pre \<le> 1" "0 \<notin> set pre" and b: "2 \<le> b" "b \<le> 36" and k: "k = of_nat (length pre)"
  shows "(case ltoa_digits (store m buffer pre) buffer k x (of_nat b) of
          None \<Rightarrow> None
        | Some (m, i) \<Rightarrow>
            let m = m(buffer + i := 0)
            in case strlen m buffer of
                 None \<Rightarrow> None
               | Some n \<Rightarrow> Some (ltoa_reverse m buffer k (n - 1)))
    = Some (store m buffer (pre @ digits b (unat x) @ [0]))"
proof -
  let ?ds = "digits b (unat x)" and ?k = "length pre"
  have L: "length ?ds \<le> 64" using digits_length64[OF b(1)] unat_less_size[of x] by simp
  have ne: "?ds \<noteq> []" by (subst digits.simps) simp
  let ?q = "buffer + of_nat ?k"
  have dg: "ltoa_digits (store m buffer pre) buffer (of_nat ?k) x (of_nat b) =
      Some (store (store m buffer pre) ?q (rev ?ds), of_nat (?k + length ?ds))"
    using ltoa_digits_spec[OF b, of ?k x] L pre by simp
  let ?m = "store m buffer (pre @ rev ?ds @ [0])"
  have m2: "(store (store m buffer pre) ?q (rev ?ds))(buffer + of_nat (?k + length ?ds) := 0) = ?m"
    using store_append[of pre "rev ?ds" m buffer] store_end(1)[of "pre @ rev ?ds" m buffer 0] L pre by simp
  have "cstr ?m buffer (pre @ rev ?ds)"
    using cstr_store[of "pre @ rev ?ds" m buffer] L pre digits_nonzero[OF b] by simp
  then have len: "strlen ?m buffer = Some (of_nat (?k + length ?ds))" using strlen_cstr by fastforce
  let ?M = "store m buffer pre" and ?e = "?q + of_nat (length (rev ?ds))"
  have split: "store m buffer (pre @ xs @ [0]) = store (?M(?e := 0)) ?q xs" if "length xs = length ?ds" for xs
    using store_append[of pre "xs @ [0]" m buffer] store_end(2)[of xs ?M ?q 0] that L pre by simp
  have hi: "of_nat (?k + length ?ds) - 1 = (of_nat (?k + length (rev ?ds) - 1) :: u64)"
    using ne by (simp add: of_nat_diff Suc_le_eq)
  have "ltoa_reverse ?m buffer (of_nat ?k) (of_nat (?k + length ?ds) - 1) = store (?M(?e := 0)) ?q ?ds"
    unfolding hi split[of "rev ?ds", simplified] using ltoa_reverse_spec[of "rev ?ds" ?k "?M(?e := 0)" buffer] ne L pre by simp
  then show ?thesis using dg m2 len split[of ?ds] by (simp add: Let_def k)
qed

text \<open>The text of a number: a minus sign only in base ten.\<close>

definition number_text :: "nat \<Rightarrow> u64 \<Rightarrow> u8 list" where
  "number_text b num =
    (if b = 10 \<and> sint num < 0 then 0x2D # digits 10 (unat (- num)) else digits b (unat num))"

lemma ltoa_spec:
  assumes "2 \<le> b" and "b \<le> 36"
  shows "ltoa m num buffer (of_nat b) = Some (store m buffer (number_text b num @ [0]))"
proof -
  have u: "unat (of_nat b :: u32) = b" using assms by (simp add: unat_of_nat)
  have ten: "(of_nat b :: u32) = 10 \<longleftrightarrow> b = 10" using u by (auto simp: word_unat_eq_iff)
  have sc: "scast (of_nat b :: u32) = (of_nat b :: u64)" using scast_small[of "of_nat b"] u assms by simp
  show ?thesis
  proof (cases "sint num < 0 \<and> b = 10")
    case True
    then show ?thesis
      using ltoa_tail[where pre = "[0x2D]" and k = 1 and b = b and m = m and buffer = buffer and x = "- num"] assms sc ten
      by (simp add: ltoa_def Let_def store_single number_text_def)
  next
    case False
    then show ?thesis using ltoa_tail[where pre = "[]" and k = 0 and b = b and m = m and buffer = buffer and x = num] assms sc ten
      by (auto simp add: ltoa_def Let_def number_text_def)
  qed
qed


section \<open>atoi\<close>

text \<open>The value of a digit string, most significant digit first.\<close>

fun digits_value :: "u8 list \<Rightarrow> nat" where
  "digits_value [] = 0"
| "digits_value (c # cs) = (unat c - 0x30) * 10 ^ length cs + digits_value cs"

lemma digits_value_snoc: "digits_value (cs @ [c]) = 10 * digits_value cs + (unat c - 0x30)"
  by (induction cs) (simp_all add: algebra_simps)

definition decimal_char :: "u8 \<Rightarrow> bool" where
  "decimal_char c \<longleftrightarrow> 0x30 \<le> unat c \<and> unat c \<le> 0x39"

lemma scast_decimal: "decimal_char c \<Longrightarrow> scast c - 0x30 = (of_nat (unat c - 0x30) :: u32)"
proof -
  assume c: "decimal_char c"
  then have "unat c \<in> set [0x30..<0x3A]" unfolding decimal_char_def set_upt atLeastLessThan_iff by linarith
  moreover have "scast (of_nat n :: u8) - 0x30 = (of_nat (n - 0x30) :: u32)" if "n \<in> set [0x30..<0x3A]" for n
    using that by (simp only: upt_rec[of "0x30" "0x3A"]) (auto simp: upt_rec)
  ultimately have "scast (of_nat (unat c) :: u8) - 0x30 = (of_nat (unat c - 0x30) :: u32)" by blast
  then show ?thesis by simp
qed

lemma atoi_loop_spec:
  assumes "\<And>i. i < length cs \<Longrightarrow> m (str + of_nat (k + i)) = cs ! i" and "\<forall>c \<in> set cs. decimal_char c"
  shows "atoi_loop m str k (k + length cs) v mult = v + of_nat (digits_value cs) * mult"
  using assms
proof (induction cs arbitrary: v mult rule: rev_induct)
  case Nil
  then show ?case by (cases k) simp_all
next
  case (snoc c cs)
  have c: "m (str + of_nat (k + length cs)) = c" using snoc.prems(1)[of "length cs"] by simp
  have IH: "atoi_loop m str k (k + length cs) v mult = v + of_nat (digits_value cs) * mult" for v mult
    using snoc.prems by (intro snoc.IH) (auto simp: nth_append)
  have "scast c - 0x30 = (of_nat (unat c - 0x30) :: u32)" using snoc.prems(2) scast_decimal by simp
  then show ?case using IH[of "v + of_nat (unat c - 0x30) * mult" "mult * 10"] c
    by (simp add: digits_value_snoc algebra_simps)
qed

lemma decimal_digit: "d < 10 \<Longrightarrow> unat (digit d) = d + 0x30"
proof -
  assume "d < 10"
  then have "digit d = of_nat (d + 0x30)" by (simp add: digit_def)
  also have "unat \<dots> = d + 0x30" using \<open>d < 10\<close> by (subst unat_of_nat) simp
  finally show ?thesis .
qed

lemma digits_decimal: "\<forall>c \<in> set (digits 10 n). decimal_char c" "digits_value (digits 10 n) = n"
proof (induction "10 :: nat" n rule: digits.induct)
  case (1 n)
  have d: "decimal_char (digit (n mod 10))" using decimal_digit[of "n mod 10"] by (simp add: decimal_char_def)
  {
    case 1
    show ?case using "1.hyps"(1) d by (subst digits.simps) auto
  next
    case 2
    show ?case using "1.hyps"(2) decimal_digit[of "n mod 10"] by (subst digits.simps) (auto simp: digits_value_snoc)
  }
qed


lemma atoi_spec:
  assumes "cstr m str (pre @ ds)" and "ds \<noteq> []" and "\<forall>c \<in> set ds. decimal_char c" and "pre = [] \<or> pre = [0x2D]"
  shows "atoi m str = Some (if pre = [] then of_nat (digits_value ds) else - of_nat (digits_value ds))"
proof -
  have len: "strlen m str = Some (of_nat (length pre + length ds))" "unat (of_nat (length pre + length ds) :: u64) = length pre + length ds"
    using strlen_cstr[OF assms(1)] assms(1) by (simp, intro unat_of_nat_small) (simp add: cstr_def)
  have first: "(m str = 0x2D) = (pre \<noteq> [])"
  proof (cases "pre = []")
    case True
    have "m str = hd ds" using cstr_char[OF assms(1), of 0] assms(2) True by (simp add: hd_conv_nth)
    moreover have "decimal_char (hd ds)" using assms(2,3) by simp
    ultimately show ?thesis using True by (auto simp: decimal_char_def)
  next
    case False
    then show ?thesis using cstr_char[OF assms(1), of 0] assms(4) by auto
  qed
  have "atoi_loop m str (length pre) (length pre + length ds) 0 1 = 0 + of_nat (digits_value ds) * 1"
  proof (rule atoi_loop_spec[OF _ assms(3)])
    show "m (str + of_nat (length pre + i)) = ds ! i" if "i < length ds" for i
      using cstr_char[OF assms(1), of "length pre + i"] that by (simp only: nth_append) simp
  qed
  then show ?thesis using len first assms(4) by (auto simp: atoi_def)
qed

section \<open>Properties\<close>

text \<open>C23: For every 64-bit number and every base from 2 to 36 \<open>ltoa\<close> returns and leaves in the buffer
  exactly the digits of the number, most significant first, zero-terminated, with a minus sign
  for negative numbers in base ten only; no other byte of memory changes.\<close>

theorem ltoa_writes_digits:
  assumes "2 \<le> b" and "b \<le> 36"
  shows "ltoa m num buffer (of_nat b) = Some (store m buffer
    ((if b = 10 \<and> sint num < 0 then 0x2D # digits 10 (unat (- num)) else digits b (unat num)) @ [0]))"
  using ltoa_spec[OF assms] by (simp add: number_text_def)

theorem ltoa_writes_digits_witness:
  "ltoa (\<lambda>_. 0) 0xFFFFFFFFFFFFFFF6 0x1000 (of_nat 10) = Some (store (\<lambda>_. 0) 0x1000 [0x2D, 0x31, 0x30, 0])"
  using ltoa_writes_digits[of 10 "\<lambda>_. 0" "0xFFFFFFFFFFFFFFF6" "0x1000"] by (simp add: digits.simps digit_def)

text \<open>C24: \<open>atoi\<close> reads back what \<open>ltoa\<close> wrote: every number that fits an \<open>int\<close> survives the round trip.\<close>

theorem ltoa_atoi_roundtrip:
  assumes "- (2 ^ 31) \<le> n" and "n < 2 ^ 31"
  shows "\<exists>m'. ltoa m (of_int n) buffer 10 = Some m' \<and> atoi m' buffer = Some (of_int n)"
proof -
  have s: "sint (of_int n :: u64) = n"
    using assms by (simp add: sint_uint unsigned_of_int signed_take_bit_take_bit) (intro signed_take_bit_int_eq_self; simp)
  let ?ds = "digits 10 (nat \<bar>n\<bar>)" and ?pre = "if n < 0 then [0x2D] else [] :: u8 list"
  have u: "unat (of_int n :: u64) = nat \<bar>n\<bar>" if "0 \<le> n"
    using that assms by (simp add: unsigned_of_int take_bit_int_eq_self flip: nat_take_bit_eq)
  have un: "unat (- of_int n :: u64) = nat \<bar>n\<bar>" if "n < 0"
  proof -
    have "(- of_int n :: u64) = of_nat (nat \<bar>n\<bar>)" using that by (simp add: of_nat_nat)
    moreover have "nat \<bar>n\<bar> < 2 ^ 64" using that assms by simp
    ultimately show ?thesis by (simp only: unat_of_nat_small)
  qed
  have tx: "number_text 10 (of_int n) = ?pre @ ?ds" using s u un by (auto simp: number_text_def)
  let ?m = "store m buffer ((?pre @ ?ds) @ [0])"
  have "ltoa m (of_int n) buffer 10 = Some ?m" using ltoa_spec[of 10 m "of_int n" buffer] tx by simp
  moreover have "length ?ds \<le> 64" using assms by (intro digits_length64) auto
  then have c: "cstr ?m buffer (?pre @ ?ds)" using digits_nonzero[of 10 "nat \<bar>n\<bar>"] by (intro cstr_store) auto
  have ne: "?ds \<noteq> []" by (subst digits.simps) simp
  have "atoi ?m buffer = Some (if ?pre = [] then of_nat (digits_value ?ds) else - of_nat (digits_value ?ds))"
    using digits_decimal(1) by (intro atoi_spec[OF c ne]) auto
  then have "atoi ?m buffer = Some (of_int n)" using digits_decimal(2)[of "nat \<bar>n\<bar>"] by (auto simp: of_nat_nat)
  ultimately show ?thesis by blast
qed

theorem ltoa_atoi_roundtrip_witness:
  "\<exists>m'. ltoa (\<lambda>_. 0) (of_int (-42)) 0x1000 10 = Some m' \<and> atoi m' 0x1000 = Some (of_int (-42))"
  using ltoa_atoi_roundtrip[of "-42" "\<lambda>_. 0" "0x1000"] by simp

end
