(* ===== verification/Debug.thy ===== *)
theory Debug
  imports Screen Mutex CString_Numbers
begin

text \<open>
  The kernel log, \<open>kernel/src/misc/debug.c\<close>: formatted output to the emulator's debug port and
  to the console.  Memory holds the strings, the log buffer and the local arrays of
  \<open>debug_vprintf\<close>; the variable arguments are a list.
\<close>

section \<open>State\<close>

record debug =
  dmem :: memory
  dscreen :: screen_t
  e9_precense :: bool
  e9_mutex :: mutex_t
  e9_out :: "u8 list"
  debug_buffer :: u64
  debug_buffer_size :: u64
  display_debug :: bool
  timer_ticks :: u64

definition LEVEL_DEBUG :: u32 where "LEVEL_DEBUG = 1"
definition LEVEL_WARN :: u32 where "LEVEL_WARN = 2"
definition LEVEL_ERROR :: u32 where "LEVEL_ERROR = 3"
definition TIMER_FREQUENCY :: u64 where "TIMER_FREQUENCY = 1000"

text \<open>The addresses of the local arrays \<open>integer_buffer\<close>, \<open>padded_buffer\<close> and \<open>number\<close>.\<close>

record frame =
  integer_buffer :: u64
  padded_buffer :: u64
  number :: u64

section \<open>Characters and strings\<close>

definition debug_putc :: "(nat \<Rightarrow> u8) \<Rightarrow> u8 \<Rightarrow> debug \<Rightarrow> halt + debug" where
  "debug_putc font val s =
    (let s = (if e9_precense s then s\<lparr>e9_out := e9_out s @ (if val = 10 then [13] else []) @ [val]\<rparr> else s)
     in bnd (if display_debug s
             then bnd (putc font val (dmem s, dscreen s)) (\<lambda>(m, scr). Inr (s\<lparr>dmem := m, dscreen := scr\<rparr>))
             else Inr s) (\<lambda>s.
        Inr (s\<lparr>dmem := (dmem s)(debug_buffer s + debug_buffer_size s := val)\<rparr>)))"

partial_function (option) debug_puts_from ::
  "(nat \<Rightarrow> u8) \<Rightarrow> u64 \<Rightarrow> u32 \<Rightarrow> debug \<Rightarrow> (halt + (u32 \<times> debug)) option" where
  "debug_puts_from font str i s =
    (if dmem s (str + scast i) \<noteq> 0 then
       (case debug_putc font (dmem s (str + scast i)) s of
          Inl e \<Rightarrow> Some (Inl e)
        | Inr s \<Rightarrow> debug_puts_from font str (i + 1) s)
     else Some (Inr (i, s)))"

definition debug_puts :: "(nat \<Rightarrow> u8) \<Rightarrow> u64 \<Rightarrow> debug \<Rightarrow> halt + (u32 \<times> debug)" where
  "debug_puts font str s = (case debug_puts_from font str 0 s of None \<Rightarrow> Inl Diverges | Some r \<Rightarrow> r)"

text \<open>\<open>debug_puts\<close> of a string literal.\<close>

definition debug_lit :: "(nat \<Rightarrow> u8) \<Rightarrow> u8 list \<Rightarrow> debug \<Rightarrow> halt + debug" where
  "debug_lit font cs = fold_res (debug_putc font) cs"

section \<open>Padding\<close>

definition pad :: "memory \<Rightarrow> u64 \<Rightarrow> u64 \<Rightarrow> u64 \<Rightarrow> u8 \<Rightarrow> memory option" where
  "pad m destination source new_size val =
    (case strlen m source of None \<Rightarrow> None | Some n \<Rightarrow>
     if new_size \<le> n then strcpy m destination source
     else let m = memset m destination val new_size;
              m = m(destination + new_size := 0)
          in if m source \<noteq> 0x2D then
               (case strlen m source of None \<Rightarrow> None | Some n \<Rightarrow> strcpy m (destination + new_size - n) source)
             else (case strlen m source of None \<Rightarrow> None | Some n \<Rightarrow>
               (case strcpy m (destination + new_size - n + 1) source of None \<Rightarrow> None | Some m \<Rightarrow>
               (case strlen m source of None \<Rightarrow> None | Some n \<Rightarrow>
                 Some (m(destination + (new_size - n + 1) := val, destination := 0x2D))))))"

section \<open>Directives\<close>

text \<open>After a percent sign: the padding character and the width.\<close>

definition scan_width ::
  "frame \<Rightarrow> u64 \<Rightarrow> u64 \<Rightarrow> debug \<Rightarrow> halt + (u64 \<times> u8 \<times> u32 \<times> debug)" where
  "scan_width fr fmt i s =
    (let zero = (dmem s (fmt + i) = 0x30);
         pad_character = (if zero then 0x30 else 0x20);
         i = (if zero then i + 1 else i)
     in if is_digit (dmem s (fmt + i)) then
          (case copy_number (dmem s) (number fr) (fmt + i) of
             None \<Rightarrow> Inl Diverges
           | Some (m, k) \<Rightarrow>
               if 16 \<le> k then Inl Overrun
               else (case atoi m (number fr) of
                   None \<Rightarrow> Inl Diverges
                 | Some pad_spaces \<Rightarrow> Inr (i + k, pad_character, pad_spaces, s\<lparr>dmem := m\<rparr>)))
        else Inr (i, pad_character, 0, s))"

text \<open>
  Printing a number: conversion into \<open>integer_buffer\<close>, padding into \<open>padded_buffer\<close>, a change of
  case, output.  The padded buffer has 96 bytes; a padded negative number takes one more byte
  than its width says.
\<close>

definition print_number ::
  "(nat \<Rightarrow> u8) \<Rightarrow> frame \<Rightarrow> u8 \<Rightarrow> u32 \<Rightarrow> (memory \<Rightarrow> memory option) \<Rightarrow> (memory \<Rightarrow> memory option) \<Rightarrow>
    debug \<Rightarrow> halt + (u32 \<times> debug)" where
  "print_number font fr pad_character pad_spaces conv letters s =
    (case conv (dmem s) of None \<Rightarrow> Inl Diverges | Some m \<Rightarrow>
     if 96 \<le> (scast pad_spaces :: u64) \<or> pad_spaces = 95 \<and> m (integer_buffer fr) = 0x2D then Inl Overrun
     else (case pad m (padded_buffer fr) (integer_buffer fr) (scast pad_spaces) pad_character of
         None \<Rightarrow> Inl Diverges
       | Some m \<Rightarrow> (case letters m of
           None \<Rightarrow> Inl Diverges
         | Some m \<Rightarrow> debug_puts font (padded_buffer fr) (s\<lparr>dmem := m\<rparr>))))"

text \<open>
  One directive: the new index, the arguments left, the characters printed.  Taking an argument
  that was not passed reads whatever the calling convention finds.
\<close>

definition directive ::
  "(nat \<Rightarrow> u8) \<Rightarrow> frame \<Rightarrow> u64 \<Rightarrow> u64 \<Rightarrow> u64 list \<Rightarrow> debug \<Rightarrow> halt + (u64 \<times> u64 list \<times> u32 \<times> debug)" where
  "directive font fr fmt i args s =
    bnd (scan_width fr fmt (i + 1) s) (\<lambda>(i, pc, ps, s).
    let c = dmem s (fmt + i);
        num = (\<lambda>j conv letters. case args of
                 [] \<Rightarrow> Inl Overrun
               | x # args \<Rightarrow> bnd (print_number font fr pc ps (\<lambda>m. conv m x (integer_buffer fr)) letters s) (\<lambda>(n, s).
                   Inr (j, args, n, s)));
        int_conv = (\<lambda>base m x b. itoa m (ucast x) b base);
        long_conv = (\<lambda>base m x b. ltoa m x b base);
        lower = (\<lambda>m. lowercase m (padded_buffer fr));
        upper = (\<lambda>m. uppercase m (padded_buffer fr))
    in if c = 0x63 then
         (case args of [] \<Rightarrow> Inl Overrun
          | x # args \<Rightarrow> bnd (debug_putc font (ucast x) s) (\<lambda>s. Inr (i + 1, args, 1, s)))
       else if c = 0x73 then
         (case args of [] \<Rightarrow> Inl Overrun
          | x # args \<Rightarrow> bnd (debug_puts font x s) (\<lambda>(n, s). Inr (i + 1, args, n, s)))
       else if c = 0x64 then num (i + 1) (int_conv 10) Some
       else if c = 0x78 then num (i + 1) (int_conv 16) lower
       else if c = 0x58 then num (i + 1) (int_conv 16) upper
       else if c = 0x6C then
         (let c = dmem s (fmt + (i + 1))
          in if c = 0x64 then num (i + 2) (long_conv 10) Some
             else if c = 0x78 then num (i + 2) (long_conv 16) lower
             else if c = 0x58 then num (i + 2) (long_conv 16) upper
             else Inr (i + 1, args, 0, s))
       else Inr (i, args, 0, s))"

section \<open>Formatted output\<close>

partial_function (option) vprintf_loop ::
  "(nat \<Rightarrow> u8) \<Rightarrow> frame \<Rightarrow> u64 \<Rightarrow> u64 \<Rightarrow> u64 list \<Rightarrow> u32 \<Rightarrow> debug \<Rightarrow> (halt + (u32 \<times> debug)) option" where
  "vprintf_loop font fr fmt i args sz s =
    (if dmem s (fmt + i) = 0 then Some (Inr (sz, s))
     else if dmem s (fmt + i) = 0x25 \<and> dmem s (fmt + (i + 1)) \<noteq> 0x25 then
       (case directive font fr fmt i args s of
          Inl e \<Rightarrow> Some (Inl e)
        | Inr (i, args, n, s) \<Rightarrow> vprintf_loop font fr fmt i args (sz + n) s)
     else (case debug_putc font (dmem s (fmt + i)) s of
          Inl e \<Rightarrow> Some (Inl e)
        | Inr s \<Rightarrow> vprintf_loop font fr fmt (i + 1) args (sz + 1) s))"

definition level_colour :: "u32 \<Rightarrow> u8 list" where
  "level_colour level =
    (if level = LEVEL_ERROR then [0x1B, 0x5B, 0x30, 0x6D, 0x1B, 0x5B, 0x31, 0x6D, 0x1B, 0x5B, 0x33, 0x31, 0x6D]
     else if level = LEVEL_WARN then [0x1B, 0x5B, 0x30, 0x6D, 0x1B, 0x5B, 0x31, 0x6D, 0x1B, 0x5B, 0x33, 0x33, 0x6D]
     else [0x1B, 0x5B, 0x30, 0x6D, 0x1B, 0x5B, 0x31, 0x6D, 0x1B, 0x5B, 0x33, 0x34, 0x6D])"

definition print_field ::
  "(nat \<Rightarrow> u8) \<Rightarrow> frame \<Rightarrow> u64 \<Rightarrow> u32 \<Rightarrow> u8 \<Rightarrow> debug \<Rightarrow> halt + debug" where
  "print_field font fr x width val s =
    bnd (print_number font fr val width (\<lambda>m. ltoa m x (integer_buffer fr) 10) Some s) (\<lambda>(_, s). Inr s)"

text \<open>The time stamp: \<open>timer_ticks\<close> is unsigned, the cast to \<open>long\<close> comes before the division.\<close>

definition print_time :: "(nat \<Rightarrow> u8) \<Rightarrow> frame \<Rightarrow> debug \<Rightarrow> halt + debug" where
  "print_time font fr s =
    (let t = sint (timer_ticks s);
         q = sgn t * (abs t div 1000);
         r = sgn t * (abs t mod 1000)
     in bnd (debug_lit font [0x5B] s) (\<lambda>s.
        bnd (print_field font fr (of_int q) 6 0x20 s) (\<lambda>s.
        bnd (debug_lit font [0x2E] s) (\<lambda>s.
        bnd (print_field font fr (of_int r) 3 0x30 s) (\<lambda>s.
        debug_lit font [0x5D, 0x1B, 0x5B, 0x30, 0x6D, 0x20] s)))))"

text \<open>\<open>module\<close> is a pointer to a string, or null.\<close>

definition print_module :: "(nat \<Rightarrow> u8) \<Rightarrow> u64 \<Rightarrow> debug \<Rightarrow> halt + debug" where
  "print_module font mo s =
    (if mo = 0 then Inr s
     else bnd (debug_lit font [0x1B, 0x5B, 0x33, 0x35, 0x6D] s) (\<lambda>s.
          bnd (debug_puts font mo s) (\<lambda>(_, s).
          debug_lit font [0x3A, 0x1B, 0x5B, 0x30, 0x6D, 0x20] s)))"

definition debug_vprintf ::
  "(nat \<Rightarrow> u8) \<Rightarrow> frame \<Rightarrow> u32 \<Rightarrow> u64 \<Rightarrow> u64 \<Rightarrow> u64 list \<Rightarrow> debug \<Rightarrow> halt + (u32 \<times> debug)" where
  "debug_vprintf font fr level mo fmt args s =
    bnd (acquire (e9_mutex s)) (\<lambda>mx.
    bnd (debug_lit font (level_colour level) (s\<lparr>e9_mutex := mx\<rparr>)) (\<lambda>s.
    bnd (print_time font fr s) (\<lambda>s.
    bnd (print_module font mo s) (\<lambda>s.
    bnd (case vprintf_loop font fr fmt 0 args 0 s of None \<Rightarrow> Inl Diverges | Some r \<Rightarrow> r) (\<lambda>(sz, s).
    Inr (sz, s\<lparr>e9_mutex := release (e9_mutex s)\<rparr>))))))"

definition debug_printf ::
  "(nat \<Rightarrow> u8) \<Rightarrow> frame \<Rightarrow> u32 \<Rightarrow> u64 \<Rightarrow> u64 \<Rightarrow> u64 list \<Rightarrow> debug \<Rightarrow> halt + (u32 \<times> debug)" where
  "debug_printf font fr level mo fmt args s = debug_vprintf font fr level mo fmt args s"

text \<open>\<open>port_e9\<close> is what reading the debug port gives, \<open>version\<close> the address of the version string.\<close>

definition debug_init :: "(nat \<Rightarrow> u8) \<Rightarrow> frame \<Rightarrow> u8 \<Rightarrow> u64 \<Rightarrow> debug \<Rightarrow> halt + (u32 \<times> debug)" where
  "debug_init font fr port_e9 version s =
    debug_printf font fr LEVEL_DEBUG 0 version [] (if port_e9 = 0xE9 then s\<lparr>e9_precense := True\<rparr> else s)"


section \<open>Padding: what the buffer holds\<close>

text \<open>Two arrays of 96 bytes that do not overlap.\<close>

definition apart :: "u64 \<Rightarrow> u64 \<Rightarrow> bool" where
  "apart p q \<longleftrightarrow> 96 \<le> unat (p - q) \<and> 96 \<le> unat (q - p)"

lemma apart_off:
  assumes "apart p q" and "k \<le> 96"
  shows "96 \<le> unat (p + of_nat k - q) \<or> k = 96"
proof (cases "k = 96")
  case False
  have "unat (p - q) + k < 2 ^ 64"
  proof -
    have "p - q = 0 - of_nat (unat (q - p))" by simp
    then have "unat (p - q) = unat (0 - of_nat (unat (q - p)) :: u64)" by (rule arg_cong)
    also have "\<dots> = 2 ^ 64 - unat (q - p)"
      using unat_minus_of_nat[of "unat (q - p)" 0] unat_less_size[of "q - p"] assms(1) by (simp add: apart_def)
    finally show ?thesis using assms False unat_less_size[of "q - p"] unfolding apart_def by linarith
  qed
  then have "unat (p - q + of_nat k) = unat (p - q) + k" by (rule unat_add_nat)
  moreover have e: "p + of_nat k - q = p - q + of_nat k" by simp
  ultimately show ?thesis unfolding e using assms(1) by (simp add: apart_def)
qed simp

lemma strcpy_spec:
  assumes "cstr m s xs" and "length xs < 95" and "d = s \<or> 96 \<le> unat (d - s)"
  shows "strcpy m d s = Some (store m d (xs @ [0]))"
proof -
  have n: "unat (of_nat (length xs) + 1 :: u64) = length xs + 1"
    using unat_of_nat_small[of "length xs + 1"] assms(2) by (simp add: add.commute)
  have "memmove m d s (of_nat (length xs) + 1) = store m d (load m s (length xs + 1))"
    using memmove_eq_store[of d s "of_nat (length xs) + 1" m] assms(2,3) n by auto
  then show ?thesis using assms(1) by (simp add: strcpy_def strlen_cstr cstr_def)
qed

definition padded :: "u8 list \<Rightarrow> nat \<Rightarrow> u8 \<Rightarrow> u8 list" where
  "padded xs w val =
    (if w \<le> length xs then xs
     else if hd xs = 0x2D then 0x2D # replicate (w - length xs + 1) val @ tl xs
     else replicate (w - length xs) val @ xs)"

lemma cstr_elsewhere:
  assumes "cstr m p xs" and "length xs < 95" and "length bs \<le> 96" and "apart p q"
  shows "cstr (store m q bs) p xs"
proof -
  have "store m q bs (p + of_nat i) = m (p + of_nat i)" if "i \<le> length xs" for i
    using apart_off[OF assms(4), of i] that assms(2,3) by (intro store_out) auto
  then show ?thesis using assms(1) cstr_char[OF assms(1)] cstr_end[OF assms(1)] by (intro cstrI) (auto simp: cstr_def)
qed

lemma pad_spec:
  assumes str: "cstr m src xs" "0 < length xs" "length xs < 95" and ap: "apart src dst" and w: "w < 96"
    and neg: "hd xs = 0x2D \<Longrightarrow> w < 95"
  shows "pad m dst src (of_nat w) val = Some (store m dst (padded xs w val @ [0]))"
proof -
  have far: "dst + of_nat k = src \<or> 96 \<le> unat (dst + of_nat k - src)" if "k < 96" for k
    using apart_off[of dst src k] ap that by (auto simp: apart_def)
  have len: "strlen m src = Some (of_nat (length xs))" using strlen_cstr[OF str(1)] .
  have le: "(of_nat w :: u64) \<le> of_nat (length xs) \<longleftrightarrow> w \<le> length xs"
    using w str(3) by (simp add: word_le_nat_alt unat_of_nat)
  show ?thesis
  proof (cases "w \<le> length xs")
    case True
    then show ?thesis using len le strcpy_spec[OF str(1,3), of dst] far[of 0] by (simp add: pad_def padded_def)
  next
    case False
    let ?k = "w - length xs"
    let ?m = "store m dst (replicate w val @ [0])"
    have m1: "(memset m dst val (of_nat w))(dst + of_nat w := 0) = ?m"
      using store_end(1)[of "replicate w val" m dst 0] w by (simp add: memset_eq_store unat_of_nat)
    have c: "cstr ?m src xs" using cstr_elsewhere[OF str(1,3) _ ap] w by simp
    have len2: "strlen ?m src = Some (of_nat (length xs))" using strlen_cstr[OF c] .
    have hd: "?m src = hd xs" using cstr_char[OF c, of 0] str(2) by (simp add: hd_conv_nth)
    have loc: "dst + of_nat w - of_nat (length xs) = dst + of_nat ?k" using False by (simp add: of_nat_diff)
    show ?thesis
    proof (cases "hd xs = 0x2D")
      case nohy: False
      have "strcpy ?m (dst + of_nat ?k) src = Some (store ?m (dst + of_nat ?k) (xs @ [0]))"
        using far[of ?k] w by (intro strcpy_spec[OF c str(3)]) auto
      moreover have "store ?m (dst + of_nat ?k) (xs @ [0]) = store m dst (replicate ?k val @ xs @ [0])"
      proof -
        have r: "replicate w val @ [0] = replicate ?k val @ replicate (length xs) val @ [0]"
          using False by (simp flip: replicate_add append_assoc)
        have "?m = store (store m dst (replicate ?k val)) (dst + of_nat ?k) (replicate (length xs) val @ [0])"
          unfolding r using store_append[of "replicate ?k val" "replicate (length xs) val @ [0]" m dst] w str(3) by simp
        then have "store ?m (dst + of_nat ?k) (xs @ [0]) = store (store m dst (replicate ?k val)) (dst + of_nat ?k) (xs @ [0])"
          by (simp add: store_overwrite)
        then show ?thesis using store_append[of "replicate ?k val" "xs @ [0]" m dst] w str(3) by simp
      qed
      ultimately show ?thesis using False nohy len le len2 hd m1 by (simp add: pad_def padded_def Let_def loc del: fun_upd_apply of_nat_diff)
    next
      case True
      obtain ds where xs: "xs = 0x2D # ds" using True str(2) by (cases xs) auto
      have w95: "w < 95" using neg True by simp
      let ?d = "dst + of_nat (?k + 1)"
      have loc2: "dst + of_nat w - of_nat (length xs) + 1 = ?d" "dst + (of_nat w - of_nat (length xs) + 1) = ?d"
        using False by (simp_all add: of_nat_diff)
      have cp: "strcpy ?m ?d src = Some (store ?m ?d (xs @ [0]))"
        using far[of "?k + 1"] w95 False by (intro strcpy_spec[OF c str(3)]) auto
      have eq: "store ?m ?d (xs @ [0]) = store m dst (replicate (?k + 1) val @ xs @ [0])"
      proof -
        have r: "replicate w val @ [0] = replicate (?k + 1) val @ replicate (length ds) val @ [0]"
        proof -
          have "w = (?k + 1) + length ds" using False xs by simp
          then have "replicate w val = replicate (?k + 1) val @ replicate (length ds) val" by (metis replicate_add)
          then show ?thesis by simp
        qed
        have a: "?m = store (store m dst (replicate (?k + 1) val)) ?d (replicate (length ds) val @ [0])"
          unfolding r using store_append[of "replicate (?k + 1) val" "replicate (length ds) val @ [0]" m dst] w str(3) xs by simp
        have "store (store M ?d ys) ?d zs = store M ?d zs" if "length ys \<le> length zs" for M ys zs
          using that by (auto simp: store_def fun_eq_iff)
        then have "store ?m ?d (xs @ [0]) = store (store m dst (replicate (?k + 1) val)) ?d (xs @ [0])"
          using xs by (subst a) simp
        then show ?thesis using store_append[of "replicate (?k + 1) val" "xs @ [0]" m dst] w str(3) by simp
      qed
      let ?ys = "replicate (?k + 1) val @ xs @ [0]"
      have c2: "strlen (store m dst ?ys) src = Some (of_nat (length xs))"
        using strlen_cstr[OF cstr_elsewhere[OF str(1,3) _ ap, of ?ys]] w95 False by simp
      have fin: "(store m dst ?ys)(?d := val, dst := 0x2D) = store m dst (0x2D # replicate (?k + 1) val @ ds @ [0])"
      proof -
        have "(store m dst ?ys)(?d := val) = store m dst (?ys[?k + 1 := val])"
          using w False by (intro store_update) simp_all
        also have "?ys[?k + 1 := val] = replicate (?k + 1) val @ val # ds @ [0]"
          unfolding xs by (simp add: list_update_append)
        also have "\<dots> = val # replicate (?k + 1) val @ ds @ [0]" by (simp add: replicate_app_Cons_same)
        finally have s1: "(store m dst ?ys)(?d := val) = store m dst (val # replicate (?k + 1) val @ ds @ [0])" .
        show ?thesis unfolding s1 using store_update[of 0 "val # replicate (?k + 1) val @ ds @ [0]" m dst "0x2D"] by simp
      qed
      have tl: "tl xs = ds" using xs by simp
      show ?thesis using False True len le len2 hd m1 cp eq c2 fin tl
        by (simp add: pad_def padded_def Let_def loc2 del: of_nat_Suc of_nat_add fun_upd_apply)
    qed
  qed
qed


section \<open>Output to the debug port\<close>

text \<open>The log before the console is set up: output goes to the port only.\<close>

definition quiet :: "debug \<Rightarrow> bool" where
  "quiet s \<longleftrightarrow> e9_precense s \<and> \<not> display_debug s"

definition crlf :: "u8 list \<Rightarrow> u8 list" where
  "crlf cs = concat (map (\<lambda>c. if c = 10 then [13, 10] else [c]) cs)"

text \<open>The byte of the log buffer every character is stored to, and a block of 96 bytes.\<close>

definition cell :: "debug \<Rightarrow> u64" where
  "cell s = debug_buffer s + debug_buffer_size s"

definition block :: "u64 \<Rightarrow> u64 set" where
  "block p = {a. unat (a - p) < 96}"

definition logged :: "debug \<Rightarrow> debug \<Rightarrow> u8 list \<Rightarrow> u64 set \<Rightarrow> bool" where
  "logged s t out A \<longleftrightarrow>
    (\<exists>m. t = s\<lparr>e9_out := e9_out s @ out, dmem := m\<rparr> \<and> (\<forall>a. a \<notin> A \<longrightarrow> m a = dmem s a))"

lemma crlf_simps [simp]: "crlf [] = []" "crlf (xs @ ys) = crlf xs @ crlf ys"
  by (simp_all add: crlf_def)

lemma crlf_Cons: "crlf (c # cs) = crlf [c] @ crlf cs"
  by (simp add: crlf_def)

lemma logged_refl: "logged s s [] A"
  unfolding logged_def by (intro exI[of _ "dmem s"]) simp

lemma logged_trans: "logged s t xs A \<Longrightarrow> logged t u ys B \<Longrightarrow> logged s u (xs @ ys) (A \<union> B)"
  unfolding logged_def by fastforce

lemma logged_mono: "logged s t xs A \<Longrightarrow> A \<subseteq> B \<Longrightarrow> logged s t xs B"
  unfolding logged_def by blast

lemma loggedD:
  assumes "logged s t out A"
  shows "quiet t = quiet s" "cell t = cell s" "e9_out t = e9_out s @ out" "e9_mutex t = e9_mutex s"
    "timer_ticks t = timer_ticks s" "\<And>a. a \<notin> A \<Longrightarrow> dmem t a = dmem s a"
  using assms by (auto simp: logged_def quiet_def cell_def)

lemma debug_putc_quiet: "quiet s \<Longrightarrow> \<exists>t. debug_putc font c s = Inr t \<and> logged s t (crlf [c]) {cell s}"
  by (auto simp: debug_putc_def quiet_def logged_def crlf_def cell_def)

lemma debug_lit_quiet: "quiet s \<Longrightarrow> \<exists>t. debug_lit font cs s = Inr t \<and> logged s t (crlf cs) {cell s}"
proof (induction cs arbitrary: s)
  case Nil
  then show ?case using logged_refl by (auto simp: debug_lit_def)
next
  case (Cons c cs)
  obtain u where u: "debug_putc font c s = Inr u" "logged s u (crlf [c]) {cell s}"
    using debug_putc_quiet[OF Cons.prems] by blast
  obtain t where t: "debug_lit font cs u = Inr t" "logged u t (crlf cs) {cell s}"
    using Cons.IH[of u] Cons.prems loggedD(1,2)[OF u(2)] by auto
  show ?case using u t logged_trans[OF u(2) t(2)] crlf_Cons[of c cs] by (auto simp: debug_lit_def)
qed

lemma scast_index: "i < 2 ^ 31 \<Longrightarrow> scast (of_nat i :: u32) = (of_nat i :: u64)"
  using scast_small[of "of_nat i"] by (simp add: unat_of_nat)

lemma cstr_logged:
  assumes "logged s t out A" and "cstr (dmem s) p xs" and "\<forall>i \<le> length xs. p + of_nat i \<notin> A"
  shows "cstr (dmem t) p xs"
  using assms cstr_char[OF assms(2)] cstr_end[OF assms(2)] loggedD(6)[OF assms(1)]
  by (intro cstrI) (auto simp: cstr_def)

lemma debug_puts_quiet:
  assumes len: "length xs < 2 ^ 31"
  shows "quiet s \<Longrightarrow> cstr (dmem s) p xs \<Longrightarrow> \<forall>i \<le> length xs. p + of_nat i \<noteq> cell s \<Longrightarrow> i \<le> length xs \<Longrightarrow>
    \<exists>t. debug_puts_from font p (of_nat i) s = Some (Inr (of_nat (length xs), t)) \<and> logged s t (crlf (drop i xs)) {cell s}"
proof (induction "length xs - i" arbitrary: i s)
  case 0
  then have i: "i = length xs" by simp
  show ?case unfolding i using 0(3) cstr_end logged_refl len
    by (subst debug_puts_from.simps) (simp add: scast_index)
next
  case (Suc d)
  then have i: "i < length xs" by simp
  have c: "dmem s (p + scast (of_nat i :: u32)) = xs ! i" "xs ! i \<noteq> 0"
    using cstr_char[OF Suc.prems(2) i] Suc.prems(2) i len by (auto simp: scast_index cstr_def dest: nth_mem)
  obtain u where u: "debug_putc font (xs ! i) s = Inr u" "logged s u (crlf [xs ! i]) {cell s}"
    using debug_putc_quiet[OF Suc.prems(1)] by blast
  note l = loggedD[OF u(2)]
  have d: "d = length xs - Suc i" using Suc.hyps(2) by simp
  have cu: "cstr (dmem u) p xs" using cstr_logged[OF u(2) Suc.prems(2)] Suc.prems(3) by simp
  obtain t where t: "debug_puts_from font p (of_nat (Suc i)) u = Some (Inr (of_nat (length xs), t))"
      "logged u t (crlf (drop (Suc i) xs)) {cell s}"
    using Suc.hyps(1)[OF d, of u] Suc.prems i cu l(1,2) by auto
  have "crlf (drop i xs) = crlf [xs ! i] @ crlf (drop (Suc i) xs)"
    using Cons_nth_drop_Suc[OF i] crlf_Cons by metis
  then show ?case using logged_trans[OF u(2) t(2)] c u(1) t(1)
    by (subst debug_puts_from.simps) (simp add: add.commute)
qed

lemma debug_puts_spec:
  assumes "quiet s" and "cstr (dmem s) p xs" and "\<forall>i \<le> length xs. p + of_nat i \<noteq> cell s" and "length xs < 2 ^ 31"
  shows "\<exists>t. debug_puts font p s = Inr (of_nat (length xs), t) \<and> logged s t (crlf xs) {cell s}"
  using debug_puts_quiet[OF assms(4,1-3), of 0 font] by (auto simp: debug_puts_def)

text \<open>A stack frame whose arrays overlap neither each other nor the log buffer.\<close>

definition frame_ok :: "frame \<Rightarrow> debug \<Rightarrow> bool" where
  "frame_ok fr s \<longleftrightarrow> apart (integer_buffer fr) (padded_buffer fr) \<and> cell s \<notin> block (padded_buffer fr)"

definition scratch :: "frame \<Rightarrow> debug \<Rightarrow> u64 set" where
  "scratch fr s = block (integer_buffer fr) \<union> block (padded_buffer fr) \<union> {cell s}"

lemma number_text_length: "2 \<le> b \<Longrightarrow> length (number_text b x) \<le> 65" "number_text b x \<noteq> []"
  "2 \<le> b \<Longrightarrow> b \<le> 36 \<Longrightarrow> 0 \<notin> set (number_text b x)"
proof -
  show "length (number_text b x) \<le> 65" if "2 \<le> b"
    using digits_length64[OF that, of "unat x"] digits_length64[of 10 "unat (- x)"] unat_less_size[of x] unat_less_size[of "- x"]
    by (auto simp: number_text_def)
  show "number_text b x \<noteq> []" by (subst number_text_def, subst digits.simps) simp
  show "0 \<notin> set (number_text b x)" if "2 \<le> b" "b \<le> 36"
    using digits_nonzero[OF that] digits_nonzero[of 10] by (auto simp: number_text_def)
qed

lemma padded_facts:
  assumes "length xs \<le> 65" and "w < 95" and "xs \<noteq> []" and "0 \<notin> set xs" and "val \<noteq> 0"
  shows "length (padded xs w val) < 96" "0 \<notin> set (padded xs w val)"
  using assms by (cases xs; auto simp: padded_def)+

lemma store_outside: "length bs \<le> 96 \<Longrightarrow> a \<notin> block p \<Longrightarrow> store m p bs a = m a"
  by (simp add: block_def store_out)

lemma store_same: "cstr m p ys \<Longrightarrow> store m p (ys @ [0]) = m"
proof
  fix x assume c: "cstr m p ys"
  show "store m p (ys @ [0]) x = m x"
  proof (cases "unat (x - p) < length (ys @ [0])")
    case True
    then have "x = p + of_nat (unat (x - p))" by simp
    then show ?thesis using True cstr_char[OF c, of "unat (x - p)"] cstr_end[OF c]
      by (cases "unat (x - p) = length ys") (auto simp: store_def nth_append)
  qed (simp add: store_def)
qed

lemma print_number_quiet:
  assumes q: "quiet s" and fr: "frame_ok fr s" and w: "w < 95" and val: "val \<noteq> 0"
    and cv: "cv (dmem s) = Some (store (dmem s) (integer_buffer fr) (xs @ [0]))"
    and xs: "xs \<noteq> []" "length xs \<le> 65" "0 \<notin> set xs"
    and lt: "\<And>m ys. cstr m (padded_buffer fr) ys \<Longrightarrow> letters m = Some (store m (padded_buffer fr) (map f ys @ [0]))"
    and f: "\<And>c. c \<noteq> 0 \<Longrightarrow> f c \<noteq> 0"
  shows "\<exists>t. print_number font fr val (of_nat w) cv letters s = Inr (of_nat (length (padded xs w val)), t) \<and>
    logged s t (crlf (map f (padded xs w val))) (scratch fr s)"
proof -
  let ?ib = "integer_buffer fr" and ?pb = "padded_buffer fr" and ?ys = "padded xs w val"
  let ?m1 = "store (dmem s) ?ib (xs @ [0])" and ?zs = "map f ?ys"
  have ap: "apart ?ib ?pb" using fr by (simp add: frame_ok_def)
  have c1: "cstr ?m1 ?ib xs" using xs by (intro cstr_store) auto
  let ?m2 = "store ?m1 ?pb (?ys @ [0])"
  let ?m3 = "store ?m2 ?pb (?zs @ [0])"
  have sw: "scast (of_nat w :: u32) = (of_nat w :: u64)" using w by (intro scast_index) simp
  have pd: "pad ?m1 ?pb ?ib (of_nat w) val = Some ?m2" using xs w ap by (intro pad_spec[OF c1]) auto
  have small: "\<not> 96 \<le> (of_nat w :: u64)" "(of_nat w :: u32) \<noteq> 95"
    using w by (auto simp: word_le_nat_alt word_unat_eq_iff unat_of_nat)
  have ylen: "length ?ys < 96" "0 \<notin> set ?ys" using padded_facts[OF xs(2) w xs(1,3) val] by simp_all
  have c2: "cstr ?m2 ?pb ?ys" using ylen by (intro cstr_store) auto
  have "0 \<notin> set ?zs" using ylen(2) f by (metis imageE list.set_map)
  then have c3: "cstr ?m3 ?pb ?zs" using ylen(1) by (intro cstr_store) auto
  let ?u = "s\<lparr>dmem := ?m3\<rparr>"
  have lu: "logged s ?u [] (block ?ib \<union> block ?pb)"
    unfolding logged_def using xs ylen by (intro exI[of _ ?m3]) (auto simp: store_outside)
  have off: "?pb + of_nat i \<noteq> cell ?u" if "i \<le> length ?zs" for i
  proof
    assume "?pb + of_nat i = cell ?u"
    then have "cell s = ?pb + of_nat i" by (simp add: cell_def)
    then have "unat (cell s - ?pb) = i" using offset_iff[of i "cell s" ?pb] that ylen by simp
    then show False using fr that ylen by (simp add: frame_ok_def block_def)
  qed
  have qu: "quiet ?u" "cell ?u = cell s" using loggedD[OF lu] q by simp_all
  obtain t where t: "debug_puts font ?pb ?u = Inr (of_nat (length ?zs), t)" "logged ?u t (crlf ?zs) {cell s}"
    using debug_puts_spec[OF qu(1), of ?pb ?zs font] c3 off ylen qu(2) by auto
  have "print_number font fr val (of_nat w) cv letters s = Inr (of_nat (length ?ys), t)"
    using cv pd lt[OF c2] t(1) small by (simp add: print_number_def sw)
  then show ?thesis using logged_trans[OF lu t(2)] by (auto simp: scratch_def)
qed

lemma print_field_quiet:
  assumes "quiet s" and "frame_ok fr s" and "w < 95" and "val \<noteq> 0"
  shows "\<exists>t. print_field font fr x (of_nat w) val s = Inr t \<and>
    logged s t (crlf (padded (number_text 10 x) w val)) (scratch fr s)"
proof -
  let ?xs = "number_text 10 x"
  have xs: "?xs \<noteq> []" "length ?xs \<le> 65" "0 \<notin> set ?xs" using number_text_length[of 10 x] by simp_all
  have cv: "ltoa (dmem s) x (integer_buffer fr) 10 = Some (store (dmem s) (integer_buffer fr) (?xs @ [0]))"
    using ltoa_spec[of 10] by simp
  have lt: "Some m = Some (store m (padded_buffer fr) (map id ys @ [0]))" if "cstr m (padded_buffer fr) ys" for m ys
    using store_same[OF that] by simp
  obtain t where "print_number font fr val (of_nat w) (\<lambda>m. ltoa m x (integer_buffer fr) 10) Some s = Inr (of_nat (length (padded ?xs w val)), t)"
    "logged s t (crlf (padded ?xs w val)) (scratch fr s)"
    using print_number_quiet[where cv = "\<lambda>m. ltoa m x (integer_buffer fr) 10" and letters = Some and f = id and font = font, OF assms cv xs lt]
    by auto
  then show ?thesis by (auto simp: print_field_def)
qed


text \<open>The time stamp of a line: seconds and thousandths.\<close>

definition time_text :: "u64 \<Rightarrow> u8 list" where
  "time_text ticks =
    (let t = sint ticks
     in [0x5B] @ padded (number_text 10 (of_int (sgn t * (\<bar>t\<bar> div 1000)))) 6 0x20 @ [0x2E] @
        padded (number_text 10 (of_int (sgn t * (\<bar>t\<bar> mod 1000)))) 3 0x30 @ [0x5D, 0x1B, 0x5B, 0x30, 0x6D, 0x20])"

lemma frame_logged: "logged s t out A \<Longrightarrow> frame_ok fr t = frame_ok fr s" "logged s t out A \<Longrightarrow> scratch fr t = scratch fr s"
  by (simp_all add: frame_ok_def scratch_def loggedD)

lemma logged_step:
  assumes "logged s t xs A" and "logged t u ys B" and "A \<subseteq> C" and "B \<subseteq> C"
  shows "logged s u (xs @ ys) C"
  using logged_mono[OF logged_trans[OF assms(1,2)]] assms(3,4) by blast

lemma lit_scratch:
  assumes "quiet s"
  shows "\<exists>t. debug_lit font cs s = Inr t \<and> logged s t (crlf cs) (scratch fr s)"
  using debug_lit_quiet[OF assms, of font cs] logged_mono[of s _ "crlf cs" "{cell s}" "scratch fr s"]
  by (auto simp: scratch_def)

lemma print_time_quiet:
  assumes q: "quiet s" and fr: "frame_ok fr s"
  shows "\<exists>t. print_time font fr s = Inr t \<and> logged s t (crlf (time_text (timer_ticks s))) (scratch fr s)"
proof -
  let ?t = "sint (timer_ticks s)"
  let ?q = "of_int (sgn ?t * (\<bar>?t\<bar> div 1000)) :: u64" and ?r = "of_int (sgn ?t * (\<bar>?t\<bar> mod 1000)) :: u64"
  obtain a where a: "debug_lit font [0x5B] s = Inr a" "logged s a (crlf [0x5B]) (scratch fr s)"
    using lit_scratch[OF q] by blast
  have qa: "quiet a" "frame_ok fr a" "scratch fr a = scratch fr s" using loggedD(1)[OF a(2)] frame_logged[OF a(2)] q fr by simp_all
  obtain b where b: "print_field font fr ?q 6 0x20 a = Inr b"
      "logged a b (crlf (padded (number_text 10 ?q) 6 0x20)) (scratch fr s)"
    using print_field_quiet[OF qa(1,2), of 6 "0x20" font ?q] qa(3) by auto
  have qb: "quiet b" "frame_ok fr b" "scratch fr b = scratch fr s" using loggedD(1)[OF b(2)] frame_logged[OF b(2)] qa by simp_all
  obtain c where c: "debug_lit font [0x2E] b = Inr c" "logged b c (crlf [0x2E]) (scratch fr s)"
    using lit_scratch[OF qb(1), of font "[0x2E]" fr] qb(3) by auto
  have qc: "quiet c" "frame_ok fr c" "scratch fr c = scratch fr s" using loggedD(1)[OF c(2)] frame_logged[OF c(2)] qb by simp_all
  obtain d where d: "print_field font fr ?r 3 0x30 c = Inr d"
      "logged c d (crlf (padded (number_text 10 ?r) 3 0x30)) (scratch fr s)"
    using print_field_quiet[OF qc(1,2), of 3 "0x30" font ?r] qc(3) by auto
  have qd: "quiet d" "scratch fr d = scratch fr s" using loggedD(1)[OF d(2)] frame_logged[OF d(2)] qc by simp_all
  obtain e where e: "debug_lit font [0x5D, 0x1B, 0x5B, 0x30, 0x6D, 0x20] d = Inr e"
      "logged d e (crlf [0x5D, 0x1B, 0x5B, 0x30, 0x6D, 0x20]) (scratch fr s)"
    using lit_scratch[OF qd(1), of font _ fr] qd(2) by metis
  note chain = logged_step[OF a(2) logged_step[OF b(2) logged_step[OF c(2) logged_step[OF d(2) e(2)
    order.refl order.refl] order.refl order.refl] order.refl order.refl] order.refl order.refl]
  have "print_time font fr s = Inr e" using a(1) b(1) c(1) d(1) e(1) by (simp add: print_time_def Let_def)
  moreover have "logged s e (crlf (time_text (timer_ticks s))) (scratch fr s)"
    using chain by (simp add: time_text_def Let_def del: crlf_simps(2)) (simp flip: crlf_simps(2))
  ultimately show ?thesis by blast
qed

section \<open>What the output looks like in corner cases\<close>

definition log_memory :: memory where
  "log_memory = store (store (\<lambda>_. 0) 0x1000 [0x6D, 0x6D, 0]) 0x2000 [0x48, 0x69, 0x0A, 0]"

definition log_state :: debug where
  "log_state = \<lparr>dmem = log_memory, dscreen = vga_screen, e9_precense = True, e9_mutex = MUTEX_FREE, e9_out = [],
     debug_buffer = 0x3000, debug_buffer_size = 0, display_debug = False, timer_ticks = 12345\<rparr>"

definition log_frame :: frame where
  "log_frame = \<lparr>integer_buffer = 0x8000, padded_buffer = 0x8100, number = 0x8200\<rparr>"

lemma log_frame_ok: "quiet log_state" "frame_ok log_frame log_state" "e9_mutex log_state = MUTEX_FREE"
  by (simp_all add: quiet_def log_state_def frame_ok_def log_frame_def apart_def cell_def block_def)

text \<open>\<open>pad\<close> writes a text and its terminator within the destination array and nothing else.  A
  text shorter than the width is padded to the width exactly, but a negative number, whose sign
  is moved to the front, becomes one character wider than asked for.\<close>

theorem pad_width:
  assumes "cstr m src xs" and "0 < length xs" and "length xs < 95" and "apart src dst" and "w < 95"
  shows "\<exists>ys. pad m dst src (of_nat w) val = Some (store m dst (ys @ [0])) \<and> length ys \<le> 95 \<and>
    length ys = (if w \<le> length xs then length xs else if hd xs = 0x2D then w + 1 else w)"
proof -
  have "pad m dst src (of_nat w) val = Some (store m dst (padded xs w val @ [0]))"
    using assms by (intro pad_spec) auto
  moreover have "length (padded xs w val) = (if w \<le> length xs then length xs else if hd xs = 0x2D then w + 1 else w)"
    using assms(2) by (cases xs) (auto simp: padded_def)
  ultimately show ?thesis using assms(3,5) by auto
qed

theorem pad_width_witness:
  "\<exists>ys. pad (store (\<lambda>_. 0) 0x8000 [0x2D, 0x35, 0]) 0x8100 0x8000 (of_nat 6) 0x20 =
      Some (store (store (\<lambda>_. 0) 0x8000 [0x2D, 0x35, 0]) 0x8100 (ys @ [0])) \<and> length ys = 7"
proof -
  have "cstr (store (\<lambda>_. 0) 0x8000 [0x2D, 0x35, 0]) 0x8000 [0x2D, 0x35]" by (simp add: cstr_def load_def store_def)
  from pad_width[OF this, of "0x8100" 6 "0x20"] show ?thesis by (auto simp: apart_def)
qed

text \<open>A doubled percent sign is not an escape: the first one is printed and the second one
  starts a directive, so \<open>"%%s"\<close> takes an argument and prints a percent sign followed by the string.\<close>

theorem double_percent_takes_argument:
  assumes "quiet s" and "cstr (dmem s) fmt [0x25, 0x25, 0x73]" and "\<forall>i \<le> 3. fmt + of_nat i \<noteq> cell s"
    and "cstr (dmem s) p ys" and "\<forall>i \<le> length ys. p + of_nat i \<noteq> cell s" and "length ys < 2 ^ 31"
  shows "\<exists>t. vprintf_loop font fr fmt 0 (p # args) 0 s = Some (Inr (1 + of_nat (length ys), t)) \<and>
    e9_out t = e9_out s @ crlf (0x25 # ys)"
proof -
  have ch: "dmem s fmt = 0x25" "dmem s (fmt + 1) = 0x25" "dmem s (fmt + 2) = 0x73" "dmem s (fmt + 3) = 0"
    using cstr_char[OF assms(2), of 0] cstr_char[OF assms(2), of 1] cstr_char[OF assms(2), of 2] cstr_end[OF assms(2)] by simp_all
  have nc: "fmt \<noteq> cell s" "fmt + 1 \<noteq> cell s" "fmt + 2 \<noteq> cell s" "fmt + 3 \<noteq> cell s"
    using assms(3)[rule_format, of 0] assms(3)[rule_format, of 1] assms(3)[rule_format, of 2] assms(3)[rule_format, of 3] by simp_all
  obtain u where u: "debug_putc font 0x25 s = Inr u" "logged s u (crlf [0x25]) {cell s}"
    using debug_putc_quiet[OF assms(1)] by blast
  note lu = loggedD[OF u(2)]
  have chu: "dmem u (fmt + 1) = 0x25" "dmem u (fmt + 2) = 0x73" "dmem u (fmt + 3) = 0" using lu(6) ch nc by simp_all
  have "cstr (dmem u) p ys" using cstr_logged[OF u(2) assms(4)] assms(5) by simp
  then obtain t where t: "debug_puts font p u = Inr (of_nat (length ys), t)" "logged u t (crlf ys) {cell s}"
    using debug_puts_spec[of u p ys font] lu(1,2) assms by auto
  have "dmem t (fmt + 3) = 0" using loggedD(6)[OF t(2)] chu(3) nc(4) by simp
  have a: "fmt + (1 + 1) = fmt + 2" "fmt + (2 + 1) = fmt + 3" by (simp_all add: add.assoc)
  have dir: "directive font fr fmt 1 (p # args) u = Inr (3, args, of_nat (length ys), t)"
    using chu t(1) by (simp add: directive_def scan_width_def is_digit_def Let_def)
  have "vprintf_loop font fr fmt 3 args (1 + of_nat (length ys)) t = Some (Inr (1 + of_nat (length ys), t))"
    using \<open>dmem t (fmt + 3) = 0\<close> by (subst vprintf_loop.simps) simp
  then have "vprintf_loop font fr fmt 1 (p # args) 1 u = Some (Inr (1 + of_nat (length ys), t))"
    using chu dir by (subst vprintf_loop.simps) (simp add: a)
  then have "vprintf_loop font fr fmt 0 (p # args) 0 s = Some (Inr (1 + of_nat (length ys), t))"
    using ch u(1) by (subst vprintf_loop.simps) simp
  moreover have "e9_out t = e9_out s @ crlf (0x25 # ys)"
    using loggedD(3)[OF t(2)] lu(3) crlf_Cons[of "0x25" ys] by simp
  ultimately show ?thesis by blast
qed

theorem double_percent_takes_argument_witness:
  "\<exists>t. vprintf_loop (\<lambda>_. 0) log_frame 0x5000 0 [0x1000] 0
      (log_state\<lparr>dmem := store log_memory 0x5000 [0x25, 0x25, 0x73, 0]\<rparr>) = Some (Inr (3, t)) \<and> e9_out t = [0x25, 0x6D, 0x6D]"
proof -
  let ?s = "log_state\<lparr>dmem := store log_memory 0x5000 [0x25, 0x25, 0x73, 0]\<rparr>"
  have c: "cstr (dmem ?s) 0x5000 [0x25, 0x25, 0x73]" "cstr (dmem ?s) 0x1000 [0x6D, 0x6D]"
    by (simp_all add: log_memory_def cstr_def load_def store_def)
  have cell: "cell ?s = 0x3000" "quiet ?s" by (simp_all add: cell_def quiet_def log_state_def)
  have i3: "i = 0 \<or> i = 1 \<or> i = 2 \<or> i = 3" if "i \<le> 3" for i :: nat using that by linarith
  have "0x5000 + of_nat i \<noteq> cell ?s" "0x1000 + of_nat i \<noteq> cell ?s" if "i \<le> 3" for i :: nat
    using i3[OF that] unfolding cell(1) by auto
  then show ?thesis
    using double_percent_takes_argument[OF cell(2) c(1) _ c(2), of "\<lambda>_. 0" log_frame "[]"]
    by (auto simp: log_state_def crlf_def)
qed

end
