(* ===== verification/Timer.thy ===== *)
theory Timer
  imports Apic_Properties Debug
begin

text \<open>
  The timer: \<open>kernel/src/firmware/pit.c\<close> and the parts of \<open>kernel/src/firmware/timer.c\<close> that
  do not involve the scheduler, and with them what the redirection entries of an I/O APIC hold after
  the interrupt operations.
\<close>

section \<open>State and operations\<close>

text \<open>\<open>ticks\<close> is the counter \<open>timer_ticks\<close>.\<close>

record timer = apic +
  ticks :: u64
  timer_irq_line :: u8

text \<open>
  The divider is 1193182 / \<open>TIMER_FREQUENCY\<close>, a \<open>uint16_t\<close>.  \<open>iowait\<close> leaves no event.
\<close>

definition pit_divider :: u16 where
  "pit_divider = ucast (1193182 div TIMER_FREQUENCY)"

definition pit_init :: "devices \<Rightarrow> u64 \<Rightarrow> 'a timer_scheme \<Rightarrow> halt + 'a timer_scheme" where
  "pit_init d timer_irq_stub s =
    bnd (irq_configure d 0 timer_irq_stub (EDGE OR ACTIVE_HIGH) s) (\<lambda>(line, s).
    let s = s\<lparr>timer_irq_line := line\<rparr>;
        s = outb 0x43 0x36 s;
        s = outb 0x40 (ucast pit_divider AND 0xFF) s;
        s = outb 0x40 (ucast (drop_bit 8 pit_divider) AND 0xFF) s
    in irq_unmask d line s)"

definition timer_init :: "devices \<Rightarrow> u64 \<Rightarrow> 'a timer_scheme \<Rightarrow> halt + 'a timer_scheme" where
  "timer_init = pit_init"

text \<open>
  \<open>timer_sleep\<close> halts the processor until the tick counter has advanced.  What happens while the
  processor is halted, the interrupt handlers that run before the instruction after \<open>hlt\<close>, is the
  parameter \<open>hlt\<close>.  The sum \<open>time + ms\<close> wraps.
\<close>

partial_function (option) timer_sleep_loop ::
  "('a timer_scheme \<Rightarrow> 'a timer_scheme) \<Rightarrow> u64 \<Rightarrow> 'a timer_scheme \<Rightarrow> 'a timer_scheme option" where
  "timer_sleep_loop hlt until s =
    (if ticks s < until then timer_sleep_loop hlt until (hlt s) else Some s)"

definition timer_sleep :: "('a timer_scheme \<Rightarrow> 'a timer_scheme) \<Rightarrow> u64 \<Rightarrow> 'a timer_scheme \<Rightarrow> halt + 'a timer_scheme" where
  "timer_sleep hlt ms s =
    (case timer_sleep_loop hlt (ticks s + ms) s of None \<Rightarrow> Inl Diverges | Some t \<Rightarrow> Inr t)"

lemma timer_sleep_returns:
  assumes "\<And>s. ticks (hlt s) = ticks s + 1" and "unat (ticks s) + n < 2 ^ 64"
  shows "timer_sleep hlt (of_nat n) s = Inr ((hlt ^^ n) s)"
proof -
  have "timer_sleep_loop hlt (ticks s + of_nat n) s = Some ((hlt ^^ n) s)"
    using assms(2)
  proof (induction n arbitrary: s)
    case 0
    then show ?case by (subst timer_sleep_loop.simps) simp
  next
    case (Suc n)
    have u: "unat (ticks s + 1) = unat (ticks s) + 1"
      using Suc.prems unat_add_nat[of "ticks s" 1] by simp
    have "unat (ticks s + of_nat (Suc n)) = unat (ticks s) + Suc n"
      using Suc.prems by (intro unat_add_nat) simp
    then have lt: "ticks s < ticks s + of_nat (Suc n)" by (simp only: word_less_nat_alt)
    have "ticks s + of_nat (Suc n) = ticks (hlt s) + of_nat n" using assms(1) by simp
    then show ?case using Suc.IH[of "hlt s"] Suc.prems lt u assms(1)
      by (subst timer_sleep_loop.simps) (simp add: funpow_swap1 add.assoc)
  qed
  then show ?thesis by (simp add: timer_sleep_def)
qed

section \<open>The registers of an I/O APIC\<close>

text \<open>
  The documented behaviour of the device at physical address \<open>base\<close>: a write to \<open>base\<close>
  selects a register, a write to \<open>base + 16\<close> sets it.  A read of \<open>base + 16\<close> returns the selected
  register; for the redirection table, from register 16 on, bits 12 and 14 are read-only status.
\<close>

fun ioapic_event :: "u64 \<Rightarrow> event \<Rightarrow> u32 \<times> (u32 \<Rightarrow> u32) \<Rightarrow> u32 \<times> (u32 \<Rightarrow> u32)" where
  "ioapic_event base (Mmio_Write a x) (sel, regs) =
    (if a = base then (x, regs) else if a = base + 16 then (sel, regs(sel := x)) else (sel, regs))"
| "ioapic_event base _ r = r"

definition ioapic_state :: "u64 \<Rightarrow> (u32 \<Rightarrow> u32) \<Rightarrow> event list \<Rightarrow> u32 \<times> (u32 \<Rightarrow> u32)" where
  "ioapic_state base init tr = fold (ioapic_event base) tr (0, init)"

abbreviation ioapic_regs :: "u64 \<Rightarrow> (u32 \<Rightarrow> u32) \<Rightarrow> event list \<Rightarrow> u32 \<Rightarrow> u32" where
  "ioapic_regs base init tr \<equiv> snd (ioapic_state base init tr)"

definition ioapic_device :: "devices \<Rightarrow> u64 \<Rightarrow> (u32 \<Rightarrow> u32) \<Rightarrow> bool" where
  "ioapic_device d base init \<longleftrightarrow>
    (\<forall>tr n. 16 \<le> fst (ioapic_state base init tr) \<longrightarrow> n \<noteq> 12 \<longrightarrow> n \<noteq> 14 \<longrightarrow>
      bit (dev_mmio d tr (base + 16)) n = bit (ioapic_regs base init tr (fst (ioapic_state base init tr))) n)"

definition ioapic_mapped :: "'a apic_scheme \<Rightarrow> u64 \<Rightarrow> u64 \<Rightarrow> bool" where
  "ioapic_mapped s i base \<longleftrightarrow> unat i < length (ioapics s) \<and>
    vmm_get_physical s (ioapic_mmio (ioapics s ! unat i)) = Some base \<and>
    vmm_get_physical s (ioapic_mmio (ioapics s ! unat i) + 16) = Some (base + 16)"

lemma ioapic_state_append:
  "ioapic_state base init (tr @ es) = fold (ioapic_event base) es (ioapic_state base init tr)"
  by (simp add: ioapic_state_def)

lemma ioapic_select: "ioapic_state base init (tr @ [Mmio_Write base x]) = (x, ioapic_regs base init tr)"
  by (cases "ioapic_state base init tr") (simp add: ioapic_state_append)

lemma ioapic_set:
  "ioapic_state base init (tr @ [Mmio_Write base x, Mmio_Write (base + 16) y]) = (x, (ioapic_regs base init tr)(x := y))"
  by (cases "ioapic_state base init tr") (simp add: ioapic_state_append)

lemma ioapic_other:
  "ioapic_regs base init (tr @ [Mmio_Write base x, Mmio_Read b]) = ioapic_regs base init tr"
  "ioapic_regs base init (tr @ [Out8 p v]) = ioapic_regs base init tr"
  by (cases "ioapic_state base init tr", simp add: ioapic_state_append)+

lemma ioapic_read_mapped:
  assumes "ioapic_mapped s i base"
  shows "ioapic_read d i index s = Inr (dev_mmio d (trace s @ [Mmio_Write base index]) (base + 16),
    s\<lparr>trace := trace s @ [Mmio_Write base index, Mmio_Read (base + 16)]\<rparr>)"
  using assms by (simp add: ioapic_read_def elem_def mmio_write_def mmio_read_def ioapic_mapped_def) (simp add: emit_def)

lemma ioapic_write_mapped:
  assumes "ioapic_mapped s i base"
  shows "ioapic_write i index x s =
    Inr (s\<lparr>trace := trace s @ [Mmio_Write base index, Mmio_Write (base + 16) x]\<rparr>)"
  using assms by (simp add: ioapic_write_def elem_def mmio_write_def ioapic_mapped_def) (simp add: emit_def)

lemma ioapic_mapped_core:
  assumes "ioapic_mapped s i base" and "ioapics t = ioapics s" and "mem t = mem s" and "cr3 t = cr3 s"
  shows "ioapic_mapped t i base"
  using assms(1) vmm_get_physical_mem[OF assms(3,4)] by (simp add: ioapic_mapped_def assms(2))

lemma ioapic_read_value:
  assumes "ioapic_device d base init" and "16 \<le> index" and "n \<noteq> 12" and "n \<noteq> 14"
  shows "bit (dev_mmio d (tr @ [Mmio_Write base index]) (base + 16)) n = bit (ioapic_regs base init tr index) n"
  using assms(1)[unfolded ioapic_device_def, rule_format, of "tr @ [Mmio_Write base index]" n] assms(2-4)
  by (simp add: ioapic_select)

section \<open>Programming an entry\<close>

lemma irq_constants:
  "bit IOAPIC_ACTIVE_LOW n \<longleftrightarrow> n = 13" "bit IOAPIC_LEVEL n \<longleftrightarrow> n = 15" "bit IOAPIC_MASK n \<longleftrightarrow> n = 16"
  by (auto simp only: IOAPIC_ACTIVE_LOW_def IOAPIC_LEVEL_def IOAPIC_MASK_def bit_push_bit_iff bit_1_iff) simp_all

lemma irq_config_bit:
  "bit (irq_config flags c) n \<longleftrightarrow> n < 64 \<and>
    (if n = 13 then flags AND ACTIVE_LOW \<noteq> 0 else if n = 15 then flags AND LEVEL \<noteq> 0 else bit c n)"
  by (auto simp: irq_config_def Let_def bit_or_iff bit_and_iff bit_not_iff irq_constants dest: bit_imp_le_length)

text \<open>The entry of \<open>line\<close>: the register pair from 16 + 2 * line on.\<close>

definition irq_index :: "u8 \<Rightarrow> u32" where
  "irq_index line = IOAPIC_TABLES + ucast line * 2"

lemma irq_index: "16 \<le> irq_index line" "16 \<le> irq_index line + 1" "irq_index line + 1 \<noteq> irq_index line"
proof -
  have l: "unat line < 256" using unsigned_less[of line] by simp
  have "(ucast line :: u32) = of_nat (unat line)" by simp
  then have "unat (ucast line :: u32) = unat line" using l by (simp only: unat_of_nat) simp
  then have "unat (ucast line * 2 :: u32) = unat line * 2" using l by (simp add: unat_word_ariths)
  then have "unat (irq_index line) = 16 + unat line * 2" using l
    by (simp add: irq_index_def IOAPIC_TABLES_def unat_word_ariths)
  moreover have "unat (irq_index line + 1) = unat (irq_index line) + 1"
    using calculation l by (simp add: unat_word_ariths)
  ultimately show "16 \<le> irq_index line" "16 \<le> irq_index line + 1" "irq_index line + 1 \<noteq> irq_index line"
    by (simp_all add: word_le_nat_alt word_unat_eq_iff)
qed

text \<open>What configuring a line to \<open>flags\<close> makes of the registers, up to the status bits.\<close>

definition entry_set :: "(u32 \<Rightarrow> u32) \<Rightarrow> (u32 \<Rightarrow> u32) \<Rightarrow> u8 \<Rightarrow> (nat \<Rightarrow> bool option) \<Rightarrow> bool" where
  "entry_set r r' line f \<longleftrightarrow>
    (\<forall>n < 32. n \<noteq> 12 \<longrightarrow> n \<noteq> 14 \<longrightarrow>
      bit (r' (irq_index line)) n = (case f n of None \<Rightarrow> bit (r (irq_index line)) n | Some b \<Rightarrow> b) \<and>
      bit (r' (irq_index line + 1)) n = bit (r (irq_index line + 1)) n) \<and>
    (\<forall>x. x \<noteq> irq_index line \<longrightarrow> x \<noteq> irq_index line + 1 \<longrightarrow> r' x = r x)"

definition irq_bits :: "u8 \<Rightarrow> nat \<Rightarrow> bool option" where
  "irq_bits flags n = (if n = 13 then Some (flags AND ACTIVE_LOW \<noteq> 0) else if n = 15 then Some (flags AND LEVEL \<noteq> 0) else None)"

lemma irq_configure_sets:
  assumes ov: "find_override s line0 flags0 = (line, flags)" and "\<not> ioapic_count s < get_ioapic s line"
    and map: "ioapic_mapped s (get_ioapic s line) base" and dev: "ioapic_device d base init"
    and idt: "idt_base s \<noteq> 0"
  shows "\<exists>tr. irq_configure d line0 h flags0 s =
      Inr (line, s\<lparr>idt := (idt s)[unat (line + IRQ_BASE) := idt_gate h], trace := trace s @ tr\<rparr>) \<and>
    (\<forall>e \<in> set tr. \<exists>a x. e = Mmio_Write a x \<or> e = Mmio_Read a) \<and>
    entry_set (ioapic_regs base init (trace s)) (ioapic_regs base init (trace s @ tr)) line (irq_bits flags)"
proof -
  let ?i = "get_ioapic s line" and ?x = "irq_index line" and ?r = "ioapic_regs base init (trace s)"
  let ?s0 = "s\<lparr>idt := (idt s)[unat (line + IRQ_BASE) := idt_gate h]\<rparr>"
  let ?W = "\<lambda>x. Mmio_Write base x" and ?D = "\<lambda>x. Mmio_Write (base + 16) x"
  have m: "ioapic_mapped (s\<lparr>idt := g, trace := tr\<rparr>) ?i base" for g tr
    by (rule ioapic_mapped_core[OF map]) simp_all
  have m0: "ioapic_mapped ?s0 ?i base" by (rule ioapic_mapped_core[OF map]) simp_all
  define lo where "lo = dev_mmio d (trace s @ [?W ?x]) (base + 16)"
  let ?t1 = "trace s @ [?W ?x, Mmio_Read (base + 16)]"
  define hi where "hi = dev_mmio d (?t1 @ [?W (?x + 1)]) (base + 16)"
  let ?c = "irq_config flags (ucast lo OR push_bit 32 (ucast hi))"
  let ?rd = "[?W ?x, Mmio_Read (base + 16)] @ [?W (?x + 1), Mmio_Read (base + 16)]"
  let ?wr = "[?W ?x, ?D (ucast ?c)] @ [?W (?x + 1), ?D (ucast (drop_bit 32 ?c))]"
  have run: "irq_configure d line0 h flags0 s = Inr (line, ?s0\<lparr>trace := trace s @ (?rd @ ?wr)\<rparr>)"
    using ov assms(2) idt
    by (simp add: irq_configure_def irq_index_def[symmetric] idt_install_def Let_def
        ioapic_read_mapped[OF m0] ioapic_read_mapped[OF m] ioapic_write_mapped[OF m] lo_def hi_def)
  have regs: "ioapic_regs base init (trace s @ (?rd @ ?wr)) = ?r(?x := ucast ?c, ?x + 1 := ucast (drop_bit 32 ?c))"
    using ioapic_set[of base init "?t1 @ [?W (?x + 1), Mmio_Read (base + 16)] @ [?W ?x, ?D (ucast ?c)]" "?x + 1"]
      ioapic_set[of base init "?t1 @ [?W (?x + 1), Mmio_Read (base + 16)]" ?x]
      ioapic_other(1)[of base init ?t1 "?x + 1"] ioapic_other(1)[of base init "trace s" ?x]
    by simp
  have blo: "bit lo n = bit (?r ?x) n" if "n \<noteq> 12" "n \<noteq> 14" for n
    unfolding lo_def by (rule ioapic_read_value[OF dev irq_index(1) that])
  have bhi: "bit hi n = bit (?r (?x + 1)) n" if "n \<noteq> 12" "n \<noteq> 14" for n
    unfolding hi_def using ioapic_read_value[OF dev irq_index(2) that, of ?t1] by (simp add: ioapic_other(1))
  have no: "\<not> bit w (32 + n)" for w :: u32 and n by (auto dest: bit_imp_le_length)
  have "entry_set ?r (?r(?x := ucast ?c, ?x + 1 := ucast (drop_bit 32 ?c))) line (irq_bits flags)"
    unfolding entry_set_def using irq_index(3)[of line] blo bhi no
    by (auto simp: irq_bits_def bit_ucast_iff bit_drop_bit_eq irq_config_bit bit_or_iff bit_push_bit_iff)
  then show ?thesis using run regs by (intro exI[of _ "?rd @ ?wr"]) auto
qed

lemma irq_unmask_sets:
  assumes "\<not> ioapic_count s < get_ioapic s line"
    and map: "ioapic_mapped s (get_ioapic s line) base" and dev: "ioapic_device d base init"
  shows "\<exists>tr. irq_unmask d line s = Inr (s\<lparr>trace := trace s @ tr\<rparr>) \<and>
    (\<forall>e \<in> set tr. \<exists>a x. e = Mmio_Write a x \<or> e = Mmio_Read a) \<and>
    entry_set (ioapic_regs base init (trace s)) (ioapic_regs base init (trace s @ tr)) line
      (\<lambda>n. if n = 16 then Some False else None)"
proof -
  let ?i = "get_ioapic s line" and ?x = "irq_index line" and ?r = "ioapic_regs base init (trace s)"
  let ?W = "\<lambda>x. Mmio_Write base x" and ?D = "\<lambda>x. Mmio_Write (base + 16) x"
  define lo where "lo = dev_mmio d (trace s @ [?W ?x]) (base + 16)"
  let ?c = "lo AND NOT (ucast IOAPIC_MASK)"
  let ?tr = "[?W ?x, Mmio_Read (base + 16)] @ [?W ?x, ?D ?c]"
  have m: "ioapic_mapped (s\<lparr>trace := tr\<rparr>) ?i base" for tr
    by (rule ioapic_mapped_core[OF map]) simp_all
  have run: "irq_unmask d line s = Inr (s\<lparr>trace := trace s @ ?tr\<rparr>)"
    using assms(1) by (simp add: irq_unmask_def irq_index_def[symmetric] Let_def
        ioapic_read_mapped[OF map] ioapic_write_mapped[OF m] lo_def)
  have regs: "ioapic_regs base init (trace s @ ?tr) = ?r(?x := ?c)"
    using ioapic_set[of base init "trace s @ [?W ?x, Mmio_Read (base + 16)]" ?x ?c]
      ioapic_other(1)[of base init "trace s" ?x] by simp
  have blo: "bit lo n = bit (?r ?x) n" if "n \<noteq> 12" "n \<noteq> 14" for n
    unfolding lo_def by (rule ioapic_read_value[OF dev irq_index(1) that])
  have "entry_set ?r (?r(?x := ?c)) line (\<lambda>n. if n = 16 then Some False else None)"
    unfolding entry_set_def using irq_index(3)[of line] blo
    by (auto simp: bit_and_iff bit_not_iff bit_ucast_iff irq_constants)
  then show ?thesis using run regs by (intro exI[of _ ?tr]) auto
qed


text \<open>A machine with one I/O APIC for 24 lines, whose timer line is overridden to line 2.\<close>

definition ioapic_devices :: devices where
  "ioapic_devices = silent_devices\<lparr>dev_mmio := (\<lambda>tr a.
     if a = 0xFEC00010 then (let (sel, regs) = ioapic_state 0xFEC00000 (\<lambda>_. 0x10000) tr in regs sel) else 0)\<rparr>"

definition ioapic_machine :: timer where
  "ioapic_machine = apic.extend (madt_machine\<lparr>idt_base := 0x1000, idt := replicate 256 zero_idt,
     ioapics := [\<lparr>ioapic_id = 0, gsi_start = 0, gsi_end = 23, mmio_phys = 0xFEC00000, ioapic_mmio = 0xFFFF8000FEC00000\<rparr>],
     ioapic_count := 1, overrides := [\<lparr>override_source = 0, override_destination = 2, override_flags = 0\<rparr>],
     override_count := 1\<rparr>) \<lparr>ticks = 0, timer_irq_line = 0\<rparr>"


end
