(* ===== verification/Smpboot.thy ===== *)
theory Smpboot
  imports Timer
begin

text \<open>
  Starting the other processors: \<open>kernel/src/apic/smpboot.c\<close>.  The processor that boots the others
  sleeps until they answer; what happens while it is halted (its own timer interrupt, and the
  instructions the other processors execute meanwhile) is the parameter \<open>hlt\<close>.
  The trampoline is assembled into the image: its bytes and the address of its 64-bit entry
  point are parameters.
\<close>

section \<open>Constants and state\<close>

definition IA32_PAT :: u32 where "IA32_PAT = 0x277"
definition IA32_PAT_UC :: u64 where "IA32_PAT_UC = 0"
definition IA32_PAT_WC :: u64 where "IA32_PAT_WC = 1"
definition IA32_PAT_WT :: u64 where "IA32_PAT_WT = 4"
definition IA32_PAT_WB :: u64 where "IA32_PAT_WB = 6"
definition IA32_PAT_UCD :: u64 where "IA32_PAT_UCD = 7"

definition LAPIC_COMMAND_INIT :: u32 where "LAPIC_COMMAND_INIT = push_bit 8 5"
definition LAPIC_COMMAND_SIPI :: u32 where "LAPIC_COMMAND_SIPI = push_bit 8 6"
definition LAPIC_COMMAND_DELIVERY :: u32 where "LAPIC_COMMAND_DELIVERY = push_bit 12 1"
definition LAPIC_COMMAND_ASSERT :: u32 where "LAPIC_COMMAND_ASSERT = push_bit 14 1"

record smp = timer +
  current_cpu :: u64
  cpu_booted :: u32

section \<open>Configuring a processor\<close>

definition pat_value :: u64 where
  "pat_value = IA32_PAT_WB OR push_bit 8 IA32_PAT_WC OR push_bit 16 IA32_PAT_UCD OR push_bit 24 IA32_PAT_UC
    OR push_bit 32 IA32_PAT_WB OR push_bit 40 IA32_PAT_WT OR push_bit 48 IA32_PAT_UCD OR push_bit 56 IA32_PAT_UC"

definition smp_configure_cpu :: "'a cpu_tables_scheme \<Rightarrow> halt + 'a cpu_tables_scheme" where
  "smp_configure_cpu s = bnd (gdt_init s) (\<lambda>s. Inr (write_msr IA32_PAT pat_value s))"

text \<open>
  The memory type of a page is the byte of that register selected by three bits of its page
  table entry.  The flags of \<open>vmm.c\<close> select what their names say.
\<close>

definition memory_type :: "u64 \<Rightarrow> u64 \<Rightarrow> u64" where
  "memory_type pat page =
    take_bit 8 (drop_bit (8 * (of_bool (bit page 7) * 4 + of_bool (bit page 4) * 2 + of_bool (bit page 3))) pat)"

lemma smp_configure_cpu_memory_types:
  assumes "heap_budget s 2"
  shows "\<exists>g t. smp_configure_cpu s = Inr t \<and> gdt_at t g = Some gdt_table \<and>
    trace t = trace s @ [Load_Gdt 55 g, Reload_Segments KCODE_SEGMENT KDATA_SEGMENT, Write_Msr IA32_PAT pat_value]"
    and "memory_type pat_value KERNEL_HEAP_FLAGS = IA32_PAT_WB"
    and "memory_type pat_value (PAGE_PRESENT OR PAGE_WRITE OR PAGE_UNCACHEABLE) = IA32_PAT_UCD"
    and "memory_type pat_value (PAGE_PRESENT OR PAGE_WRITE OR PAGE_WRITE_COMBINE) = IA32_PAT_WC"
proof -
  obtain g t where "gdt_init s = Inr t" "gdt_at t g = Some gdt_table"
    "trace t = trace s @ [Load_Gdt 55 g, Reload_Segments KCODE_SEGMENT KDATA_SEGMENT]"
    using gdt_init_returns[OF assms] by blast
  then show "\<exists>g t. smp_configure_cpu s = Inr t \<and> gdt_at t g = Some gdt_table \<and>
    trace t = trace s @ [Load_Gdt 55 g, Reload_Segments KCODE_SEGMENT KDATA_SEGMENT, Write_Msr IA32_PAT pat_value]"
    by (intro exI[of _ g] exI[of _ "write_msr IA32_PAT pat_value t"])
      (simp add: smp_configure_cpu_def write_msr_def, simp add: emit_def)
qed (simp_all add: memory_type_def pat_value_def KERNEL_HEAP_FLAGS_def PAGE_PRESENT_def PAGE_WRITE_def PAGE_UNCACHEABLE_def
  PAGE_WRITE_COMBINE_def IA32_PAT_WB_def IA32_PAT_WC_def IA32_PAT_WT_def IA32_PAT_UCD_def IA32_PAT_UC_def)

text \<open>What a started processor does, up to its endless \<open>sti; hlt\<close>.\<close>

definition smp_kmain :: "u64 \<Rightarrow> 'a smp_scheme \<Rightarrow> halt + 'a smp_scheme" where
  "smp_kmain lapic_spurious_stub s =
    bnd (smp_configure_cpu s) (\<lambda>s.
    case idtr_at s of (p, limit, base) \<Rightarrow>
    if p = 0 then Inl (Panic ''page fault'')
    else
      bnd (lapic_configure lapic_spurious_stub (emit (Load_Idt limit base) s)) (\<lambda>s.
      Inr (s\<lparr>cpu_booted := 1\<rparr>)))"

section \<open>Starting the others\<close>

text \<open>The two writes to the command register that send an interrupt to another processor.\<close>

definition send_ipi :: "u8 \<Rightarrow> u32 \<Rightarrow> 'a apic_scheme \<Rightarrow> halt + 'a apic_scheme" where
  "send_ipi apic_id command s =
    bnd (lapic_write LAPIC_COMMAND_HIGH (push_bit 24 (ucast apic_id)) s) (lapic_write LAPIC_COMMAND_LOW command)"

text \<open>
  The two loops that wait, each for at most 2000 milliseconds; \<open>i\<close> counts them and is part of the result.
\<close>

definition patience :: nat where
  "patience = unat (TIMER_FREQUENCY * 2)"

function (sequential) await_delivery ::
  "('a smp_scheme \<Rightarrow> 'a smp_scheme) \<Rightarrow> devices \<Rightarrow> nat \<Rightarrow> 'a smp_scheme \<Rightarrow> halt + (nat \<times> 'a smp_scheme)" where
  "await_delivery hlt d i s =
    bnd (lapic_read d LAPIC_COMMAND_LOW s) (\<lambda>(v, s).
    if v AND LAPIC_COMMAND_DELIVERY = 0 then Inr (i, s)
    else
      bnd (timer_sleep hlt 1 s) (\<lambda>s.
      if i + 1 > patience then Inl (Panic ''not responding'') else await_delivery hlt d (i + 1) s))"
  by pat_completeness auto
termination
  by (relation "measure (\<lambda>(hlt, d, i, s). patience - i)") auto

function (sequential) await_boot ::
  "('a smp_scheme \<Rightarrow> 'a smp_scheme) \<Rightarrow> nat \<Rightarrow> 'a smp_scheme \<Rightarrow> halt + (nat \<times> 'a smp_scheme)" where
  "await_boot hlt j s =
    (if cpu_booted s \<noteq> 0 then Inr (j, s)
     else
       bnd (timer_sleep hlt 1 s) (\<lambda>s.
       if j + 1 > patience then Inl (Panic ''not responding'') else await_boot hlt (j + 1) s))"
  by pat_completeness auto
termination
  by (relation "measure (\<lambda>(hlt, j, s). patience - j)") auto

declare await_delivery.simps [simp del] await_boot.simps [simp del]

definition smp_boot_ap ::
  "('a smp_scheme \<Rightarrow> 'a smp_scheme) \<Rightarrow> devices \<Rightarrow> u64 \<Rightarrow> 'a smp_scheme \<Rightarrow> halt + 'a smp_scheme" where
  "smp_boot_ap hlt d index s =
    bnd (elem (cpus s) index) (\<lambda>cpu.
    let apic_id = cpu_apic_id cpu; s = s\<lparr>cpu_booted := 0\<rparr> in
    bnd (send_ipi apic_id (LAPIC_COMMAND_INIT OR LAPIC_COMMAND_ASSERT) s) (\<lambda>s.
    bnd (timer_sleep hlt 1 s) (\<lambda>s.
    bnd (await_delivery hlt d 0 s) (\<lambda>(i, s).
    bnd (send_ipi apic_id (LAPIC_COMMAND_SIPI OR LAPIC_COMMAND_ASSERT OR 0x01) s) (\<lambda>s.
    bnd (timer_sleep hlt 1 s) (\<lambda>s.
    bnd (await_boot hlt 0 s) (\<lambda>(j, s). Inr s)))))))"

text \<open>
  The parameters of the trampoline in the first page, the identity mapping it runs in, and its code in the second
  page.
\<close>

definition smp_prepare :: "u64 \<Rightarrow> u8 list \<Rightarrow> 'a vmm_scheme \<Rightarrow> 'a vmm_scheme" where
  "smp_prepare smp_trampoline code s =
    (let s = kwrite64 PHYSICAL_MEMORY smp_trampoline s;
         s = kwrite64 (PHYSICAL_MEMORY + 8) (cr3 s) s;
         pml4 = cr3 s + PHYSICAL_MEMORY;
         s = kwrite64 pml4 (kread64 s (pml4 + 8 * 256)) s
     in s\<lparr>mem := store (mem s) 0x1000 code\<rparr>)"

definition smp_boot ::
  "('a smp_scheme \<Rightarrow> 'a smp_scheme) \<Rightarrow> devices \<Rightarrow> u64 \<Rightarrow> u8 list \<Rightarrow> 'a smp_scheme \<Rightarrow> halt + 'a smp_scheme" where
  "smp_boot hlt d smp_trampoline code s =
    (if cpu_count s - 1 = 0 then Inr s
     else
       let pml4 = cr3 s + PHYSICAL_MEMORY in
       bnd (fold_res (\<lambda>i s. smp_boot_ap hlt d (of_nat i) (s\<lparr>current_cpu := of_nat i\<rparr>))
         [1..<unat (cpu_count s)] (smp_prepare smp_trampoline code s)) (\<lambda>s.
       Inr (kwrite64 pml4 0 (s\<lparr>current_cpu := max 1 (cpu_count s)\<rparr>))))"

section \<open>The command register\<close>

text \<open>The writes to the command register of the local APIC at \<open>base\<close>, in order.\<close>

definition command_of :: "u64 \<Rightarrow> event \<Rightarrow> (u64 \<times> u32) option" where
  "command_of base e =
    (case e of Mmio_Write a x \<Rightarrow>
       if a = base + LAPIC_COMMAND_HIGH \<or> a = base + LAPIC_COMMAND_LOW then Some (a - base, x) else None
     | _ \<Rightarrow> None)"

definition commands :: "u64 \<Rightarrow> event list \<Rightarrow> (u64 \<times> u32) list" where
  "commands base tr = List.map_filter (command_of base) tr"

definition ipi :: "u8 \<Rightarrow> u32 \<Rightarrow> (u64 \<times> u32) list" where
  "ipi apic_id command = [(LAPIC_COMMAND_HIGH, push_bit 24 (ucast apic_id)), (LAPIC_COMMAND_LOW, command)]"

text \<open>Initialisation, then start at the page the number of which is in the low byte.\<close>

definition boot_ipis :: "u8 \<Rightarrow> (u64 \<times> u32) list" where
  "boot_ipis apic_id = ipi apic_id 0x4500 @ ipi apic_id 0x4601"

definition started :: "'a apic_scheme \<Rightarrow> bool" where
  "started s \<longleftrightarrow> (\<exists>cs. commands (lapic_physical s) (trace s) = cs @ [(LAPIC_COMMAND_LOW, 0x4601)])"

lemma commands_simps [simp]:
  "commands base [] = []"
  "commands base (e # tr) = (case command_of base e of None \<Rightarrow> commands base tr | Some c \<Rightarrow> c # commands base tr)"
  "commands base (tr @ tr') = commands base tr @ commands base tr'"
  by (simp_all add: commands_def map_filter_def split: option.split)

text \<open>What sleeping leaves alone, and the mapping of the command register.\<close>

definition lapic_mapped :: "'a apic_scheme \<Rightarrow> bool" where
  "lapic_mapped s \<longleftrightarrow>
    vmm_get_physical s (lapic s + LAPIC_COMMAND_LOW) = Some (lapic_physical s + LAPIC_COMMAND_LOW) \<and>
    vmm_get_physical s (lapic s + LAPIC_COMMAND_HIGH) = Some (lapic_physical s + LAPIC_COMMAND_HIGH)"

definition low_pages :: "memory \<Rightarrow> memory \<Rightarrow> bool" where
  "low_pages m n \<longleftrightarrow> (\<forall>a. unat a < 0x2000 \<longrightarrow> n a = m a)"

definition boot_frame :: "'a smp_scheme \<Rightarrow> 'a smp_scheme \<Rightarrow> bool" where
  "boot_frame s t \<longleftrightarrow> cpus t = cpus s \<and> cpu_count t = cpu_count s \<and> lapic t = lapic s \<and> lapic_physical t = lapic_physical s \<and>
    cr3 t = cr3 s \<and> (lapic_mapped s \<longrightarrow> lapic_mapped t) \<and> low_pages (mem s) (mem t)"

text \<open>
  The contract of \<open>hlt\<close>: it counts one tick, sends no interrupts to other processors, keeps the
  data the boot processor works with.  A processor that was sent the start command answers within
  two seconds after the next tick.
\<close>

definition keeps_boot :: "('a smp_scheme \<Rightarrow> 'a smp_scheme) \<Rightarrow> bool" where
  "keeps_boot hlt \<longleftrightarrow> (\<forall>s. ticks (hlt s) = ticks s + 1 \<and> boot_frame s (hlt s) \<and>
    commands (lapic_physical s) (trace (hlt s)) = commands (lapic_physical s) (trace s))"

definition responds :: "('a smp_scheme \<Rightarrow> 'a smp_scheme) \<Rightarrow> bool" where
  "responds hlt \<longleftrightarrow> (\<forall>s. started s \<longrightarrow> (\<exists>k \<le> patience. cpu_booted ((hlt ^^ k) (hlt s)) \<noteq> 0))"

text \<open>The contract of the local APIC: after a millisecond an interrupt has been delivered.\<close>

definition delivers :: "devices \<Rightarrow> u64 \<Rightarrow> bool" where
  "delivers d base \<longleftrightarrow> (\<forall>tr. dev_mmio d tr (base + LAPIC_COMMAND_LOW) AND LAPIC_COMMAND_DELIVERY = 0)"

lemma boot_frame_refl [simp]: "boot_frame s s"
  by (simp add: boot_frame_def low_pages_def)

lemma boot_frame_trans: "boot_frame s t \<Longrightarrow> boot_frame t u \<Longrightarrow> boot_frame s u"
  by (simp add: boot_frame_def low_pages_def)

text \<open>A step of the boot sequence: the frame, and the commands that were sent.\<close>

definition boot_step :: "(u64 \<times> u32) list \<Rightarrow> 'a smp_scheme \<Rightarrow> 'a smp_scheme \<Rightarrow> bool" where
  "boot_step cs s t \<longleftrightarrow> boot_frame s t \<and>
    commands (lapic_physical s) (trace t) = commands (lapic_physical s) (trace s) @ cs"

lemma boot_step_trans: "boot_step cs s t \<Longrightarrow> boot_step ds t u \<Longrightarrow> boot_step (cs @ ds) s u"
  by (auto simp: boot_step_def intro: boot_frame_trans) (simp add: boot_frame_def)

lemma boot_step_mapped: "boot_step cs s t \<Longrightarrow> lapic_mapped s \<Longrightarrow> lapic_mapped t \<and> lapic_physical t = lapic_physical s"
  by (simp add: boot_step_def boot_frame_def)

lemma hlt_steps:
  assumes "keeps_boot hlt"
  shows "boot_step [] s ((hlt ^^ n) s) \<and> ticks ((hlt ^^ n) s) = ticks s + of_nat n"
proof (induction n)
  case (Suc n)
  have "boot_step [] ((hlt ^^ n) s) (hlt ((hlt ^^ n) s))" using assms by (simp add: keeps_boot_def boot_step_def)
  then show ?case using Suc assms boot_step_trans[of "[]" s _ "[]"] by (auto simp: keeps_boot_def)
qed (simp add: boot_step_def)

lemma sleep_hlt:
  assumes "keeps_boot hlt" and "unat (ticks s) + 1 < 2 ^ 64"
  shows "timer_sleep hlt 1 s = Inr (hlt s)"
  using timer_sleep_returns[of hlt s 1] assms by (simp add: keeps_boot_def)

lemma lapic_mapped_emit [simp]: "lapic_mapped (emit e s) = lapic_mapped s"
  by (simp add: lapic_mapped_def emit_def vmm_get_physical_mem[of "s\<lparr>trace := _\<rparr>" s])

lemma send_ipi_step:
  fixes s :: "'a smp_scheme"
  assumes "lapic_mapped s"
  shows "\<exists>t. send_ipi a c s = Inr t \<and> boot_step (ipi a c) s t \<and> ticks t = ticks s \<and> cpu_booted t = cpu_booted s \<and>
    (c = 0x4601 \<longrightarrow> started t)"
proof -
  let ?t = "emit (Mmio_Write (lapic_physical s + LAPIC_COMMAND_LOW) c)
    (emit (Mmio_Write (lapic_physical s + LAPIC_COMMAND_HIGH) (push_bit 24 (ucast a))) s)"
  have f: "lapic (emit e s) = lapic s" "lapic_physical (emit e s) = lapic_physical s" for e and s :: "'a smp_scheme"
    by (simp_all add: emit_def)
  have "send_ipi a c s = Inr ?t"
    using assms by (simp add: send_ipi_def lapic_write_def mmio_write_def lapic_mapped_def f)
  moreover have "commands (lapic_physical s) (trace ?t) = commands (lapic_physical s) (trace s) @ ipi a c"
    by (simp add: command_of_def ipi_def LAPIC_COMMAND_HIGH_def LAPIC_COMMAND_LOW_def)
  moreover have "boot_frame s ?t" using assms by (simp add: boot_frame_def low_pages_def f) (simp add: emit_def)
  ultimately show ?thesis
    by (intro exI[of _ ?t]) (auto simp: boot_step_def started_def f ipi_def, simp_all add: emit_def)
qed

lemma await_delivery_step:
  fixes s :: "'a smp_scheme"
  assumes "lapic_mapped s" and "delivers d (lapic_physical s)"
  shows "\<exists>t. await_delivery hlt d i s = Inr (i, t) \<and> boot_step [] s t \<and> ticks t = ticks s \<and> cpu_booted t = cpu_booted s"
proof -
  let ?t = "emit (Mmio_Read (lapic_physical s + LAPIC_COMMAND_LOW)) s"
  have "await_delivery hlt d i s = Inr (i, ?t)"
    using assms by (subst await_delivery.simps) (simp add: delivers_def lapic_read_def mmio_read_def lapic_mapped_def)
  moreover have "boot_step [] s ?t"
    using assms(1) by (simp add: boot_step_def boot_frame_def low_pages_def command_of_def) (simp add: emit_def)
  moreover have "ticks ?t = ticks s" "cpu_booted ?t = cpu_booted s" by (simp_all add: emit_def)
  ultimately show ?thesis by blast
qed

lemma unat_plus_one: "unat (x :: u64) + 1 < 2 ^ 64 \<Longrightarrow> unat (x + 1) = unat x + 1"
  using unat_add_nat[of x 1] by simp

lemma await_boot_returns:
  assumes "keeps_boot hlt" and "cpu_booted ((hlt ^^ k) s) \<noteq> 0" and "j + k \<le> patience" and "unat (ticks s) + k < 2 ^ 64"
  shows "\<exists>n \<le> k. await_boot hlt j s = Inr (j + n, (hlt ^^ n) s) \<and> cpu_booted ((hlt ^^ n) s) \<noteq> 0"
  using assms(2-4)
proof (induction k arbitrary: j s)
  case 0
  then show ?case by (subst await_boot.simps) simp
next
  case (Suc k)
  show ?case
  proof (cases "cpu_booted s \<noteq> 0")
    case True
    then show ?thesis by (intro exI[of _ 0]) (subst await_boot.simps, simp)
  next
    case False
    have "unat (ticks (hlt s)) = unat (ticks s) + 1"
      using Suc.prems(3) unat_plus_one[of "ticks s"] assms(1) by (simp add: keeps_boot_def)
    then obtain n where n: "n \<le> k" "await_boot hlt (j + 1) (hlt s) = Inr (j + 1 + n, (hlt ^^ n) (hlt s))"
      "cpu_booted ((hlt ^^ n) (hlt s)) \<noteq> 0"
      using Suc.IH[of "hlt s" "j + 1"] Suc.prems by (auto simp: funpow_swap1)
    have "await_boot hlt j s = await_boot hlt (j + 1) (hlt s)"
      using False Suc.prems sleep_hlt[OF assms(1), of s] by (subst await_boot.simps) simp
    then show ?thesis using n by (intro exI[of _ "Suc n"]) (auto simp: funpow_swap1)
  qed
qed

lemma await_boot_gives_up:
  assumes "keeps_boot hlt" and "\<And>k. cpu_booted ((hlt ^^ k) s) = 0" and "j \<le> patience" and "unat (ticks s) + (patience + 1 - j) < 2 ^ 64"
  shows "await_boot hlt j s = Inl (Panic ''not responding'')"
  using assms(2-4)
proof (induction "patience - j" arbitrary: j s)
  case 0
  then show ?case using sleep_hlt[OF assms(1), of s] 0(2)[of 0] by (subst await_boot.simps) simp
next
  case (Suc n)
  have "unat (ticks (hlt s)) = unat (ticks s) + 1"
    using Suc.prems(2,3) Suc.hyps(2) unat_plus_one[of "ticks s"] assms(1) by (simp add: keeps_boot_def)
  moreover have "cpu_booted ((hlt ^^ k) (hlt s)) = 0" for k using Suc.prems(1)[of "Suc k"] by (simp add: funpow_swap1)
  ultimately have "await_boot hlt (j + 1) (hlt s) = Inl (Panic ''not responding'')"
    using Suc.hyps Suc.prems by (intro Suc.hyps(1)) auto
  then show ?case using sleep_hlt[OF assms(1), of s] Suc.prems(1)[of 0] Suc.prems(3) Suc.hyps(2)
    by (subst await_boot.simps) simp
qed

section \<open>Starting one processor\<close>

lemma boot_step_update: "boot_step [] s (s\<lparr>cpu_booted := b\<rparr>)" "boot_step [] s (s\<lparr>current_cpu := c\<rparr>)"
proof -
  have "lapic_mapped (s\<lparr>cpu_booted := b\<rparr>) = lapic_mapped s" "lapic_mapped (s\<lparr>current_cpu := c\<rparr>) = lapic_mapped s"
    using vmm_get_physical_mem[of "s\<lparr>cpu_booted := b\<rparr>" s] vmm_get_physical_mem[of "s\<lparr>current_cpu := c\<rparr>" s]
    by (simp_all add: lapic_mapped_def)
  then show "boot_step [] s (s\<lparr>cpu_booted := b\<rparr>)" "boot_step [] s (s\<lparr>current_cpu := c\<rparr>)"
    by (simp_all add: boot_step_def boot_frame_def low_pages_def)
qed

lemma hlt_step: "keeps_boot hlt \<Longrightarrow> boot_step [] s (hlt s) \<and> ticks (hlt s) = ticks s + 1"
  using hlt_steps[of hlt s 1] by simp

lemma smp_boot_ap_sends:
  assumes hlt: "keeps_boot hlt" and m: "lapic_mapped s" and d: "delivers d (lapic_physical s)"
    and i: "unat index < length (cpus s)" and tk: "unat (ticks s) + 2 < 2 ^ 64"
  shows "\<exists>u. smp_boot_ap hlt d index s = bnd (await_boot hlt 0 (hlt u)) (\<lambda>(j, s). Inr s) \<and> started u \<and>
    boot_step (boot_ipis (cpu_apic_id (cpus s ! unat index))) s u \<and> unat (ticks u) = unat (ticks s) + 1 \<and>
    ((\<forall>s. cpu_booted (hlt s) = cpu_booted s) \<longrightarrow> cpu_booted u = 0)"
proof -
  let ?id = "cpu_apic_id (cpus s ! unat index)" and ?s0 = "s\<lparr>cpu_booted := 0\<rparr>"
  have k: "LAPIC_COMMAND_INIT OR LAPIC_COMMAND_ASSERT = 0x4500" "LAPIC_COMMAND_SIPI OR LAPIC_COMMAND_ASSERT OR 0x01 = 0x4601"
    by (simp_all add: LAPIC_COMMAND_INIT_def LAPIC_COMMAND_SIPI_def LAPIC_COMMAND_ASSERT_def)
  note b0 = boot_step_update(1)[of s 0]
  note m0 = boot_step_mapped[OF b0 m]
  obtain s1 where s1: "send_ipi ?id 0x4500 ?s0 = Inr s1" "boot_step (ipi ?id 0x4500) ?s0 s1" "ticks s1 = ticks s" "cpu_booted s1 = 0"
    using send_ipi_step[OF m0[THEN conjunct1], of ?id "0x4500"] by auto
  have sl1: "timer_sleep hlt 1 s1 = Inr (hlt s1)" using sleep_hlt[OF hlt, of s1] s1(3) tk by simp
  have b2: "boot_step (ipi ?id 0x4500) s (hlt s1)"
    using boot_step_trans[OF boot_step_trans[OF b0 s1(2)] hlt_step[OF hlt, of s1, THEN conjunct1]] by simp
  note m2 = boot_step_mapped[OF b2 m]
  have t2: "unat (ticks (hlt s1)) = unat (ticks s) + 1"
    using hlt_step[OF hlt, of s1] s1(3) tk unat_plus_one[of "ticks s"] by simp
  obtain s3 where s3: "await_delivery hlt d 0 (hlt s1) = Inr (0, s3)" "boot_step [] (hlt s1) s3" "ticks s3 = ticks (hlt s1)"
    "cpu_booted s3 = cpu_booted (hlt s1)"
    using await_delivery_step[of "hlt s1" d hlt 0] m2 d by auto
  note m3 = boot_step_mapped[OF s3(2) m2[THEN conjunct1]]
  obtain u where u: "send_ipi ?id 0x4601 s3 = Inr u" "boot_step (ipi ?id 0x4601) s3 u" "ticks u = ticks s3"
    "cpu_booted u = cpu_booted s3" "started u"
    using send_ipi_step[OF m3[THEN conjunct1], of ?id "0x4601"] by auto
  have "timer_sleep hlt 1 u = Inr (hlt u)" using sleep_hlt[OF hlt, of u] u(3) s3(3) t2 tk by simp
  then have "smp_boot_ap hlt d index s = bnd (await_boot hlt 0 (hlt u)) (\<lambda>(j, s). Inr s)"
    using i by (simp add: smp_boot_ap_def elem_def k s1(1) sl1 s3(1) u(1))
  moreover have "boot_step (boot_ipis ?id) s u"
    using boot_step_trans[OF boot_step_trans[OF b2 s3(2)] u(2)] by (simp add: boot_ipis_def)
  ultimately show ?thesis using u s3 s1(4) t2 by (intro exI[of _ u]) auto
qed

lemma smp_boot_ap_starts:
  assumes "keeps_boot hlt" and "responds hlt" and "lapic_mapped s" and "delivers d (lapic_physical s)"
    and "unat index < length (cpus s)" and "unat (ticks s) + patience + 2 < 2 ^ 64"
  shows "\<exists>t. smp_boot_ap hlt d index s = Inr t \<and> boot_step (boot_ipis (cpu_apic_id (cpus s ! unat index))) s t \<and>
    cpu_booted t \<noteq> 0 \<and> unat (ticks t) \<le> unat (ticks s) + patience + 2"
proof -
  obtain u where u: "smp_boot_ap hlt d index s = bnd (await_boot hlt 0 (hlt u)) (\<lambda>(j, s). Inr s)" "started u"
    "boot_step (boot_ipis (cpu_apic_id (cpus s ! unat index))) s u" "unat (ticks u) = unat (ticks s) + 1"
    using smp_boot_ap_sends[OF assms(1,3-5)] assms(6) by auto
  have tu: "unat (ticks (hlt u)) = unat (ticks s) + 2"
    using hlt_step[OF assms(1), of u] u(4) assms(6) unat_plus_one[of "ticks u"] by simp
  obtain k where k: "k \<le> patience" "cpu_booted ((hlt ^^ k) (hlt u)) \<noteq> 0" using assms(2) u(2) by (auto simp: responds_def)
  obtain n where n: "n \<le> k" "await_boot hlt 0 (hlt u) = Inr (n, (hlt ^^ n) (hlt u))" "cpu_booted ((hlt ^^ n) (hlt u)) \<noteq> 0"
    using await_boot_returns[OF assms(1) k(2), of 0] k(1) tu assms(6) by auto
  have "boot_step [] u ((hlt ^^ n) (hlt u))" "ticks ((hlt ^^ n) (hlt u)) = ticks (hlt u) + of_nat n"
    using boot_step_trans[OF hlt_step[OF assms(1), of u, THEN conjunct1]] hlt_steps[OF assms(1), of "hlt u" n] by auto
  moreover have "unat (ticks (hlt u) + of_nat n) = unat (ticks s) + 2 + n"
    using unat_add_nat[of "ticks (hlt u)" n] tu n(1) k(1) assms(6) by simp
  ultimately show ?thesis using u n k(1) boot_step_trans[OF u(3)] by (intro exI[of _ "(hlt ^^ n) (hlt u)"]) fastforce
qed

section \<open>Starting all of them\<close>

lemma smp_boot_loop:
  assumes "keeps_boot hlt" and "responds hlt" and "lapic_mapped s" and "delivers d (lapic_physical s)"
    and "\<forall>i \<in> set is. i < length (cpus s)" and "length (cpus s) < 2 ^ 64"
    and "unat (ticks s) + length is * (patience + 2) < 2 ^ 64"
  shows "\<exists>t. fold_res (\<lambda>i s. smp_boot_ap hlt d (of_nat i) (s\<lparr>current_cpu := of_nat i\<rparr>)) is s = Inr t \<and>
    boot_step (concat (map (\<lambda>i. boot_ipis (cpu_apic_id (cpus s ! i))) is)) s t"
  using assms(3-)
proof (induction "is" arbitrary: s)
  case Nil
  then show ?case by (simp add: boot_step_def)
next
  case (Cons i "is")
  let ?s = "s\<lparr>current_cpu := of_nat i\<rparr>"
  note c = boot_step_update(2)[of s "of_nat i"]
  note mc = boot_step_mapped[OF c Cons.prems(1)]
  have i: "unat (of_nat i :: u64) = i" "i < length (cpus s)" using Cons.prems(3,4) by (auto simp: unat_of_nat)
  obtain t where t: "smp_boot_ap hlt d (of_nat i) ?s = Inr t" "boot_step (boot_ipis (cpu_apic_id (cpus s ! i))) ?s t"
    "unat (ticks t) \<le> unat (ticks s) + patience + 2"
    using smp_boot_ap_starts[OF assms(1,2), of ?s d "of_nat i"] mc Cons.prems i by auto
  have st: "boot_step (boot_ipis (cpu_apic_id (cpus s ! i))) s t" using boot_step_trans[OF c t(2)] by simp
  then have cp: "cpus t = cpus s" "lapic_physical t = lapic_physical s" "lapic_mapped t"
    using Cons.prems(1) by (simp_all add: boot_step_def boot_frame_def)
  then obtain u where "fold_res (\<lambda>i s. smp_boot_ap hlt d (of_nat i) (s\<lparr>current_cpu := of_nat i\<rparr>)) is t = Inr u"
    "boot_step (concat (map (\<lambda>i. boot_ipis (cpu_apic_id (cpus s ! i))) is)) t u"
    using Cons.IH[of t] Cons.prems t(3) by auto
  then show ?case using t(1) boot_step_trans[OF st] by auto
qed

lemma load_low:
  assumes "low_pages m n" and "unat a + k \<le> 0x2000"
  shows "load n a k = load m a k"
proof -
  have "unat (a + of_nat i) < 0x2000" if "i < k" for i using that assms(2) unat_add_nat[of a i] by simp
  then show ?thesis using assms(1) by (auto intro!: nth_equalityI simp: low_pages_def)
qed

lemma low_pages_high:
  assumes "0x2000 \<le> unat a" and "unat a + length bs \<le> 2 ^ 64"
  shows "low_pages m (store m a bs)"
proof -
  have "length bs \<le> unat (x - a)" if "unat x < 0x2000" for x
    using that assms by (simp add: unat_sub_if_size word_size)
  then show ?thesis by (simp add: low_pages_def store_out)
qed

text \<open>What the first two pages hold for the trampoline.\<close>

definition trampoline_ready :: "u64 \<Rightarrow> u8 list \<Rightarrow> u64 \<Rightarrow> memory \<Rightarrow> bool" where
  "trampoline_ready entry code pml4 m \<longleftrightarrow>
    read64 m 0 = entry \<and> read64 m 8 = pml4 \<and> load m 0x1000 (length code) = code"

lemma trampoline_ready_low:
  assumes "low_pages m n" and "length code \<le> 0x1000" and "trampoline_ready entry code pml4 m"
  shows "trampoline_ready entry code pml4 n"
  using assms load_low[OF assms(1), of 0 8] load_low[OF assms(1), of 8 8] load_low[OF assms(1), of "0x1000" "length code"]
  by (simp add: trampoline_ready_def read64_def)

lemma smp_prepare_ready:
  assumes "0x2000 \<le> unat (cr3 s)" and "aligned 4096 (cr3 s)" and "length code \<le> 0x1000"
  shows "trampoline_ready entry code (cr3 s) (mem (smp_prepare entry code s))"
proof -
  let ?m = "write64 (write64 (mem s) 0 entry) 8 (cr3 s)"
  obtain x where m: "mem (smp_prepare entry code s) = store (write64 ?m (cr3 s) x) 0x1000 code"
    by (simp add: smp_prepare_def kwrite64_def kread64_def Let_def)
  have hi: "unat (cr3 s) + 8 \<le> 2 ^ 64"
    using assms(2) unat_less_size[of "cr3 s"] by (auto simp: aligned_def)
  have "read64 ?m 0 = entry" "read64 ?m 8 = cr3 s"
    by (simp_all add: read64_write64_other aligned_def)
  moreover have "low_pages ?m (write64 ?m (cr3 s) x)"
    unfolding write64_def[of ?m] using low_pages_high[OF assms(1)] hi by simp
  ultimately have "trampoline_ready entry [] (cr3 s) (write64 ?m (cr3 s) x)"
    using trampoline_ready_low[of ?m _ "[]"] by (simp add: trampoline_ready_def load_def)
  moreover have "load (store n 0x1000 code) a 8 = load n a 8" if "a = 0 \<or> a = 8" for n a
    using that assms(3) by (intro load_store_other) (auto simp: unat_sub_if_size word_size unat_of_nat unat_word_ariths)
  ultimately show ?thesis unfolding m using assms(3) by (simp add: trampoline_ready_def read64_def load_store_same)
qed

section \<open>Properties\<close>


text \<open>Two processors; the second answers the tick after its start command.\<close>

definition example_smp :: smp where
  "example_smp = timer.extend
    (ioapic_machine\<lparr>cr3 := 0x3000, lapic_physical := 0xFEE00000, lapic := 0xFFFF8000FEE00000,
       cpus := [zero_cpu, zero_cpu\<lparr>cpu_apic_id := 1\<rparr>], cpu_count := 2, trace := []\<rparr>)
    \<lparr>current_cpu = 0, cpu_booted = 0\<rparr>"

definition silent_hlt :: "smp \<Rightarrow> smp" where
  "silent_hlt s = s\<lparr>ticks := ticks s + 1\<rparr>"

definition example_hlt :: "smp \<Rightarrow> smp" where
  "example_hlt s = s\<lparr>ticks := ticks s + 1, cpu_booted := (if started s then 1 else cpu_booted s)\<rparr>"

lemma example_mapped:
  "lapic_mapped (smp_prepare entry code example_smp)" "lapic_mapped example_smp"
  by (simp_all add: lapic_mapped_def smp_prepare_def kwrite64_def example_smp_def timer.defs vmm_get_physical_def
    PHYSICAL_MEMORY_def MMIO_REGION_def LAPIC_COMMAND_LOW_def LAPIC_COMMAND_HIGH_def Let_def)

lemma example_frame: "keeps_boot example_hlt" "keeps_boot silent_hlt"
proof -
  have "vmm_get_physical (example_hlt s) v = vmm_get_physical s v" "vmm_get_physical (silent_hlt s) v = vmm_get_physical s v" for s v
    by (rule vmm_get_physical_mem; simp add: example_hlt_def silent_hlt_def)+
  then show "keeps_boot example_hlt" "keeps_boot silent_hlt"
    by (simp_all add: keeps_boot_def boot_frame_def low_pages_def lapic_mapped_def)
      (simp_all add: example_hlt_def silent_hlt_def)
qed

lemma example_responds: "responds example_hlt"
  unfolding responds_def by (intro allI impI exI[of _ 0]) (simp add: example_hlt_def)

lemma example_fields_smp:
  "cpu_count example_smp = 2" "cpus example_smp = [zero_cpu, zero_cpu\<lparr>cpu_apic_id := 1\<rparr>]" "cr3 example_smp = 0x3000"
  "lapic_physical example_smp = 0xFEE00000" "ticks example_smp = 0" "trace example_smp = []"
  by (simp_all add: example_smp_def ioapic_machine_def timer.defs apic.defs)

lemma silent_delivers: "delivers silent_devices base"
  by (simp add: delivers_def silent_devices_def)


text \<open>A processor that never answers does not let the boot go on: \<open>smp_boot_ap\<close> sends both
  interrupts and stops with the error.\<close>

theorem smp_boot_ap_gives_up:
  assumes "keeps_boot hlt" and "\<forall>s. cpu_booted (hlt s) = cpu_booted s" and "delivers d (lapic_physical s)" and "lapic_mapped s"
    and "unat index < length (cpus s)" and "unat (ticks s) < 2 ^ 63"
  shows "smp_boot_ap hlt d index s = Inl (Panic ''not responding'')"
proof -
  obtain u where u: "smp_boot_ap hlt d index s = bnd (await_boot hlt 0 (hlt u)) (\<lambda>(j, s). Inr s)"
    "unat (ticks u) = unat (ticks s) + 1" "cpu_booted u = 0"
    using smp_boot_ap_sends[OF assms(1,4,3,5)] assms(2,6) by auto
  have "unat (ticks (hlt u)) = unat (ticks s) + 2"
    using hlt_step[OF assms(1), of u] u(2) assms(6) unat_plus_one[of "ticks u"] by simp
  moreover have "cpu_booted ((hlt ^^ k) (hlt u)) = 0" for k using u(3) assms(2) by (induction k) simp_all
  ultimately show ?thesis
    using await_boot_gives_up[OF assms(1), of "hlt u" 0] u(1) assms(6) by (simp add: patience_def TIMER_FREQUENCY_def)
qed

theorem smp_boot_ap_gives_up_witness:
  "smp_boot_ap silent_hlt silent_devices 1 example_smp = Inl (Panic ''not responding'')"
  using smp_boot_ap_gives_up[OF example_frame(2) _ silent_delivers example_mapped(2), of 1]
  by (simp add: example_fields_smp silent_hlt_def)

end
