(* ===== verification/Sched.thy ===== *)
theory Sched
  imports Smpboot
begin

text \<open>
  The scheduler, \<open>kernel/src/sys/sched.c\<close>, with \<open>timer_irq\<close> of \<open>kernel/src/firmware/timer.c\<close>.
  The process table, the tables of thread pointers and the threads are blocks \<open>kcalloc\<close>
  returned.  Blocks of the heap are zeroed and disjoint, so their contents are kept by type in
  stores indexed by address: a \<open>kcalloc\<close> enters the address with a zeroed object, a \<open>kfree\<close> removes it, and
  using a pointer that is not in the store is a page fault.  The log output is left out.
\<close>

section \<open>Constants and state\<close>

definition MAX_PROCESSES :: nat where "MAX_PROCESSES = 512"
definition MAX_THREADS :: nat where "MAX_THREADS = 32"
definition THREAD_STACK :: u64 where "THREAD_STACK = 131072"

definition THREAD_NONE :: u32 where "THREAD_NONE = 0"
definition THREAD_IDLE :: u32 where "THREAD_IDLE = 1"
definition THREAD_BUSY :: u32 where "THREAD_BUSY = 2"
definition THREAD_WAIT :: u32 where "THREAD_WAIT = 3"

record thread_t =
  rax :: u64
  rbx :: u64
  rcx :: u64
  rdx :: u64
  rsi :: u64
  rdi :: u64
  rbp :: u64
  r8 :: u64
  r9 :: u64
  r10 :: u64
  r11 :: u64
  r12 :: u64
  r13 :: u64
  r14 :: u64
  r15 :: u64
  rip :: u64
  rsp :: u64
  rflags :: u64
  code_segment :: u64
  data_segment :: u64
  status :: u32

record process_t =
  valid :: u32
  threads :: u64
  thread_count :: u64
  process_cr3 :: u64

definition zero_thread :: thread_t where
  "zero_thread = \<lparr>rax = 0, rbx = 0, rcx = 0, rdx = 0, rsi = 0, rdi = 0, rbp = 0, r8 = 0, r9 = 0, r10 = 0, r11 = 0,
    r12 = 0, r13 = 0, r14 = 0, r15 = 0, rip = 0, rsp = 0, rflags = 0, code_segment = 0, data_segment = 0, status = 0\<rparr>"

definition zero_process :: process_t where
  "zero_process = \<lparr>valid = 0, threads = 0, thread_count = 0, process_cr3 = 0\<rparr>"

text \<open>
  \<open>processes_at\<close> is the pointer \<open>processes\<close>, \<open>processes\<close> the array there.  The variable
  \<open>last_process\<close> is never used.
\<close>

record sched = smp +
  processes_at :: u64
  processes :: "process_t list"
  thread_tables :: "u64 \<Rightarrow> u64 list option"
  thread_objects :: "u64 \<Rightarrow> thread_t option"
  sched_mutex :: mutex_t
  sys_ready :: u32
  running_processes :: u64

section \<open>Access through pointers\<close>

definition process_at :: "'a sched_scheme \<Rightarrow> nat \<Rightarrow> halt + process_t" where
  "process_at s i =
    (if processes_at s = 0 then Inl (Panic ''page fault'')
     else if i < length (processes s) then Inr (processes s ! i) else Inl Overrun)"

definition thread_pointer :: "'a sched_scheme \<Rightarrow> process_t \<Rightarrow> nat \<Rightarrow> halt + u64" where
  "thread_pointer s p j =
    (case thread_tables s (threads p) of
       None \<Rightarrow> Inl (Panic ''page fault'')
     | Some tbl \<Rightarrow> if j < length tbl then Inr (tbl ! j) else Inl Overrun)"

definition thread_at :: "'a sched_scheme \<Rightarrow> u64 \<Rightarrow> halt + thread_t" where
  "thread_at s ptr = (case thread_objects s ptr of None \<Rightarrow> Inl (Panic ''page fault'') | Some t \<Rightarrow> Inr t)"

definition set_thread :: "u64 \<Rightarrow> thread_t \<Rightarrow> 'a sched_scheme \<Rightarrow> 'a sched_scheme" where
  "set_thread ptr t s = s\<lparr>thread_objects := (thread_objects s)(ptr \<mapsto> t)\<rparr>"

definition set_process :: "nat \<Rightarrow> process_t \<Rightarrow> 'a sched_scheme \<Rightarrow> 'a sched_scheme" where
  "set_process i p s = s\<lparr>processes := (processes s)[i := p]\<rparr>"

definition set_cpu :: "nat \<Rightarrow> cpu_t \<Rightarrow> 'a apic_scheme \<Rightarrow> 'a apic_scheme" where
  "set_cpu i c s = s\<lparr>cpus := (cpus s)[i := c]\<rparr>"

definition get_pid :: "u8 \<Rightarrow> 'a sched_scheme \<Rightarrow> halt + u32" where
  "get_pid apic_id s = bnd (get_cpu apic_id s) (\<lambda>i. Inr (cpu_pid (cpus s ! i)))"

definition get_tid :: "u8 \<Rightarrow> 'a sched_scheme \<Rightarrow> halt + u32" where
  "get_tid apic_id s = bnd (get_cpu apic_id s) (\<lambda>i. Inr (cpu_tid (cpus s ! i)))"

section \<open>Choosing and switching threads\<close>

text \<open>The inner loop of \<open>find_idle\<close> with \<open>n\<close> slots left, and the outer one with \<open>n\<close> processes left.\<close>

fun idle_in :: "'a sched_scheme \<Rightarrow> process_t \<Rightarrow> nat \<Rightarrow> nat \<Rightarrow> halt + (nat \<times> u64) option" where
  "idle_in s p j 0 = Inr None"
| "idle_in s p j (Suc n) =
    bnd (thread_pointer s p j) (\<lambda>ptr.
      if ptr = 0 then idle_in s p (j + 1) n
      else bnd (thread_at s ptr) (\<lambda>t.
        if status t = THREAD_IDLE then Inr (Some (j, ptr)) else idle_in s p (j + 1) n))"

fun idle_from :: "'a sched_scheme \<Rightarrow> nat \<Rightarrow> nat \<Rightarrow> nat \<Rightarrow> halt + (nat \<times> nat \<times> u64) option" where
  "idle_from s tid i 0 = Inr None"
| "idle_from s tid i (Suc n) =
    bnd (process_at s i) (\<lambda>p.
      if valid p \<noteq> 0 then
        bnd (idle_in s p tid (MAX_THREADS - tid)) (\<lambda>r.
          case r of Some (j, ptr) \<Rightarrow> Inr (Some (i, j, ptr)) | None \<Rightarrow> idle_from s tid (i + 1) n)
      else idle_from s tid (i + 1) n)"

text \<open>
  The search starts at the process and thread of processor 0 and is tried once more from the
  beginning.  The result is the pointer, 0 for \<open>NULL\<close>; \<open>cpu\<close> is the processor that gets the thread.
\<close>

definition find_idle :: "nat \<Rightarrow> 'a sched_scheme \<Rightarrow> halt + (u64 \<times> 'a sched_scheme)" where
  "find_idle cpu s =
    (let pid = unat (cpu_pid (cpus s ! 0)); tid = unat (cpu_tid (cpus s ! 0));
         found = (\<lambda>(i, j, ptr).
           bnd (process_at s i) (\<lambda>p.
           Inr (ptr, (set_cpu cpu ((cpus s ! cpu)\<lparr>cpu_pid := of_nat i, cpu_tid := of_nat j\<rparr>) s)\<lparr>cr3 := process_cr3 p\<rparr>)))
     in bnd (idle_from s tid pid (MAX_PROCESSES - pid)) (\<lambda>r.
        case r of
          Some x \<Rightarrow> found x
        | None \<Rightarrow> bnd (idle_from s 0 0 MAX_PROCESSES) (\<lambda>r. case r of Some x \<Rightarrow> found x | None \<Rightarrow> Inr (0, s))))"

text \<open>
  \<open>memcpy\<close> of 160 bytes copies every register and leaves \<open>status\<close>.  The result of \<open>resched\<close> is
  the thread whose context is loaded, after which nothing of the caller runs, or \<open>None\<close> when
  \<open>resched\<close> returns to its caller.
\<close>

definition save_context :: "thread_t \<Rightarrow> 'a sched_scheme \<Rightarrow> halt + 'a sched_scheme" where
  "save_context old s =
    (let c = cpus s ! 0
     in bnd (process_at s (unat (cpu_pid c))) (\<lambda>p.
        bnd (thread_pointer s p (unat (cpu_tid c))) (\<lambda>ptr.
        bnd (thread_at s ptr) (\<lambda>t.
        Inr (set_cpu 0 (c\<lparr>cpu_tid := cpu_tid c + 1\<rparr>) (set_thread ptr (old\<lparr>status := THREAD_IDLE\<rparr>) s))))))"

definition resched :: "thread_t \<Rightarrow> 'a sched_scheme \<Rightarrow> halt + (thread_t option \<times> 'a sched_scheme)" where
  "resched old s =
    (let switch = (\<lambda>s.
       let s = set_cpu 0 ((cpus s ! 0)\<lparr>cpu_sys_ready := 1\<rparr>) s
       in bnd (find_idle 0 s) (\<lambda>(new, s).
          if new = 0 then Inr (None, s)
          else
            bnd (thread_at s new) (\<lambda>t.
            let t = t\<lparr>status := THREAD_BUSY\<rparr>
            in bnd (lapic_eoi (set_thread new t s)) (\<lambda>s. Inr (Some t, s)))))
     in if cpu_sys_ready (cpus s ! 0) \<noteq> 0 then
          bnd (process_at s 0) (\<lambda>p0.
          if running_processes s = 1 \<and> thread_count p0 = 1 then Inr (None, s)
          else bnd (save_context old s) switch)
        else switch s)"

definition timer_irq :: "thread_t \<Rightarrow> 'a sched_scheme \<Rightarrow> halt + (thread_t option \<times> 'a sched_scheme)" where
  "timer_irq ctx s =
    (let s = s\<lparr>ticks := ticks s + 1\<rparr>
     in if sys_ready s \<noteq> 0 \<and> ticks s mod 10 \<noteq> 0 then resched ctx s else Inr (None, s))"

section \<open>Creating processes and threads\<close>

text \<open>Blocks for a table of 32 thread pointers and for a thread of 164 bytes.\<close>

definition new_table :: "'a sched_scheme \<Rightarrow> halt + (u64 \<times> 'a sched_scheme)" where
  "new_table s =
    bnd (kcalloc 8 (of_nat MAX_THREADS) s) (\<lambda>(ptr, s).
    if ptr = 0 then Inr (0, s)
    else Inr (ptr, s\<lparr>thread_tables := (thread_tables s)(ptr \<mapsto> replicate MAX_THREADS 0)\<rparr>))"

definition new_thread :: "'a sched_scheme \<Rightarrow> halt + (u64 \<times> 'a sched_scheme)" where
  "new_thread s =
    bnd (kcalloc 164 1 s) (\<lambda>(ptr, s).
    if ptr = 0 then Inr (0, s) else Inr (ptr, set_thread ptr zero_thread s))"

definition free_table :: "u64 \<Rightarrow> 'a sched_scheme \<Rightarrow> halt + 'a sched_scheme" where
  "free_table ptr s = bnd (kfree ptr s) (\<lambda>s. Inr (s\<lparr>thread_tables := (thread_tables s)(ptr := None)\<rparr>))"

definition free_thread :: "u64 \<Rightarrow> 'a sched_scheme \<Rightarrow> halt + 'a sched_scheme" where
  "free_thread ptr s = bnd (kfree ptr s) (\<lambda>s. Inr (s\<lparr>thread_objects := (thread_objects s)(ptr := None)\<rparr>))"

definition set_slot :: "u64 \<Rightarrow> nat \<Rightarrow> u64 \<Rightarrow> 'a sched_scheme \<Rightarrow> 'a sched_scheme" where
  "set_slot tbl j ptr s =
    s\<lparr>thread_tables := (thread_tables s)(tbl := map_option (\<lambda>xs. xs[j := ptr]) (thread_tables s tbl))\<rparr>"

text \<open>\<open>release(&sched_mutex); return r;\<close>\<close>

definition unlock_return :: "u32 \<Rightarrow> 'a sched_scheme \<Rightarrow> halt + (u32 \<times> 'a sched_scheme)" where
  "unlock_return r s = Inr (r, s\<lparr>sched_mutex := release (sched_mutex s)\<rparr>)"

definition find_process :: "'a sched_scheme \<Rightarrow> halt + nat option" where
  "find_process s =
    (if processes_at s = 0 then Inl (Panic ''page fault'')
     else Inr (find (\<lambda>i. valid (processes s ! i) = 0) [0..<MAX_PROCESSES]))"

text \<open>The three kernel entries of the top-level table that a new process shares.\<close>

definition share_kernel :: "u64 \<Rightarrow> 'a heap_scheme \<Rightarrow> 'a heap_scheme" where
  "share_kernel frame s =
    fold (\<lambda>k s. kwrite64 (frame + PHYSICAL_MEMORY + 8 * k) (kread64 s (bsp_pml4 s + 8 * k)) s) [256, 257, 258] s"

text \<open>The stack of the first process: its thread, or \<open>None\<close> when there is no memory.\<close>

definition first_stack :: "thread_t \<Rightarrow> 'a sched_scheme \<Rightarrow> halt + (thread_t option \<times> 'a sched_scheme)" where
  "first_stack t s =
    (if running_processes s = 0 then
       bnd (kmalloc THREAD_STACK s) (\<lambda>(rsp0, s).
       if rsp0 = 0 then Inr (None, s)
       else Inr (Some (t\<lparr>rsp := rsp0 + THREAD_STACK, code_segment := ucast KCODE_SEGMENT, data_segment := ucast KDATA_SEGMENT\<rparr>), s))
     else Inr (Some t, s))"

definition create_process :: "u64 \<Rightarrow> 'a sched_scheme \<Rightarrow> halt + (u32 \<times> 'a sched_scheme)" where
  "create_process entry s =
    bnd (acquire (sched_mutex s)) (\<lambda>mx.
    let s = s\<lparr>sched_mutex := mx\<rparr> in
    bnd (find_process s) (\<lambda>r. case r of None \<Rightarrow> unlock_return (- 1) s | Some pid \<Rightarrow>
    bnd (pmm_alloc_page s) (\<lambda>(frame, s).
    let p = (processes s ! pid)\<lparr>process_cr3 := frame\<rparr>; s = set_process pid p s in
    if frame = 0 then unlock_return (- 1) s else
    let s = share_kernel frame s in
    bnd (new_table s) (\<lambda>(tbl, s).
    let p = p\<lparr>thread_count := 1, threads := tbl\<rparr>; s = set_process pid p s in
    if tbl = 0 then bnd (pmm_free_page frame s) (unlock_return (- 1)) else
    bnd (new_thread s) (\<lambda>(th, s).
    let s = set_slot tbl 0 th s in
    if th = 0 then bnd (pmm_free_page frame s) (\<lambda>s. bnd (free_table tbl s) (unlock_return (- 1))) else
    bnd (thread_at s th) (\<lambda>t.
    let t = t\<lparr>rflags := 0x202, rip := entry\<rparr> in
    bnd (first_stack t s) (\<lambda>(r, s). case r of
      None \<Rightarrow> bnd (pmm_free_page frame s) (\<lambda>s. bnd (free_thread th s) (\<lambda>s. bnd (free_table tbl s) (unlock_return (- 1))))
    | Some t \<Rightarrow>
        let s = set_thread th (t\<lparr>status := THREAD_IDLE\<rparr>) s;
            s = set_process pid (p\<lparr>valid := 1, thread_count := 1\<rparr>) s
        in unlock_return (of_nat pid) (s\<lparr>running_processes := running_processes s + 1\<rparr>))))))))"

text \<open>
  \<open>find_thread\<close> looks at \<open>processes->threads\<close>, the threads of process 0, whatever process it is
  given.
\<close>

fun find_thread_loop :: "'a sched_scheme \<Rightarrow> process_t \<Rightarrow> nat \<Rightarrow> nat \<Rightarrow> halt + nat option" where
  "find_thread_loop s p j 0 = Inr None"
| "find_thread_loop s p j (Suc n) =
    bnd (thread_pointer s p j) (\<lambda>ptr.
      if ptr = 0 then Inr (Some j)
      else bnd (thread_at s ptr) (\<lambda>t. if status t = 0 then Inr (Some j) else find_thread_loop s p (j + 1) n))"

definition find_thread :: "nat \<Rightarrow> 'a sched_scheme \<Rightarrow> halt + nat option" where
  "find_thread pid s = bnd (process_at s 0) (\<lambda>p0. find_thread_loop s p0 0 MAX_THREADS)"

definition create_thread :: "u8 \<Rightarrow> u64 \<Rightarrow> 'a sched_scheme \<Rightarrow> halt + (u32 \<times> 'a sched_scheme)" where
  "create_thread apic_id entry s =
    bnd (acquire (sched_mutex s)) (\<lambda>mx.
    let s = s\<lparr>sched_mutex := mx\<rparr> in
    bnd (get_pid apic_id s) (\<lambda>pid.
    bnd (process_at s (unat pid)) (\<lambda>p.
    bnd (find_thread (unat pid) s) (\<lambda>r. case r of None \<Rightarrow> unlock_return (- 1) s | Some tid \<Rightarrow>
    bnd (new_thread s) (\<lambda>(th, s).
    bnd (thread_pointer s p tid) (\<lambda>_.
    let s = set_slot (threads p) tid th s in
    if th = 0 then unlock_return (- 1) s else
    let finish = (\<lambda>t s.
      let s = set_thread th (t\<lparr>rsp := rsp t + THREAD_STACK, rflags := 0x202, rip := entry, status := THREAD_IDLE\<rparr>) s;
          s = set_process (unat pid) (p\<lparr>thread_count := thread_count p + 1\<rparr>) s
      in unlock_return 0 s)
    in if pid = 0 then
         bnd (kmalloc THREAD_STACK s) (\<lambda>(stack, s).
         if stack = 0 then bnd (free_thread th s) (unlock_return (- 1))
         else finish (zero_thread\<lparr>code_segment := ucast KCODE_SEGMENT, data_segment := ucast KDATA_SEGMENT, rsp := stack\<rparr>) s)
       else finish (zero_thread\<lparr>code_segment := ucast UCODE_SEGMENT, data_segment := ucast UDATA_SEGMENT\<rparr>) s))))))"

text \<open>The process table takes 32 bytes for each of 512 processes.\<close>

definition sched_init :: "u64 \<Rightarrow> 'a sched_scheme \<Rightarrow> halt + 'a sched_scheme" where
  "sched_init kmain_late s =
    bnd (kcalloc 32 (of_nat MAX_PROCESSES) s) (\<lambda>(ptr, s).
    if ptr = 0 then Inl (Panic ''unable to allocate memory.'')
    else
      bnd (create_process kmain_late (s\<lparr>processes_at := ptr, processes := replicate MAX_PROCESSES zero_process\<rparr>)) (\<lambda>(_, s).
      Inr (s\<lparr>sys_ready := 1\<rparr>)))"

end
