(* ===== verification/Sched_Properties.thy ===== *)
theory Sched_Properties
  imports Sched
begin

text \<open>
  The properties of the scheduler, stated on an abstract view of its tables: which thread a slot
  of a process holds.  \<open>resched\<close> is the choice of the next idle slot in a fixed order; in one
  process this is a round robin, over several processes it starves threads.
\<close>

section \<open>The slots\<close>

definition slot_pointer :: "'a sched_scheme \<Rightarrow> nat \<Rightarrow> nat \<Rightarrow> u64" where
  "slot_pointer s i j =
    (if i < MAX_PROCESSES \<and> j < MAX_THREADS \<and> valid (processes s ! i) \<noteq> 0
     then the (thread_tables s (threads (processes s ! i))) ! j else 0)"

definition slot :: "'a sched_scheme \<Rightarrow> nat \<Rightarrow> nat \<Rightarrow> thread_t option" where
  "slot s i j = (if slot_pointer s i j = 0 then None else thread_objects s (slot_pointer s i j))"

definition idle :: "'a sched_scheme \<Rightarrow> nat \<times> nat \<Rightarrow> bool" where
  "idle s = (\<lambda>(i, j). \<exists>t. slot s i j = Some t \<and> status t = THREAD_IDLE)"

definition current :: "'a sched_scheme \<Rightarrow> nat \<times> nat" where
  "current s = (unat (cpu_pid (cpus s ! 0)), unat (cpu_tid (cpus s ! 0)))"

text \<open>
  What the scheduler relies on: the table exists, each valid process has a table of 32
  pointers, each pointer leads to a thread, no thread is in two slots, and the local APIC is mapped in the address
  space of each valid process.
\<close>

definition sched_wf :: "'a sched_scheme \<Rightarrow> bool" where
  "sched_wf s \<longleftrightarrow> processes_at s \<noteq> 0 \<and> length (processes s) = MAX_PROCESSES \<and> cpus s \<noteq> [] \<and>
    (\<forall>i < MAX_PROCESSES. valid (processes s ! i) \<noteq> 0 \<longrightarrow>
      (\<exists>tbl. thread_tables s (threads (processes s ! i)) = Some tbl \<and> length tbl = MAX_THREADS) \<and>
      vmm_get_physical (s\<lparr>cr3 := process_cr3 (processes s ! i)\<rparr>) (lapic s + LAPIC_EOI) =
        Some (lapic_physical s + LAPIC_EOI)) \<and>
    (\<forall>i j. slot_pointer s i j \<noteq> 0 \<longrightarrow> slot s i j \<noteq> None) \<and>
    (\<forall>i j i' j'. slot_pointer s i j \<noteq> 0 \<longrightarrow> slot_pointer s i j = slot_pointer s i' j' \<longrightarrow> i = i' \<and> j = j')"

lemma slot_range: "slot s i j = Some t \<Longrightarrow> i < MAX_PROCESSES \<and> j < MAX_THREADS \<and> valid (processes s ! i) \<noteq> 0"
  by (auto simp: slot_def slot_pointer_def split: if_splits)

lemma thread_pointer_slot:
  assumes "sched_wf s" and "i < MAX_PROCESSES" and "valid (processes s ! i) \<noteq> 0" and "j < MAX_THREADS"
  shows "thread_pointer s (processes s ! i) j = Inr (slot_pointer s i j)"
  using assms by (fastforce simp: thread_pointer_def slot_pointer_def sched_wf_def)

lemma process_at_wf: "sched_wf s \<Longrightarrow> i < MAX_PROCESSES \<Longrightarrow> process_at s i = Inr (processes s ! i)"
  by (simp add: process_at_def sched_wf_def)

lemma thread_at_slot: "slot s i j = Some t \<Longrightarrow> thread_at s (slot_pointer s i j) = Inr t \<and> slot_pointer s i j \<noteq> 0"
  by (auto simp: slot_def thread_at_def split: if_splits)

section \<open>The order of the search\<close>

definition candidates :: "nat \<Rightarrow> nat \<Rightarrow> (nat \<times> nat) list" where
  "candidates pid tid = concat (map (\<lambda>i. map (Pair i) [tid..<MAX_THREADS]) [pid..<MAX_PROCESSES])"

lemma set_candidates: "set (candidates pid tid) = {(i, j). pid \<le> i \<and> i < MAX_PROCESSES \<and> tid \<le> j \<and> j < MAX_THREADS}"
  by (auto simp: candidates_def)

lemma candidates_first: "i < MAX_PROCESSES \<Longrightarrow> j < MAX_THREADS \<Longrightarrow> \<exists>xs. candidates i j = (i, j) # xs"
  by (simp add: candidates_def upt_conv_Cons)

definition next_thread :: "'a sched_scheme \<Rightarrow> (nat \<times> nat) option" where
  "next_thread s = (let (pid, tid) = current s in find (idle s) (candidates pid tid @ candidates 0 0))"

lemma find_append: "find P (xs @ ys) = (case find P xs of None \<Rightarrow> find P ys | Some x \<Rightarrow> Some x)"
  by (induction xs) auto

lemma find_map: "find P (map f xs) = map_option f (find (P \<circ> f) xs)"
  by (induction xs) auto

lemma find_SomeD: "find P xs = Some x \<Longrightarrow> P x \<and> x \<in> set xs"
  by (induction xs) (auto split: if_splits)

lemma idle_in_find:
  assumes wf: "sched_wf s" and i: "i < MAX_PROCESSES" "valid (processes s ! i) \<noteq> 0" and "j + n = MAX_THREADS"
  shows "idle_in s (processes s ! i) j n =
    Inr (map_option (\<lambda>j. (j, slot_pointer s i j)) (find (\<lambda>j. idle s (i, j)) [j..<MAX_THREADS]))"
  using assms(4)
proof (induction n arbitrary: j)
  case 0
  then show ?case by simp
next
  case (Suc n)
  have j: "j < MAX_THREADS" "[j..<MAX_THREADS] = j # [j + 1..<MAX_THREADS]" using Suc.prems by (simp_all add: upt_rec)
  note IH = Suc.IH[of "j + 1"] and tp = thread_pointer_slot[OF wf i j(1)]
  show ?case
  proof (cases "slot s i j")
    case None
    then have "slot_pointer s i j = 0" using wf unfolding sched_wf_def by blast
    then show ?thesis using tp IH Suc.prems None by (simp add: j(2) idle_def)
  next
    case (Some t)
    then show ?thesis using tp IH Suc.prems thread_at_slot[OF Some] by (simp add: j(2) idle_def)
  qed
qed

lemma idle_invalid: "valid (processes s ! i) = 0 \<Longrightarrow> \<not> idle s (i, j)"
  by (auto simp: idle_def dest: slot_range)

lemma idle_from_find:
  assumes wf: "sched_wf s" and "i + n = MAX_PROCESSES"
  shows "idle_from s tid i n =
    Inr (map_option (\<lambda>(i, j). (i, j, slot_pointer s i j)) (find (idle s) (candidates i tid)))"
  using assms(2)
proof (induction n arbitrary: i)
  case 0
  then show ?case by (simp add: candidates_def)
next
  case (Suc n)
  have i: "i < MAX_PROCESSES" using Suc.prems by simp
  then have c: "candidates i tid = map (Pair i) [tid..<MAX_THREADS] @ candidates (i + 1) tid"
    by (simp add: candidates_def upt_rec)
  note IH = Suc.IH[of "i + 1"] and pa = process_at_wf[OF wf i]
  show ?case
  proof (cases "valid (processes s ! i) = 0")
    case True
    then have "find (idle s) (map (Pair i) [tid..<MAX_THREADS]) = None"
      using idle_invalid[OF True] by (auto simp: find_None_iff)
    then show ?thesis using True pa IH Suc.prems by (simp add: c find_append)
  next
    case False
    have "idle_in s (processes s ! i) tid (MAX_THREADS - tid) =
      Inr (map_option (\<lambda>j. (j, slot_pointer s i j)) (find (\<lambda>j. idle s (i, j)) [tid..<MAX_THREADS]))"
    proof (cases "tid \<le> MAX_THREADS")
      case True
      then show ?thesis using idle_in_find[OF wf i False, of tid "MAX_THREADS - tid"] by simp
    qed simp
    then show ?thesis using False pa IH Suc.prems
      by (simp add: c find_append find_map comp_def split: option.split)
  qed
qed

definition run_on :: "nat \<Rightarrow> nat \<times> nat \<Rightarrow> 'a sched_scheme \<Rightarrow> 'a sched_scheme" where
  "run_on cpu = (\<lambda>(i, j) s.
    (set_cpu cpu ((cpus s ! cpu)\<lparr>cpu_pid := of_nat i, cpu_tid := of_nat j\<rparr>) s)\<lparr>cr3 := process_cr3 (processes s ! i)\<rparr>)"

lemma find_idle_next:
  assumes "sched_wf s"
  shows "find_idle cpu s =
    (case next_thread s of None \<Rightarrow> Inr (0, s) | Some (i, j) \<Rightarrow> Inr (slot_pointer s i j, run_on cpu (i, j) s))"
proof -
  let ?pid = "fst (current s)" and ?tid = "snd (current s)"
  have one: "idle_from s ?tid ?pid (MAX_PROCESSES - ?pid) =
      Inr (map_option (\<lambda>(i, j). (i, j, slot_pointer s i j)) (find (idle s) (candidates ?pid ?tid)))"
  proof (cases "?pid \<le> MAX_PROCESSES")
    case True
    then show ?thesis using idle_from_find[OF assms, of ?pid "MAX_PROCESSES - ?pid"] by simp
  qed (simp add: candidates_def)
  have two: "idle_from s 0 0 MAX_PROCESSES =
      Inr (map_option (\<lambda>(i, j). (i, j, slot_pointer s i j)) (find (idle s) (candidates 0 0)))"
    using idle_from_find[OF assms, of 0 MAX_PROCESSES] by simp
  have pa: "process_at s i = Inr (processes s ! i)" if "idle s (i, j)" for i j
    using that process_at_wf[OF assms, of i] by (auto simp: idle_def dest: slot_range)
  note r = one[unfolded current_def fst_conv snd_conv] two
  show ?thesis
    using find_SomeD[of "idle s" "candidates ?pid ?tid"] find_SomeD[of "idle s" "candidates 0 0"]
    by (auto simp: find_idle_def next_thread_def find_append r current_def pa run_on_def split: option.split)
qed

section \<open>Updates of the state\<close>

text \<open>The part of the state that says where the threads are.\<close>

definition same_slots :: "'a sched_scheme \<Rightarrow> 'a sched_scheme \<Rightarrow> bool" where
  "same_slots s t \<longleftrightarrow> processes_at t = processes_at s \<and> processes t = processes s \<and> thread_tables t = thread_tables s \<and>
    lapic t = lapic s \<and> lapic_physical t = lapic_physical s \<and> mem t = mem s \<and> length (cpus t) = length (cpus s)"

lemma slot_pointer_same: "same_slots s t \<Longrightarrow> slot_pointer t = slot_pointer s"
  by (simp add: same_slots_def slot_pointer_def fun_eq_iff)

lemma sched_wf_same:
  assumes wf: "sched_wf s" and st: "same_slots s t"
    and obj: "\<And>i j. slot_pointer s i j \<noteq> 0 \<Longrightarrow> thread_objects t (slot_pointer s i j) \<noteq> None"
  shows "sched_wf t"
proof -
  have phys: "vmm_get_physical (t\<lparr>cr3 := c\<rparr>) v = vmm_get_physical (s\<lparr>cr3 := c\<rparr>) v" for c v
    using st by (intro vmm_get_physical_mem) (simp_all add: same_slots_def)
  have "cpus t \<noteq> []" using wf st by (auto simp: sched_wf_def same_slots_def)
  moreover have "slot t i j \<noteq> None" if "slot_pointer s i j \<noteq> 0" for i j
    using obj[OF that] that slot_pointer_same[OF st] by (simp add: slot_def)
  ultimately show ?thesis
    using wf st unfolding sched_wf_def slot_pointer_same[OF st] phys by (auto simp: same_slots_def)
qed

lemma same_slots_updates:
  "same_slots s (set_thread p x s)" "same_slots s (set_cpu i c s)" "same_slots s (s\<lparr>cr3 := y\<rparr>)"
  "same_slots s (emit e s)" "same_slots s (run_on cpu ij s)" "same_slots s (s\<lparr>ticks := n\<rparr>)"
  by (simp_all add: same_slots_def set_thread_def set_cpu_def emit_def run_on_def split: prod.split)

lemma same_slots_trans: "same_slots s t \<Longrightarrow> same_slots t u \<Longrightarrow> same_slots s u"
  by (simp add: same_slots_def)

lemma slot_set_thread:
  assumes "sched_wf s" and "slot_pointer s i j \<noteq> 0"
  shows "slot (set_thread (slot_pointer s i j) t s) i' j' = (if i' = i \<and> j' = j then Some t else slot s i' j')"
proof -
  have "slot_pointer s i' j' = slot_pointer s i j \<longleftrightarrow> i' = i \<and> j' = j" if "slot_pointer s i' j' \<noteq> 0"
    using assms that unfolding sched_wf_def by metis
  moreover have "thread_objects (set_thread (slot_pointer s i j) t s) = (thread_objects s)(slot_pointer s i j \<mapsto> t)"
    by (simp add: set_thread_def)
  ultimately show ?thesis
    unfolding slot_def slot_pointer_same[OF same_slots_updates(1)] using assms(2) by auto
qed

lemma slot_same: "same_slots s t \<Longrightarrow> thread_objects t = thread_objects s \<Longrightarrow> slot t = slot s"
  using slot_pointer_same[of s t] by (simp add: slot_def fun_eq_iff)

lemma slot_other:
  "slot (set_cpu i c s) = slot s" "slot (s\<lparr>cr3 := y\<rparr>) = slot s" "slot (emit e s) = slot s" "slot (run_on cpu ij s) = slot s"
  "slot (s\<lparr>ticks := n\<rparr>) = slot s"
  by (rule slot_same[OF same_slots_updates(2)] slot_same[OF same_slots_updates(3)] slot_same[OF same_slots_updates(4)]
    slot_same[OF same_slots_updates(5)] slot_same[OF same_slots_updates(6)],
    simp add: set_cpu_def emit_def run_on_def split: prod.split)+

lemma sched_wf_updates:
  assumes "sched_wf s"
  shows "sched_wf (set_cpu i c s)" "sched_wf (emit e s)" "sched_wf (run_on cpu ij s)" "sched_wf (s\<lparr>ticks := n\<rparr>)"
    "slot_pointer s i' j' \<noteq> 0 \<Longrightarrow> sched_wf (set_thread (slot_pointer s i' j') x s)"
proof -
  have obj: "thread_objects s (slot_pointer s i j) \<noteq> None" if "slot_pointer s i j \<noteq> 0" for i j
    using assms that unfolding sched_wf_def slot_def by metis
  show "sched_wf (set_cpu i c s)"
    by (rule sched_wf_same[OF assms same_slots_updates(2)]) (use obj in \<open>simp add: set_cpu_def\<close>)
  show "sched_wf (emit e s)"
    by (rule sched_wf_same[OF assms same_slots_updates(4)]) (use obj in \<open>simp add: emit_def\<close>)
  show "sched_wf (run_on cpu ij s)"
    by (rule sched_wf_same[OF assms same_slots_updates(5)]) (use obj in \<open>simp add: run_on_def set_cpu_def split: prod.split\<close>)
  show "sched_wf (s\<lparr>ticks := n\<rparr>)"
    by (rule sched_wf_same[OF assms same_slots_updates(6)]) (use obj in simp)
  show "sched_wf (set_thread (slot_pointer s i' j') x s)"
    by (rule sched_wf_same[OF assms same_slots_updates(1)]) (use obj in \<open>simp add: set_thread_def\<close>)
qed

section \<open>Switching\<close>

lemma find_first_None: "(\<And>x. x \<in> set xs \<Longrightarrow> \<not> P x) \<Longrightarrow> find P xs = None"
  by (auto simp: find_None_iff)

lemma next_thread_idle:
  assumes "next_thread s = Some (i, j)"
  shows "idle s (i, j)"
  using assms find_SomeD[of "idle s"] by (auto simp: next_thread_def case_prod_beta)

lemma next_thread_exists:
  assumes "idle s (i, j)"
  shows "next_thread s \<noteq> None"
proof
  assume "next_thread s = None"
  then have "\<forall>x \<in> set (candidates 0 0). \<not> idle s x" by (auto simp: next_thread_def case_prod_beta find_None_iff)
  moreover have "(i, j) \<in> set (candidates 0 0)" using assms by (auto simp: set_candidates idle_def dest: slot_range)
  ultimately show False using assms by blast
qed

text \<open>The state after the registers of the running thread are saved, in the abstract view.\<close>

definition saved :: "thread_t \<Rightarrow> 'a sched_scheme \<Rightarrow> 'a sched_scheme" where
  "saved old s =
    (let (i, j) = current s; c = cpus s ! 0
     in set_cpu 0 (c\<lparr>cpu_tid := cpu_tid c + 1, cpu_sys_ready := 1\<rparr>)
          (set_thread (slot_pointer s i j) (old\<lparr>status := THREAD_IDLE\<rparr>) s))"

lemma saved_facts:
  assumes wf: "sched_wf s" and cur: "current s = (i, j)" "slot s i j \<noteq> None"
  shows "sched_wf (saved old s)"
    and "slot (saved old s) i' j' = (if i' = i \<and> j' = j then Some (old\<lparr>status := THREAD_IDLE\<rparr>) else slot s i' j')"
    and "current (saved old s) = (i, j + 1)" and "idle (saved old s) (i, j)"
proof -
  have p: "slot_pointer s i j \<noteq> 0" using cur(2) by (auto simp: slot_def)
  have j: "j < MAX_THREADS" using cur(2) slot_range by blast
  have ne: "cpus s \<noteq> []" using wf by (simp add: sched_wf_def)
  show "sched_wf (saved old s)" using wf p by (simp add: saved_def cur(1) sched_wf_updates Let_def)
  show sl: "slot (saved old s) i' j' = (if i' = i \<and> j' = j then Some (old\<lparr>status := THREAD_IDLE\<rparr>) else slot s i' j')" for i' j'
    using slot_set_thread[OF wf p] by (simp add: saved_def cur(1) slot_other Let_def)
  have "unat (cpu_tid (cpus s ! 0)) = j" using cur(1) by (simp add: current_def)
  then have "unat (cpu_tid (cpus s ! 0) + 1) = j + 1" using j by (simp add: unat_word_ariths MAX_THREADS_def)
  then show "current (saved old s) = (i, j + 1)"
    using cur(1) ne by (auto simp: saved_def current_def set_cpu_def set_thread_def Let_def)
  show "idle (saved old s) (i, j)" by (simp add: idle_def sl)
qed

lemma lapic_eoi_wf:
  assumes "sched_wf s" and "i < MAX_PROCESSES" and "valid (processes s ! i) \<noteq> 0" and "cr3 s = process_cr3 (processes s ! i)"
  shows "lapic_eoi s = Inr (emit (Mmio_Write (lapic_physical s + LAPIC_EOI) 0) s)"
proof -
  have "s\<lparr>cr3 := process_cr3 (processes s ! i)\<rparr> = s" using assms(4) by (metis (full_types) vmm.surjective vmm.update_convs(3))
  then have "vmm_get_physical s (lapic s + LAPIC_EOI) = Some (lapic_physical s + LAPIC_EOI)"
    using assms(1-3) unfolding sched_wf_def by metis
  then show ?thesis by (simp add: lapic_eoi_def lapic_write_def mmio_write_def)
qed

text \<open>The tail of \<open>resched\<close>: from a state in which some thread is idle, the next one is loaded.\<close>

definition switched :: "nat \<times> nat \<Rightarrow> 'a sched_scheme \<Rightarrow> 'a sched_scheme" where
  "switched = (\<lambda>(i, j) s.
    emit (Mmio_Write (lapic_physical s + LAPIC_EOI) 0)
      (set_thread (slot_pointer s i j) ((the (slot s i j))\<lparr>status := THREAD_BUSY\<rparr>) (run_on 0 (i, j) s)))"

lemma resched_saves_and_switches:
  assumes wf: "sched_wf s" and cur: "current s = (i, j)" "slot s i j \<noteq> None"
    and "cpu_sys_ready (cpus s ! 0) \<noteq> 0" and "\<not> (running_processes s = 1 \<and> thread_count (processes s ! 0) = 1)"
  shows "\<exists>i' j' t. next_thread (saved old s) = Some (i', j') \<and> slot (saved old s) i' j' = Some t \<and>
    resched old s = Inr (Some (t\<lparr>status := THREAD_BUSY\<rparr>), switched (i', j') (saved old s))"
proof -
  let ?s = "saved old s"
  note sf = saved_facts[OF wf cur, of old]
  obtain i' j' where nx: "next_thread ?s = Some (i', j')" using next_thread_exists[OF sf(4)] by auto
  obtain t where t: "slot ?s i' j' = Some t" using next_thread_idle[OF nx] by (auto simp: idle_def)
  note rg = slot_range[OF t] and ta = thread_at_slot[OF t]
  let ?u = "run_on 0 (i', j') ?s"
  have tu: "thread_at ?u (slot_pointer ?s i' j') = Inr t"
    using ta by (simp add: thread_at_def run_on_def set_cpu_def)
  let ?v = "set_thread (slot_pointer ?s i' j') (t\<lparr>status := THREAD_BUSY\<rparr>) ?u"
  have "slot_pointer ?u i' j' \<noteq> 0" using ta slot_pointer_same[OF same_slots_updates(5)] by metis
  then have wv: "sched_wf ?v"
    using sched_wf_updates(5)[OF sched_wf_updates(3)[OF sf(1)]] slot_pointer_same[OF same_slots_updates(5)] by metis
  have pv: "processes ?v = processes ?s" "cr3 ?v = process_cr3 (processes ?s ! i')" "lapic_physical ?v = lapic_physical ?s"
    by (simp_all add: set_thread_def run_on_def set_cpu_def)
  have eoi: "lapic_eoi ?v = Inr (switched (i', j') ?s)"
    using lapic_eoi_wf[OF wv, of i'] rg pv t by (simp add: switched_def)
  have ii: "i < MAX_PROCESSES" "j < MAX_THREADS" "valid (processes s ! i) \<noteq> 0" using cur(2) slot_range by blast+
  obtain t0 where t0: "slot s i j = Some t0" using cur(2) by auto
  have c: "unat (cpu_pid (cpus s ! 0)) = i" "unat (cpu_tid (cpus s ! 0)) = j" using cur(1) by (auto simp: current_def)
  have ne: "cpus s \<noteq> []" using wf by (simp add: sched_wf_def)
  have save: "save_context old s = Inr (set_cpu 0 ((cpus s ! 0)\<lparr>cpu_tid := cpu_tid (cpus s ! 0) + 1\<rparr>)
      (set_thread (slot_pointer s i j) (old\<lparr>status := THREAD_IDLE\<rparr>) s))"
    using process_at_wf[OF wf ii(1)] thread_pointer_slot[OF wf ii(1,3,2)] thread_at_slot[OF t0]
    by (simp add: save_context_def c Let_def)
  have rdy: "set_cpu 0 ((cpus w ! 0)\<lparr>cpu_sys_ready := 1\<rparr>) w = ?s"
    if "w = set_cpu 0 ((cpus s ! 0)\<lparr>cpu_tid := cpu_tid (cpus s ! 0) + 1\<rparr>)
      (set_thread (slot_pointer s i j) (old\<lparr>status := THREAD_IDLE\<rparr>) s)" for w
    using ne by (simp add: that saved_def cur(1) set_cpu_def set_thread_def Let_def)
  have "find_idle 0 ?s = Inr (slot_pointer ?s i' j', ?u)" using find_idle_next[OF sf(1)] nx by simp
  then have "resched old s = Inr (Some (t\<lparr>status := THREAD_BUSY\<rparr>), switched (i', j') ?s)"
    using process_at_wf[OF wf, of 0] assms(4,5) ta tu eoi
    by (simp add: resched_def save rdy Let_def MAX_PROCESSES_def)
  then show ?thesis using nx t by blast
qed

lemma switched_facts:
  assumes wf: "sched_wf s" and t: "slot s i j = Some t"
  shows "sched_wf (switched (i, j) s)"
    and "slot (switched (i, j) s) a b = (if a = i \<and> b = j then Some (t\<lparr>status := THREAD_BUSY\<rparr>) else slot s a b)"
    and "current (switched (i, j) s) = (i, j)"
proof -
  let ?u = "run_on 0 (i, j) s"
  have sp: "slot_pointer ?u = slot_pointer s" by (rule slot_pointer_same[OF same_slots_updates(5)])
  have p: "slot_pointer ?u i j \<noteq> 0" using t by (auto simp: sp slot_def split: if_splits)
  note wu = sched_wf_updates(3)[OF wf, of 0 "(i, j)"]
  have sw: "switched (i, j) s = emit (Mmio_Write (lapic_physical s + LAPIC_EOI) 0)
      (set_thread (slot_pointer ?u i j) (t\<lparr>status := THREAD_BUSY\<rparr>) ?u)"
    by (simp add: switched_def t sp)
  show "sched_wf (switched (i, j) s)"
    unfolding sw by (rule sched_wf_updates(2)[OF sched_wf_updates(5)[OF wu p]])
  show "slot (switched (i, j) s) a b = (if a = i \<and> b = j then Some (t\<lparr>status := THREAD_BUSY\<rparr>) else slot s a b)"
    unfolding sw slot_other using slot_set_thread[OF wu p] by (simp add: slot_other)
  have "unat (of_nat i :: u32) = i" "unat (of_nat j :: u32) = j"
    using slot_range[OF t] by (simp_all add: unat_of_nat MAX_PROCESSES_def MAX_THREADS_def)
  moreover have "cpus s \<noteq> []" using wf by (simp add: sched_wf_def)
  ultimately show "current (switched (i, j) s) = (i, j)"
    by (simp add: current_def switched_def emit_def set_thread_def run_on_def set_cpu_def)
qed

lemma switched_rest:
  "processes (switched ij s) = processes s" "running_processes (switched ij s) = running_processes s"
  "cpus s \<noteq> [] \<Longrightarrow> cpu_sys_ready (cpus (switched ij s) ! 0) = cpu_sys_ready (cpus s ! 0)"
  "cr3 (switched ij s) = process_cr3 (processes s ! fst ij)"
  "trace (switched ij s) = trace s @ [Mmio_Write (lapic_physical s + LAPIC_EOI) 0]"
  by (simp_all add: switched_def emit_def set_thread_def run_on_def set_cpu_def split: prod.split)

lemma saved_rest:
  "processes (saved old s) = processes s" "running_processes (saved old s) = running_processes s"
  "cpus s \<noteq> [] \<Longrightarrow> cpu_sys_ready (cpus (saved old s) ! 0) = 1" "trace (saved old s) = trace s"
  "lapic_physical (saved old s) = lapic_physical s" "cpus s \<noteq> [] \<Longrightarrow> cpus (saved old s) \<noteq> []"
  by (simp_all add: saved_def set_thread_def set_cpu_def Let_def split: prod.split)

text \<open>The running thread, and the conditions under which \<open>resched\<close> switches.\<close>

definition switching :: "'a sched_scheme \<Rightarrow> bool" where
  "switching s \<longleftrightarrow> sched_wf s \<and> (case current s of (i, j) \<Rightarrow> slot s i j \<noteq> None) \<and>
    cpu_sys_ready (cpus s ! 0) \<noteq> 0 \<and> \<not> (running_processes s = 1 \<and> thread_count (processes s ! 0) = 1)"

text \<open>Slots that may run: the thread that is being interrupted, and those that are idle.\<close>

definition runnable :: "'a sched_scheme \<Rightarrow> nat \<times> nat \<Rightarrow> bool" where
  "runnable s ab \<longleftrightarrow> ab = current s \<or> idle s ab"

lemma idle_saved:
  assumes "switching s"
  shows "idle (saved old s) = runnable s"
proof -
  obtain i j where cur: "current s = (i, j)" by (cases "current s")
  then have "sched_wf s" "slot s i j \<noteq> None" using assms by (auto simp: switching_def)
  note sl = saved_facts(2)[OF this(1) cur this(2), of old]
  show ?thesis by (auto simp: fun_eq_iff runnable_def idle_def cur sl split: if_splits)
qed

lemma next_saved:
  assumes "switching s" and "current s = (i, j)"
  shows "next_thread (saved old s) = find (runnable s) (candidates i (j + 1) @ candidates 0 0)"
  using idle_saved[OF assms(1), of old] saved_facts(3)[OF _ assms(2), of old] assms
  by (simp add: next_thread_def switching_def)

text \<open>One switch.  Which slots may run does not change, so neither does the order they run in.\<close>

lemma resched_step:
  assumes "switching s" and "current s = (i, j)"
  shows "\<exists>i' j' x t. find (runnable s) (candidates i (j + 1) @ candidates 0 0) = Some (i', j') \<and>
    slot (saved old s) i' j' = Some x \<and> t = switched (i', j') (saved old s) \<and>
    resched old s = Inr (Some (x\<lparr>status := THREAD_BUSY\<rparr>), t) \<and> switching t \<and> current t = (i', j') \<and>
    processes t = processes s \<and> runnable t = runnable s"
proof -
  have sw: "sched_wf s" "slot s i j \<noteq> None" "cpu_sys_ready (cpus s ! 0) \<noteq> 0"
    "\<not> (running_processes s = 1 \<and> thread_count (processes s ! 0) = 1)"
    using assms by (auto simp: switching_def)
  have ne: "cpus s \<noteq> []" using sw(1) by (simp add: sched_wf_def)
  obtain i' j' x where r: "next_thread (saved old s) = Some (i', j')" "slot (saved old s) i' j' = Some x"
    "resched old s = Inr (Some (x\<lparr>status := THREAD_BUSY\<rparr>), switched (i', j') (saved old s))"
    using resched_saves_and_switches[OF sw(1) assms(2) sw(2-4), of old] by blast
  let ?t = "switched (i', j') (saved old s)"
  note sf = saved_facts[OF sw(1) assms(2) sw(2), of old]
  note wf = switched_facts[OF sf(1) r(2)]
  have rest: "processes ?t = processes s" "running_processes ?t = running_processes s" "cpu_sys_ready (cpus ?t ! 0) \<noteq> 0"
    using ne by (simp_all add: switched_rest saved_rest)
  have "switching ?t" using wf rest sw(4) by (simp add: switching_def)
  moreover have "runnable ?t = runnable s"
  proof -
    have "idle (saved old s) (i', j')" using next_thread_idle[OF r(1)] .
    then have "runnable ?t ab \<longleftrightarrow> idle (saved old s) ab" for ab
      by (cases ab) (auto simp: runnable_def idle_def wf(2,3))
    then show ?thesis using idle_saved[OF assms(1), of old] by (simp add: fun_eq_iff)
  qed
  ultimately show ?thesis
    using trans[OF next_saved[OF assms, of old, symmetric] r(1)] r(2,3) wf(3) rest(1) by blast
qed

section \<open>Runs of the scheduler\<close>

text \<open>A run: the contexts that successive calls of \<open>resched\<close> interrupt.\<close>

primrec resched_run :: "thread_t list \<Rightarrow> 'a sched_scheme \<Rightarrow> halt + 'a sched_scheme" where
  "resched_run [] s = Inr s"
| "resched_run (old # olds) s = bnd (resched old s) (\<lambda>(_, s). resched_run olds s)"

text \<open>An invariant of the switches holds after each run, and each run returns.\<close>

lemma resched_run_invariant:
  assumes "switching s" and "I (current s)"
    and step: "\<And>i j i' j'. I (i, j) \<Longrightarrow> find (runnable s) (candidates i (j + 1) @ candidates 0 0) = Some (i', j') \<Longrightarrow> I (i', j')"
  shows "\<exists>t. resched_run olds s = Inr t \<and> switching t \<and> I (current t) \<and> processes t = processes s \<and> runnable t = runnable s"
  using assms
proof (induction olds arbitrary: s)
  case (Cons old olds)
  obtain i j where c: "current s = (i, j)" by (cases "current s")
  obtain i' j' x t where t: "find (runnable s) (candidates i (j + 1) @ candidates 0 0) = Some (i', j')"
    "resched old s = Inr (Some (x\<lparr>status := THREAD_BUSY\<rparr>), t)" "switching t" "current t = (i', j')"
    "processes t = processes s" "runnable t = runnable s"
    using resched_step[OF Cons.prems(1) c, of old] by blast
  have "I (i', j')" using Cons.prems(2,3) t(1) c by auto
  then show ?case using Cons.IH[of t] Cons.prems(3) t by simp
qed simp

text \<open>The order inside one process: from slot \<open>j\<close> the search meets slot \<open>k\<close> after \<open>distance j k\<close> slots.\<close>

definition distance :: "nat \<Rightarrow> nat \<Rightarrow> nat" where
  "distance j k = (if j < k then k - j else MAX_THREADS + k - j)"

lemma find_upt:
  assumes "find P [a..<b] = Some x"
  shows "P x" and "a \<le> x" and "x < b" and "\<And>y. a \<le> y \<Longrightarrow> y < x \<Longrightarrow> \<not> P y"
proof -
  obtain n where n: "n < b - a" "x = a + n" "P x" "\<And>m. m < n \<Longrightarrow> \<not> P (a + m)"
    using assms by (auto simp: find_Some_iff)
  show "P x" "a \<le> x" "x < b" using n by simp_all
  show "\<not> P y" if "a \<le> y" "y < x" for y using n(4)[of "y - a"] n(2) that by simp
qed

lemma next_in_process:
  assumes R: "\<forall>i j. R (i, j) \<longrightarrow> i = 0" and k: "R (0, k)" "k < MAX_THREADS" and "j < MAX_THREADS"
    and n: "find R (candidates 0 (j + 1) @ candidates 0 0) = Some (i', j')"
  shows "i' = 0 \<and> j' < MAX_THREADS \<and> (j' = k \<or> distance j' k < distance j k)"
proof -
  have c: "find R (candidates 0 a) = map_option (Pair 0) (find (\<lambda>j. R (0, j)) [a..<MAX_THREADS])" for a
  proof -
    have "candidates 0 a = map (Pair 0) [a..<MAX_THREADS] @ candidates 1 a"
      by (simp add: candidates_def upt_rec[of 0] MAX_PROCESSES_def)
    moreover have "find R (candidates 1 a) = None" using R by (fastforce simp: set_candidates intro: find_first_None)
    ultimately show ?thesis by (simp add: find_append find_map comp_def split: option.split)
  qed
  show ?thesis
  proof (cases "find (\<lambda>j. R (0, j)) [j + 1..<MAX_THREADS]")
    case None
    then have "k \<le> j" using k by (auto simp: find_None_iff)
    moreover have f: "i' = 0" "find (\<lambda>j. R (0, j)) [0..<MAX_THREADS] = Some j'" using n None by (auto simp: c find_append)
    moreover have "j' \<le> k" using find_upt(4)[OF f(2), of k] k(1) by (cases "k < j'") auto
    ultimately show ?thesis using find_upt(3)[OF f(2)] assms(4) by (auto simp: distance_def)
  next
    case (Some a)
    then have f: "i' = 0" "find (\<lambda>j. R (0, j)) [j + 1..<MAX_THREADS] = Some j'" using n by (auto simp: c find_append)
    have "\<not> (j < k \<and> k < j')" using find_upt(4)[OF f(2), of k] k(1) by auto
    then show ?thesis using find_upt(2,3)[OF f(2)] f(1) k(2) by (auto simp: distance_def)
  qed
qed

lemma round_robin_steps:
  assumes "switching s" and "\<forall>i j. runnable s (i, j) \<longrightarrow> i = 0" and "runnable s (0, k)" and "k < MAX_THREADS"
    and "current s = (0, j)" and "distance j k \<le> length olds" and "j < MAX_THREADS"
  shows "\<exists>n t. 0 < n \<and> n \<le> distance j k \<and> resched_run (take n olds) s = Inr t \<and> switching t \<and> current t = (0, k)"
  using assms
proof (induction olds arbitrary: s j)
  case Nil
  then show ?case by (simp add: distance_def split: if_splits)
next
  case (Cons old olds)
  obtain i' j' x t where t: "find (runnable s) (candidates 0 (j + 1) @ candidates 0 0) = Some (i', j')"
    "resched old s = Inr (Some (x\<lparr>status := THREAD_BUSY\<rparr>), t)" "switching t" "current t = (i', j')"
    "runnable t = runnable s"
    using resched_step[OF Cons.prems(1,5), of old] by blast
  note nx = next_in_process[OF Cons.prems(2,3,4,7) t(1)]
  have d: "0 < distance j k" using Cons.prems(4,7) by (auto simp: distance_def)
  show ?case
  proof (cases "j' = k")
    case True
    then show ?thesis using d t nx by (intro exI[of _ 1] exI[of _ t]) auto
  next
    case False
    then have l: "distance j' k \<le> length olds" "distance j' k < distance j k" using nx Cons.prems(6) by auto
    obtain n u where u: "n \<le> distance j' k" "resched_run (take n olds) t = Inr u" "switching u" "current u = (0, k)"
      using Cons.IH[of t j'] Cons.prems(2-4) t nx l by auto
    then show ?thesis using l t by (intro exI[of _ "Suc n"] exI[of _ u]) auto
  qed
qed

section \<open>An example\<close>

text \<open>
  Two processes: the first has a running and an idle thread, the second one thread whose status is given.
  The local APIC is at its usual physical address.
\<close>

definition example_process :: "u64 \<Rightarrow> u64 \<Rightarrow> process_t" where
  "example_process tbl n = zero_process\<lparr>valid := 1, threads := tbl, thread_count := n, process_cr3 := 0x2000\<rparr>"

definition example_sched :: "u32 \<Rightarrow> sched" where
  "example_sched st = smp.extend (example_smp\<lparr>cpus := [zero_cpu\<lparr>cpu_sys_ready := 1\<rparr>]\<rparr>)
    \<lparr>processes_at = 0xFFFF810000000000,
     processes = (replicate MAX_PROCESSES zero_process)[0 := example_process 0x3000 2, 1 := example_process 0x4000 1],
     thread_tables = [0x3000 \<mapsto> (replicate MAX_THREADS 0)[0 := 0x5000, 1 := 0x6000], 0x4000 \<mapsto> (replicate MAX_THREADS 0)[0 := 0x7000]],
     thread_objects = [0x5000 \<mapsto> zero_thread\<lparr>status := THREAD_BUSY\<rparr>, 0x6000 \<mapsto> zero_thread\<lparr>status := THREAD_IDLE\<rparr>,
       0x7000 \<mapsto> zero_thread\<lparr>status := st\<rparr>],
     sched_mutex = MUTEX_FREE, sys_ready = 1, running_processes = 2\<rparr>"

lemma example_fields:
  "processes_at (example_sched st) = 0xFFFF810000000000" "running_processes (example_sched st) = 2"
  "processes (example_sched st) = (replicate MAX_PROCESSES zero_process)[0 := example_process 0x3000 2, 1 := example_process 0x4000 1]"
  "thread_tables (example_sched st) =
    [0x3000 \<mapsto> (replicate MAX_THREADS 0)[0 := 0x5000, 1 := 0x6000], 0x4000 \<mapsto> (replicate MAX_THREADS 0)[0 := 0x7000]]"
  "thread_objects (example_sched st) = [0x5000 \<mapsto> zero_thread\<lparr>status := THREAD_BUSY\<rparr>,
    0x6000 \<mapsto> zero_thread\<lparr>status := THREAD_IDLE\<rparr>, 0x7000 \<mapsto> zero_thread\<lparr>status := st\<rparr>]"
  "lapic_physical (example_sched st) = 0xFEE00000" "lapic (example_sched st) = 0xFFFF8000FEE00000"
  "cpus (example_sched st) = [zero_cpu\<lparr>cpu_sys_ready := 1\<rparr>]"
  by (simp_all add: example_sched_def example_smp_def timer.defs smp.defs)

lemma example_valid: "i < MAX_PROCESSES \<Longrightarrow> valid (processes (example_sched st) ! i) \<noteq> 0 \<longleftrightarrow> i = 0 \<or> i = 1"
  by (auto simp: example_fields nth_list_update example_process_def zero_process_def split: if_splits)

lemma example_pointer:
  "slot_pointer (example_sched st) i j =
    (if (i, j) = (0, 0) then 0x5000 else if (i, j) = (0, 1) then 0x6000 else if (i, j) = (1, 0) then 0x7000 else 0)"
proof -
  consider "i = 0" | "i = 1" | "i \<noteq> 0 \<and> i \<noteq> 1" by blast
  then show ?thesis
  proof cases
    case 3
    then show ?thesis using example_valid[of i st] by (auto simp: slot_pointer_def)
  qed (auto simp: slot_pointer_def example_fields MAX_PROCESSES_def MAX_THREADS_def nth_list_update example_process_def)
qed

lemma example_slot:
  "slot (example_sched st) i j =
    (if (i, j) = (0, 0) then Some (zero_thread\<lparr>status := THREAD_BUSY\<rparr>)
     else if (i, j) = (0, 1) then Some (zero_thread\<lparr>status := THREAD_IDLE\<rparr>)
     else if (i, j) = (1, 0) then Some (zero_thread\<lparr>status := st\<rparr>) else None)"
  by (simp add: slot_def example_pointer example_fields)

lemma example_current: "current (example_sched st) = (0, 0)"
  by (simp add: current_def example_fields zero_cpu_def)

lemma example_wf: "sched_wf (example_sched st)"
  unfolding sched_wf_def
proof (intro conjI allI impI)
  fix i
  assume i: "i < MAX_PROCESSES" "valid (processes (example_sched st) ! i) \<noteq> 0"
  then have "i = 0 \<or> i = 1" using example_valid by blast
  then show "\<exists>tbl. thread_tables (example_sched st) (threads (processes (example_sched st) ! i)) = Some tbl \<and> length tbl = MAX_THREADS"
    by (auto simp: example_fields nth_list_update example_process_def MAX_PROCESSES_def)
  show "vmm_get_physical ((example_sched st)\<lparr>cr3 := process_cr3 (processes (example_sched st) ! i)\<rparr>) (lapic (example_sched st) + LAPIC_EOI) =
      Some (lapic_physical (example_sched st) + LAPIC_EOI)"
    by (simp add: example_fields vmm_get_physical_def PHYSICAL_MEMORY_def MMIO_REGION_def LAPIC_EOI_def)
qed (auto simp: example_fields example_pointer example_slot MAX_PROCESSES_def split: if_splits)

lemma example_switching: "switching (example_sched st)"
  by (simp add: switching_def example_wf example_current example_slot) (simp add: example_fields)

lemma example_runnable:
  "runnable (example_sched st) (i, j) \<longleftrightarrow> i = 0 \<and> j \<le> 1 \<or> st = THREAD_IDLE \<and> i = 1 \<and> j = 0"
  by (auto simp: runnable_def idle_def example_current example_slot THREAD_IDLE_def THREAD_BUSY_def)


section \<open>Properties\<close>

text \<open>C25: \<open>resched\<close>, called while a thread runs and there is more than one, saves the registers of the
  interrupted thread in its slot, makes it idle, and loads the first runnable thread behind it in the order of
  processes and thread numbers, starting over at the beginning; the loaded thread is busy and the
  current one, its address space is in use, no other slot changes, and the interrupt is
  acknowledged once.\<close>

theorem resched_switches_threads:
  assumes "switching s" and "current s = (i, j)"
  shows "\<exists>i' j' x t. find (runnable s) (candidates i (j + 1) @ candidates 0 0) = Some (i', j') \<and>
    resched old s = Inr (Some x, t) \<and> switching t \<and> current t = (i', j') \<and>
    x = (if (i', j') = (i, j) then old else the (slot s i' j'))\<lparr>status := THREAD_BUSY\<rparr> \<and>
    (\<forall>a b. slot t a b = (if (a, b) = (i', j') then Some x
      else if (a, b) = (i, j) then Some (old\<lparr>status := THREAD_IDLE\<rparr>) else slot s a b)) \<and>
    cr3 t = process_cr3 (processes s ! i') \<and> processes t = processes s \<and>
    trace t = trace s @ [Mmio_Write (lapic_physical s + LAPIC_EOI) 0]"
proof -
  have sw: "sched_wf s" "slot s i j \<noteq> None" using assms by (auto simp: switching_def)
  have ne: "cpus s \<noteq> []" using sw(1) by (simp add: sched_wf_def)
  obtain i' j' x t where r: "find (runnable s) (candidates i (j + 1) @ candidates 0 0) = Some (i', j')"
    "slot (saved old s) i' j' = Some x" "t = switched (i', j') (saved old s)"
    "resched old s = Inr (Some (x\<lparr>status := THREAD_BUSY\<rparr>), t)" "switching t" "current t = (i', j')"
    "processes t = processes s"
    using resched_step[OF assms, of old] by blast
  note sf = saved_facts[OF sw(1) assms(2) sw(2), of old]
  have x: "x\<lparr>status := THREAD_BUSY\<rparr> = (if (i', j') = (i, j) then old else the (slot s i' j'))\<lparr>status := THREAD_BUSY\<rparr>"
    using r(2) sf(2) by (auto split: if_splits)
  have rest: "cr3 t = process_cr3 (processes s ! i')" "trace t = trace s @ [Mmio_Write (lapic_physical s + LAPIC_EOI) 0]"
    using ne by (simp_all add: r(3) switched_rest saved_rest)
  have "slot t a b = (if (a, b) = (i', j') then Some (x\<lparr>status := THREAD_BUSY\<rparr>)
      else if (a, b) = (i, j) then Some (old\<lparr>status := THREAD_IDLE\<rparr>) else slot s a b)" for a b
    using switched_facts(2)[OF sf(1) r(2)] sf(2) by (simp add: r(3))
  then show ?thesis
    by (intro exI[of _ i'] exI[of _ j'] exI[of _ "x\<lparr>status := THREAD_BUSY\<rparr>"] exI[of _ t] conjI allI x r(1,4,5,6,7) rest)
qed

theorem resched_switches_threads_witness:
  "\<exists>t. resched (zero_thread\<lparr>rax := 7\<rparr>) (example_sched THREAD_IDLE) = Inr (Some (zero_thread\<lparr>status := THREAD_BUSY\<rparr>), t) \<and>
    current t = (0, 1) \<and> slot t 0 0 = Some (zero_thread\<lparr>rax := 7, status := THREAD_IDLE\<rparr>)"
proof -
  have "find (runnable (example_sched THREAD_IDLE)) (candidates 0 (0 + 1) @ candidates 0 0) = Some (0, 1)"
    using candidates_first[of 0 1] by (auto simp: example_runnable MAX_PROCESSES_def MAX_THREADS_def)
  then show ?thesis
    using resched_switches_threads[OF example_switching[of THREAD_IDLE] example_current, of "zero_thread\<lparr>rax := 7\<rparr>"]
    by (auto simp: example_slot)
qed

text \<open>C26: While every thread that may run belongs to the first process, the scheduler is a fair
  round robin: whatever contexts are interrupted, each thread that may run is the current one
  again after at most 32 calls of \<open>resched\<close>, none of which fails.\<close>

theorem resched_round_robin:
  assumes "switching s" and "\<forall>i j. runnable s (i, j) \<longrightarrow> i = 0" and "runnable s (0, k)" and "MAX_THREADS \<le> length olds"
  shows "\<exists>n t. 0 < n \<and> n \<le> MAX_THREADS \<and> resched_run (take n olds) s = Inr t \<and> switching t \<and> current t = (0, k)"
proof -
  obtain i j where c: "current s = (i, j)" by (cases "current s")
  have "runnable s (i, j)" by (simp add: runnable_def c)
  then have i: "i = 0" using assms(2) by blast
  have j: "j < MAX_THREADS" using assms(1) slot_range c by (auto simp: switching_def)
  have k: "k < MAX_THREADS" using assms(3) c j i by (auto simp: runnable_def idle_def dest: slot_range)
  have d: "distance j k \<le> MAX_THREADS" using j k by (auto simp: distance_def)
  then show ?thesis using round_robin_steps[OF assms(1-3) k _ _ j, of olds] c i assms(4) by fastforce
qed

theorem resched_round_robin_witness:
  "\<exists>n t. 0 < n \<and> n \<le> 32 \<and> resched_run (take n (replicate 40 zero_thread)) (example_sched THREAD_WAIT) = Inr t \<and> current t = (0, 1)"
proof -
  have "\<forall>i j. runnable (example_sched THREAD_WAIT) (i, j) \<longrightarrow> i = 0" "runnable (example_sched THREAD_WAIT) (0, 1)"
    by (simp_all add: example_runnable THREAD_IDLE_def THREAD_WAIT_def)
  then show ?thesis
    using resched_round_robin[OF example_switching[of THREAD_WAIT], of 1 "replicate 40 zero_thread"]
    by (auto simp: MAX_THREADS_def)
qed

text \<open>C27: Over several processes it is not fair: as long as the first thread of process 0 may run, which
  it does from the start, no run of the scheduler ever reaches the first thread of
  another process, although that is the only thread \<open>create_process\<close> makes.\<close>

theorem resched_starves_processes:
  assumes "switching s" and "runnable s (0, 0)" and "snd (current s) \<noteq> 0 \<or> fst (current s) = 0"
  shows "\<exists>t. resched_run olds s = Inr t \<and> switching t \<and> runnable t = runnable s \<and> (\<forall>i > 0. current t \<noteq> (i, 0))"
proof -
  let ?I = "\<lambda>(i::nat, j::nat). j \<noteq> 0 \<or> i = 0"
  have step: "?I (i', j')" if "find (runnable s) (candidates i (j + 1) @ candidates 0 0) = Some (i', j')" for i j i' j'
  proof -
    have "find (runnable s) (candidates 0 0) = Some (0, 0)"
      using assms(2) candidates_first[of 0 0] by (auto simp: MAX_PROCESSES_def MAX_THREADS_def)
    then show ?thesis using that find_SomeD[of "runnable s" "candidates i (j + 1)"]
      by (auto simp: find_append set_candidates split: option.splits)
  qed
  then show ?thesis using resched_run_invariant[OF assms(1), of ?I olds] assms(3) by (fastforce simp: case_prod_beta)
qed

theorem resched_starves_processes_witness:
  "\<exists>t. resched_run (replicate 1000 zero_thread) (example_sched THREAD_IDLE) = Inr t \<and>
    runnable t (1, 0) \<and> current t \<noteq> (1, 0)"
proof -
  have r: "runnable (example_sched THREAD_IDLE) (0, 0)" "runnable (example_sched THREAD_IDLE) (1, 0)"
    by (simp_all add: example_runnable)
  have "snd (current (example_sched THREAD_IDLE)) \<noteq> 0 \<or> fst (current (example_sched THREAD_IDLE)) = 0"
    by (simp add: example_current)
  then show ?thesis
    using resched_starves_processes[OF example_switching[of THREAD_IDLE] r(1), of "replicate 1000 zero_thread"] r(2) by auto
qed

end
