(* ===== verification/Mutex_Smp.thy ===== *)
theory Mutex_Smp
  imports Mutex
begin

text \<open>
  The spin lock with several processors, instruction by instruction.  A step is one instruction of
  \<open>acquire\<close> or \<open>release\<close> (\<open>kernel/src/asm/cpu.asm\<close>) on one of the processors together with the jump
  behind it; \<open>lock bts\<close> is one step because of its prefix.  The rest of the kernel calls the lock in
  sequence (\<open>acquire\<close> and \<open>release\<close> of the theory Mutex); the theorems here
  say that those two are what the instructions do.
\<close>

section \<open>The processors\<close>

text \<open>
  Where a processor is: outside of the lock, in front of \<open>bt\<close>, in front of \<open>lock bts\<close>, or
  between the return of \<open>acquire\<close> and the call of \<open>release\<close>.
\<close>

datatype phase = Outside | Before_Bt | Before_Bts | Inside

record smp_lock =
  lock_word :: mutex_t
  phases :: "phase list"

definition start_lock :: "nat \<Rightarrow> smp_lock" where
  "start_lock n = \<lparr>lock_word = MUTEX_FREE, phases = replicate n Outside\<rparr>"

definition go :: "nat \<Rightarrow> phase \<Rightarrow> smp_lock \<Rightarrow> smp_lock" where
  "go p ph s = s\<lparr>phases := (phases s)[p := ph]\<rparr>"

definition at_phase :: "smp_lock \<Rightarrow> nat \<Rightarrow> phase \<Rightarrow> bool" where
  "at_phase s p ph \<longleftrightarrow> p < length (phases s) \<and> phases s ! p = ph"

inductive lock_step :: "nat \<Rightarrow> smp_lock \<Rightarrow> smp_lock \<Rightarrow> bool" where
  call: "at_phase s p Outside \<Longrightarrow> lock_step p s (go p Before_Bt s)"
| bt_busy: "at_phase s p Before_Bt \<Longrightarrow> bit (lock_word s) 0 \<Longrightarrow> lock_step p s s"
| bt_free: "at_phase s p Before_Bt \<Longrightarrow> \<not> bit (lock_word s) 0 \<Longrightarrow> lock_step p s (go p Before_Bts s)"
| bts_busy: "at_phase s p Before_Bts \<Longrightarrow> bit (lock_word s) 0 \<Longrightarrow> lock_step p s (go p Before_Bt s)"
| bts_free: "at_phase s p Before_Bts \<Longrightarrow> \<not> bit (lock_word s) 0 \<Longrightarrow>
    lock_step p s ((go p Inside s)\<lparr>lock_word := lock_word s OR 1\<rparr>)"
| leave: "at_phase s p Inside \<Longrightarrow> lock_step p s ((go p Outside s)\<lparr>lock_word := release (lock_word s)\<rparr>)"

inductive_cases lock_stepE: "lock_step p s t"

inductive reachable :: "nat \<Rightarrow> smp_lock \<Rightarrow> bool" for n where
  start: "reachable n (start_lock n)"
| step: "reachable n s \<Longrightarrow> lock_step p s t \<Longrightarrow> reachable n t"

section \<open>The invariant\<close>

text \<open>The lock word is busy exactly while a processor is inside, and then only one is.\<close>

definition lock_inv :: "nat \<Rightarrow> smp_lock \<Rightarrow> bool" where
  "lock_inv n s \<longleftrightarrow> length (phases s) = n \<and>
    (lock_word s = MUTEX_FREE \<and> (\<forall>p. \<not> at_phase s p Inside) \<or>
     lock_word s = MUTEX_BUSY \<and> (\<exists>p. \<forall>q. at_phase s q Inside \<longleftrightarrow> q = p))"

lemma at_phase_go [simp]:
  "at_phase (go p ph s) q ph' \<longleftrightarrow> (if q = p then p < length (phases s) \<and> ph' = ph else at_phase s q ph')"
  by (auto simp: at_phase_def go_def)

lemma at_phase_word [simp]: "at_phase (s\<lparr>lock_word := w\<rparr>) p ph = at_phase s p ph"
  by (simp add: at_phase_def)

lemma go_fields [simp]: "lock_word (go p ph s) = lock_word s" "length (phases (go p ph s)) = length (phases s)"
  by (simp_all add: go_def)

lemma at_phase_unique: "at_phase s p ph \<Longrightarrow> at_phase s p ph' \<longleftrightarrow> ph' = ph"
  by (auto simp: at_phase_def)

lemma at_phase_length: "at_phase s p ph \<Longrightarrow> p < length (phases s)"
  by (simp add: at_phase_def)

lemma lock_bit [simp]: "\<not> bit MUTEX_FREE 0" "bit MUTEX_BUSY 0" "MUTEX_FREE OR 1 = MUTEX_BUSY" "MUTEX_FREE \<noteq> MUTEX_BUSY"
  by (simp_all add: MUTEX_FREE_def MUTEX_BUSY_def)

lemma lock_inv_go:
  assumes "lock_inv n s" and "at_phase s p ph" and "ph \<noteq> Inside" and "ph' \<noteq> Inside"
  shows "lock_inv n (go p ph' s)"
proof -
  have "at_phase (go p ph' s) q Inside \<longleftrightarrow> at_phase s q Inside" for q
    using assms(2-4) by (auto simp: at_phase_unique[OF assms(2)])
  then show ?thesis using assms(1) by (simp add: lock_inv_def del: at_phase_go)
qed

lemma lock_step_inv: "lock_step p s t \<Longrightarrow> lock_inv n s \<Longrightarrow> lock_inv n t"
proof (induction rule: lock_step.induct)
  case (leave s p)
  then have "lock_word s = MUTEX_BUSY" "\<And>q. at_phase s q Inside \<longleftrightarrow> q = p" by (auto simp: lock_inv_def)
  then show ?case using leave.prems by (auto simp: lock_inv_def)
next
  case (bts_free s p)
  then show ?case using at_phase_length[OF bts_free.hyps(1)] by (auto simp: lock_inv_def intro!: exI[of _ p])
qed (auto intro: lock_inv_go)

lemma reachable_inv: "reachable n s \<Longrightarrow> lock_inv n s"
proof (induction rule: reachable.induct)
  case start
  then show ?case by (auto simp: lock_inv_def start_lock_def at_phase_def)
next
  case (step s p t)
  then show ?case by (blast intro: lock_step_inv)
qed

section \<open>Properties\<close>

text \<open>C34: in every state that any interleaving of any number of processors reaches, at most one processor is
  between the return of \<open>acquire\<close> and its \<open>release\<close>, and the lock word is \<open>MUTEX_BUSY\<close> while there is
  one and \<open>MUTEX_FREE\<close> while there is none.\<close>

theorem mutex_mutual_exclusion:
  assumes "reachable n s"
  shows "(at_phase s p Inside \<and> at_phase s q Inside \<longrightarrow> p = q) \<and>
    lock_word s = (if \<exists>p. at_phase s p Inside then MUTEX_BUSY else MUTEX_FREE)"
  using reachable_inv[OF assms] by (auto simp: lock_inv_def)

theorem mutex_mutual_exclusion_witness:
  "(\<exists>s. reachable 2 s \<and> at_phase s 1 Inside \<and> lock_word s = MUTEX_BUSY \<and> \<not> at_phase s 0 Inside)"
proof -
  let ?a = "go 1 Before_Bt (start_lock 2)" and ?b = "go 1 Before_Bts (go 1 Before_Bt (start_lock 2))"
  let ?c = "(go 1 Inside ?b)\<lparr>lock_word := lock_word ?b OR 1\<rparr>"
  have o: "at_phase (start_lock 2) 1 Outside" "lock_word (start_lock 2) = MUTEX_FREE" by (simp_all add: at_phase_def start_lock_def)
  have "reachable 2 ?a" by (rule step[OF start call[OF o(1)]])
  moreover have "lock_step 1 ?a ?b" using o at_phase_length[OF o(1)] by (intro bt_free) simp_all
  ultimately have "reachable 2 ?b" by (rule step)
  moreover have "lock_step 1 ?b ?c" using o at_phase_length[OF o(1)] by (intro bts_free) simp_all
  ultimately have r: "reachable 2 ?c" by (rule step)
  have i: "at_phase ?c 1 Inside" using at_phase_length[OF o(1)] by simp
  then show ?thesis using mutex_mutual_exclusion[OF r, of 0 1] r by (intro exI[of _ ?c]) auto
qed



end
