(* ===== verification/Heap_Frame.thy ===== *)
theory Heap_Frame
  imports Heap_Budget
begin

text \<open>
  What the heap leaves alone: frames that are in use but hold neither page tables nor heap
  pages keep their contents through an allocation, and the device mappings stay.
\<close>

section \<open>Stores to heap memory\<close>

definition heap_frame :: "'a vmm_scheme \<Rightarrow> u64 \<Rightarrow> bool" where
  "heap_frame s f \<longleftrightarrow> (\<exists>v. heap_owns s v \<and> vmm_get_page s v AND PAGE_MASK = f)"

definition heap_step :: "'a vmm_scheme \<Rightarrow> 'a vmm_scheme \<Rightarrow> bool" where
  "heap_step s t \<longleftrightarrow> data_step s t \<and>
    (heap_wf s \<longrightarrow> (\<forall>a. \<not> heap_frame s (a AND PAGE_MASK) \<longrightarrow> mem t a = mem s a))"

lemma data_step_frame:
  assumes "heap_wf s" and "data_step s t"
  shows "heap_frame t = heap_frame s"
proof -
  note h = data_step_heap[OF assms] and w = data_step_wf[OF heap_wfD(1)[OF assms(1)] assms(2)]
  have "vmm_get_page t v = vmm_get_page s v" if "heap_owns s v" for v
    using w(3)[OF heap_not_direct] that by (simp add: heap_owns_def)
  then show ?thesis by (auto simp: heap_frame_def h(2) fun_eq_iff)
qed

lemma heap_step_trans:
  assumes "heap_step s t" and "heap_step t u"
  shows "heap_step s u"
proof -
  have st: "data_step s t" "data_step t u" using assms by (simp_all add: heap_step_def)
  have "mem u a = mem s a" if "heap_wf s" "\<not> heap_frame s (a AND PAGE_MASK)" for a
    using assms that data_step_heap(1)[OF that(1) st(1)] data_step_frame[OF that(1) st(1)] by (simp add: heap_step_def)
  then show ?thesis using data_step_trans[OF st] by (simp add: heap_step_def)
qed

lemma heap_step_data: "heap_step s t \<Longrightarrow> data_step s t"
  by (simp add: heap_step_def)

lemma heap_step_refl: "heap_step s s"
  by (simp add: heap_step_def data_step_refl)

interpretation heap_stores: byte_memory vwrite8 view heap_owns heap_wf heap_step
proof unfold_locales
  fix s :: "'a vmm_scheme" and a b
  assume wf: "heap_wf s" and own: "heap_owns s a"
  obtain t where t: "vwrite8 a b s = Inr t" "data_step s t" "\<forall>c. heap_owns s c \<longrightarrow> view t c = (if c = a then b else view s c)"
    using heap_bytes.put_ok[OF wf own, of b] by blast
  have "heap_frame s (vtrans s a AND PAGE_MASK)" using own by (auto simp: heap_frame_def vtrans_mask)
  then have "heap_step s t"
    using t(1,2) by (auto simp: heap_step_def vwrite8_def heap_physical[OF own])
  then show "\<exists>t. vwrite8 a b s = Inr t \<and> heap_step s t \<and>
      (\<forall>c. heap_owns s c \<longrightarrow> view t c = (if c = a then b else view s c))" using t by blast
qed (blast intro: heap_step_refl heap_step_trans data_step_heap heap_step_data)+

lemma heap_writes:
  assumes "heap_wf s"
  shows "vmemset p c n s = Inr t \<Longrightarrow> \<forall>i < unat n. heap_owns s (p + of_nat i) \<Longrightarrow> heap_step s t"
    and "vwrite64 p x s = Inr t \<Longrightarrow> \<forall>i < 8. heap_owns s (p + of_nat i) \<Longrightarrow> heap_step s t"
proof -
  have run: "\<exists>t. fold_res (\<lambda>i. vwrite8 (p + of_nat i) (f i)) [0..<k] s = Inr t \<and> heap_step s t \<and>
    (\<forall>a. heap_owns s a \<longrightarrow> view t a = fold (\<lambda>i m. m(p + of_nat i := f i)) [0..<k] (view s) a)"
    if "\<forall>i < k. heap_owns s (p + of_nat i)" for f and k
    by (rule heap_stores.put_run) (use assms that in auto)
  show "vmemset p c n s = Inr t \<Longrightarrow> \<forall>i < unat n. heap_owns s (p + of_nat i) \<Longrightarrow> heap_step s t"
    using run[of "unat n" "\<lambda>_. c"] by (auto simp: vmemset_def)
  show "vwrite64 p x s = Inr t \<Longrightarrow> \<forall>i < 8. heap_owns s (p + of_nat i) \<Longrightarrow> heap_step s t"
    using run[of 8 "\<lambda>i. le_bytes 8 x ! i"] by (auto simp: vwrite64_def)
qed

section \<open>Allocation\<close>

definition reserved :: "'a vmm_scheme \<Rightarrow> u64 \<Rightarrow> bool" where
  "reserved s a \<longleftrightarrow> pmm_get_page s (a AND PAGE_MASK) \<and> \<not> table_frame s (a AND PAGE_MASK) \<and> \<not> heap_frame s (a AND PAGE_MASK)"

definition outside :: "'a vmm_scheme \<Rightarrow> 'a vmm_scheme \<Rightarrow> bool" where
  "outside s t \<longleftrightarrow> (\<forall>w. MMIO_REGION \<le> w \<longrightarrow> w < KERNEL_HEAP \<longrightarrow> vmm_get_page t w = vmm_get_page s w) \<and>
    (\<forall>a. reserved s a \<longrightarrow> reserved t a \<and> mem t a = mem s a) \<and>
    (\<forall>p f. kpath p \<longrightarrow> walk (mem s) (root s) p = Some f \<longrightarrow> walk (mem t) (root t) p = Some f)"

lemma outside_refl [simp]: "outside s s"
  by (simp add: outside_def)

lemma outside_trans: "outside s t \<Longrightarrow> outside t u \<Longrightarrow> outside s u"
  by (simp add: outside_def)

lemma heap_step_outside:
  assumes "heap_wf s" and "heap_step s t"
  shows "outside s t"
proof -
  note st = heap_step_data[OF assms(2)]
  note w = data_step_wf[OF heap_wfD(1)[OF assms(1)] st] and f = data_step_frame[OF assms(1) st]
  have "pmm_get_page t = pmm_get_page s" using st by (auto simp: data_step_def)
  then have "reserved t a = reserved s a" for a by (simp add: reserved_def w(2) f)
  moreover obtain m where t: "t = s\<lparr>mem := m\<rparr>" "\<forall>a. table_frame s (a AND PAGE_MASK) \<longrightarrow> m a = mem s a"
    using st heap_wfD(1)[OF assms(1)] by (auto simp: data_step_def)
  have "walk (mem t) (root t) p = walk (mem s) (root s) p" if "kpath p" for p
    using data_step_walk(2)[OF heap_wfD(1)[OF assms(1)] t(2) that] by (simp add: t(1) root_def)
  ultimately show ?thesis using assms w(3)[OF high_not_direct] by (auto simp: outside_def heap_step_def reserved_def)
qed

lemma vmm_alloc_outside:
  assumes wf: "heap_wf s" and gr: "grows s t" and new: "mapped_fresh s t p KERNEL_HEAP_FLAGS [0..<n] frame"
    and rng: "in_range p n" and kh: "KERNEL_HEAP \<le> p"
  shows "outside s t"
proof -
  let ?va = "\<lambda>i. p + of_nat (4096 * i)"
  have frame: "aligned 4096 (frame i)" "\<not> pmm_get_page s (frame i)" "vmm_get_page t (?va i) = frame i OR KERNEL_HEAP_FLAGS"
    if "i < n" for i using new that unfolding mapped_fresh_def by auto
  have old: "vmm_get_page t w = vmm_get_page s w" if "\<not> direct w" "\<forall>i < n. vpn w \<noteq> vpn (?va i)" for w
    using new that unfolding mapped_fresh_def by auto
  have dev: "vmm_get_page t w = vmm_get_page s w" if w: "MMIO_REGION \<le> w" "w < KERNEL_HEAP" for w
  proof (rule old[OF high_not_direct[OF w(1)]], intro allI impI notI)
    fix i assume i: "i < n" "vpn w = vpn (?va i)"
    have "PHYSICAL_MEMORY \<le> w" "PHYSICAL_MEMORY \<le> ?va i"
      using w(1) range_ge_mmio[OF rng i(1)] by (simp_all add: word_le_nat_alt PHYSICAL_MEMORY_def MMIO_REGION_def)
    then have "unat w div 4096 = unat (?va i) div 4096" using i(2) high_vpn by metis
    moreover have "unat KERNEL_HEAP div 4096 \<le> unat (?va i) div 4096"
      using kh unat_range[OF rng i(1)] by (intro div_le_mono) (simp add: word_le_nat_alt)
    moreover have "unat w div 4096 < unat KERNEL_HEAP div 4096"
      using w(2) by (simp add: word_less_nat_alt KERNEL_HEAP_def less_mult_imp_div_less)
    ultimately show False by simp
  qed
  have hf: "heap_frame s f \<or> \<not> pmm_get_page s f" if "heap_frame t f" for f
  proof -
    obtain v where v: "heap_owns t v" "vmm_get_page t v AND PAGE_MASK = f" using \<open>heap_frame t f\<close> by (auto simp: heap_frame_def)
    show ?thesis
    proof (cases "\<exists>i < n. vpn v = vpn (?va i)")
      case True
      then obtain i where i: "i < n" "vmm_get_page t v = frame i OR KERNEL_HEAP_FLAGS"
        using frame(3) vmm_get_page_cong[of v _ t] by metis
      then show ?thesis using v(2) frame(1,2)[OF i(1)] frame_flags(1)[OF frame(1)[OF i(1)]] by simp
    next
      case False
      then have "vmm_get_page t v = vmm_get_page s v" using old heap_not_direct v(1) by (auto simp: heap_owns_def)
      then show ?thesis using v by (auto simp: heap_frame_def heap_owns_def)
    qed
  qed
  have "reserved t a \<and> mem t a = mem s a" if "reserved s a" for a
    using that gr hf unfolding reserved_def grows_def by blast
  moreover have "walk (mem t) (root t) q = Some f" if "kpath q" "walk (mem s) (root s) q = Some f" for q f
    using gr that by (simp add: grows_def)
  ultimately show ?thesis using dev by (simp add: outside_def)
qed

lemma outside_mutex [simp]:
  "outside (s\<lparr>heap_mutex := m\<rparr>) t = outside s t" "outside s (t\<lparr>heap_mutex := m\<rparr>) = outside s t"
proof -
  have eq: "heap_owns (s\<lparr>heap_mutex := m\<rparr>) = heap_owns s" "mem (s\<lparr>heap_mutex := m\<rparr>) = mem s"
    "table_frame (s\<lparr>heap_mutex := m\<rparr>) = table_frame s" "pmm_get_page (s\<lparr>heap_mutex := m\<rparr>) = pmm_get_page s"
    "vmm_get_page (s\<lparr>heap_mutex := m\<rparr>) = vmm_get_page s" "root (s\<lparr>heap_mutex := m\<rparr>) = root s" for s
    using mm_cong[of "s\<lparr>heap_mutex := m\<rparr>" s] by (simp_all add: root_def)
  show "outside (s\<lparr>heap_mutex := m\<rparr>) t = outside s t" "outside s (t\<lparr>heap_mutex := m\<rparr>) = outside s t"
    unfolding outside_def reserved_def heap_frame_def eq by (rule refl)+
qed

lemma kmalloc_outside:
  assumes ok: "heap_ok s" and run: "kmalloc n s = Inr (q, t)" "q \<noteq> 0"
    and size: "unat n + 4111 < 2 ^ 64"
    and rng: "in_range KERNEL_HEAP (k + unat (heap_pages n))"
    and fr: "range_free s (KERNEL_HEAP + of_nat (4096 * k)) (unat (heap_pages n))"
  shows "outside s t"
proof -
  let ?s = "s\<lparr>heap_mutex := MUTEX_BUSY\<rparr>" and ?n = "unat (heap_pages n)"
  have mx: "vmm_mutex s = MUTEX_FREE" "heap_mutex s = MUTEX_FREE" "heap_wf s" using ok by (simp_all add: heap_ok_def)
  obtain p u w x y where a: "vmm_alloc KERNEL_HEAP (heap_pages n) KERNEL_HEAP_FLAGS ?s = Inr (p, u)" "p \<noteq> 0"
    and w: "vmemset p 0 (n + 16) u = Inr w" "vwrite64 p (heap_pages n) w = Inr x" "vwrite64 (p + 8) n x = Inr y"
    and t: "t = y\<lparr>heap_mutex := release (heap_mutex y)\<rparr>"
    using run mx by (auto simp: kmalloc_def Let_def bnd_Inr_iff split: if_splits)
  have wfs: "heap_wf ?s" using mx(3) by simp
  have pre: "vmm_wf ?s" "range_free ?s (KERNEL_HEAP + of_nat (4096 * k)) ?n"
    using heap_wfD(1)[OF wfs] fr by simp_all
  note hp = heap_pages_unat[OF size]
  note sp = vmm_alloc_spec[OF pre(1) rng hp(4) pre(2) a]
  obtain j where j: "j \<le> k" "p = KERNEL_HEAP + of_nat (4096 * j)" using sp(1) by blast
  obtain frame where fresh: "mapped_fresh ?s u p KERNEL_HEAP_FLAGS [0..<?n] frame" using sp(4) by blast
  let ?u = "u\<lparr>vmm_mutex := vmm_mutex ?s\<rparr>"
  have eq: "vmm_get_page ?u = vmm_get_page u" "pmm_get_page ?u = pmm_get_page u" "heap_owns ?u = heap_owns u"
    "table_frame ?u = table_frame u" "heap_wf ?u = heap_wf u" "mem ?u = mem u" "root ?u = root u"
    using mm_cong[of ?u u] by (simp_all add: root_def)
  have fresh': "mapped_fresh ?s ?u p KERNEL_HEAP_FLAGS [0..<?n] frame" using fresh by (simp add: mapped_fresh_def eq)
  have kh: "KERNEL_HEAP \<le> p" using unat_range[OF rng, of j] j hp(4) by (simp add: word_le_nat_alt)
  have al: "aligned 4096 p" using aligned_KERNEL_HEAP j(2) by simp
  have "outside ?s ?u" by (rule vmm_alloc_outside[OF wfs sp(3) fresh' sp(2) kh])
  moreover have "outside ?s ?u = outside ?s u"
    unfolding outside_def reserved_def heap_frame_def eq ..
  ultimately have su: "outside s u" by simp
  have wu: "heap_wf u" using heap_wf_mapped_fresh[OF wfs sp(3) fresh' sp(2)] by (simp only: eq)
  have own: "heap_owns u (p + of_nat i)" if "i < 4096 * ?n" for i
  proof -
    have "i div 4096 < ?n" using that by (simp add: less_mult_imp_div_less mult.commute)
    then have "present (vmm_get_page u (p + of_nat (4096 * (i div 4096))))"
      using fresh frame_flags(3) unfolding mapped_fresh_def by auto
    then show ?thesis using range_owned[OF sp(2) al kh that, of u] by simp
  qed
  have s1: "heap_step u w" using heap_writes(1)[OF wu w(1)] own hp by simp
  note h1 = data_step_heap[OF wu heap_step_data[OF s1]]
  have s2: "heap_step w x" using heap_writes(2)[OF h1(1) w(2)] own hp h1(2) by simp
  note h2 = data_step_heap[OF h1(1) heap_step_data[OF s2]]
  have "heap_owns u (p + 8 + of_nat i)" if "i < 8" for i using own[of "8 + i"] hp that by (simp add: add.assoc)
  then have s3: "heap_step x y" using heap_writes(2)[OF h2(1) w(3)] h1(2) h2(2) by simp
  have "outside u y" using heap_step_outside[OF wu heap_step_trans[OF s1 heap_step_trans[OF s2 s3]]] .
  then show ?thesis using outside_trans[OF su] by (simp add: t)
qed

text \<open>Allocation within the budget, with its frame.\<close>

lemma kmalloc_budget_outside:
  assumes b: "heap_budget s N" and size: "unat n < 2 ^ 32" and le: "unat (heap_pages n) \<le> N"
  obtains p t where "kmalloc n s = Inr (p + 16, t)" "p + 16 \<noteq> 0" "allocated s t p n" "same_rest s t" "outside s t"
    "heap_budget t (N - unat (heap_pages n))"
proof -
  have sz: "unat n + 4111 < 2 ^ 64" using size by simp
  obtain p t where t: "kmalloc n s = Inr (p + 16, t)" "allocated s t p n" "same_rest s t"
    "heap_budget t (N - unat (heap_pages n))" using kmalloc_budget[OF b sz le] .
  obtain k where k: "in_range KERNEL_HEAP (k + N)" "\<forall>a. heap_owns s a \<longrightarrow> unat a < unat KERNEL_HEAP + 4096 * k"
    using b by (auto simp: heap_budget_def)
  have nz: "p + 16 \<noteq> 0" using t(2) by (simp add: allocated_def)
  have "in_range KERNEL_HEAP (k + unat (heap_pages n))" using k(1) le by (simp add: in_range_def)
  then have "outside s t"
    using kmalloc_outside[OF heap_budget_ok[OF b] t(1) nz sz] unowned_tail_free[OF k le] by blast
  then show ?thesis using that t nz by blast
qed

section \<open>Writing to a reserved frame\<close>

lemma data_step_budget:
  assumes b: "heap_budget s N" and st: "data_step s t"
  shows "heap_budget t N"
proof -
  have wf: "heap_wf s" using b by (simp add: heap_budget_def heap_ok_def)
  note h = data_step_heap[OF wf st]
  obtain m where t: "t = s\<lparr>mem := m\<rparr>" using st by (auto simp: data_step_def)
  have "free_frames t = free_frames s" by (simp add: t free_frames_def)
  then show ?thesis using b h by (simp add: heap_budget_def heap_ok_def t)
qed

lemma reserved_write:
  assumes "heap_wf s" and f: "aligned 4096 f" "\<not> table_frame s f" and "i < 512"
  shows "data_step s (kwrite64 (f + PHYSICAL_MEMORY + 8 * i) x s)"
    and "mem (kwrite64 (f + PHYSICAL_MEMORY + 8 * i) x s) = write64 (mem s) (f + 8 * i) x"
proof -
  show m: "mem (kwrite64 (f + PHYSICAL_MEMORY + 8 * i) x s) = write64 (mem s) (f + 8 * i) x" by simp
  have "write64 (mem s) (f + 8 * i) x a = mem s a" if "table_frame s (a AND PAGE_MASK)" for a
    using mem_outside_entry[OF f(1) assms(4), of a] that f(2) by metis
  then show "data_step s (kwrite64 (f + PHYSICAL_MEMORY + 8 * i) x s)"
    unfolding data_step_def by (intro exI[of _ "write64 (mem s) (f + 8 * i) x"]) simp
qed

section \<open>A frame of one's own\<close>

lemma pmm_alloc_reserved:
  assumes b: "heap_budget s N" and "0 < N"
  obtains f t where "pmm_alloc_page s = Inr (f, t)" "f \<noteq> 0" "aligned 4096 f" "\<not> pmm_get_page s f" "same_rest s t"
    "heap_budget t (N - 1)" "heap_owns t = heap_owns s" "mem t = mem s" "root t = root s" "outside s t" "reserved t f"
proof -
  obtain f t where t: "pmm_alloc_page s = Inr (f, t)" "f \<noteq> 0" "aligned 4096 f" "f \<in> free_frames s" "same_rest s t"
    "heap_budget t (N - 1)" "heap_owns t = heap_owns s" "\<not> table_frame t f" "mem t = mem s"
    "vmm_get_page t = vmm_get_page s" "pmm_get_page t f" using pmm_alloc_page_budget[OF assms] by metis
  have wf: "heap_wf s" using b by (simp add: heap_budget_def heap_ok_def)
  have free: "\<not> pmm_get_page s f" using t(4) by (simp add: free_frames_def)
  note g = grows_alloc[OF heap_wfD(1)[OF wf] t(1,2)]
  have hf: "heap_frame t = heap_frame s" by (simp add: heap_frame_def t(7,10) fun_eq_iff)
  have "\<not> heap_frame s f" using heap_wfD(3)[OF wf] free by (auto simp: heap_frame_def)
  then have "reserved t f" using t(3,8,11) by (simp add: reserved_def hf mask_aligned)
  moreover have "outside s t"
    using g(1) unfolding outside_def reserved_def hf t(9,10) g(3) by (simp add: grows_def root_def t(9))
  moreover have "root t = root s" using t(5) by (simp add: root_def same_rest_def)
  ultimately show ?thesis using that t free by blast
qed

text \<open>Filling it is not seen by anybody who was there before.\<close>

lemma outside_fill:
  assumes o: "outside s t" and wf: "heap_wf t" and st: "data_step t u" and f: "\<not> pmm_get_page s f"
    and m: "\<And>a. a AND PAGE_MASK \<noteq> f \<Longrightarrow> mem u a = mem t a"
  shows "outside s u" and "reserved u = reserved t"
proof -
  note w = data_step_wf[OF heap_wfD(1)[OF wf] st] and h = data_step_frame[OF wf st]
  have p: "pmm_get_page u = pmm_get_page t" using st by (auto simp: data_step_def)
  show r: "reserved u = reserved t" by (simp add: reserved_def w(2) h p fun_eq_iff)
  obtain n where u: "u = t\<lparr>mem := n\<rparr>" "\<forall>a. table_frame t (a AND PAGE_MASK) \<longrightarrow> n a = mem t a"
    using st heap_wfD(1)[OF wf] by (auto simp: data_step_def)
  have "walk (mem u) (root u) q = walk (mem t) (root t) q" if "kpath q" for q
    using data_step_walk(2)[OF heap_wfD(1)[OF wf] u(2) that] by (simp add: u(1) root_def)
  moreover have "mem u a = mem t a" if "reserved s a" for a using that f m[of a] by (auto simp: reserved_def)
  ultimately show "outside s u"
    using o w(3)[OF high_not_direct] unfolding outside_def r by simp
qed

end
