(* ===== verification/Boot.thy ===== *)
theory Boot
  imports Small_Heap Heap_Frame
begin

text \<open>
  The state that \<open>mm_init\<close> leaves: the invariants on which the properties of the memory manager
  rest hold from the start.
\<close>

section \<open>What initialisation leaves alone\<close>

lemma mark_page_rest:
  "pmm.more (pmm_mark_page_used a s) = pmm.more s \<and> pmm_mutex (pmm_mark_page_used a s) = pmm_mutex s"
  "pmm.more (pmm_mark_page_free a s) = pmm.more s \<and> pmm_mutex (pmm_mark_page_free a s) = pmm_mutex s"
  by (simp_all add: pmm_mark_page_used_def pmm_mark_page_free_def Let_def)

lemma fold_same:
  assumes "\<And>x s. f (g x s) = f s"
  shows "f (fold g xs s) = f s"
  by (induction xs arbitrary: s) (simp_all add: assms)

lemma pmm_init_rest:
  assumes "pmm_init e820 n s = Inr t"
  shows "pmm.more t = pmm.more s" and "pmm_mutex t = pmm_mutex s" and "unat pn < 2048 \<Longrightarrow> page_used t pn"
proof -
  let ?r = "\<lambda>u :: 'a pmm_scheme. (pmm.more u, pmm_mutex u)"
  have used: "?r (fold (\<lambda>i. pmm_mark_page_used (f i)) xs u) = ?r u" for f xs and u :: "'a pmm_scheme"
    by (rule fold_same) (simp add: mark_page_rest)
  note fold_rest = fold_same[of pmm.more] fold_same[of pmm_mutex]
  have entry: "?r (pmm_init_entry e u) = ?r u" for e and u :: "'a pmm_scheme"
    by (auto simp: pmm_init_entry_def e820_add_entry_def Let_def fold_rest mark_page_rest)
  obtain s0 where s0: "?r s0 = ?r s" and t: "t = fold (\<lambda>i. pmm_mark_page_used (push_bit 12 (of_nat i))) [0..<2048]
        (fold (\<lambda>i. pmm_init_entry (e820 (of_nat i))) [0..<unat n] s0)"
  proof -
    have "\<exists>z b. t = fold (\<lambda>i. pmm_mark_page_used (push_bit 12 (of_nat i))) [0..<2048]
        (fold (\<lambda>i. pmm_init_entry (e820 (of_nat i))) [0..<unat n] (s\<lparr>pmm_bitmap_size := z, pmm_bitmap := b\<rparr>))"
      using assms unfolding pmm_init_def Let_def by (auto simp del: upt_Suc split: if_splits)
    then obtain z b where "t = fold (\<lambda>i. pmm_mark_page_used (push_bit 12 (of_nat i))) [0..<2048]
        (fold (\<lambda>i. pmm_init_entry (e820 (of_nat i))) [0..<unat n] (s\<lparr>pmm_bitmap_size := z, pmm_bitmap := b\<rparr>))" by blast
    from that[OF _ this] show thesis by simp
  qed
  have "?r (fold (\<lambda>i. pmm_init_entry (e820 (of_nat i))) [0..<unat n] s0) = ?r s0" by (rule fold_same) (rule entry)
  then have "?r t = ?r s" unfolding t used using s0 by simp
  then show "pmm.more t = pmm.more s" "pmm_mutex t = pmm_mutex s" by simp_all
  show "page_used t pn" if "unat pn < 2048"
  proof -
    have "pn < 2048" using that by (simp add: word_less_nat_alt)
    then have "\<exists>i \<in> set [0..<2048]. pn = push_bit 12 (of_nat i) div 4096"
      using low_page_number[of pn] that by (intro bexI[of _ "unat pn"]) (simp_all del: upt_Suc)
    then show ?thesis unfolding t page_used_fold_used by blast
  qed
qed

section \<open>A top-level table with nothing in it\<close>

text \<open>Apart from the direct map, no entry of the top-level table at \<open>r\<close> is present.\<close>

definition bare_table :: "memory \<Rightarrow> u64 \<Rightarrow> bool" where
  "bare_table m r \<longleftrightarrow> (\<forall>i < 512. i \<noteq> 256 \<longrightarrow> \<not> present (read64 m (r + 8 * i)))"

lemma bare_walk:
  assumes "bare_table m r" and "kpath p"
  shows "walk m r p = (if p = [] then Some r else None)"
  using assms by (cases p) (auto simp: bare_table_def kpath_def)

lemma bare_unmapped:
  assumes "bare_table (mem s) (root s)" and "\<not> direct v"
  shows "vmm_get_page s v = 0"
  using assms by (simp add: vmm_get_page_def bare_table_def direct_def root_def present_def Let_def)

lemma bare_budget:
  assumes bare: "bare_table (mem s) (root s)" and r: "pmm_ready s" "pmm_get_page s (root s)"
    and mx: "vmm_mutex s = MUTEX_FREE" "heap_mutex s = MUTEX_FREE"
    and N: "N \<le> 2 ^ 26" "4 * N \<le> card (free_frames s)" "4 * N < unat (total_pages s - used_pages s)"
  shows "heap_budget s N"
proof -
  note w = bare_walk[OF bare]
  have al: "aligned 4096 (root s)" by (simp add: root_def)
  have "\<not> present (read64 (mem s) (t + 8 * i))" if "kpath (p @ [i])" "walk (mem s) (root s) p = Some t" for p i t
    using that w[OF kpath_append[OF that(1)]] bare by (cases p) (auto simp: bare_table_def kpath_def)
  then have "tree (mem s) (root s) (pmm_get_page s)" using al r(2) w unfolding tree_def by (auto split: if_splits)
  then have wf: "vmm_wf s" using r(1) by (simp add: vmm_wf_def)
  have none: "\<not> heap_owns s a" for a
    using bare_unmapped[OF bare heap_not_direct] by (auto simp: heap_owns_def present_def)
  then have "heap_ok s" using wf mx by (simp add: heap_ok_def heap_wf_def)
  moreover have "in_range KERNEL_HEAP (0 + N)" using N(1) by (simp add: in_range_def KERNEL_HEAP_def MMIO_REGION_def)
  ultimately show ?thesis unfolding heap_budget_def using none N by (intro conjI exI[of _ 0]) auto
qed


section \<open>The states of the initialisation\<close>

text \<open>The state in which the region table is allocated: the low entry of the top-level table is cleared.\<close>

definition boot_tables :: "'a heap_scheme \<Rightarrow> 'a heap_scheme \<Rightarrow> 'a heap_scheme" where
  "boot_tables s t0 = t0\<lparr>bsp_pml4 := cr3 s + PHYSICAL_MEMORY, mem := write64 (mem s) (cr3 s) 0\<rparr>"

lemma boot_budget:
  assumes "pmm_init e820 n s = Inr t0" and "4096 \<le> highest_usable_address t0"
    and "4 * N \<le> card (free_frames t0)" and "4 * N < unat (total_pages t0 - used_pages t0)" and "N \<le> 2 ^ 26"
    and "pmm_mutex s = MUTEX_FREE" and "vmm_mutex s = MUTEX_FREE" and "heap_mutex s = MUTEX_FREE"
    and "aligned 4096 (cr3 s)" and "unat (cr3 s) < 0x800000"
    and "\<forall>i < 512. i \<noteq> 0 \<longrightarrow> i \<noteq> 256 \<longrightarrow> \<not> present (read64 (mem s) (cr3 s + 8 * i))"
  defines "u \<equiv> boot_tables s t0"
  shows "heap_budget u N" and "bare_table (mem u) (root u)" and "root u = cr3 s"
    and "cr3 t0 = cr3 s" and "mem t0 = mem s" and "heap.more t0 = heap.more s"
proof -
  note rest = pmm_init_rest(1,2)[OF assms(1)]
  show f0: "cr3 t0 = cr3 s" "mem t0 = mem s" "heap.more t0 = heap.more s"
    using rest(1) by (cases s, cases t0, simp)+
  have mx: "vmm_mutex t0 = MUTEX_FREE" "heap_mutex t0 = MUTEX_FREE" using rest(1) assms(7,8) by (cases s, cases t0, simp)+
  show ru: "root u = cr3 s" using assms(9) by (simp add: u_def boot_tables_def f0 root_def mask_aligned)
  have rd: "read64 (mem u) (cr3 s + 8 * i) = (if i = 0 then 0 else read64 (mem s) (cr3 s + 8 * i))" if "i < 512" for i
    using read_entry_write[OF assms(9,9) that, of 0] by (simp add: u_def boot_tables_def)
  show bare: "bare_table (mem u) (root u)" unfolding ru bare_table_def using rd assms(11) by auto
  have eqs: "pmm_get_page u = pmm_get_page t0" "free_frames u = free_frames t0" "page_used u = page_used t0"
    by (simp_all add: u_def boot_tables_def pmm_get_page_def free_frames_def page_used_def fun_eq_iff)
  have "unat (cr3 s div 4096) < 2048" using assms(10) by (simp add: unat_div)
  then have "pmm_get_page u (root u)"
    using pmm_init_rest(3)[OF assms(1)] by (simp add: eqs pmm_get_page_iff ru)
  moreover have "pmm_ready u"
    using pmm_init_rest(3)[OF assms(1), of 0] rest(2) assms(2,6) by (simp add: pmm_ready_def eqs) (simp add: u_def boot_tables_def)
  ultimately show "heap_budget u N"
    using bare assms(3-5) mx by (intro bare_budget) (simp_all add: eqs, simp_all add: u_def boot_tables_def)
qed

lemma no_devices_budget:
  assumes b: "heap_budget t M" and none: "\<And>v. MMIO_REGION \<le> v \<Longrightarrow> v < KERNEL_HEAP \<Longrightarrow> vmm_get_physical t v = None"
    and c: "mmio_region_count t = 0"
  shows "mmio_budget t (min M 32768)"
proof -
  have "range_free t (MMIO_REGION + of_nat (4096 * 0)) (min M 32768)"
    unfolding range_free_def
  proof (intro allI impI none)
    fix i assume i: "i < min M 32768"
    have "i < 2 ^ 27" "MMIO_REGION + of_nat (4096 * 0) + of_nat (4096 * i) = MMIO_REGION + of_nat (4096 * i)" using i by simp_all
    from mmio_address(2,3)[OF this] show "MMIO_REGION \<le> MMIO_REGION + of_nat (4096 * 0) + of_nat (4096 * i)"
      "MMIO_REGION + of_nat (4096 * 0) + of_nat (4096 * i) < KERNEL_HEAP" .
  qed
  moreover have "heap_ok t" "4 * M \<le> card (free_frames t)" using b by (simp_all add: heap_budget_def)
  ultimately show ?thesis unfolding mmio_budget_def using c by (intro conjI exI[of _ 0]) auto
qed

section \<open>Properties\<close>


definition e820_big :: e820_t where
  "e820_big = \<lparr>e820_size = 20, e820_base = 0, e820_length = 0x2000000, e820_type = 1, acpi3_flags = 0\<rparr>"

definition cold_heap :: heap where
  "cold_heap = small_heap\<lparr>total_pages := 0, used_pages := 0, highest_usable_address := 0\<rparr>"

lemma fold_mark_used:
  fixes s :: "'a pmm_scheme"
  defines "t \<equiv> \<lambda>f xs. fold (\<lambda>i. pmm_mark_page_used (f i)) xs s"
  shows "total_pages (t f xs) = total_pages s" "highest_usable_address (t f xs) = highest_usable_address s"
    "pmm_bitmap_size (t f xs) = pmm_bitmap_size s" and "\<exists>k \<le> length xs. used_pages (t f xs) = used_pages s + of_nat k"
proof -
  show "total_pages (t f xs) = total_pages s" "highest_usable_address (t f xs) = highest_usable_address s"
    "pmm_bitmap_size (t f xs) = pmm_bitmap_size s"
    unfolding t_def by (rule fold_same, simp add: pmm_mark_page_used_def Let_def)+
  show "\<exists>k \<le> length xs. used_pages (t f xs) = used_pages s + of_nat k"
    unfolding t_def
  proof (induction xs arbitrary: s)
    case (Cons x xs)
    obtain k where k: "k \<le> length xs" "used_pages (fold (\<lambda>i. pmm_mark_page_used (f i)) xs (pmm_mark_page_used (f x) s)) =
        used_pages (pmm_mark_page_used (f x) s) + of_nat k" using Cons.IH by blast
    then show ?case
      by (cases "page_used s (f x div 4096)") (auto simp: used_pages_mark_used intro: exI[of _ k] exI[of _ "k + 1"])
  qed simp
qed

lemma cold_init:
  obtains t0 where "pmm_init (\<lambda>_. e820_big) 1 cold_heap = Inr t0" "pmm_bitmap_size t0 = 1024" "highest_usable_address t0 = 0x1FFFFFF"
    "6000 < unat (total_pages t0 - used_pages t0)"
proof -
  let ?s = "cold_heap\<lparr>pmm_bitmap_size := 1024, pmm_bitmap := memset (pmm_bitmap cold_heap) 0 0xFF 1024\<rparr>"
  let ?u = "pmm_init_entry e820_big ?s"
  let ?t = "fold (\<lambda>i. pmm_mark_page_used (push_bit 12 (of_nat i))) [0..<2048] ?u"
  have free: "used_pages (fold (\<lambda>i s. (pmm_mark_page_free (f i) s)\<lparr>used_pages := used_pages s\<rparr>) xs v) = used_pages v"
    "pmm_bitmap_size (fold (\<lambda>i s. (pmm_mark_page_free (f i) s)\<lparr>used_pages := used_pages s\<rparr>) xs v) = pmm_bitmap_size v"
    "highest_usable_address (fold (\<lambda>i s. (pmm_mark_page_free (f i) s)\<lparr>used_pages := used_pages s\<rparr>) xs v) = highest_usable_address v"
    for f and xs :: "nat list" and v :: heap
    by (rule fold_same, simp add: pmm_mark_page_free_def Let_def)+
  have u: "total_pages ?u = 8192" "used_pages ?u = 0" "highest_usable_address ?u = 0x1FFFFFF" "pmm_bitmap_size ?u = 1024"
    by (simp_all add: pmm_init_entry_def e820_add_entry_def e820_big_def cold_heap_def Let_def fold_free_total free del: upt_Suc)
  have one: "[0..<unat (1 :: u64)] = [0]" by simp
  have run: "pmm_init (\<lambda>_. e820_big) 1 cold_heap = Inr ?t"
    unfolding pmm_init_def one Let_def using u(1) by (simp add: e820_big_def del: upt_Suc)
  note f = fold_mark_used[where f = "\<lambda>i. push_bit 12 (of_nat i)" and xs = "[0..<2048]" and s = ?u]
  obtain k where "k \<le> 2048" "used_pages ?t = of_nat k" using f(4) u(2) by auto
  then have "unat (total_pages ?t - used_pages ?t) = 8192 - k"
    using f(1) u(1) unat_minus_of_nat[of k 8192] by simp
  then show ?thesis using that[OF run] f u \<open>k \<le> 2048\<close> by simp
qed


end
