(* ===== verification/Apic_Init.thy ===== *)
theory Apic_Init
  imports Timer Heap_Frame
begin

text \<open>
  The whole of \<open>apic_init\<close> of \<open>kernel/src/apic/apic.c\<close>: allocation of the arrays, the search for the MADT, the mapping of the local
  APIC, the loop over the table, the legacy interrupt controller, the local APIC and the
  redirection entries.
\<close>

section \<open>Allocating the arrays\<close>

lemma mmio_budget_outside:
  assumes "heap_budget t N" and "outside s t" and "same_rest s t" and "mmio_budget s M" and "M \<le> N"
  shows "mmio_budget t M"
proof -
  obtain k where k: "k + M \<le> 2 ^ 27" "range_free s (MMIO_REGION + of_nat (4096 * k)) M"
    using assms(4) by (auto simp: mmio_budget_def)
  have "range_free t (MMIO_REGION + of_nat (4096 * k)) M"
    unfolding range_free_def
  proof (intro allI impI)
    fix i assume i: "i < M"
    let ?w = "MMIO_REGION + of_nat (4096 * k) + of_nat (4096 * i)"
    have "?w = MMIO_REGION + of_nat (4096 * (k + i))" "k + i < 2 ^ 27" using i k(1) by (simp_all add: algebra_simps)
    note w = mmio_address(2,3)[OF this(2,1)]
    then have "vmm_get_page t ?w = vmm_get_page s ?w" using assms(2) by (simp add: outside_def)
    then show "vmm_get_physical t ?w = None"
      using k(2) i w(1) unfolding range_free_def by (fastforce simp: vmm_get_physical_def Let_def split: if_splits)
  qed
  moreover have "heap_ok t" "4 * N \<le> card (free_frames t)" using assms(1) by (simp_all add: heap_budget_def)
  ultimately show ?thesis using k(1) assms(3-5) unfolding mmio_budget_def same_rest_def by auto
qed

lemma kcalloc_budget:
  assumes "heap_budget s N" and "n1 * n2 = n" and "unat n < 2 ^ 32" and "unat (heap_pages n) = k" and "k \<le> N"
  obtains p t where "kcalloc n1 n2 s = Inr (p, t)" "p \<noteq> 0" "same_rest s t" "outside s t" "heap_budget t (N - k)"
  using kmalloc_budget_outside[OF assms(1,3)] assms unfolding kcalloc_def by metis

lemma apic_arrays:
  assumes b: "heap_budget s N" "10 \<le> N"
  obtains p q r t t' t'' where "kcalloc 112 (of_nat MAX_CPUS) s = Inr (p, t)" "kcalloc 32 (of_nat MAX_IOAPICS) t = Inr (q, t')"
    "kcalloc 4 (of_nat MAX_OVERRIDES) t' = Inr (r, t'')" "p \<noteq> 0" "q \<noteq> 0" "r \<noteq> 0"
    "same_rest s t''" "outside s t''" "heap_budget t'' (N - 10)"
proof -
  have pg: "unat (heap_pages 28672) = 8" "unat (heap_pages 512) = 1" "unat (heap_pages 64) = 1"
    using heap_pages_unat(1)[of 28672] heap_pages_unat(1)[of 512] heap_pages_unat(1)[of 64] by simp_all
  obtain p t where t: "kcalloc 112 (of_nat MAX_CPUS) s = Inr (p, t)" "p \<noteq> 0" "same_rest s t" "outside s t" "heap_budget t (N - 8)"
    by (rule kcalloc_budget[OF b(1), of 112 "of_nat MAX_CPUS" 28672 8]) (use pg b(2) in \<open>auto simp: MAX_CPUS_def\<close>)
  obtain q t' where t': "kcalloc 32 (of_nat MAX_IOAPICS) t = Inr (q, t')" "q \<noteq> 0" "same_rest t t'" "outside t t'" "heap_budget t' (N - 8 - 1)"
    by (rule kcalloc_budget[OF t(5), of 32 "of_nat MAX_IOAPICS" 512 1]) (use pg b(2) in \<open>auto simp: MAX_IOAPICS_def\<close>)
  obtain r t'' where t'': "kcalloc 4 (of_nat MAX_OVERRIDES) t' = Inr (r, t'')" "r \<noteq> 0" "same_rest t' t''" "outside t' t''"
    "heap_budget t'' (N - 8 - 1 - 1)"
    by (rule kcalloc_budget[OF t'(5), of 4 "of_nat MAX_OVERRIDES" 64 1]) (use pg b(2) in \<open>auto simp: MAX_OVERRIDES_def\<close>)
  show ?thesis
    using that[OF t(1) t'(1) t''(1) t(2) t'(2) t''(2)] same_rest_trans[OF same_rest_trans[OF t(3) t'(3)] t''(3)]
      outside_trans[OF outside_trans[OF t(4) t'(4)] t''(4)] t''(5) by (simp add: numeral_eq_Suc)
qed

section \<open>The local APIC\<close>

lemma lapic_configure_run:
  assumes "device_page s (lapic s) lp" and "aligned 4096 lp" and "idt_base s \<noteq> 0"
  shows "lapic_configure stub s = Inr (s\<lparr>idt := (idt s)[0xFF := idt_gate stub],
    trace := trace s @ [Mmio_Write (lp + LAPIC_SPURIOUS) 0x1FF, Mmio_Write (lp + LAPIC_TPR) 0, Mmio_Write (lp + LAPIC_EOI) 0]\<rparr>)"
proof -
  have p: "vmm_get_physical (s\<lparr>idt := g, trace := tr\<rparr>) (lapic s + off) = Some (lp + off)" if "unat off < 4096" for off g tr
    using device_page_physical[OF assms(1,2) that] vmm_get_physical_mem[of "s\<lparr>idt := g, trace := tr\<rparr>" s] by simp
  have q: "vmm_get_physical (s\<lparr>idt := g\<rparr>) (lapic s + off) = Some (lp + off)" if "unat off < 4096" for off g
    using device_page_physical[OF assms(1,2) that] vmm_get_physical_mem[of "s\<lparr>idt := g\<rparr>" s] by simp
  show ?thesis using assms(3)
    by (simp add: lapic_configure_def idt_install_def lapic_write_def mmio_write_def emit_def LAPIC_SPURIOUS_def LAPIC_TPR_def
        LAPIC_EOI_def LAPIC_SPURIOUS_ENABLE_def p q)
qed

section \<open>The redirection entries\<close>

text \<open>What \<open>ioapic_init\<close> writes for entry \<open>j\<close> of the I/O APIC \<open>a\<close>, and for all entries up to the last.\<close>

definition entry_config :: "ioapic_t \<Rightarrow> nat \<Rightarrow> u64" where
  "entry_config a j = ((ucast (gsi_start a + ucast IRQ_BASE) :: u64) + of_nat j) OR IOAPIC_MASK"

definition entry_events :: "ioapic_t \<Rightarrow> nat \<Rightarrow> event list" where
  "entry_events a j =
    [Mmio_Write (mmio_phys a) (of_nat (j * 2) + IOAPIC_TABLES), Mmio_Write (mmio_phys a + 16) (ucast (entry_config a j)),
     Mmio_Write (mmio_phys a) (of_nat (j * 2) + IOAPIC_TABLES + 1), Mmio_Write (mmio_phys a + 16) (ucast (drop_bit 32 (entry_config a j)))]"

definition last_entry :: "(u64 \<Rightarrow> u32) \<Rightarrow> ioapic_t \<Rightarrow> nat" where
  "last_entry V a = unat (drop_bit 16 (V (mmio_phys a)) AND 0xFF)"

definition ioapic_events :: "(u64 \<Rightarrow> u32) \<Rightarrow> ioapic_t \<Rightarrow> event list" where
  "ioapic_events V a = [Mmio_Write (mmio_phys a) IOAPIC_VERSION, Mmio_Read (mmio_phys a + 16)] @
    concat (map (entry_events a) [0..<last_entry V a + 1])"

text \<open>All I/O APICs of the array are mapped, at addresses that are page-aligned, and have version registers.\<close>

definition ioapics_usable :: "devices \<Rightarrow> (u64 \<Rightarrow> u32) \<Rightarrow> 'a apic_scheme \<Rightarrow> bool" where
  "ioapics_usable d V s \<longleftrightarrow> ioapics_ready V s \<and> unat (ioapic_count s) \<le> length (ioapics s) \<and>
    (\<forall>i < unat (ioapic_count s). version_device d V (mmio_phys (ioapics s ! i)))"

lemma trace_only:
  "heap.truncate (s\<lparr>trace := tr\<rparr>) = heap.truncate s" "vmm_get_page (s\<lparr>trace := tr\<rparr>) = vmm_get_page s"
  using core_heap(1)[of "s\<lparr>trace := tr\<rparr>" s] by (simp_all add: heap.truncate_def)

lemma usable_trace: "ioapics_usable d V (s\<lparr>trace := tr\<rparr>) = ioapics_usable d V s"
  by (simp add: ioapics_usable_def ioapics_ready_def device_page_def trace_only)

lemma usable_mapped:
  assumes "ioapics_usable d V s" and "i < unat (ioapic_count s)"
  shows "ioapic_mapped s (of_nat i) (mmio_phys (ioapics s ! i))" and "unat (of_nat i :: u64) = i"
proof -
  have i: "i < 2 ^ 64" using assms(2) unat_less_size[of "ioapic_count s"] by simp
  then show u: "unat (of_nat i :: u64) = i" by (rule unat_of_nat_small)
  have "device_page s (ioapic_mmio (ioapics s ! i)) (mmio_phys (ioapics s ! i))" "aligned 4096 (mmio_phys (ioapics s ! i))"
    "i < length (ioapics s)"
    using assms by (auto simp: ioapics_usable_def ioapics_ready_def version_device_def)
  then show "ioapic_mapped s (of_nat i) (mmio_phys (ioapics s ! i))"
    using device_page_physical[of s _ _ 0] device_page_physical[of s _ _ 16] by (simp add: ioapic_mapped_def u)
qed

lemma ioapic_init_entry_run:
  assumes "ioapics_usable d V s" and "i < unat (ioapic_count s)"
  shows "ioapic_init_entry (of_nat i) j s = Inr (s\<lparr>trace := trace s @ entry_events (ioapics s ! i) j\<rparr>)"
proof -
  note m = usable_mapped[OF assms]
  have m2: "ioapic_mapped (s\<lparr>trace := tr\<rparr>) (of_nat i) (mmio_phys (ioapics s ! i))" for tr
    by (rule ioapic_mapped_core[OF m(1)]) simp_all
  have "i < length (ioapics s)" using assms by (simp add: ioapics_usable_def)
  then show ?thesis
    by (simp add: ioapic_init_entry_def elem_def m(2) Let_def ioapic_write_mapped[OF m(1)] ioapic_write_mapped[OF m2]
        entry_events_def entry_config_def)
qed

lemma ioapic_init_entries_run:
  assumes "ioapics_usable d V s" and "i < unat (ioapic_count s)"
  shows "fold_res (ioapic_init_entry (of_nat i)) js s = Inr (s\<lparr>trace := trace s @ concat (map (entry_events (ioapics s ! i)) js)\<rparr>)"
  using assms
proof (induction js arbitrary: s)
  case (Cons j js)
  let ?t = "s\<lparr>trace := trace s @ entry_events (ioapics s ! i) j\<rparr>"
  have "ioapics_usable d V ?t" using Cons.prems(1) usable_trace by blast
  then show ?case using Cons.IH[of ?t] Cons.prems(2) ioapic_init_entry_run[OF Cons.prems, of j] by simp
qed simp

lemma ioapic_init_run:
  assumes u: "ioapics_usable d V s"
  shows "ioapic_init d s =
    Inr (s\<lparr>trace := trace s @ concat (map (\<lambda>i. ioapic_events V (ioapics s ! i)) [0..<unat (ioapic_count s)])\<rparr>)"
proof -
  have "fold_res (\<lambda>i s. bnd (ioapic_max d (of_nat i) s) (\<lambda>(max_irq, s). fold_res (ioapic_init_entry (of_nat i)) [0..<unat max_irq + 1] s)) is s =
      Inr (s\<lparr>trace := trace s @ concat (map (\<lambda>i. ioapic_events V (ioapics s ! i)) is)\<rparr>)"
    if "\<forall>i \<in> set is. i < unat (ioapic_count s)" "ioapics_usable d V s" for "is"
    using that
  proof (induction "is" arbitrary: s)
    case (Cons i js)
    let ?a = "ioapics s ! i"
    have i: "i < unat (ioapic_count s)" using Cons.prems(1) by simp
    have a: "device_page s (ioapic_mmio ?a) (mmio_phys ?a)" "version_device d V (mmio_phys ?a)" "i < length (ioapics s)"
      using Cons.prems(2) i by (auto simp: ioapics_usable_def ioapics_ready_def)
    let ?u = "s\<lparr>trace := trace s @ [Mmio_Write (mmio_phys ?a) IOAPIC_VERSION, Mmio_Read (mmio_phys ?a + 16)]\<rparr>"
    have m: "ioapic_max d (of_nat i) s = Inr (drop_bit 16 (V (mmio_phys ?a)) AND 0xFF, ?u)"
      using ioapic_max_mapped[of "of_nat i" s "ioapic_mmio ?a" "mmio_phys ?a" d V] a usable_mapped(2)[OF Cons.prems(2) i] by simp
    have uu: "ioapics_usable d V ?u" using Cons.prems(2) usable_trace by blast
    have e: "fold_res (ioapic_init_entry (of_nat i)) [0..<last_entry V ?a + 1] ?u = Inr (s\<lparr>trace := trace s @ ioapic_events V ?a\<rparr>)"
      using ioapic_init_entries_run[OF uu, of i "[0..<last_entry V ?a + 1]"] i by (simp add: ioapic_events_def del: upt_Suc)
    let ?t = "s\<lparr>trace := trace s @ ioapic_events V ?a\<rparr>"
    have "ioapics_usable d V ?t" using Cons.prems(2) usable_trace by blast
    then show ?case using Cons.IH[of ?t] Cons.prems(1) m e by (simp add: last_entry_def del: upt_Suc)
  qed simp
  from this[of "[0..<unat (ioapic_count s)]"] show ?thesis unfolding ioapic_init_def using u by (simp del: upt_Suc)
qed

section \<open>What the registers hold afterwards\<close>

lemma regs_untouched:
  assumes "\<forall>e \<in> set es. \<forall>a x. e = Mmio_Write a x \<longrightarrow> a \<noteq> base \<and> a \<noteq> base + 16"
  shows "ioapic_regs base init (tr @ es) = ioapic_regs base init tr"
  using assms
proof (induction es rule: rev_induct)
  case (snoc e es)
  obtain sel r where r: "ioapic_state base init (tr @ es) = (sel, r)" by fastforce
  have "ioapic_event base e (sel, r) = (sel, r)" using snoc.prems by (cases e) auto
  then have "ioapic_state base init (tr @ es @ [e]) = (sel, r)"
    using r ioapic_state_append[of base init "tr @ es" "[e]"] by simp
  then show ?case using snoc r by simp
qed simp

definition entry_register :: "nat \<Rightarrow> u32" where
  "entry_register j = of_nat (j * 2) + IOAPIC_TABLES"

lemma entry_registers:
  assumes "j < 256" and "k < 256"
  shows "entry_register j = entry_register k \<longleftrightarrow> j = k" and "entry_register j + 1 = entry_register k + 1 \<longleftrightarrow> j = k"
    and "entry_register j \<noteq> entry_register k + 1" and "entry_register j + 1 \<noteq> entry_register k"
proof -
  have u: "unat (entry_register n) = 16 + 2 * n" "unat (entry_register n + 1) = 17 + 2 * n" if "n < 256" for n
  proof -
    have "entry_register n = of_nat (16 + 2 * n)" by (simp add: entry_register_def IOAPIC_TABLES_def)
    moreover have "entry_register n + 1 = of_nat (17 + 2 * n)" by (simp add: entry_register_def IOAPIC_TABLES_def)
    ultimately show "unat (entry_register n) = 16 + 2 * n" "unat (entry_register n + 1) = 17 + 2 * n"
      using that by (simp_all only: unat_of_nat) simp_all
  qed
  show "entry_register j = entry_register k \<longleftrightarrow> j = k" using u[OF assms(1)] u[OF assms(2)] by (auto simp: word_unat_eq_iff)
  then show "entry_register j + 1 = entry_register k + 1 \<longleftrightarrow> j = k" by simp
  show "entry_register j \<noteq> entry_register k + 1" "entry_register j + 1 \<noteq> entry_register k"
    using u[OF assms(1)] u[OF assms(2)] by (simp_all only: word_unat_eq_iff) presburger+
qed

lemma entry_events_set:
  "ioapic_regs (mmio_phys a) init (tr @ entry_events a j) =
    (ioapic_regs (mmio_phys a) init tr)(entry_register j := ucast (entry_config a j),
      entry_register j + 1 := ucast (drop_bit 32 (entry_config a j)))"
  using ioapic_set[of "mmio_phys a" init "tr @ [Mmio_Write (mmio_phys a) (entry_register j), Mmio_Write (mmio_phys a + 16) (ucast (entry_config a j))]"
    "entry_register j + 1" "ucast (drop_bit 32 (entry_config a j))"] ioapic_set[of "mmio_phys a" init tr "entry_register j" "ucast (entry_config a j)"]
  by (simp add: entry_events_def entry_register_def)

lemma ioapic_events_set:
  assumes "j \<le> last_entry V a"
  shows "ioapic_regs (mmio_phys a) init (tr @ ioapic_events V a) (entry_register j) = ucast (entry_config a j)"
    and "ioapic_regs (mmio_phys a) init (tr @ ioapic_events V a) (entry_register j + 1) = ucast (drop_bit 32 (entry_config a j))"
proof -
  have "drop_bit 16 (V (mmio_phys a)) AND 0xFF \<le> (0xFF :: u32)" by (rule word_and_le1)
  then have max: "last_entry V a < 256" unfolding last_entry_def by (simp add: word_le_nat_alt)
  have ind: "ioapic_regs (mmio_phys a) init (tr @ concat (map (entry_events a) [0..<n])) (entry_register j) = ucast (entry_config a j) \<and>
      ioapic_regs (mmio_phys a) init (tr @ concat (map (entry_events a) [0..<n])) (entry_register j + 1) = ucast (drop_bit 32 (entry_config a j))"
    if "j < n" "n \<le> 256" for n tr
    using that
  proof (induction n)
    case (Suc n)
    have app: "tr @ concat (map (entry_events a) [0..<Suc n]) = (tr @ concat (map (entry_events a) [0..<n])) @ entry_events a n" by simp
    show ?case
    proof (cases "j = n")
      case True
      then show ?thesis unfolding app entry_events_set using entry_registers[of n n] Suc.prems by simp
    next
      case False
      then show ?thesis unfolding app entry_events_set using entry_registers[of j n] Suc by simp
    qed
  qed simp
  let ?v = "[Mmio_Write (mmio_phys a) IOAPIC_VERSION, Mmio_Read (mmio_phys a + 16)]"
  have "tr @ ioapic_events V a = (tr @ ?v) @ concat (map (entry_events a) [0..<last_entry V a + 1])" by (simp add: ioapic_events_def)
  then show "ioapic_regs (mmio_phys a) init (tr @ ioapic_events V a) (entry_register j) = ucast (entry_config a j)"
    "ioapic_regs (mmio_phys a) init (tr @ ioapic_events V a) (entry_register j + 1) = ucast (drop_bit 32 (entry_config a j))"
    using ind[of "last_entry V a + 1" "tr @ ?v"] assms max by simp_all
qed

section \<open>Finding the MADT and mapping the local APIC\<close>

text \<open>Where the table is, and what it holds: the assumptions about the firmware's tables.\<close>

definition madt_found :: "'a acpi_scheme \<Rightarrow> nat \<Rightarrow> nat \<Rightarrow> u64 \<Rightarrow> bool" where
  "madt_found s lo hi p \<longleftrightarrow> (\<forall>x. lo \<le> unat x \<longrightarrow> unat x < hi \<longrightarrow> reserved s x) \<and>
    (\<exists>r w ps. root_table s = (MAP_MEMORY r, w) \<and> acpi_layout (mem s) lo hi r w \<and>
      filter (has_signature (mem s) [0x41, 0x50, 0x49, 0x43]) (table_list (mem s) r w) = p # ps)"

definition madt_length :: "memory \<Rightarrow> u64 \<Rightarrow> nat" where
  "madt_length m p = unat (field32 m (p + 4))"

definition madt_fits :: "memory \<Rightarrow> nat \<Rightarrow> nat \<Rightarrow> u64 \<Rightarrow> bool" where
  "madt_fits m lo hi p \<longleftrightarrow> 46 < madt_length m p \<and> lo \<le> unat p \<and> unat p + madt_length m p + 254 \<le> hi \<and> hi \<le> 2 ^ 39"

definition madt_entries :: "memory \<Rightarrow> u64 \<Rightarrow> (u8 \<times> u64) list" where
  "madt_entries m p = madt_list m (unat p + 44) (unat p + madt_length m p - 2)"

lemma table_fields:
  assumes "agree lo hi m (mem s)" and "madt_fits m lo hi p"
  shows "vread32 s (MAP_MEMORY p + 36) = Inr (field32 m (p + 36))" "vread32 s (MAP_MEMORY p + 40) = Inr (field32 m (p + 40))"
    "sdth_length s (MAP_MEMORY p) = Inr (field32 m (p + 4))"
proof -
  have b: "lo \<le> unat p" "unat p + 300 \<le> hi" "hi \<le> 2 ^ 39" using assms(2) by (auto simp: madt_fits_def)
  have "vread32 s (MAP_MEMORY p + of_nat k) = Inr (field32 m (p + of_nat k))" if "k \<le> 40" for k
  proof -
    have u: "unat (p + of_nat k) = unat p + k" using b that by (intro unat_add_nat) simp
    have "load (mem s) (p + of_nat k) 4 = load m (p + of_nat k) 4" using u b that by (intro load_agree[OF assms(1)]) simp_all
    moreover have "in_direct_map (p + of_nat k) 4" using u b that by (simp add: in_direct_map_def)
    ultimately show ?thesis by (simp add: vread32_def MAP_MEMORY_add vread_direct field32_def)
  qed
  from this[of 36] this[of 40] this[of 4] show "vread32 s (MAP_MEMORY p + 36) = Inr (field32 m (p + 36))"
    "vread32 s (MAP_MEMORY p + 40) = Inr (field32 m (p + 40))" "sdth_length s (MAP_MEMORY p) = Inr (field32 m (p + 4))"
    by (simp_all add: sdth_length_def)
qed

lemma madt_search:
  assumes f: "madt_found s lo hi p" and o: "outside s t" and rt: "root_table t = root_table s"
  shows "acpi_find_table [0x41, 0x50, 0x49, 0x43] 0 t = Inr (ACPI_SUCCESS, MAP_MEMORY p)"
    and "agree lo hi (mem s) (mem t)" and "\<And>x. lo \<le> unat x \<Longrightarrow> unat x < hi \<Longrightarrow> reserved t x"
proof -
  obtain r w ps where r: "root_table s = (MAP_MEMORY r, w)" "acpi_layout (mem s) lo hi r w"
    "filter (has_signature (mem s) [0x41, 0x50, 0x49, 0x43]) (table_list (mem s) r w) = p # ps"
    using f by (auto simp: madt_found_def)
  show a: "agree lo hi (mem s) (mem t)" and "\<And>x. lo \<le> unat x \<Longrightarrow> unat x < hi \<Longrightarrow> reserved t x"
    using f o by (auto simp: madt_found_def outside_def agree_def)
  note l = layout_agree[OF a r(2)]
  have "tables_mapped (mem t) r w" using l(1) by (simp add: acpi_layout_def)
  then show "acpi_find_table [0x41, 0x50, 0x49, 0x43] 0 t = Inr (ACPI_SUCCESS, MAP_MEMORY p)"
    using find_table_nth[of t r w "[0x41, 0x50, 0x49, 0x43]" 0] rt r(1) l(2,3) r(3) by simp
qed

definition pic_events :: "event list" where
  "pic_events =
    [Out8 0x20 0x11, Out8 0xA0 0x11, Out8 0x21 0x20, Out8 0xA1 0x28, Out8 0x21 4, Out8 0xA1 2, Out8 0x21 1, Out8 0xA1 1,
     Out8 0x21 0xFB, Out8 0xA1 0xFF]"

lemma pic_remap_run: "pic_remap s = s\<lparr>trace := trace s @ pic_events\<rparr>"
  by (simp add: pic_remap_def outb_def emit_def pic_events_def PIC_BASE_def)

text \<open>The last part of \<open>apic_init\<close>, from the legacy controller on.\<close>

definition apic_finish :: "devices \<Rightarrow> u64 \<Rightarrow> u64 \<Rightarrow> u64 \<Rightarrow> u32 \<Rightarrow> 'a apic_scheme \<Rightarrow> halt + 'a apic_scheme" where
  "apic_finish d pic0 pic1 spurious flags s =
    bnd (if flags AND 1 \<noteq> 0
         then bnd (idt_install (PIC_BASE + 7) pic0 (pic_remap s)) (idt_install (PIC_BASE + 15) pic1)
         else Inr s) (\<lambda>s.
    bnd (lapic_configure spurious (emit Sti s)) (ioapic_init d))"

definition apic_idt :: "idt_t list \<Rightarrow> u64 \<Rightarrow> u64 \<Rightarrow> u64 \<Rightarrow> u32 \<Rightarrow> idt_t list" where
  "apic_idt gates pic0 pic1 spurious flags =
    (if flags AND 1 \<noteq> 0 then gates[0x27 := idt_gate pic0, 0x2F := idt_gate pic1] else gates)[0xFF := idt_gate spurious]"

definition finish_events :: "(u64 \<Rightarrow> u32) \<Rightarrow> u32 \<Rightarrow> u64 \<Rightarrow> ioapic_t list \<Rightarrow> event list" where
  "finish_events V flags lp as = (if flags AND 1 \<noteq> 0 then pic_events else []) @
    [Sti, Mmio_Write (lp + LAPIC_SPURIOUS) 0x1FF, Mmio_Write (lp + LAPIC_TPR) 0, Mmio_Write (lp + LAPIC_EOI) 0] @
    concat (map (ioapic_events V) as)"

lemma apic_finish_run:
  assumes u: "ioapics_usable d V s" and l: "device_page s (lapic s) lp" "aligned 4096 lp" and i: "idt_base s \<noteq> 0"
  shows "apic_finish d pic0 pic1 spurious flags s = Inr (s\<lparr>idt := apic_idt (idt s) pic0 pic1 spurious flags,
    trace := trace s @ finish_events V flags lp (take (unat (ioapic_count s)) (ioapics s))\<rparr>)"
proof -
  have pg: "device_page (s\<lparr>idt := g, trace := tr\<rparr>) (lapic s) lp" for g tr
    using l(1) vmm_get_page_mem[of "s\<lparr>idt := g, trace := tr\<rparr>" s] by (simp add: device_page_def)
  have uu: "ioapics_usable d V (s\<lparr>idt := g, trace := tr\<rparr>)" for g tr
  proof -
    have "vmm_get_page (s\<lparr>idt := g, trace := tr\<rparr>) v = vmm_get_page s v" for v by (rule vmm_get_page_mem) simp_all
    then show ?thesis using u by (simp add: ioapics_usable_def ioapics_ready_def device_page_def)
  qed
  let ?g = "if flags AND 1 \<noteq> 0 then (idt s)[0x27 := idt_gate pic0, 0x2F := idt_gate pic1] else idt s"
  let ?t = "s\<lparr>idt := ?g, trace := trace s @ (if flags AND 1 \<noteq> 0 then pic_events else []) @ [Sti]\<rparr>"
  have "apic_finish d pic0 pic1 spurious flags s = bnd (lapic_configure spurious ?t) (ioapic_init d)"
    using i by (simp add: apic_finish_def pic_remap_run idt_install_def PIC_BASE_def emit_def)
  moreover have "lapic_configure spurious ?t = Inr (?t\<lparr>idt := ?g[0xFF := idt_gate spurious],
      trace := trace ?t @ [Mmio_Write (lp + LAPIC_SPURIOUS) 0x1FF, Mmio_Write (lp + LAPIC_TPR) 0, Mmio_Write (lp + LAPIC_EOI) 0]\<rparr>)"
    using lapic_configure_run[of ?t lp spurious] pg l(2) i by simp
  moreover have "unat (ioapic_count s) \<le> length (ioapics s)" using u by (simp add: ioapics_usable_def)
  then have "map (\<lambda>i. ioapic_events V (ioapics s ! i)) [0..<unat (ioapic_count s)] = map (ioapic_events V) (take (unat (ioapic_count s)) (ioapics s))"
    by (intro nth_equalityI) simp_all
  ultimately show ?thesis
    using ioapic_init_run[OF uu[where g = "?g[0xFF := idt_gate spurious]" and tr = "trace ?t @ [Mmio_Write (lp + LAPIC_SPURIOUS) 0x1FF,
      Mmio_Write (lp + LAPIC_TPR) 0, Mmio_Write (lp + LAPIC_EOI) 0]"]]
    by (simp add: apic_idt_def finish_events_def)
qed


section \<open>The whole initialisation\<close>

text \<open>The part of \<open>apic_init\<close> from the loop over the table on.\<close>

definition apic_tail :: "devices \<Rightarrow> u64 \<Rightarrow> u64 \<Rightarrow> u64 \<Rightarrow> u64 \<Rightarrow> 'a apic_scheme \<Rightarrow> halt + 'a apic_scheme" where
  "apic_tail d pic0 pic1 spurious table s =
    bnd (sdth_length s table) (\<lambda>len.
      case madt_loop d (table + 44) (table + ucast len - 2) s of
        None \<Rightarrow> Inl Diverges
      | Some res \<Rightarrow>
      bnd res (\<lambda>s.
      if ioapic_count s = 0 then Inl (Panic ''IOAPIC is not present.'')
      else if cpu_count s = 0 then Inl (Panic ''MADT doesn't contain any CPU declarations.'')
      else bnd (vread32 s (table + 40)) (\<lambda>flags. apic_finish d pic0 pic1 spurious flags s)))"

text \<open>The memory from \<open>lo\<close> to \<open>hi\<close> is as in \<open>m\<close>, and nobody will change it.\<close>

definition kept_memory :: "'a vmm_scheme \<Rightarrow> memory \<Rightarrow> nat \<Rightarrow> nat \<Rightarrow> bool" where
  "kept_memory s m lo hi \<longleftrightarrow> agree lo hi m (mem s) \<and> (\<forall>x. lo \<le> unat x \<longrightarrow> unat x < hi \<longrightarrow> foreign s x)"

definition base_events :: "devices \<Rightarrow> event list \<Rightarrow> u64 \<Rightarrow> event list" where
  "base_events d tr lp = [Read_Msr IA32_APIC_BASE, Write_Msr IA32_APIC_BASE
    (((dev_msr d tr IA32_APIC_BASE OR IA32_APIC_BASE_ENABLED) AND 0xFFF) OR lp)]"

text \<open>The state before the loop.\<close>

definition loop_ready :: "'a apic_scheme \<Rightarrow> nat \<Rightarrow> nat \<Rightarrow> nat \<Rightarrow> u64 \<Rightarrow> u64 \<Rightarrow> 'a apic_scheme \<Rightarrow> bool" where
  "loop_ready s lo hi N p lp u \<longleftrightarrow> collected u 0 [] [] [] \<and> ioapic_count u = 0 \<and> kept_memory u (mem s) lo hi \<and>
    heap_budget u N \<and> mmio_budget u N \<and> madt u = MAP_MEMORY p \<and> lapic_physical u = lp \<and> device_page u (lapic u) lp \<and>
    idt u = idt s \<and> idt_base u = idt_base s"

lemma apic_init_unfold:
  "apic_init d pic0 pic1 spurious s =
    bnd (kcalloc 112 (of_nat MAX_CPUS) s) (\<lambda>(p, s).
    bnd (kcalloc 32 (of_nat MAX_IOAPICS) s) (\<lambda>(q, s).
    bnd (kcalloc 4 (of_nat MAX_OVERRIDES) s) (\<lambda>(r, s).
    let s = s\<lparr>cpu_count := 0, cpu_slot_count := 0, ioapic_count := 0, override_count := 0,
             cpus := replicate MAX_CPUS zero_cpu, ioapics := replicate MAX_IOAPICS zero_ioapic,
             overrides := replicate MAX_OVERRIDES zero_override\<rparr> in
    if p = 0 \<or> q = 0 \<or> r = 0 then Inl (Panic ''unable to allocate memory.'')
    else
      bnd (acpi_find_table [0x41, 0x50, 0x49, 0x43] 0 s) (\<lambda>(status, table).
      if status \<noteq> ACPI_SUCCESS then Inl (Panic ''ACPI MADT table not present.'')
      else bnd (vread32 (s\<lparr>madt := table\<rparr>) (table + 36)) (\<lambda>local_apic.
      bnd (vmm_create_mmio (ucast local_apic) 1 [0x6C, 0x61, 0x70, 0x69, 0x63] (s\<lparr>madt := table, lapic_physical := ucast local_apic\<rparr>)) (\<lambda>(v, s).
      apic_tail d pic0 pic1 spurious table (s\<lparr>lapic := v, trace := trace s @ base_events d (trace s) (lapic_physical s)\<rparr>)))))))"
  unfolding apic_init_def apic_tail_def apic_finish_def base_events_def read_msr_def write_msr_def emit_def Let_def by (simp add: MAX_CPUS_def cong del: if_cong)

lemma more_fields:
  fixes s t :: "'a apic_scheme"
  assumes "heap.more t = heap.more s"
  shows "trace t = trace s" "apic_rest t = apic_rest s" "cpus t = cpus s" "ioapics t = ioapics s" "overrides t = overrides s"
    "cpu_count t = cpu_count s" "cpu_slot_count t = cpu_slot_count s" "ioapic_count t = ioapic_count s"
    "override_count t = override_count s" "acpi_xsdt t = acpi_xsdt s" "acpi_rsdt t = acpi_rsdt s"
    "idt t = idt s" "idt_base t = idt_base s" "madt t = madt s" "lapic_physical t = lapic_physical s"
  using assms by (cases s, cases t, simp add: apic_rest_def)+

lemma apic_init_tail:
  assumes hb: "heap_budget s (N + 11)" and mb: "mmio_budget s (N + 11)"
    and f: "madt_found s lo hi p" and fit: "madt_fits (mem s) lo hi p" and lp: "lp = ucast (field32 (mem s) (p + 36))"
  shows "\<exists>u. apic_init d pic0 pic1 spurious s = apic_tail d pic0 pic1 spurious (MAP_MEMORY p) u \<and> loop_ready s lo hi N p lp u \<and>
    trace u = trace s @ base_events d (trace s) lp"
proof -
  obtain a b c w w' w'' where k: "kcalloc 112 (of_nat MAX_CPUS) s = Inr (a, w)" "kcalloc 32 (of_nat MAX_IOAPICS) w = Inr (b, w')"
    "kcalloc 4 (of_nat MAX_OVERRIDES) w' = Inr (c, w'')" "a \<noteq> 0" "b \<noteq> 0" "c \<noteq> 0"
    and o: "same_rest s w''" "outside s w''" and hw: "heap_budget w'' (N + 1)"
    by (rule apic_arrays[OF hb]) auto
  have mw: "mmio_budget w'' (N + 1)" by (rule mmio_budget_outside[OF hw o(2,1) mmio_budget_mono[OF mb]]) simp_all
  define x where "x = w''\<lparr>cpu_count := 0, cpu_slot_count := 0, ioapic_count := 0, override_count := 0,
    cpus := replicate MAX_CPUS zero_cpu, ioapics := replicate MAX_IOAPICS zero_ioapic,
    overrides := replicate MAX_OVERRIDES zero_override\<rparr>"
  define y where "y = x\<lparr>madt := MAP_MEMORY p, lapic_physical := lp\<rparr>"
  have core: "heap.truncate x = heap.truncate w''" "heap.truncate y = heap.truncate w''" by (simp_all add: x_def y_def heap.truncate_def)
  note mo = more_fields[of w'' s]
  have more: "heap.more w'' = heap.more s" using o(1) by (simp add: same_rest_def)
  have ox: "outside s x" using o(2) core_heap[OF core(1)] core_fields[OF core(1)]
    unfolding outside_def reserved_def heap_frame_def root_def by simp
  have rx: "root_table x = root_table s" using mo(10,11)[OF more] by (simp add: x_def root_table_def)
  note sr = madt_search[OF f ox rx]
  have mem: "mem y = mem x" by (simp add: y_def)
  note tf = table_fields[of lo hi "mem s" _ p, OF _ fit]
  obtain v u where v: "vmm_create_mmio lp 1 [0x6C, 0x61, 0x70, 0x69, 0x63] y = Inr (v, u)"
    "mmio_budget u N" "mmio_step y u" "device_page u v lp" "\<forall>M. heap_budget y M \<and> 0 < M \<longrightarrow> heap_budget u (M - 1)"
    by (rule create_mmio_page[of y "N + 1" "[0x6C, 0x61, 0x70, 0x69, 0x63]" lp])
      (use mw core_mmio(1)[OF core(2)] in \<open>auto simp: device_page_def\<close>)
  have "heap.more u = heap.more y" using v(3) by (simp add: mmio_step_def)
  note uy = more_fields[OF this]
  have y: "trace y = trace s" "cpus y = replicate MAX_CPUS zero_cpu" "ioapics y = replicate MAX_IOAPICS zero_ioapic"
    "overrides y = replicate MAX_OVERRIDES zero_override" "cpu_count y = 0" "cpu_slot_count y = 0" "ioapic_count y = 0"
    "override_count y = 0" "madt y = MAP_MEMORY p" "lapic_physical y = lp" "idt y = idt s" "idt_base y = idt_base s"
    by (simp_all add: y_def x_def mo[OF more])
  define t where "t = u\<lparr>lapic := v, trace := trace s @ base_events d (trace s) lp\<rparr>"
  have ct: "heap.truncate t = heap.truncate u" by (simp add: t_def heap.truncate_def)
  have run: "apic_init d pic0 pic1 spurious s = apic_tail d pic0 pic1 spurious (MAP_MEMORY p) t"
    using k v(1) sr(1) tf(1)[of "x\<lparr>madt := MAP_MEMORY p\<rparr>"] sr(2) uy(1,15) y(1,10)
    by (simp add: apic_init_unfold x_def[symmetric] y_def[symmetric] t_def lp[symmetric] ACPI_SUCCESS_def Let_def)
  have "kept_memory t (mem s) lo hi"
    unfolding kept_memory_def agree_def
  proof (intro conjI allI impI)
    fix z :: u64 assume z: "lo \<le> unat z" "unat z < hi"
    have "foreign x z" using sr(3)[OF z] by (simp add: reserved_def foreign_def)
    then have "foreign y z" using core_mmio(2)[OF core(1)] core_mmio(2)[OF core(2)] by simp
    then show "foreign t z" "mem t z = mem s z"
      using v(3) sr(2) z core_mmio(2)[OF ct] by (simp_all add: mmio_step_def t_def mem agree_def)
  qed
  moreover have "heap_budget u N" using spec[OF v(5), of "N + 1"] hw core_budget[OF core(2)] by simp
  ultimately have "loop_ready s lo hi N p lp t"
    using v(2,4) uy(3-9,12-15) y core_budget[OF ct] core_mmio(1)[OF ct] core_heap(1)[OF ct]
    by (simp add: loop_ready_def collected_def t_def device_page_def)
  then show ?thesis using run by (intro exI[of _ t]) (simp add: t_def)
qed


text \<open>The I/O APICs of the table.\<close>

definition madt_devices :: "devices \<Rightarrow> (u64 \<Rightarrow> u32) \<Rightarrow> memory \<Rightarrow> u64 \<Rightarrow> bool" where
  "madt_devices d V m p \<longleftrightarrow> (\<forall>(i, phys, g) \<in> set (madt_ioapics m (madt_entries m p)). version_device d V phys)"

text \<open>At least one and at most as many entries as the arrays hold.\<close>

definition madt_small :: "memory \<Rightarrow> u64 \<Rightarrow> bool" where
  "madt_small m p \<longleftrightarrow> (let es = madt_entries m p in
    madt_cpus m es \<noteq> [] \<and> length (madt_cpus m es) \<le> MAX_CPUS \<and>
    madt_ioapics m es \<noteq> [] \<and> length (madt_ioapics m es) \<le> MAX_IOAPICS \<and>
    length (madt_overrides m es) \<le> MAX_OVERRIDES)"

lemma loop_result:
  assumes r: "loop_ready s lo hi N p lp u" and fit: "madt_fits (mem s) lo hi p" and sm: "madt_small (mem s) p"
    and N: "length (madt_ioapics (mem s) (madt_entries (mem s) p)) \<le> N" and dev: "madt_devices d V (mem s) p"
    and es: "es = madt_entries (mem s) p"
  obtains t where "madt_loop d (MAP_MEMORY p + 44) (MAP_MEMORY p + ucast (field32 (mem s) (p + 4)) - 2) u = Some (Inr t)"
    "keeps_mm u t" "ioapics_usable d V t" "heap_budget t (N - length (madt_ioapics (mem s) es))"
    "mmio_budget t (N - length (madt_ioapics (mem s) es))" "kept_memory t (mem s) lo hi"
    "collected t (length (madt_slots es)) (madt_cpus (mem s) es) (madt_ioapics (mem s) es) (madt_overrides (mem s) es)"
proof -
  let ?m = "mem s" and ?a = "unat p + 44" and ?e = "unat p + madt_length (mem s) p - 2"
  have b: "46 < madt_length ?m p" "lo \<le> unat p" "unat p + madt_length ?m p + 254 \<le> hi" "hi \<le> 2 ^ 39"
    using fit by (auto simp: madt_fits_def)
  have mm: "madt_memory u ?m ?a ?e" using r b by (simp add: madt_memory_def loop_ready_def kept_memory_def agree_def)
  have addr: "MAP_MEMORY p + 44 = MAP_MEMORY (of_nat ?a)" "MAP_MEMORY p + ucast (field32 ?m (p + 4)) - 2 = MAP_MEMORY (of_nat ?e)"
    using b(1) by (simp_all add: MAP_MEMORY_def of_nat_diff madt_length_def)
  have sm': "length (madt_cpus ?m es) \<le> MAX_CPUS" "length (madt_ioapics ?m es) \<le> MAX_IOAPICS"
    "length (madt_overrides ?m es) \<le> MAX_OVERRIDES" using sm by (simp_all add: madt_small_def es Let_def)
  have dv: "\<forall>(i, phys, g) \<in> set (madt_ioapics ?m es). version_device d V phys" using dev by (simp add: madt_devices_def es)
  have ready: "ioapics_ready V u" using r by (simp add: loop_ready_def ioapics_ready_def)
  obtain t where t: "madt_loop d (MAP_MEMORY (of_nat ?a)) (MAP_MEMORY (of_nat ?e)) u = Some (Inr t)" "keeps_mm u t"
    "mmio_budget t (N - length (madt_ioapics ?m es))" "ioapics_ready V t"
    "\<forall>M. heap_budget u M \<and> length (madt_ioapics ?m es) \<le> M \<longrightarrow> heap_budget t (M - length (madt_ioapics ?m es))"
    "collected t (length (madt_slots es)) (madt_cpus ?m es) (madt_ioapics ?m es) (madt_overrides ?m es)"
    using madt_loop_collects[OF mm _ _ _ _ refl _ _ _ _ _ ready, of 0 "[]" "[]" "[]" N d] r b sm' dv N
    by (auto simp: loop_ready_def es madt_entries_def)
  have "ioapics_usable d V t"
    unfolding ioapics_usable_def
  proof (intro conjI allI impI)
    have io: "ioapic_count t = of_nat (length (madt_ioapics ?m es))" "length (ioapics t) = MAX_IOAPICS"
      "map (\<lambda>a. (ioapic_id a, mmio_phys a, gsi_start a)) (take (length (madt_ioapics ?m es)) (ioapics t)) = madt_ioapics ?m es"
      using t(6) by (simp_all add: collected_def)
    have cnt: "unat (ioapic_count t) = length (madt_ioapics ?m es)"
      using sm'(2) unfolding io(1) by (intro unat_of_nat_small) (simp add: MAX_IOAPICS_def)
    then show "unat (ioapic_count t) \<le> length (ioapics t)" using sm'(2) io(2) by simp
    fix i assume i: "i < unat (ioapic_count t)"
    have "madt_ioapics ?m es ! i = (ioapic_id (ioapics t ! i), mmio_phys (ioapics t ! i), gsi_start (ioapics t ! i))"
      using arg_cong[OF io(3), of "\<lambda>xs. xs ! i"] i cnt sm'(2) io(2) by simp
    moreover have "madt_ioapics ?m es ! i \<in> set (madt_ioapics ?m es)" using i cnt by simp
    ultimately show "version_device d V (mmio_phys (ioapics t ! i))" using dv by fastforce
  qed (rule t(4))
  moreover have "kept_memory t ?m lo hi"
    using r t(2) by (simp add: kept_memory_def loop_ready_def keeps_mm_def agree_def)
  moreover have "heap_budget t (N - length (madt_ioapics ?m es))" using t(5) r N by (simp add: loop_ready_def es)
  ultimately show ?thesis using that[of t] t(1,2,3,6) unfolding addr by blast
qed


text \<open>What holds at the end.\<close>

definition apic_ready :: "devices \<Rightarrow> (u64 \<Rightarrow> u32) \<Rightarrow> memory \<Rightarrow> u64 \<Rightarrow> 'a apic_scheme \<Rightarrow> bool" where
  "apic_ready d V m p t \<longleftrightarrow> (let es = madt_entries m p; lp = ucast (field32 m (p + 36)) in
    collected t (length (madt_slots es)) (madt_cpus m es) (madt_ioapics m es) (madt_overrides m es) \<and>
    ioapics_usable d V t \<and> lapic_physical t = lp \<and> device_page t (lapic t) lp \<and> madt t = MAP_MEMORY p)"

lemma keeps_rest:
  assumes "keeps_mm s t"
  shows "idt t = idt s" "idt_base t = idt_base s" "madt t = madt s" "lapic_physical t = lapic_physical s" "lapic t = lapic s"
  using assms by (simp_all add: keeps_mm_def apic_rest_def)

lemma collected_nonempty:
  assumes "collected t n cs ios ovs" and "cs \<noteq> []" and "ios \<noteq> []"
  shows "cpu_count t \<noteq> 0" and "ioapic_count t \<noteq> 0" and "unat (ioapic_count t) = length ios"
proof -
  have c: "cpu_count t = of_nat (length cs)" "ioapic_count t = of_nat (length ios)" "length cs \<le> MAX_CPUS" "length ios \<le> MAX_IOAPICS"
    using assms(1) by (simp_all add: collected_def)
  have u: "unat (of_nat (length cs) :: u64) = length cs" "unat (of_nat (length ios) :: u64) = length ios"
    using c(3,4) by (simp_all add: unat_of_nat_small MAX_CPUS_def MAX_IOAPICS_def)
  then show "unat (ioapic_count t) = length ios" by (simp add: c)
  show "cpu_count t \<noteq> 0" "ioapic_count t \<noteq> 0" using u assms(2,3) unfolding c by (metis length_0_conv unat_0)+
qed

lemma apic_init_result:
  assumes hb: "heap_budget s N" and mb: "mmio_budget s N" and N: "11 + k \<le> N" "k = length (madt_ioapics m es)"
    and f: "madt_found s lo hi p" and fit: "madt_fits m lo hi p" and sm: "madt_small m p" and dev: "madt_devices d V m p"
    and m: "m = mem s" "es = madt_entries m p" and lp: "lp = ucast (field32 m (p + 36))" "aligned 4096 lp" and i: "idt_base s \<noteq> 0"
    and fl: "flags = field32 m (p + 40)"
  obtains t vs where "apic_init d pic0 pic1 spurious s = Inr t" "apic_ready d V m p t"
    "heap_budget t (N - 11 - k)" "mmio_budget t (N - 11 - k)" "kept_memory t m lo hi"
    "idt t = apic_idt (idt s) pic0 pic1 spurious flags" "idt_base t = idt_base s" "\<forall>e \<in> set vs. version_event e"
    "trace t = trace s @ base_events d (trace s) lp @ vs @ finish_events V flags lp (take k (ioapics t))"
proof -
  have N': "N = (N - 11) + 11" using N(1) by simp
  obtain u where u: "apic_init d pic0 pic1 spurious s = apic_tail d pic0 pic1 spurious (MAP_MEMORY p) u"
    "loop_ready s lo hi (N - 11) p lp u" "trace u = trace s @ base_events d (trace s) lp"
    using apic_init_tail[of s "N - 11" lo hi p lp d pic0 pic1 spurious] hb mb f fit lp(1) N' unfolding m(1) by auto
  have le: "length (madt_ioapics (mem s) (madt_entries (mem s) p)) \<le> N - 11" using N m by simp
  obtain t where t: "madt_loop d (MAP_MEMORY p + 44) (MAP_MEMORY p + ucast (field32 m (p + 4)) - 2) u = Some (Inr t)"
    "keeps_mm u t" "ioapics_usable d V t" "heap_budget t (N - 11 - k)" "mmio_budget t (N - 11 - k)" "kept_memory t m lo hi"
    "collected t (length (madt_slots es)) (madt_cpus m es) (madt_ioapics m es) (madt_overrides m es)"
    using loop_result[OF u(2) _ _ le _ refl, of d V] fit sm dev N(2) unfolding m by metis
  have ne: "madt_cpus m es \<noteq> []" "madt_ioapics m es \<noteq> []" using sm by (simp_all add: madt_small_def m(2) Let_def)
  note c = collected_nonempty[OF t(7) ne]
  have l: "device_page t (lapic t) lp" "lapic_physical t = lp" "madt t = MAP_MEMORY p" "idt t = idt s" "idt_base t = idt_base s"
    using u(2) device_page_keep[of u _ lp t] t(2) keeps_rest[OF t(2)] by (simp_all add: loop_ready_def keeps_mm_def)
  obtain vs where vs: "trace t = trace u @ vs" "\<forall>e \<in> set vs. version_event e" using t(2) by (auto simp: keeps_mm_def)
  have ag: "agree lo hi m (mem u)" "agree lo hi m (mem t)" using u(2) t(6) m(1) by (simp_all add: loop_ready_def kept_memory_def)
  note fields = table_fields(3)[OF ag(1) fit] table_fields(2)[OF ag(2) fit]
  let ?z = "t\<lparr>idt := apic_idt (idt t) pic0 pic1 spurious flags, trace := trace t @ finish_events V flags lp (take k (ioapics t))\<rparr>"
  have run: "apic_init d pic0 pic1 spurious s = Inr ?z"
    using fields t(1) c(1,2) apic_finish_run[OF t(3) l(1) lp(2), of pic0 pic1 spurious flags] l(5) i
    by (simp add: u(1) apic_tail_def c(3) N(2)[symmetric] fl[symmetric])
  have tr: "heap.truncate ?z = heap.truncate t" by (simp add: heap.truncate_def)
  have "ioapics_usable d V ?z" using t(3) core_heap(1)[OF tr] by (simp add: ioapics_usable_def ioapics_ready_def device_page_def)
  then have "apic_ready d V m p ?z"
    using t(7) l core_heap(1)[OF tr] by (simp add: apic_ready_def m(2)[symmetric] lp(1)[symmetric] Let_def collected_def device_page_def)
  then show ?thesis
    using that[OF run _ _ _ _ _ _ vs(2)] core_budget[OF tr] core_mmio[OF tr] t(4-6) l(4,5) vs(1) u(3) core_fields(1)[OF tr]
    by (simp add: kept_memory_def)
qed


section \<open>Every line is masked\<close>

lemma aligned_apart: "aligned 4096 a \<Longrightarrow> aligned 4096 b \<Longrightarrow> a \<noteq> b \<Longrightarrow> a \<noteq> b + 16"
  using mask_offset[of b 16] mask_aligned[of a] by auto

lemma other_ioapics:
  assumes "aligned 4096 base" and "\<forall>a \<in> set as. aligned 4096 (mmio_phys a) \<and> mmio_phys a \<noteq> base"
  shows "ioapic_regs base init (tr @ concat (map (ioapic_events V) as)) = ioapic_regs base init tr"
proof (rule regs_untouched)
  have "a \<noteq> base \<and> a + 16 \<noteq> base \<and> a \<noteq> base + 16" if "aligned 4096 a" "a \<noteq> base" for a
    using aligned_apart[OF that(1) assms(1) that(2)] aligned_apart[OF assms(1) that(1)] that(2) by metis
  then show "\<forall>e \<in> set (concat (map (ioapic_events V) as)). \<forall>a x. e = Mmio_Write a x \<longrightarrow> a \<noteq> base \<and> a \<noteq> base + 16"
    using assms(2) by (fastforce simp: ioapic_events_def entry_events_def)
qed

lemma all_events_set:
  assumes d: "distinct (map mmio_phys as)" and al: "\<forall>a \<in> set as. aligned 4096 (mmio_phys a)"
    and i: "i < length as" and j: "j \<le> last_entry V (as ! i)"
  shows "ioapic_regs (mmio_phys (as ! i)) init (tr @ concat (map (ioapic_events V) as)) (entry_register j) = ucast (entry_config (as ! i) j)"
    and "ioapic_regs (mmio_phys (as ! i)) init (tr @ concat (map (ioapic_events V) as)) (entry_register j + 1) =
      ucast (drop_bit 32 (entry_config (as ! i) j))"
proof -
  let ?a = "as ! i" and ?tr = "tr @ concat (map (ioapic_events V) (take i as))"
  have sp: "tr @ concat (map (ioapic_events V) as) = (?tr @ ioapic_events V ?a) @ concat (map (ioapic_events V) (drop (Suc i) as))"
    using arg_cong[OF id_take_nth_drop[OF i], of "\<lambda>xs. concat (map (ioapic_events V) xs)"] by simp
  have "\<forall>a \<in> set (drop (Suc i) as). aligned 4096 (mmio_phys a) \<and> mmio_phys a \<noteq> mmio_phys ?a"
    using d al i in_set_dropD[of _ "Suc i" as] by (auto simp: in_set_conv_nth[of _ "drop (Suc i) as"] distinct_conv_nth)
  then have rest: "ioapic_regs (mmio_phys ?a) init (tr @ concat (map (ioapic_events V) as)) =
      ioapic_regs (mmio_phys ?a) init (?tr @ ioapic_events V ?a)"
    unfolding sp using al i by (intro other_ioapics) simp_all
  show "ioapic_regs (mmio_phys ?a) init (tr @ concat (map (ioapic_events V) as)) (entry_register j) = ucast (entry_config ?a j)"
    "ioapic_regs (mmio_phys ?a) init (tr @ concat (map (ioapic_events V) as)) (entry_register j + 1) =
      ucast (drop_bit 32 (entry_config ?a j))"
    unfolding rest by (rule ioapic_events_set[OF j])+
qed

lemma entry_config_small:
  assumes "unat (gsi_start a) + 0x30 + j < 256"
  shows "ucast (entry_config a j) = (of_nat (unat (gsi_start a) + 0x30 + j) OR 0x10000 :: u32)"
    and "drop_bit 32 (entry_config a j) = 0"
proof -
  let ?n = "unat (gsi_start a) + 0x30 + j"
  have "(ucast (gsi_start a + ucast IRQ_BASE) :: u64) = of_nat (unat (gsi_start a) + 0x30)"
  proof -
    have "unat (gsi_start a + ucast IRQ_BASE) = unat (gsi_start a) + 0x30"
      using assms unat_add_lem[of "gsi_start a" "ucast IRQ_BASE"] by (simp add: IRQ_BASE_def)
    then show ?thesis by (metis of_nat_unat)
  qed
  then have c: "entry_config a j = of_nat ?n OR 0x10000" by (simp add: entry_config_def IOAPIC_MASK_def)
  have "(of_nat n :: u64) = ucast (of_nat n :: u32)" if "n < 256" for n
  proof -
    have "unat (of_nat n :: u32) = n" using that by (simp add: unat_of_nat)
    then show ?thesis by (metis of_nat_unat)
  qed
  from this[OF assms] have n: "(of_nat ?n :: u64) = ucast (of_nat ?n :: u32)" .
  then have cc: "entry_config a j = ucast (of_nat ?n OR 0x10000 :: u32)" unfolding c by (simp add: unsigned_or_eq)
  have "ucast (ucast x :: u64) = x" "drop_bit 32 (ucast x :: u64) = 0" for x :: u32
    by (rule bit_word_eqI, auto simp: bit_simps dest: bit_imp_le_length)+
  then show "ucast (entry_config a j) = (of_nat ?n OR 0x10000 :: u32)" "drop_bit 32 (entry_config a j) = 0"
    unfolding cc by blast+
qed


section \<open>The properties\<close>

text \<open>What the firmware provides: a MADT at \<open>p\<close>, found through the tables, in memory nobody else uses.\<close>

definition madt_platform :: "devices \<Rightarrow> (u64 \<Rightarrow> u32) \<Rightarrow> 'a acpi_scheme \<Rightarrow> nat \<Rightarrow> nat \<Rightarrow> u64 \<Rightarrow> bool" where
  "madt_platform d V s lo hi p \<longleftrightarrow> madt_found s lo hi p \<and> madt_fits (mem s) lo hi p \<and> madt_small (mem s) p \<and>
    madt_devices d V (mem s) p \<and> aligned 4096 (ucast (field32 (mem s) (p + 36)) :: u64)"

lemma usable_distinct:
  assumes "apic_ready d V m p t" and "distinct (map (\<lambda>(i, phys, g). phys) (madt_ioapics m (madt_entries m p)))" and "madt_small m p"
  shows "distinct (map mmio_phys (take (length (madt_ioapics m (madt_entries m p))) (ioapics t)))"
    and "unat (ioapic_count t) = length (madt_ioapics m (madt_entries m p))"
    and "unat (ioapic_count t) \<le> length (ioapics t)"
proof -
  let ?k = "length (madt_ioapics m (madt_entries m p))"
  have c: "collected t (length (madt_slots (madt_entries m p))) (madt_cpus m (madt_entries m p)) (madt_ioapics m (madt_entries m p))
      (madt_overrides m (madt_entries m p))" using assms(1) by (simp add: apic_ready_def Let_def)
  have proj: "map (\<lambda>(i, phys, g). phys) ios = map mmio_phys xs" if "map (\<lambda>a. (ioapic_id a, mmio_phys a, gsi_start a)) xs = ios" for xs ios
    using that by auto
  have "map (\<lambda>(i, phys, g). phys) (madt_ioapics m (madt_entries m p)) = map mmio_phys (take ?k (ioapics t))"
    by (rule proj) (use c in \<open>simp add: collected_def\<close>)
  then show "distinct (map mmio_phys (take ?k (ioapics t)))" using assms(2) by simp
  show n: "unat (ioapic_count t) = ?k" using collected_nonempty(3)[OF c] assms(3) by (simp add: madt_small_def Let_def)
  show "unat (ioapic_count t) \<le> length (ioapics t)" using c n by (simp add: collected_def)
qed




section \<open>A concrete machine\<close>

text \<open>
  An XSDT at 0x2000 that lists a MADT at 0x3000; it has an enabled and a disabled processor, an
  I/O APIC at 0xFEC00000 with 24 lines, an override, and the local APIC at 0xFEE00000.
\<close>

definition apic_bytes :: memory where
  "apic_bytes x =
    (if x = 0x2004 then 44 else if x = 0x2025 then 0x30
     else if x = 0x3000 then 0x41 else if x = 0x3001 then 0x50 else if x = 0x3002 then 0x49 else if x = 0x3003 then 0x43
     else if x = 0x3004 then 84 else if x = 0x3026 then 0xE0 else if x = 0x3027 then 0xFE else if x = 0x3028 then 1
     else if x = 0x302D then 8 else if x = 0x302F then 5 else if x = 0x3030 then 1
     else if x = 0x3035 then 8 else if x = 0x3037 then 6
     else if x = 0x303C then 1 else if x = 0x303D then 12 else if x = 0x3042 then 0xC0 else if x = 0x3043 then 0xFE
     else if x = 0x3048 then 2 else if x = 0x3049 then 10 else if x = 0x304C then 2 else 0)"

definition apic_machine :: apic where
  "apic_machine = heap.extend (small_heap\<lparr>mem := apic_bytes\<rparr>)
    (heap.more (madt_machine\<lparr>idt_base := 0xFFFFA00000000010, idt := replicate 256 zero_idt, acpi_xsdt := MAP_MEMORY 0x2000\<rparr>))"

definition apic_devices :: devices where
  "apic_devices = silent_devices\<lparr>dev_mmio := (\<lambda>_ _. 0x00170011)\<rparr>"

lemma apic_machine_fields:
  "heap.truncate apic_machine = heap.truncate (small_heap\<lparr>mem := apic_bytes\<rparr>)" "mem apic_machine = apic_bytes"
  "idt_base apic_machine \<noteq> 0" "root_table apic_machine = (MAP_MEMORY 0x2000, 8)"
  by (simp_all add: apic_machine_def madt_machine_def heap.defs root_table_def MAP_MEMORY_def PHYSICAL_MEMORY_def)

lemma apic_bytes_low: "a AND PAGE_MASK = 0x1000 \<Longrightarrow> apic_bytes a = 0"
proof -
  assume "a AND PAGE_MASK = 0x1000"
  then have "unat a div 4096 = 1" using unat_mask[of a] by simp
  then have "unat a < 0x2000" by simp
  then show ?thesis by (auto simp: apic_bytes_def)
qed

lemma apic_machine_budget: "heap_budget apic_machine 900" "mmio_budget apic_machine 900"
  using small_heap_with(1,2)[of apic_bytes, OF apic_bytes_low] core_budget[OF apic_machine_fields(1)]
    core_mmio(1)[OF apic_machine_fields(1)] by simp_all

lemma apic_machine_reserved:
  assumes "0x2000 \<le> unat x" and "unat x < 0x8000"
  shows "reserved apic_machine x"
proof -
  let ?s = "small_heap\<lparr>mem := apic_bytes\<rparr>"
  have "x AND PAGE_MASK \<noteq> 0x1000"
  proof
    assume "x AND PAGE_MASK = 0x1000"
    then have "unat x div 4096 = 1" using unat_mask[of x] by simp
    then show False using assms(1) dividend_less_times_div[of 4096 "unat x"] by simp
  qed
  then have fo: "foreign ?s x" using small_heap_with(3)[of apic_bytes, OF apic_bytes_low] assms(2) by blast
  have "data_step small_heap ?s"
    unfolding data_step_def by (rule exI[of _ apic_bytes]) (auto simp: small_heap_table_frame apic_bytes_low)
  from data_step_heap(2)[OF small_heap_heap_wf this] have "\<not> heap_owns ?s a" for a
    by (simp add: heap_owns_def small_heap_unmapped present_def)
  then have "\<not> heap_owns apic_machine a" for a using core_heap(3)[OF apic_machine_fields(1)] by simp
  then have "\<not> heap_frame apic_machine f" for f by (simp add: heap_frame_def)
  then show ?thesis using fo core_heap[OF apic_machine_fields(1)] by (simp add: reserved_def foreign_def)
qed

lemma apic_bytes_tables:
  "table_list apic_bytes 0x2000 8 = [0x3000]" "madt_length apic_bytes 0x3000 = 84"
  "field32 apic_bytes 0x3024 = 0xFEE00000" "field32 apic_bytes 0x3028 = 1"
  "madt_entries apic_bytes 0x3000 = [(0, 0x302C), (0, 0x3034), (1, 0x303C), (2, 0x3048)]"
proof -
  show "table_list apic_bytes 0x2000 8 = [0x3000]"
    by (simp add: table_list_def table_count_def load_def apic_bytes_def upt_rec)
  show l: "madt_length apic_bytes 0x3000 = 84" "field32 apic_bytes 0x3024 = 0xFEE00000" "field32 apic_bytes 0x3028 = 1"
    by (simp_all add: madt_length_def field32_def load_def apic_bytes_def upt_rec)
  have "madt_list apic_bytes 0x302C 0x3052 = [(0, 0x302C), (0, 0x3034), (1, 0x303C), (2, 0x3048)]"
    by (subst madt_list.simps, simp add: apic_bytes_def)+
  then show "madt_entries apic_bytes 0x3000 = [(0, 0x302C), (0, 0x3034), (1, 0x303C), (2, 0x3048)]"
    by (simp add: madt_entries_def l(1))
qed

lemma apic_bytes_lists:
  "madt_slots (madt_entries apic_bytes 0x3000) = [0x302C, 0x3034]"
  "madt_cpus apic_bytes (madt_entries apic_bytes 0x3000) = [(5, 0)]"
  "madt_ioapics apic_bytes (madt_entries apic_bytes 0x3000) = [(0, 0xFEC00000, 0)]"
  "madt_overrides apic_bytes (madt_entries apic_bytes 0x3000) =
    [\<lparr>override_source = 0, override_destination = 2, override_flags = 0\<rparr>]"
  by (simp_all add: apic_bytes_tables madt_slots_def madt_cpus_def madt_ioapics_def madt_overrides_def MADT_CPU_def
      MADT_IOAPIC_def MADT_OVERRIDE_def field32_def field16_def load_def apic_bytes_def upt_rec)

lemma apic_machine_platform: "madt_platform apic_devices (\<lambda>_. 0x00170011) apic_machine 0x2000 0x3200 0x3000"
proof -
  have "acpi_layout apic_bytes 0x2000 0x3200 0x2000 8"
    by (simp add: acpi_layout_def tables_mapped_def in_direct_map_def apic_bytes_tables(1))
  moreover have "filter (has_signature apic_bytes [0x41, 0x50, 0x49, 0x43]) (table_list apic_bytes 0x2000 8) = [0x3000]"
    by (simp add: apic_bytes_tables(1) has_signature_def load_def apic_bytes_def upt_rec)
  ultimately have "madt_found apic_machine 0x2000 0x3200 0x3000"
    using apic_machine_reserved unfolding madt_found_def by (auto simp: apic_machine_fields(2,4))
  moreover have "madt_small apic_bytes 0x3000"
    by (simp add: madt_small_def apic_bytes_lists Let_def MAX_CPUS_def MAX_IOAPICS_def MAX_OVERRIDES_def)
  moreover have "madt_devices apic_devices (\<lambda>_. 0x00170011) apic_bytes 0x3000"
    by (simp add: madt_devices_def apic_bytes_lists version_device_def apic_devices_def aligned_def)
  ultimately show ?thesis
    by (simp add: madt_platform_def apic_machine_fields madt_fits_def apic_bytes_tables aligned_def)
qed



end
