(* ===== verification/Screen_Buffer.thy ===== *)
theory Screen_Buffer
  imports Screen Small_Heap Heap_Frame
begin

text \<open>
  The back buffer of the boot screen, \<open>screen_setup_buffer\<close> of \<open>kernel/src/gfx/screen.c\<close>: the one
  function of the screen that calls the memory manager.  The state is the screen next to the
  state of the heap; the pixels are bytes of physical memory, behind the page tables.  The log output
  is left out.
\<close>

text \<open>The region is called ''framebuffer''.\<close>

definition framebuffer_name :: "u8 list" where
  "framebuffer_name = [0x66, 0x72, 0x61, 0x6D, 0x65, 0x62, 0x75, 0x66, 0x66, 0x65, 0x72]"

definition buffer_pages :: "u64 \<Rightarrow> u64" where
  "buffer_pages n = (n + 4096 - 1) div 4096"

definition screen_setup_buffer :: "screen_t \<times> 'a heap_scheme \<Rightarrow> halt + (screen_t \<times> 'a heap_scheme)" where
  "screen_setup_buffer = (\<lambda>(scr, s).
    bnd (kmalloc (ssize scr) s) (\<lambda>(back, s).
    if back = 0 then Inl (Panic ''unable to allocate a back buffer.'')
    else
      let scr = scr\<lparr>back_buffer := back\<rparr> in
      bnd (vmemcpy back (framebuffer scr) (ssize scr) s) (\<lambda>s.
      let scr = scr\<lparr>using_back_buffer := True, locked := False\<rparr> in
      bnd (vmm_create_mmio (framebuffer scr - PHYSICAL_MEMORY) (buffer_pages (ssize scr)) framebuffer_name s) (\<lambda>(v, s).
      let scr = scr\<lparr>framebuffer := v\<rparr> in
      bnd (vmm_set_wc v (buffer_pages (ssize scr)) s) (\<lambda>s. Inr (scr, s))))))"

section \<open>Copying device memory into the heap\<close>

text \<open>
  Stores to the heap that start in the state \<open>s0\<close>: whatever was reserved there keeps its
  contents all along.
\<close>

interpretation heap_fills: byte_memory vwrite8 view heap_owns "\<lambda>t. heap_wf t \<and> heap_step s0 t" heap_step
  for s0 :: "'a vmm_scheme"
proof unfold_locales
  fix s :: "'a vmm_scheme" and a b
  assume "heap_wf s \<and> heap_step s0 s" "heap_owns s a"
  then show "\<exists>t. vwrite8 a b s = Inr t \<and> heap_step s t \<and>
      (\<forall>c. heap_owns s c \<longrightarrow> view t c = (if c = a then b else view s c))" using heap_stores.put_ok by blast
qed (blast intro: heap_step_refl heap_step_trans heap_stores.frame_wf heap_stores.frame_owned)+

lemma vmemcpy_reserved:
  assumes wf: "heap_wf s" and own: "\<forall>i < unat n. heap_owns s (d + of_nat i)"
    and src: "\<forall>i < unat n. reserved s (p + of_nat i)" "unat p + unat n \<le> 2 ^ 39"
  shows "\<exists>t. vmemcpy d (p + PHYSICAL_MEMORY) n s = Inr t \<and> heap_step s t \<and>
    (\<forall>a. heap_owns s a \<longrightarrow> view t a = store (view s) d (load (mem s) p (unat n)) a)"
proof -
  have rd: "vread8 t (p + PHYSICAL_MEMORY + of_nat i) = Inr (load (mem s) p (unat n) ! i)"
    if t: "heap_wf t \<and> heap_step s t" and i: "i < unat n" for t i
  proof -
    have u: "unat (p + of_nat i) = unat p + i" using i src(2) by (intro unat_add_nat) simp
    have "unat (p + of_nat i + PHYSICAL_MEMORY) = unat p + i + unat PHYSICAL_MEMORY"
      using u i src(2) unat_add_less[of "p + of_nat i" PHYSICAL_MEMORY] by (simp add: PHYSICAL_MEMORY_def)
    then have "vmm_get_physical t (p + of_nat i + PHYSICAL_MEMORY) = Some (p + of_nat i)"
      using i src(2) by (simp add: vmm_get_physical_def word_le_nat_alt word_less_nat_alt MMIO_REGION_def PHYSICAL_MEMORY_def)
    moreover have "mem t (p + of_nat i) = mem s (p + of_nat i)"
      using t src(1) i wf by (simp add: heap_step_def reserved_def)
    ultimately show ?thesis using i by (simp add: vread8_def load_def add_ac)
  qed
  have "\<exists>t. vmemcpy d (p + PHYSICAL_MEMORY) n s = Inr t \<and> heap_step s t \<and>
    (\<forall>a. heap_owns s a \<longrightarrow> view t a = fold (\<lambda>i m. m(d + of_nat i := load (mem s) p (unat n) ! i)) [0..<unat n] (view s) a)"
    unfolding vmemcpy_def by (rule heap_fills.put_run[where ?s0.0 = s]) (use wf own rd in \<open>auto intro: heap_step_refl\<close>)
  then show ?thesis using unat_less_size[of n] by (subst (asm) fold_store) auto
qed

section \<open>Device memory and the heap\<close>

lemma grows_heap:
  assumes wf: "heap_wf s" and gr: "grows s t" and eq: "\<And>v. KERNEL_HEAP \<le> v \<Longrightarrow> vmm_get_page t v = vmm_get_page s v"
  shows "heap_wf t" and "heap_owns t = heap_owns s" and "heap_owns s a \<Longrightarrow> view t a = view s a"
proof -
  show "heap_wf t" by (rule heap_wf_grows[OF wf gr eq])
  show "heap_owns t = heap_owns s" using eq by (auto simp: heap_owns_def fun_eq_iff)
  show "view t a = view s a" if "heap_owns s a"
  proof -
    have e: "vtrans t a = vtrans s a" using eq that by (simp add: vtrans_def heap_owns_def)
    have "pmm_get_page s (vtrans s a AND PAGE_MASK)" "\<not> table_frame s (vtrans s a AND PAGE_MASK)"
      using heap_wfD(3,4)[OF wf that] by (simp_all add: vtrans_mask)
    then show ?thesis using gr unfolding grows_def view_def e by blast
  qed
qed

abbreviation wc_flags :: u64 where
  "wc_flags \<equiv> PAGE_PRESENT OR PAGE_WRITE OR PAGE_WRITE_COMBINE"

lemma wc_entry:
  assumes "aligned 4096 f"
  shows "((f OR PAGE_PRESENT OR PAGE_WRITE OR PAGE_UNCACHEABLE) AND NOT PAGE_UNCACHEABLE) OR PAGE_WRITE_COMBINE = f OR wc_flags"
proof -
  have u: "bit PAGE_UNCACHEABLE n \<longleftrightarrow> n = 4" for n using bit_exp_iff[of 4 n, where 'a = u64] by (auto simp: PAGE_UNCACHEABLE_def)
  have p: "bit PAGE_PRESENT n \<longleftrightarrow> n = 0" for n using bit_exp_iff[of 0 n, where 'a = u64] by (auto simp: PAGE_PRESENT_def)
  have w: "bit PAGE_WRITE n \<longleftrightarrow> n = 1" for n using bit_exp_iff[of 1 n, where 'a = u64] by (auto simp: PAGE_WRITE_def)
  have "\<not> bit f 4"
  proof
    assume "bit f 4"
    then have "bit (f AND PAGE_MASK) 4" using assms by (simp add: mask_aligned)
    then show False by (simp add: bit_and_iff PAGE_MASK_bit)
  qed
  then show ?thesis by (intro bit_word_eqI) (auto simp: bit_or_iff bit_and_iff bit_not_iff u p w)
qed

text \<open>Mapping device memory and making it write-combining: every byte, and nothing of the heap.\<close>

lemma map_write_combining:
  fixes s :: "'a heap_scheme"
  assumes wf: "heap_wf s" and mx: "vmm_mutex s = MUTEX_FREE" and k: "k + unat n \<le> 2 ^ 27" "0 < unat n"
    and fr: "range_free s (MMIO_REGION + of_nat (4096 * k)) (unat n)" and mem: "3 * unat n \<le> card (free_frames s)"
    and name: "length name < 64" "mmio_region_count s < MAX_MMIO" and p: "aligned 4096 p" "unat p + 4096 * unat n \<le> 2 ^ 64"
  obtains v u t where "vmm_create_mmio p n name s = Inr (v, u)" "vmm_set_wc v n u = Inr t"
    "heap_wf t" "heap_owns t = heap_owns s" "\<forall>a. heap_owns s a \<longrightarrow> view t a = view s a"
    "\<forall>i < 4096 * unat n. vmm_get_page t (v + of_nat i) AND 0xFFF = wc_flags \<and> vmm_get_physical t (v + of_nat i) = Some (p + of_nat i)"
proof -
  have rng: "in_range MMIO_REGION (k + unat n)" by (rule mmio_rng[OF k(1)])
  note vwf = heap_wfD(1)[OF wf]
  obtain v u where u: "vmm_create_mmio p n name s = Inr (v, u)"
    using vmm_create_mmio_returns[OF vwf mx rng k(2) fr mem name] by blast
  note cr = vmm_create_mmio_spec[OF vwf rng k(2) fr u]
  obtain j where j: "j \<le> k" "v = MMIO_REGION + of_nat (4096 * j)" using cr(6) by blast
  obtain m w r c where w: "grows (s\<lparr>vmm_mutex := m\<rparr>) w" "u = w\<lparr>mmio_regions := r, mmio_region_count := c, vmm_mutex := release (vmm_mutex w)\<rparr>"
    using cr(7) by blast
  let ?e = "\<lambda>i. p + of_nat (4096 * i)" and ?va = "\<lambda>i. v + of_nat (4096 * i)"
  have pr: "\<forall>i < unat n. present (vmm_get_page u (?va i))"
    using cr(4) present_or[of "PAGE_PRESENT OR PAGE_WRITE OR PAGE_UNCACHEABLE"]
    by (simp add: present_def PAGE_PRESENT_def PAGE_WRITE_def PAGE_UNCACHEABLE_def)
  obtain t where t: "vmm_set_wc v n u = Inr t" using vmm_set_wc_returns[OF cr(1,2) pr] by blast
  note sp = vmm_set_wc_spec[OF cr(1,2) t]
  have hi: "vpn a \<noteq> vpn (?va i)" if "KERNEL_HEAP \<le> a" "i < unat n" for a i
  proof (rule mmio_address(6)[OF _ _ that(1)])
    show "j + i < 2 ^ 27" using j(1) k(1) that(2) by simp
    show "?va i = MMIO_REGION + of_nat (4096 * (j + i))" using j(2) by (simp add: algebra_simps)
  qed
  have e1: "vmm_get_page w a = vmm_get_page s a" if "KERNEL_HEAP \<le> a" for a
  proof -
    have "vmm_get_page u a = vmm_get_page w a" by (rule vmm_get_page_mem) (simp_all add: w(2))
    then show ?thesis using cr(5)[OF heap_not_direct[OF that]] hi[OF that] by simp
  qed
  have e2: "vmm_get_page t a = vmm_get_page u a" if "KERNEL_HEAP \<le> a" for a
    using sp(3)[OF heap_not_direct[OF that]] hi[OF that] by blast
  have wf0: "heap_wf (s\<lparr>vmm_mutex := m\<rparr>)" using wf by simp
  have e0: "vmm_get_page w a = vmm_get_page (s\<lparr>vmm_mutex := m\<rparr>) a" if "KERNEL_HEAP \<le> a" for a using e1[OF that] by simp
  note g1 = grows_heap[OF wf0 w(1) e0]
  have h1: "heap_wf w" "heap_owns w = heap_owns s" "heap_owns s a \<Longrightarrow> view w a = view s a" for a
    using g1 mm_cong(3,4)[of "s\<lparr>vmm_mutex := m\<rparr>" s] by simp_all
  note equ = mm_cong[of u w]
  have hu: "heap_wf u" "heap_owns u = heap_owns w" "view u = view w" using h1(1) equ by (simp_all add: w(2))
  note h2 = grows_heap[OF hu(1) sp(4) e2]
  have "vmm_get_page t (v + of_nat i) AND 0xFFF = wc_flags \<and> vmm_get_physical t (v + of_nat i) = Some (p + of_nat i)"
    if i: "i < 4096 * unat n" for i
  proof -
    let ?q = "i div 4096"
    have q: "?q < unat n" using i by (simp add: less_mult_imp_div_less mult.commute)
    have "unat (?e ?q) = unat p + 4096 * ?q" using p(2) i by (intro unat_add_nat) simp
    then have al: "aligned 4096 (?e ?q)" using p(1) by (simp add: aligned_def)
    have "vmm_get_page t (?va ?q) = ?e ?q OR wc_flags" using sp(2)[OF q] cr(4)[OF q] wc_entry[OF al] by simp
    moreover have "aligned 4096 v" using mmio_address(5)[OF _ j(2)] j(1) k by simp
    moreover have "wc_flags AND PAGE_MASK = 0" "present wc_flags"
      by (simp_all add: PAGE_PRESENT_def PAGE_WRITE_def PAGE_WRITE_COMBINE_def PAGE_MASK_def present_def)
    ultimately have g: "vmm_get_page t (v + of_nat i) = ?e ?q OR wc_flags"
      and ph: "vmm_get_physical t (v + of_nat i) = Some (?e ?q + of_nat (i mod 4096))"
      using page_physical[OF _ al _ _ cr(2) _ i] by blast+
    have "?e ?q + of_nat (i mod 4096) = p + of_nat (4096 * ?q + i mod 4096)" by (simp only: of_nat_add add.assoc)
    then have "?e ?q + of_nat (i mod 4096) = p + of_nat i" by simp
    moreover have "?e ?q AND 0xFFF = 0" using al unat_low12[of "?e ?q"] by (simp add: aligned_def unat_eq_0 dvd_eq_mod_eq_0)
    then have "(?e ?q OR wc_flags) AND 0xFFF = wc_flags"
      by (simp add: bit.conj_disj_distrib2) (simp add: PAGE_PRESENT_def PAGE_WRITE_def PAGE_WRITE_COMBINE_def)
    ultimately show ?thesis using g ph by simp
  qed
  then show ?thesis using that[OF u t] h1 h2 hu by simp
qed

lemma buffer_pages_unat:
  assumes "unat n < 2 ^ 32" and "0 < n"
  shows "unat (buffer_pages n) = (unat n + 4095) div 4096" and "0 < unat (buffer_pages n)" and "unat n \<le> 4096 * unat (buffer_pages n)"
proof -
  have "unat (n + 4096 - 1) = unat n + 4095" using assms(1) unat_add_nat[of n 4095] by (simp add: add_diff_eq[symmetric])
  then show u: "unat (buffer_pages n) = (unat n + 4095) div 4096" by (simp add: buffer_pages_def unat_div)
  have "0 < unat n" using assms(2) by (simp add: word_less_nat_alt)
  then show "0 < unat (buffer_pages n)" "unat n \<le> 4096 * unat (buffer_pages n)" unfolding u by simp_all
qed

lemma vmm_get_physical_page: "vmm_get_page t w = vmm_get_page s w \<Longrightarrow> vmm_get_physical t w = vmm_get_physical s w"
  by (simp add: vmm_get_physical_def)

lemma outside_range_free:
  assumes "outside s t" and "k + n \<le> 2 ^ 27" and "range_free s (MMIO_REGION + of_nat (4096 * k)) n"
  shows "range_free t (MMIO_REGION + of_nat (4096 * k)) n"
  unfolding range_free_def
proof (intro allI impI)
  fix i assume i: "i < n"
  let ?w = "MMIO_REGION + of_nat (4096 * k) + of_nat (4096 * i)"
  have "k + i < 2 ^ 27" "?w = MMIO_REGION + of_nat (4096 * (k + i))" using assms(2) i by (simp_all add: algebra_simps)
  note w = mmio_address(2,3)[OF this]
  have "vmm_get_page t ?w = vmm_get_page s ?w" using assms(1) w by (simp add: outside_def)
  then have "vmm_get_physical t ?w = vmm_get_physical s ?w" by (rule vmm_get_physical_page)
  then show "vmm_get_physical t ?w = None" using assms(3)[unfolded range_free_def, rule_format, OF i] by simp
qed

section \<open>Properties\<close>

text \<open>The first half of \<open>screen_setup_buffer\<close>: the allocation of the back buffer and the copy.\<close>

lemma picture_copied:
  assumes "heap_budget s N" and "unat (heap_pages n) + pages \<le> N" and "unat n < 2 ^ 32" and "unat fb + unat n \<le> 2 ^ 39"
    and "\<forall>i < unat n. reserved s (fb + of_nat i)"
  obtains q s1 s2 where "kmalloc n s = Inr (q, s1)" "q \<noteq> 0" "vmemcpy q (fb + PHYSICAL_MEMORY) n s1 = Inr s2"
    "\<forall>i < unat n. heap_owns s2 (q + of_nat i) \<and> \<not> heap_owns s (q + of_nat i) \<and> view s2 (q + of_nat i) = mem s (fb + of_nat i)"
    "heap_wf s2" "outside s s2" "3 * pages \<le> card (free_frames s2)" "vmm_mutex s2 = MUTEX_FREE"
    "mmio_region_count s2 = mmio_region_count s"
proof -
  have le: "unat (heap_pages n) \<le> N" using assms(2) by simp
  obtain q s1 where s1: "kmalloc n s = Inr (q + 16, s1)" "q + 16 \<noteq> 0" "allocated s s1 q n" "same_rest s s1" "outside s s1"
    "heap_budget s1 (N - unat (heap_pages n))"
    using kmalloc_budget_outside[OF assms(1,3) le] .
  have ok1: "heap_ok s1" and wf1: "heap_wf s1" using s1(3) by (simp_all add: allocated_def heap_ok_def)
  have hp: "unat n + 16 \<le> 4096 * unat (heap_pages n)" using heap_pages_unat(1)[of n] assms(3) by simp
  have own: "heap_owns s1 (q + 16 + of_nat i) \<and> \<not> heap_owns s (q + 16 + of_nat i)" if "i < unat n" for i
  proof -
    have "16 + i < 4096 * unat (heap_pages n)" using that hp by simp
    then have "heap_owns s1 (q + of_nat (16 + i)) \<and> \<not> heap_owns s (q + of_nat (16 + i))"
      using s1(3) unfolding allocated_def heap_block_def by blast
    then show ?thesis by (simp add: add.assoc)
  qed
  have fb: "reserved s1 (fb + of_nat i)" "mem s1 (fb + of_nat i) = mem s (fb + of_nat i)" if "i < unat n" for i
    using assms(5) s1(5) that by (simp_all add: outside_def)
  obtain s2 where s2: "vmemcpy (q + 16) (fb + PHYSICAL_MEMORY) n s1 = Inr s2" "heap_step s1 s2"
    "\<forall>a. heap_owns s1 a \<longrightarrow> view s2 a = store (view s1) (q + 16) (load (mem s1) fb (unat n)) a"
    using vmemcpy_reserved[OF wf1, of n "q + 16" fb] own fb assms(4) by auto
  note h2 = data_step_heap[OF wf1 heap_step_data[OF s2(2)]]
  obtain m where m: "s2 = s1\<lparr>mem := m\<rparr>" using heap_step_data[OF s2(2)] by (auto simp: data_step_def)
  have pic: "view s2 (q + 16 + of_nat i) = mem s (fb + of_nat i)" if "i < unat n" for i
    using s2(3) own[OF that] fb(2)[OF that] that unat_less_size[of n] by (simp add: store_def load_def unat_of_nat)
  have out: "outside s s2" using outside_trans[OF s1(5) heap_step_outside[OF wf1 s2(2)]] .
  have "pages \<le> N - unat (heap_pages n)" using assms(2) by simp
  then have "3 * pages \<le> card (free_frames s1)" using s1(6) by (simp add: heap_budget_def)
  moreover have "free_frames s2 = free_frames s1" by (simp add: m free_frames_def)
  ultimately have card: "3 * pages \<le> card (free_frames s2)" by simp
  have "vmm_mutex s2 = MUTEX_FREE" "mmio_region_count s2 = mmio_region_count s"
    using ok1 s1(4) by (simp_all add: m heap_ok_def same_rest_def)
  then show ?thesis using that[OF s1(1,2) s2(1) _ h2(1) out card] own pic h2(2) by simp
qed


definition pixel_heap :: heap where
  "pixel_heap = small_heap\<lparr>mem := (\<lambda>a. if a = 0x2010 then 7 else 0)\<rparr>"

definition pixel_screen :: screen_t where
  "pixel_screen = vga_screen\<lparr>ssize := 0x1000, framebuffer := 0xFFFF800000002000\<rparr>"


end
