(* ===== verification/Host.thy ===== *)
theory Host
  imports Timer Screen_Buffer
begin

text \<open>
  What the kernel offers to the ACPI interpreter, \<open>kernel/src/acpi/system.c\<close>, and the interrupt
  of the ACPI hardware, \<open>kernel/src/acpi/sci.c\<close>.  The interpreter is a submodule that is not in the
  repository: its constant \<open>LAI_DEBUG_LOG\<close> and its functions \<open>lai_enable_acpi\<close> and \<open>lai_read_event\<close>
  are parameters.
\<close>

section \<open>Services for the interpreter\<close>

text \<open>\<open>acpi_str\<close> is the address of the string ''acpi''; \<open>args\<close> are the values of the argument list.\<close>

definition laihost_log ::
  "(nat \<Rightarrow> u8) \<Rightarrow> frame \<Rightarrow> u64 \<Rightarrow> u32 \<Rightarrow> u32 \<Rightarrow> u64 \<Rightarrow> u64 list \<Rightarrow> debug \<Rightarrow> halt + debug" where
  "laihost_log font fr acpi_str LAI_DEBUG_LOG level fmt args s =
    bnd (debug_vprintf font fr (if level = LAI_DEBUG_LOG then LEVEL_DEBUG else LEVEL_WARN) acpi_str fmt args s) (\<lambda>(_, s). Inr s)"

text \<open>
  \<open>laihost_panic\<close> hands its argument list to the variadic \<open>debug_printf\<close>, so that the pointer \<open>va\<close> to
  the list is the only argument that is printed.
\<close>

definition laihost_panic :: "(nat \<Rightarrow> u8) \<Rightarrow> frame \<Rightarrow> u64 \<Rightarrow> u64 \<Rightarrow> u64 \<Rightarrow> debug \<Rightarrow> halt + debug" where
  "laihost_panic font fr acpi_str fmt va s =
    bnd (debug_printf font fr LEVEL_ERROR acpi_str fmt [va] s) (\<lambda>_. Inl (Panic ''acpi''))"

definition laihost_scan :: "u8 list \<Rightarrow> u64 \<Rightarrow> 'a acpi_scheme \<Rightarrow> halt + u64" where
  "laihost_scan name index s =
    bnd (acpi_find_table name index s) (\<lambda>(st, ptr). Inr (if st = ACPI_SUCCESS then ptr else 0))"

definition laihost_malloc :: "u64 \<Rightarrow> 'a heap_scheme \<Rightarrow> halt + (u64 \<times> 'a heap_scheme)" where
  "laihost_malloc n s = kmalloc n s"

definition laihost_realloc :: "u64 \<Rightarrow> u64 \<Rightarrow> 'a heap_scheme \<Rightarrow> halt + (u64 \<times> 'a heap_scheme)" where
  "laihost_realloc ptr n s = krealloc ptr n s"

definition laihost_free :: "u64 \<Rightarrow> 'a heap_scheme \<Rightarrow> halt + 'a heap_scheme" where
  "laihost_free ptr s = kfree ptr s"

definition map_pages :: "u64 \<Rightarrow> u64" where
  "map_pages n = drop_bit 12 (n + (4096 - 1))"

definition laihost_map :: "u64 \<Rightarrow> u64 \<Rightarrow> 'a vmm_scheme \<Rightarrow> halt + (u64 \<times> 'a vmm_scheme)" where
  "laihost_map physical n s = vmm_create_mmio physical (map_pages n) [0x61, 0x63, 0x70, 0x69] s"

definition laihost_outb :: "u16 \<Rightarrow> u8 \<Rightarrow> 'a machine_scheme \<Rightarrow> 'a machine_scheme" where
  "laihost_outb port data = outb port data"

definition laihost_outw :: "u16 \<Rightarrow> u16 \<Rightarrow> 'a machine_scheme \<Rightarrow> 'a machine_scheme" where
  "laihost_outw port data = outw port data"

definition laihost_outd :: "u16 \<Rightarrow> u32 \<Rightarrow> 'a machine_scheme \<Rightarrow> 'a machine_scheme" where
  "laihost_outd port data = outd port data"

definition laihost_inb :: "devices \<Rightarrow> u16 \<Rightarrow> 'a machine_scheme \<Rightarrow> u8 \<times> 'a machine_scheme" where
  "laihost_inb d port = inb d port"

definition laihost_inw :: "devices \<Rightarrow> u16 \<Rightarrow> 'a machine_scheme \<Rightarrow> u16 \<times> 'a machine_scheme" where
  "laihost_inw d port = inw d port"

definition laihost_ind :: "devices \<Rightarrow> u16 \<Rightarrow> 'a machine_scheme \<Rightarrow> u32 \<times> 'a machine_scheme" where
  "laihost_ind d port = ind d port"

definition laihost_pci_write :: "u8 \<Rightarrow> u8 \<Rightarrow> u8 \<Rightarrow> u16 \<Rightarrow> u32 \<Rightarrow> 'a machine_scheme \<Rightarrow> 'a machine_scheme" where
  "laihost_pci_write bus slot function offset data s =
    (let dev = \<lparr>dev_bus = bus, dev_slot = slot, dev_function = function\<rparr> in pci_write dev (ucast offset) data s)"

definition laihost_pci_read :: "devices \<Rightarrow> u8 \<Rightarrow> u8 \<Rightarrow> u8 \<Rightarrow> u16 \<Rightarrow> 'a machine_scheme \<Rightarrow> u32 \<times> 'a machine_scheme" where
  "laihost_pci_read d bus slot function offset s =
    (let dev = \<lparr>dev_bus = bus, dev_slot = slot, dev_function = function\<rparr> in pci_read d dev (ucast offset) s)"

definition laihost_sleep :: "('a timer_scheme \<Rightarrow> 'a timer_scheme) \<Rightarrow> u64 \<Rightarrow> 'a timer_scheme \<Rightarrow> halt + 'a timer_scheme" where
  "laihost_sleep hlt time = timer_sleep hlt time"

section \<open>The interrupt of the ACPI hardware\<close>

text \<open>
  The result is \<open>acpi_sci_line\<close> and the state.  The line in the FADT has 16 bits, the
  parameter of \<open>irq_configure\<close> eight.
\<close>

definition acpi_install_irq ::
  "devices \<Rightarrow> (u32 \<Rightarrow> 'a timer_scheme \<Rightarrow> halt + 'a timer_scheme) \<Rightarrow> u64 \<Rightarrow> 'a timer_scheme \<Rightarrow> halt + (u8 \<times> 'a timer_scheme)" where
  "acpi_install_irq d lai_enable_acpi acpi_sci_stub s =
    bnd (vread16 s (acpi_fadt s + 46)) (\<lambda>sci_irq.
    bnd (irq_configure d (ucast sci_irq) acpi_sci_stub (LEVEL OR ACTIVE_LOW) s) (\<lambda>(line, s).
    bnd (irq_unmask d line s) (\<lambda>s.
    bnd (lai_enable_acpi 1 s) (\<lambda>s.
    Inr (line, s)))))"

definition acpi_sci :: "('a timer_scheme \<Rightarrow> halt + 'a timer_scheme) \<Rightarrow> 'a timer_scheme \<Rightarrow> halt + 'a timer_scheme" where
  "acpi_sci lai_read_event s = lai_read_event s"

section \<open>Where mapped bytes are\<close>

lemma split_low: "p = (p AND PAGE_MASK) OR (p AND 0xFFF)" "(p AND 0xFFF) AND PAGE_MASK = 0"
proof -
  have low: "(0xFFF :: u64) = mask 12" by (simp add: mask_eq_exp_minus_1)
  show "p = (p AND PAGE_MASK) OR (p AND 0xFFF)" "(p AND 0xFFF) AND PAGE_MASK = 0"
    unfolding low by (auto intro!: bit_word_eqI simp: bit_simps PAGE_MASK_bit)
qed

lemma page_plus_low:
  "p + of_nat (4096 * q) = ((p AND PAGE_MASK) + of_nat (4096 * q)) OR (p AND 0xFFF)"
  "aligned 4096 ((p AND PAGE_MASK) + of_nat (4096 * q))"
proof -
  have "aligned 4096 (of_nat (4096 * q))" by (auto simp: aligned_def unat_of_nat simp del: of_nat_mult intro!: dvd_mod)
  then show al: "aligned 4096 ((p AND PAGE_MASK) + of_nat (4096 * q))" by (intro aligned_add) simp_all
  let ?f = "(p AND PAGE_MASK) + of_nat (4096 * q)"
  have "?f AND (p AND 0xFFF) = (?f AND PAGE_MASK) AND (p AND 0xFFF)" using al by (simp add: mask_aligned)
  also have "\<dots> = ?f AND ((p AND 0xFFF) AND PAGE_MASK)" by (simp only: and.assoc and.commute and.left_commute)
  finally have "?f AND (p AND 0xFFF) = 0" by (simp only: split_low(2) and_zero_eq)
  then have "?f OR (p AND 0xFFF) = ?f + (p AND 0xFFF)" by (simp add: disjunctive_add_eq_or)
  moreover have "(p AND PAGE_MASK) + (p AND 0xFFF) = p"
  proof -
    have "(p AND PAGE_MASK) AND (p AND 0xFFF) = p AND ((p AND 0xFFF) AND PAGE_MASK)" by (simp add: ac_simps)
    then have "(p AND PAGE_MASK) AND (p AND 0xFFF) = 0" by (simp only: split_low(2) and_zero_eq)
    then show ?thesis using split_low(1)[of p] by (simp add: disjunctive_add_eq_or)
  qed
  ultimately show "p + of_nat (4096 * q) = ?f OR (p AND 0xFFF)" by (simp add: algebra_simps)
qed

lemma map_pages_unat:
  assumes "unat n + 4095 < 2 ^ 64" and "0 < n"
  shows "unat n \<le> 4096 * unat (map_pages n)" and "0 < unat (map_pages n)"
proof -
  have "unat (n + 4095) = unat n + 4095" using assms(1) unat_add_nat[of n 4095] by simp
  then have u: "unat (map_pages n) = (unat n + 4095) div 4096" by (simp add: map_pages_def drop_bit_eq_div unat_div)
  have "0 < unat n" using assms(2) by (simp add: word_less_nat_alt)
  then show "unat n \<le> 4096 * unat (map_pages n)" "0 < unat (map_pages n)" unfolding u by simp_all
qed

section \<open>Properties\<close>

text \<open>C38: \<open>laihost_map\<close> maps \<open>n\<close> bytes of device memory, uncached, but from the start of the page: byte
  \<open>i\<close> of the result is byte \<open>i\<close> of the page of \<open>p\<close>.  For an address that is not page-aligned the offset in the
  page is lost, and its bits end up among the flags of the page table entry.\<close>

theorem laihost_map_rounds_down:
  assumes "vmm_wf s" and "vmm_mutex s = MUTEX_FREE" and "0 < n" and "unat n + 4095 < 2 ^ 64" and "k + unat (map_pages n) \<le> 2 ^ 27"
    and "range_free s (MMIO_REGION + of_nat (4096 * k)) (unat (map_pages n))" and "3 * unat (map_pages n) \<le> card (free_frames s)"
    and "mmio_region_count s < MAX_MMIO"
  shows "\<exists>v t. laihost_map p n s = Inr (v, t) \<and> MMIO_REGION \<le> v \<and>
    (\<forall>i < unat n. vmm_get_physical t (v + of_nat i) = Some ((p AND PAGE_MASK) + of_nat i) \<and>
      vmm_get_page t (v + of_nat i) AND 0xFFF = (p AND 0xFFF) OR PAGE_PRESENT OR PAGE_WRITE OR PAGE_UNCACHEABLE)"
proof -
  note mp = map_pages_unat[OF assms(4,3)]
  have rng: "in_range MMIO_REGION (k + unat (map_pages n))" by (rule mmio_rng[OF assms(5)])
  have name: "length [0x61 :: u8, 0x63, 0x70, 0x69] < 64" by simp
  obtain v t where t: "vmm_create_mmio p (map_pages n) [0x61, 0x63, 0x70, 0x69] s = Inr (v, t)"
    using vmm_create_mmio_returns[OF assms(1,2) rng mp(2) assms(6,7) name assms(8)] by blast
  note sp = vmm_create_mmio_spec[OF assms(1) rng mp(2) assms(6) t]
  obtain j where j: "j \<le> k" "v = MMIO_REGION + of_nat (4096 * j)" using sp(6) by blast
  have al: "aligned 4096 v" using mmio_address(5)[OF _ j(2)] j(1) assms(5) mp(2) by simp
  let ?fl = "(p AND 0xFFF) OR device_flags"
  have fl: "?fl AND PAGE_MASK = 0" "present ?fl"
    using split_low(2)[of p] present_or[of device_flags "p AND 0xFFF"]
    by (simp_all add: bit.conj_disj_distrib2)
      (simp_all add: PAGE_PRESENT_def PAGE_WRITE_def PAGE_UNCACHEABLE_def PAGE_MASK_def present_def)
  have "vmm_get_physical t (v + of_nat i) = Some ((p AND PAGE_MASK) + of_nat i) \<and> vmm_get_page t (v + of_nat i) AND 0xFFF = ?fl"
    if "i < unat n" for i
  proof -
    have i: "i < 4096 * unat (map_pages n)" using that mp(1) by simp
    let ?q = "i div 4096"
    let ?f = "(p AND PAGE_MASK) + of_nat (4096 * ?q)"
    have q: "?q < unat (map_pages n)" using i by (simp add: less_mult_imp_div_less mult.commute)
    have e: "vmm_get_page t (v + of_nat (4096 * ?q)) = ?f OR ?fl"
      using sp(4)[OF q] page_plus_low(1)[of p ?q] by (simp only: or.assoc)
    note pp = page_physical[OF e page_plus_low(2) fl sp(2) al i]
    have "?f + of_nat (i mod 4096) = (p AND PAGE_MASK) + of_nat (4096 * ?q + i mod 4096)" by (simp only: of_nat_add add.assoc)
    then have "?f + of_nat (i mod 4096) = (p AND PAGE_MASK) + of_nat i" by simp
    moreover have "(?f OR ?fl) AND 0xFFF = ?fl"
    proof -
      have "?f AND 0xFFF = 0" using page_plus_low(2)[of p ?q] unat_low12[of ?f] by (simp add: aligned_def unat_eq_0 dvd_eq_mod_eq_0)
      moreover have "device_flags AND 0xFFF = device_flags" by (simp add: PAGE_PRESENT_def PAGE_WRITE_def PAGE_UNCACHEABLE_def)
      moreover have "(p AND 0xFFF) AND 0xFFF = p AND 0xFFF" by (simp add: and.assoc)
      ultimately show ?thesis by (simp only: bit.conj_disj_distrib2 or.left_neutral)
    qed
    ultimately show ?thesis using pp by simp
  qed
  moreover have "MMIO_REGION \<le> v" using sp(2) by (simp add: in_range_def)
  ultimately show ?thesis using t by (intro exI[of _ v] exI[of _ t]) (simp add: laihost_map_def)
qed

theorem laihost_map_rounds_down_witness:
  "\<exists>v t. laihost_map 0xE0014 0x24 small_heap = Inr (v, t) \<and> vmm_get_physical t v = Some 0xE0000 \<and>
    vmm_get_page t v AND PAGE_USER \<noteq> 0"
proof -
  have pg: "unat (map_pages 0x24) = 1" by (simp add: map_pages_def)
  have rng: "in_range MMIO_REGION (0 + 1)" by (simp add: in_range_def MMIO_REGION_def)
  note fr = small_heap_range_free0[OF rng, folded pg]
  have c: "0 < (0x24 :: u64)" "unat (0x24 :: u64) + 4095 < 2 ^ 64" "0 + unat (map_pages 0x24) \<le> 2 ^ 27"
    "3 * unat (map_pages 0x24) \<le> card (free_frames small_heap)" "mmio_region_count small_heap < MAX_MMIO"
    using small_heap_free by (simp_all add: pg MAX_MMIO_def)
  obtain v t where t: "laihost_map 0xE0014 0x24 small_heap = Inr (v, t)"
    "\<forall>i < unat (0x24 :: u64). vmm_get_physical t (v + of_nat i) = Some ((0xE0014 AND PAGE_MASK) + of_nat i) \<and>
      vmm_get_page t (v + of_nat i) AND 0xFFF = (0xE0014 AND 0xFFF) OR PAGE_PRESENT OR PAGE_WRITE OR PAGE_UNCACHEABLE"
    using laihost_map_rounds_down[OF small_heap_wf _ c(1-3) fr c(4,5), of "0xE0014"] by auto
  have l: "vmm_get_page t v AND 0xFFF = 0x17" "vmm_get_physical t v = Some 0xE0000"
    using t(2)[rule_format, of 0] by (simp_all add: PAGE_PRESENT_def PAGE_WRITE_def PAGE_UNCACHEABLE_def PAGE_MASK_def)
  have "vmm_get_page t v AND PAGE_USER = (vmm_get_page t v AND 0xFFF) AND PAGE_USER"
    by (simp add: PAGE_USER_def and.assoc)
  then have "vmm_get_page t v AND PAGE_USER \<noteq> 0" by (simp add: l(1) PAGE_USER_def)
  then show ?thesis using t(1) l(2) by blast
qed

text \<open>\<open>acpi_install_irq\<close> sends the interrupt that the FADT names to the ACPI handler: with the line's I/O
  APIC mapped and behaving as documented, the gate of the line's vector is the handler, the redirection entry has the
  polarity and trigger mode of the override (or level and active low without one) and is
  unmasked, nothing else in the I/O APIC changes; only then the interpreter is told to
  enable ACPI, and its outcome is the outcome.\<close>

theorem acpi_install_irq_connects_handler:
  assumes "vread16 s (acpi_fadt s + 46) = Inr sci_irq" and "find_override s (ucast sci_irq) (LEVEL OR ACTIVE_LOW) = (line, flags)"
    and "\<not> ioapic_count s < get_ioapic s line" and "ioapic_mapped s (get_ioapic s line) base" and "ioapic_device d base init"
    and "idt_base s \<noteq> 0"
  shows "\<exists>u. (\<forall>enable. acpi_install_irq d enable stub s = bnd (enable 1 u) (\<lambda>s. Inr (line, s))) \<and>
    idt u = (idt s)[unat (line + IRQ_BASE) := idt_gate stub] \<and> mem u = mem s \<and>
    entry_set (ioapic_regs base init (trace s)) (ioapic_regs base init (trace u)) line ((irq_bits flags)(16 := Some False))"
proof -
  obtain tr where tr: "irq_configure d (ucast sci_irq) stub (LEVEL OR ACTIVE_LOW) s =
      Inr (line, s\<lparr>idt := (idt s)[unat (line + IRQ_BASE) := idt_gate stub], trace := trace s @ tr\<rparr>)"
    "entry_set (ioapic_regs base init (trace s)) (ioapic_regs base init (trace s @ tr)) line (irq_bits flags)"
    using irq_configure_sets[OF assms(2-6)] by blast
  let ?u = "s\<lparr>idt := (idt s)[unat (line + IRQ_BASE) := idt_gate stub], trace := trace s @ tr\<rparr>"
  have "ioapic_mapped ?u (get_ioapic ?u line) base"
    using ioapic_mapped_core[OF assms(4), of ?u] by (simp add: get_ioapic_def)
  moreover have "\<not> ioapic_count ?u < get_ioapic ?u line" using assms(3) by (simp add: get_ioapic_def)
  ultimately obtain tr' where tr': "irq_unmask d line ?u = Inr (?u\<lparr>trace := trace ?u @ tr'\<rparr>)"
    "entry_set (ioapic_regs base init (trace ?u)) (ioapic_regs base init (trace ?u @ tr')) line
      (\<lambda>n. if n = 16 then Some False else None)"
    using irq_unmask_sets[OF _ _ assms(5), of ?u line] by blast
  have "entry_set (ioapic_regs base init (trace s)) (ioapic_regs base init (trace s @ tr @ tr')) line
      ((irq_bits flags)(16 := Some False))"
    using tr(2) tr'(2) unfolding entry_set_def by (auto split: option.splits if_splits)
  moreover have "\<forall>enable. acpi_install_irq d enable stub s =
      bnd (enable 1 (?u\<lparr>trace := trace s @ tr @ tr'\<rparr>)) (\<lambda>s. Inr (line, s))"
    using assms(1) tr(1) tr'(1) by (simp add: acpi_install_irq_def)
  ultimately show ?thesis by (intro exI[of _ "?u\<lparr>trace := trace s @ tr @ tr'\<rparr>"]) simp
qed

definition sci_machine :: timer where
  "sci_machine = ioapic_machine\<lparr>acpi_fadt := MAP_MEMORY 0x5000, mem := madt_bytes(0x502E := 9)\<rparr>"

theorem acpi_install_irq_connects_handler_witness:
  "\<exists>t. acpi_install_irq ioapic_devices (\<lambda>_. Inr) 0xFFFF800000103000 sci_machine = Inr (9, t) \<and>
    gate_handler (idt t ! 57) = 0xFFFF800000103000 \<and>
    bit (ioapic_regs 0xFEC00000 (\<lambda>_. 0x10000) (trace t) 34) 15 \<and> \<not> bit (ioapic_regs 0xFEC00000 (\<lambda>_. 0x10000) (trace t) 34) 16"
proof -
  let ?s = sci_machine
  have flds: "ioapics ?s = [\<lparr>ioapic_id = 0, gsi_start = 0, gsi_end = 23, mmio_phys = 0xFEC00000, ioapic_mmio = 0xFFFF8000FEC00000\<rparr>]"
    "ioapic_count ?s = 1" "overrides ?s = [\<lparr>override_source = 0, override_destination = 2, override_flags = 0\<rparr>]"
    "override_count ?s = 1" "idt_base ?s = 0x1000" "idt ?s = replicate 256 zero_idt" "acpi_fadt ?s = MAP_MEMORY 0x5000"
    "mem ?s = madt_bytes(0x502E := 9)"
    by (simp_all add: sci_machine_def ioapic_machine_def apic.defs)
  have "in_direct_map 0x502E 2" by (simp add: in_direct_map_def)
  then have r: "vread16 ?s (acpi_fadt ?s + 46) = Inr 9"
    by (simp add: flds MAP_MEMORY_add vread16_def vread_direct load_def upt_rec madt_bytes_def)
  have ov: "find_override ?s (ucast (9 :: u16)) (LEVEL OR ACTIVE_LOW) = (9, LEVEL OR ACTIVE_LOW)" by (simp add: find_override_def flds)
  have g: "get_ioapic ?s 9 = 0" by (simp add: get_ioapic_def flds upt_rec)
  have m: "ioapic_mapped ?s (get_ioapic ?s 9) 0xFEC00000"
    unfolding g by (simp add: ioapic_mapped_def flds vmm_get_physical_def PHYSICAL_MEMORY_def MMIO_REGION_def)
  have d: "ioapic_device ioapic_devices 0xFEC00000 (\<lambda>_. 0x10000)"
    by (simp add: ioapic_device_def ioapic_devices_def case_prod_beta)
  have c: "\<not> ioapic_count ?s < get_ioapic ?s 9" "idt_base ?s \<noteq> 0" by (simp_all add: g flds)
  obtain t where t: "\<forall>enable. acpi_install_irq ioapic_devices enable 0xFFFF800000103000 ?s = bnd (enable 1 t) (\<lambda>s. Inr (9, s))"
    "idt t = (idt ?s)[unat (9 + IRQ_BASE) := idt_gate 0xFFFF800000103000]"
    "entry_set (ioapic_regs 0xFEC00000 (\<lambda>_. 0x10000) (trace ?s)) (ioapic_regs 0xFEC00000 (\<lambda>_. 0x10000) (trace t)) 9
      ((irq_bits (LEVEL OR ACTIVE_LOW))(16 := Some False))"
    using acpi_install_irq_connects_handler[OF r ov c(1) m d c(2), where stub = "0xFFFF800000103000"] by blast
  have "irq_index 9 = 34" by (simp add: irq_index_def IOAPIC_TABLES_def)
  then have "bit (ioapic_regs 0xFEC00000 (\<lambda>_. 0x10000) (trace t) 34) 15" "\<not> bit (ioapic_regs 0xFEC00000 (\<lambda>_. 0x10000) (trace t) 34) 16"
    using t(3)[unfolded entry_set_def, THEN conjunct1, rule_format, of 15] t(3)[unfolded entry_set_def, THEN conjunct1, rule_format, of 16]
    by (simp_all add: irq_bits_def LEVEL_def ACTIVE_LOW_def)
  then show ?thesis using t(1,2) by (intro exI[of _ t]) (simp add: flds IRQ_BASE_def gate_handler_gate)
qed

end
