(* ===== verification/Sched_Create.thy ===== *)
theory Sched_Create
  imports Sched_Properties Heap_Frame
begin

text \<open>
  Creating processes, with the memory manager underneath: what \<open>create_process\<close> leaves in the
  tables of the scheduler, that the kernel is mapped in the new address space, and that the
  first timer interrupt after \<open>sched_init\<close> starts \<open>kmain_late\<close>.
\<close>

section \<open>Address spaces that share the kernel\<close>

text \<open>Slot 257 of the top-level table covers the device mappings.\<close>

lemma mmio_slot:
  assumes "MMIO_REGION \<le> w" and "w < KERNEL_HEAP"
  shows "table_index 39 (w AND 0xFFFFFFFFFFFF) = 257"
proof -
  have w: "0xFFFF808000000000 \<le> unat w" "unat w < 0xFFFF810000000000"
    using assms by (simp_all add: word_le_nat_alt word_less_nat_alt MMIO_REGION_def KERNEL_HEAP_def)
  obtain d where d: "unat w = 0xFFFF808000000000 + d" using le_Suc_ex[OF w(1)] by blast
  have "unat w = 0x808000000000 + d + 0xFFFF * 2 ^ 48" using d by simp
  then have "unat w mod 2 ^ 48 = (0x808000000000 + d) mod 2 ^ 48" by (simp only: mod_mult_self1)
  also have "\<dots> = 0x808000000000 + d" using w(2) d by (intro mod_less) simp
  finally have m: "unat w mod 2 ^ 48 div 2 ^ 39 = 257" using w(2) d by (simp add: div_nat_eqI)
  have "table_index 39 (w AND 0xFFFFFFFFFFFF) = take_bit 9 (drop_bit 39 (take_bit 48 w))"
    by (simp only: table_index_def and_low48 and_low9)
  then have "unat (table_index 39 (w AND 0xFFFFFFFFFFFF)) = unat w mod 2 ^ 48 div 2 ^ 39 mod 2 ^ 9"
    by (simp add: unsigned_take_bit_eq unsigned_drop_bit_eq take_bit_eq_mod drop_bit_eq_div unat_mod unat_div)
  then have "unat (table_index 39 (w AND 0xFFFFFFFFFFFF)) = 257" unfolding m by simp
  then show ?thesis by (simp add: word_unat_eq_iff)
qed

text \<open>
  The frame \<open>f\<close> as a top-level table: its slot 257 leads to the same table as slot 257 of
  the table in use.
\<close>

definition kernel_window :: "'a vmm_scheme \<Rightarrow> u64 \<Rightarrow> bool" where
  "kernel_window s f \<longleftrightarrow> aligned 4096 f \<and>
    (let e = read64 (mem s) (f + 8 * 257)
     in present e \<and> e AND PAGE_LARGE = 0 \<and> walk (mem s) (root s) [257] = Some (e AND PAGE_MASK))"

lemma kernel_window_translates:
  assumes wf: "vmm_wf s" and k: "kernel_window s f" and w: "MMIO_REGION \<le> w" "w < KERNEL_HEAP"
  shows "vmm_get_physical (s\<lparr>cr3 := f\<rparr>) w = vmm_get_physical s w"
proof -
  let ?e = "read64 (mem s) (f + 8 * 257)" and ?r = "read64 (mem s) (root s + 8 * 257)"
  have e: "aligned 4096 f" "present ?e" "?e AND PAGE_LARGE = 0" "walk (mem s) (root s) [257] = Some (?e AND PAGE_MASK)"
    using k by (simp_all add: kernel_window_def Let_def)
  have r: "present ?r" "?r AND PAGE_MASK = ?e AND PAGE_MASK" using e(4) by (auto split: if_splits)
  have "kpath ([] @ [257])" by (simp add: kpath_def)
  then have "?r AND PAGE_LARGE = 0" using treeD(4)[of "mem s" "root s" "pmm_get_page s" "[]" 257] wf r(1) by (simp add: vmm_wf_def)
  then have "vmm_get_page (s\<lparr>cr3 := f\<rparr>) w = vmm_get_page s w"
    using e(1-3) r by (simp add: vmm_get_page_def mmio_slot[OF w] mask_aligned[OF e(1)] root_def[symmetric] present_def
        kread64_def Let_def add.assoc)
  then show ?thesis by (simp add: vmm_get_physical_def)
qed

lemma share_kernel_window:
  assumes wf: "heap_wf s" and f: "aligned 4096 f" "\<not> table_frame s f" and b: "bsp_pml4 s = root s + PHYSICAL_MEMORY"
    and w: "walk (mem s) (root s) [257] \<noteq> None"
  shows "data_step s (share_kernel f s)" and "kernel_window (share_kernel f s) f"
    and "heap.more (share_kernel f s) = heap.more s" "bsp_pml4 (share_kernel f s) = bsp_pml4 s" "cr3 (share_kernel f s) = cr3 s"
    and "\<And>a. a AND PAGE_MASK \<noteq> f \<Longrightarrow> mem (share_kernel f s) a = mem s a"
proof -
  let ?r = "root s" and ?m = "mem s"
  let ?e = "\<lambda>k. read64 ?m (?r + 8 * k)"
  have tr: "tree ?m ?r (pmm_get_page s)" using heap_wfD(1)[OF wf] by (simp add: vmm_wf_def)
  have r: "aligned 4096 ?r" using treeD(1)[OF tr] .
  have fr: "?r \<noteq> f" using f(2) unfolding table_frame_def by (metis kpath_Nil walk.simps(1))
  let ?n = "write64 (write64 (write64 ?m (f + 8 * 256) (?e 256)) (f + 8 * 257) (?e 257)) (f + 8 * 258) (?e 258)"
  have other: "read64 (write64 m (f + 8 * j) v) (?r + 8 * i) = read64 m (?r + 8 * i)" if "i < 512" "j < 512" for m v i j
    using read_entry_write[OF r f(1) that] fr by simp
  have rd: "kread64 t (?r + PHYSICAL_MEMORY + x) = read64 (mem t) (?r + x)" for t :: "'a heap_scheme" and x by simp
  have sk: "share_kernel f s = s\<lparr>mem := ?n\<rparr>"
    unfolding share_kernel_def b using other[of 257 256] other[of 258 256] other[of 258 257] by (simp add: rd b)
  show "heap.more (share_kernel f s) = heap.more s" "bsp_pml4 (share_kernel f s) = bsp_pml4 s"
    "cr3 (share_kernel f s) = cr3 s" by (simp_all add: sk)
  have own: "?n a = ?m a" if "a AND PAGE_MASK \<noteq> f" for a
    using mem_outside_entry[OF f(1) _ that, of 256] mem_outside_entry[OF f(1) _ that, of 257]
      mem_outside_entry[OF f(1) _ that, of 258] by simp
  then show "mem (share_kernel f s) a = mem s a" if "a AND PAGE_MASK \<noteq> f" for a using that by (simp add: sk)
  from own have ag: "\<forall>a. table_frame s (a AND PAGE_MASK) \<longrightarrow> ?n a = ?m a" using f(2) by metis
  then show "data_step s (share_kernel f s)" unfolding data_step_def sk by (intro exI[of _ ?n]) simp
  have "kpath [257]" by (simp add: kpath_def)
  then have "walk ?n ?r [257] = walk ?m ?r [257]" using data_step_walk(2)[OF heap_wfD(1)[OF wf] ag] by blast
  moreover have "read64 ?n (f + 8 * 257) = ?e 257"
    using read_entry_write[OF f(1) f(1), of 257 258] read_entry_write[OF f(1) f(1), of 257 257] by simp
  moreover have p: "present (?e 257)" "walk ?m ?r [257] = Some (?e 257 AND PAGE_MASK)" using w by (auto split: if_splits)
  moreover have "?e 257 AND PAGE_LARGE = 0"
    using treeD(4)[OF tr, of "[]" 257] p(1) by (simp add: kpath_def)
  ultimately show "kernel_window (share_kernel f s) f"
    using f(1) by (simp add: kernel_window_def sk root_def Let_def)
qed

lemma kernel_window_kept:
  assumes k: "kernel_window s f" and o: "outside s t" and r: "reserved s f"
  shows "kernel_window t f"
proof -
  have f: "aligned 4096 f" using k by (simp add: kernel_window_def)
  have "mem t (f + of_nat i) = mem s (f + of_nat i)" if "i < 4096" for i
    using o r mask_offset[OF f that] mask_aligned[OF f] by (simp add: outside_def reserved_def)
  from this[of "8 * 257 + _"] have "read64 (mem t) (f + 8 * 257) = read64 (mem s) (f + 8 * 257)"
    by (intro read64_cong) (simp add: add.assoc)
  moreover have "kpath [257]" by (simp add: kpath_def)
  ultimately show ?thesis using k o by (simp add: kernel_window_def outside_def Let_def del: walk.simps)
qed

section \<open>Blocks for the scheduler\<close>

text \<open>The objects of the scheduler are blocks of the heap.\<close>

definition stores_ok :: "'a sched_scheme \<Rightarrow> bool" where
  "stores_ok s \<longleftrightarrow> (\<forall>p. thread_tables s p \<noteq> None \<or> thread_objects s p \<noteq> None \<longrightarrow> heap_owns s p)"

definition alloc_step :: "'a heap_scheme \<Rightarrow> 'a heap_scheme \<Rightarrow> bool" where
  "alloc_step s t \<longleftrightarrow> outside s t \<and> (\<forall>a. heap_owns s a \<longrightarrow> heap_owns t a) \<and> cr3 t = cr3 s \<and> bsp_pml4 t = bsp_pml4 s"

lemma alloc_step_trans: "alloc_step s t \<Longrightarrow> alloc_step t u \<Longrightarrow> alloc_step s u"
  by (auto simp: alloc_step_def intro: outside_trans)

lemma alloc_step_core:
  assumes "heap.truncate t = heap.truncate s"
  shows "alloc_step s t"
proof -
  note c = core_heap[OF assms] and f = core_fields[OF assms]
  have r: "root t = root s" by (simp add: root_def f)
  have "outside s t" unfolding outside_def reserved_def heap_frame_def c f r by simp
  then show ?thesis by (simp add: alloc_step_def c f)
qed

lemma device_kept:
  assumes "alloc_step s t" and "MMIO_REGION \<le> w" and "w < KERNEL_HEAP"
  shows "vmm_get_physical t w = vmm_get_physical s w"
  using assms by (simp add: vmm_get_physical_def alloc_step_def outside_def)

lemma sched_fields:
  assumes "heap.more t = heap.more s"
  shows "processes_at t = processes_at s" "processes t = processes s" "thread_tables t = thread_tables s"
    "thread_objects t = thread_objects s" "sched_mutex t = sched_mutex s" "sys_ready t = sys_ready s"
    "running_processes t = running_processes s" "cpus t = cpus s" "lapic t = lapic s" "lapic_physical t = lapic_physical s"
    "ticks t = ticks s" "trace t = trace s" "cpu_count t = cpu_count s"
  using assms by (cases s, cases t, simp)+

lemma sched_core [simp]:
  "heap.truncate (s\<lparr>processes := a\<rparr>) = heap.truncate s" "heap.truncate (s\<lparr>thread_tables := b\<rparr>) = heap.truncate s"
  "heap.truncate (s\<lparr>thread_objects := c\<rparr>) = heap.truncate s" "heap.truncate (s\<lparr>sched_mutex := m\<rparr>) = heap.truncate s"
  "heap.truncate (s\<lparr>running_processes := n\<rparr>) = heap.truncate s"
  "heap.truncate (s\<lparr>processes_at := p\<rparr>) = heap.truncate s" "heap.truncate (s\<lparr>sys_ready := r\<rparr>) = heap.truncate s"
  by (simp_all add: heap.truncate_def)

lemma sched_more:
  assumes "heap.more t = heap.more s"
  shows "heap.more (t\<lparr>processes := a\<rparr>) = heap.more (s\<lparr>processes := a\<rparr>)"
    "heap.more (t\<lparr>thread_tables := b\<rparr>) = heap.more (s\<lparr>thread_tables := b\<rparr>)"
    "heap.more (t\<lparr>thread_objects := c\<rparr>) = heap.more (s\<lparr>thread_objects := c\<rparr>)"
    "heap.more (t\<lparr>sched_mutex := m\<rparr>) = heap.more (s\<lparr>sched_mutex := m\<rparr>)"
    "heap.more (t\<lparr>running_processes := n\<rparr>) = heap.more (s\<lparr>running_processes := n\<rparr>)"
    "heap.more (t\<lparr>processes_at := p\<rparr>) = heap.more (s\<lparr>processes_at := p\<rparr>)"
    "heap.more (t\<lparr>sys_ready := r\<rparr>) = heap.more (s\<lparr>sys_ready := r\<rparr>)"
  using assms by (cases s, cases t, simp)+

lemma kcalloc_block:
  assumes "heap_budget s N" and "unat (n1 * n2) < 2 ^ 32" and "unat (heap_pages (n1 * n2)) \<le> N"
  obtains p t where "kcalloc n1 n2 s = Inr (p, t)" "p \<noteq> 0" "\<not> heap_owns s p" "heap_owns t p" "alloc_step s t"
    "heap.more t = heap.more s" "heap_budget t (N - unat (heap_pages (n1 * n2)))"
proof -
  let ?n = "n1 * n2"
  obtain q t where t: "kmalloc ?n s = Inr (q + 16, t)" "q + 16 \<noteq> 0" "allocated s t q ?n" "same_rest s t" "outside s t"
    "heap_budget t (N - unat (heap_pages ?n))" using kmalloc_budget_outside[OF assms] .
  have "16 < 4096 * unat (heap_pages ?n)" using heap_pages_unat(4)[of ?n] assms(2) by simp
  then have "\<not> heap_owns s (q + of_nat 16)" "heap_owns t (q + of_nat 16)"
    using t(3) unfolding allocated_def heap_block_def by blast+
  moreover have "alloc_step s t" using t(3-5) by (auto simp: alloc_step_def same_rest_def allocated_def)
  ultimately show ?thesis using that[of "q + 16" t] t by (simp add: kcalloc_def same_rest_def)
qed

lemma new_table_block:
  assumes b: "heap_budget s N" and N: "1 \<le> N" and st: "stores_ok s"
  obtains p t where "new_table s = Inr (p, t)" "p \<noteq> 0" "thread_tables s p = None" "alloc_step s t" "heap_budget t (N - 1)"
    "heap.more t = heap.more (s\<lparr>thread_tables := (thread_tables s)(p \<mapsto> replicate MAX_THREADS 0)\<rparr>)" "stores_ok t"
proof -
  have pg: "unat (heap_pages (8 * of_nat MAX_THREADS)) = 1"
    using heap_pages_unat(1)[of 256] by (simp add: MAX_THREADS_def)
  obtain p t where t: "kcalloc 8 (of_nat MAX_THREADS) s = Inr (p, t)" "p \<noteq> 0" "\<not> heap_owns s p" "heap_owns t p" "alloc_step s t"
    "heap.more t = heap.more s" "heap_budget t (N - 1)"
    using kcalloc_block[OF b, of 8 "of_nat MAX_THREADS"] pg N by (auto simp: MAX_THREADS_def)
  let ?t = "t\<lparr>thread_tables := (thread_tables t)(p \<mapsto> replicate MAX_THREADS 0)\<rparr>"
  note f = sched_fields[OF t(6)]
  have "stores_ok ?t" using st t(4,5) core_heap(3)[of ?t t] by (auto simp: stores_ok_def f alloc_step_def)
  moreover have "thread_tables s p = None" using st t(3) by (auto simp: stores_ok_def)
  moreover have "alloc_step s ?t" using alloc_step_trans[OF t(5) alloc_step_core[of ?t t]] by simp
  moreover have "heap_budget ?t (N - 1)" using t(7) core_budget[of ?t t] by simp
  moreover have "new_table s = Inr (p, ?t)" using t(1,2) by (simp add: new_table_def)
  ultimately show ?thesis using that[of p ?t] t(2) sched_more(2)[OF t(6)] f by simp
qed

lemma new_thread_block:
  assumes b: "heap_budget s N" and N: "1 \<le> N" and st: "stores_ok s"
  obtains p t where "new_thread s = Inr (p, t)" "p \<noteq> 0" "thread_objects s p = None" "alloc_step s t" "heap_budget t (N - 1)"
    "heap.more t = heap.more (s\<lparr>thread_objects := (thread_objects s)(p \<mapsto> zero_thread)\<rparr>)" "stores_ok t"
proof -
  have pg: "unat (heap_pages (164 * 1)) = 1" using heap_pages_unat(1)[of 164] by simp
  obtain p t where t: "kcalloc 164 1 s = Inr (p, t)" "p \<noteq> 0" "\<not> heap_owns s p" "heap_owns t p" "alloc_step s t"
    "heap.more t = heap.more s" "heap_budget t (N - 1)"
    using kcalloc_block[OF b, of 164 1] pg N by auto
  let ?t = "set_thread p zero_thread t"
  note f = sched_fields[OF t(6)]
  have c: "heap.truncate ?t = heap.truncate t" by (simp add: set_thread_def)
  have "stores_ok ?t" using st t(4,5) core_heap(3)[OF c] by (auto simp: stores_ok_def f alloc_step_def set_thread_def)
  moreover have "thread_objects s p = None" using st t(3) by (auto simp: stores_ok_def)
  moreover have "alloc_step s ?t" using alloc_step_trans[OF t(5) alloc_step_core[OF c]] .
  moreover have "heap_budget ?t (N - 1)" using t(7) core_budget[OF c] by simp
  moreover have "new_thread s = Inr (p, ?t)" using t(1,2) by (simp add: new_thread_def)
  ultimately show ?thesis using that[of p ?t] t(2) sched_more(3)[OF t(6)] f by (simp add: set_thread_def)
qed

text \<open>A stack is a block of fresh heap memory.\<close>

definition stack_at :: "'a sched_scheme \<Rightarrow> 'a sched_scheme \<Rightarrow> u64 \<Rightarrow> bool" where
  "stack_at s r p \<longleftrightarrow> (\<forall>i < unat THREAD_STACK. heap_owns r (p + of_nat i) \<and> \<not> heap_owns s (p + of_nat i))"

definition stack_set :: "'a sched_scheme \<Rightarrow> thread_t \<Rightarrow> thread_t \<Rightarrow> 'a sched_scheme \<Rightarrow> bool" where
  "stack_set s u t r \<longleftrightarrow>
    (if running_processes s = 0 then
       \<exists>p. t = u\<lparr>rsp := p + THREAD_STACK, code_segment := ucast KCODE_SEGMENT, data_segment := ucast KDATA_SEGMENT\<rparr> \<and>
         stack_at s r p
     else t = u)"

lemma stack_set_mono:
  assumes "stack_set s' u x r" and "running_processes s' = running_processes s" and "\<And>a. heap_owns s a \<Longrightarrow> heap_owns s' a"
    and "heap_owns t = heap_owns r"
  shows "stack_set s u x t"
  using assms(1) unfolding stack_set_def stack_at_def assms(2,4) by (auto dest: assms(3) split: if_splits)

lemma stack_block:
  assumes b: "heap_budget s N" and N: "33 \<le> N" and st: "stores_ok s"
  obtains p r where "kmalloc THREAD_STACK s = Inr (p, r)" "p \<noteq> 0" "alloc_step s r" "heap.more r = heap.more s" "heap_budget r (N - 33)"
    "stores_ok r" "stack_at s r p"
proof -
  have sz: "unat THREAD_STACK = 131072" by (simp add: THREAD_STACK_def)
  have pg: "unat (heap_pages THREAD_STACK) = 33" using heap_pages_unat(1)[of THREAD_STACK] sz by simp
  obtain q r where r: "kmalloc THREAD_STACK s = Inr (q + 16, r)" "q + 16 \<noteq> 0" "allocated s r q THREAD_STACK"
    "same_rest s r" "outside s r" "heap_budget r (N - 33)"
    using kmalloc_budget_outside[OF b, of THREAD_STACK] sz pg N by auto
  have m: "heap.more r = heap.more s" using r(4) by (simp add: same_rest_def)
  have al: "alloc_step s r" using r(3-5) by (auto simp: alloc_step_def same_rest_def allocated_def)
  have "heap_owns r (q + 16 + of_nat i) \<and> \<not> heap_owns s (q + 16 + of_nat i)" if "i < unat THREAD_STACK" for i
  proof -
    have "16 + i < 4096 * unat (heap_pages THREAD_STACK)" using that sz pg by simp
    then have "heap_owns r (q + of_nat (16 + i)) \<and> \<not> heap_owns s (q + of_nat (16 + i))"
      using r(3) unfolding allocated_def heap_block_def by blast
    then show ?thesis by (simp add: add.assoc)
  qed
  then have "stack_at s r (q + 16)" by (simp add: stack_at_def)
  moreover have "stores_ok r" using st al by (auto simp: stores_ok_def sched_fields[OF m] alloc_step_def)
  ultimately show ?thesis using that r(1,2,6) al m by blast
qed

lemma first_stack_block:
  assumes b: "heap_budget s N" and N: "33 \<le> N" and st: "stores_ok s"
  obtains t r where "first_stack u s = Inr (Some t, r)" "alloc_step s r" "heap.more r = heap.more s" "heap_budget r (N - 33)"
    "stores_ok r" "stack_set s u t r"
proof (cases "running_processes s = 0")
  case True
  obtain p r where r: "kmalloc THREAD_STACK s = Inr (p, r)" "p \<noteq> 0" "alloc_step s r" "heap.more r = heap.more s" "heap_budget r (N - 33)"
    "stores_ok r" "stack_at s r p" by (rule stack_block[OF assms])
  then show ?thesis using that[OF _ r(3-6)] True by (fastforce simp: first_stack_def stack_set_def)
next
  case False
  then show ?thesis
    using that[of u s] st alloc_step_core[of s s] heap_budget_mono[OF b] by (simp add: first_stack_def stack_set_def)
qed

section \<open>The new process\<close>

text \<open>The frame of the new top-level table, filled with the entries of the kernel.\<close>

lemma process_frame:
  assumes b: "heap_budget s N" "0 < N" and r: "bsp_pml4 s = root s + PHYSICAL_MEMORY" "walk (mem s) (root s) [257] \<noteq> None"
  obtains f t where "pmm_alloc_page s = Inr (f, t)" "f \<noteq> 0" "heap.more t = heap.more s"
    "\<And>x. heap_budget (share_kernel f (set_process i x t)) (N - 1)" "\<And>x. kernel_window (share_kernel f (set_process i x t)) f"
    "\<And>x. alloc_step s (share_kernel f (set_process i x t))" "\<And>x. reserved (share_kernel f (set_process i x t)) f"
    "\<And>x. heap.more (share_kernel f (set_process i x t)) = heap.more (set_process i x t)"
proof -
  obtain f t where t: "pmm_alloc_page s = Inr (f, t)" "f \<noteq> 0" "aligned 4096 f" "\<not> pmm_get_page s f" "same_rest s t"
    "heap_budget t (N - 1)" "heap_owns t = heap_owns s" "mem t = mem s" "root t = root s" "outside s t" "reserved t f"
    by (rule pmm_alloc_reserved[OF b])
  have m: "heap.more t = heap.more s" "bsp_pml4 t = bsp_pml4 s" "cr3 t = cr3 s" using t(5) by (simp_all add: same_rest_def)
  have u: "heap_budget (share_kernel f u) (N - 1) \<and> kernel_window (share_kernel f u) f \<and> alloc_step s (share_kernel f u) \<and>
      reserved (share_kernel f u) f \<and> heap.more (share_kernel f u) = heap.more u" if c: "heap.truncate u = heap.truncate t" for u
  proof -
    note ch = core_heap[OF c] and cf = core_fields[OF c]
    have wf: "heap_wf u" using t(6) ch(6) by (simp add: heap_budget_def heap_ok_def)
    have ru: "root u = root s" using t(9) by (simp add: root_def cf)
    have tf: "\<not> table_frame u f" using t(3,11) ch(5) by (simp add: reserved_def mask_aligned)
    have pre: "bsp_pml4 u = root u + PHYSICAL_MEMORY" "walk (mem u) (root u) [257] \<noteq> None"
      using r ru cf m t(8) by simp_all
    note sk = share_kernel_window[OF wf t(3) tf pre]
    have tu: "outside t u" using alloc_step_core[OF c] by (simp add: alloc_step_def)
    have o: "outside s u" "reserved u f" using outside_trans[OF t(10) tu] tu t(11) by (auto simp: outside_def[of t u])
    note fill = outside_fill[OF o(1) wf sk(1) t(4) sk(6)]
    have "heap_owns (share_kernel f u) = heap_owns s" using data_step_heap(2)[OF wf sk(1)] ch(3) t(7) by simp
    then have "alloc_step s (share_kernel f u)" using fill(1) sk(4,5) cf m by (simp add: alloc_step_def)
    then show ?thesis using sk(2,3) fill(2) o(2) data_step_budget[OF _ sk(1)] core_budget[OF c] t(6) by simp
  qed
  have "heap.truncate (set_process i x t) = heap.truncate t" for x by (simp add: set_process_def)
  note c = u[OF this]
  show ?thesis by (rule that[OF t(1,2) m(1)]) (use c in blast)+
qed

text \<open>The rest of the scheduler's state.\<close>

definition same_sched :: "'a sched_scheme \<Rightarrow> 'a sched_scheme \<Rightarrow> bool" where
  "same_sched s t \<longleftrightarrow> processes_at t = processes_at s \<and> sys_ready t = sys_ready s \<and> cpus t = cpus s \<and> cpu_count t = cpu_count s \<and> lapic t = lapic s \<and>
    lapic_physical t = lapic_physical s \<and> ticks t = ticks s \<and> trace t = trace s"

definition fresh_context :: "u64 \<Rightarrow> thread_t" where
  "fresh_context entry = zero_thread\<lparr>rflags := 0x202, rip := entry\<rparr>"

text \<open>All fields that belong to the scheduler.\<close>

definition sched_is :: "'a sched_scheme \<Rightarrow> 'a sched_scheme \<Rightarrow> process_t list \<Rightarrow> (u64 \<Rightarrow> u64 list option) \<Rightarrow>
    (u64 \<Rightarrow> thread_t option) \<Rightarrow> mutex_t \<Rightarrow> u64 \<Rightarrow> bool" where
  "sched_is s t ps tbls ths m n \<longleftrightarrow> processes t = ps \<and> thread_tables t = tbls \<and> thread_objects t = ths \<and>
    sched_mutex t = m \<and> running_processes t = n \<and> same_sched s t"

lemma sched_is_more:
  assumes "heap.more t = heap.more u"
  shows "sched_is s t ps tbls ths m n = sched_is s u ps tbls ths m n"
  using sched_fields[OF assms] by (simp add: sched_is_def same_sched_def)

lemma sched_is_update:
  assumes "sched_is s t ps tbls ths m n"
  shows "sched_is s (set_process i x t) (ps[i := x]) tbls ths m n"
    and "sched_is s (t\<lparr>thread_tables := tbls'\<rparr>) ps tbls' ths m n"
    and "sched_is s (t\<lparr>thread_objects := ths'\<rparr>) ps tbls ths' m n"
    and "sched_is s (set_thread p y t) ps tbls (ths(p \<mapsto> y)) m n"
    and "tbls q = Some xs \<Longrightarrow> sched_is s (set_slot q j v t) ps (tbls(q \<mapsto> xs[j := v])) ths m n"
    and "sched_is s (t\<lparr>running_processes := n', sched_mutex := m'\<rparr>) ps tbls ths m' n'"
  using assms by (auto simp: sched_is_def same_sched_def set_process_def set_thread_def set_slot_def)

lemma sched_isD:
  assumes "sched_is s t ps tbls ths m n"
  shows "processes t = ps" "thread_tables t = tbls" "thread_objects t = ths" "sched_mutex t = m" "running_processes t = n" "same_sched s t"
  using assms by (simp_all add: sched_is_def)

lemma bnd_weak_cong: "x = y \<Longrightarrow> bnd x f = bnd y f"
  by simp

text \<open>Running a function step by step: nothing is rewritten behind the step at hand.\<close>

lemmas run_congs = bnd_weak_cong let_weak_cong if_weak_cong option.case_cong_weak

lemma create_process_result:
  assumes b: "heap_budget s N" and N: "36 \<le> N" and st: "stores_ok s" and mx: "sched_mutex s = MUTEX_FREE"
    and pa: "processes_at s \<noteq> 0" and pid: "find (\<lambda>i. valid (processes s ! i) = 0) [0..<MAX_PROCESSES] = Some pid"
    and r: "bsp_pml4 s = root s + PHYSICAL_MEMORY" "walk (mem s) (root s) [257] \<noteq> None"
  obtains f tbl th x t where "create_process entry s = Inr (of_nat pid, t)" "tbl \<noteq> 0" "th \<noteq> 0"
    "thread_tables s tbl = None" "thread_objects s th = None"
    "processes t = (processes s)[pid := \<lparr>valid = 1, threads = tbl, thread_count = 1, process_cr3 = f\<rparr>]"
    "thread_tables t = (thread_tables s)(tbl \<mapsto> (replicate MAX_THREADS 0)[0 := th])"
    "thread_objects t = (thread_objects s)(th \<mapsto> x\<lparr>status := THREAD_IDLE\<rparr>)" "stack_set s (fresh_context entry) x t"
    "running_processes t = running_processes s + 1" "sched_mutex t = MUTEX_FREE" "same_sched s t"
    "alloc_step s t" "kernel_window t f" "stores_ok t" "heap_budget t (N - 36)"
proof -
  define s0 where "s0 = s\<lparr>sched_mutex := MUTEX_BUSY\<rparr>"
  have c0: "heap.truncate s0 = heap.truncate s" by (simp add: s0_def)
  note b0 = b[folded core_budget[OF c0]]
  have r0: "bsp_pml4 s0 = root s0 + PHYSICAL_MEMORY" "walk (mem s0) (root s0) [257] \<noteq> None"
    using r by (simp_all add: s0_def root_def)
  have i0: "sched_is s s0 (processes s) (thread_tables s) (thread_objects s) MUTEX_BUSY (running_processes s)"
    by (simp add: s0_def sched_is_def same_sched_def)
  obtain f s1 where s1: "pmm_alloc_page s0 = Inr (f, s1)" "f \<noteq> 0" "heap.more s1 = heap.more s0"
    "\<And>x. heap_budget (share_kernel f (set_process pid x s1)) (N - 1)" "\<And>x. kernel_window (share_kernel f (set_process pid x s1)) f"
    "\<And>x. alloc_step s0 (share_kernel f (set_process pid x s1))" "\<And>x. reserved (share_kernel f (set_process pid x s1)) f"
    "\<And>x. heap.more (share_kernel f (set_process pid x s1)) = heap.more (set_process pid x s1)"
    by (rule process_frame[OF b0 _ r0, of pid]) (use N in simp_all)
  define p1 where "p1 = (processes s1 ! pid)\<lparr>process_cr3 := f\<rparr>"
  define s3 where "s3 = share_kernel f (set_process pid p1 s1)"
  have i3: "sched_is s s3 ((processes s)[pid := p1]) (thread_tables s) (thread_objects s) MUTEX_BUSY (running_processes s)"
    using sched_is_update(1)[of s s1] i0 sched_is_more[OF s1(3)] sched_is_more[OF s1(8)] by (simp add: s3_def)
  note s3 = s1(4-7)[of p1, folded s3_def]
  have a3: "alloc_step s s3" using alloc_step_trans[OF alloc_step_core[OF c0] s3(3)] .
  have st3: "stores_ok s3" using st a3 sched_isD[OF i3] by (simp add: stores_ok_def alloc_step_def)
  obtain tbl s4 where s4: "new_table s3 = Inr (tbl, s4)" "tbl \<noteq> 0" "thread_tables s3 tbl = None" "alloc_step s3 s4"
    "heap_budget s4 (N - 1 - 1)" "heap.more s4 = heap.more (s3\<lparr>thread_tables := (thread_tables s3)(tbl \<mapsto> replicate MAX_THREADS 0)\<rparr>)"
    "stores_ok s4" by (rule new_table_block[OF s3(1) _ st3]) (use N in simp_all)
  define p2 where "p2 = p1\<lparr>thread_count := 1, threads := tbl\<rparr>"
  define s5 where "s5 = set_process pid p2 s4"
  let ?tb = "(thread_tables s)(tbl \<mapsto> replicate MAX_THREADS 0)"
  have i4: "sched_is s s4 ((processes s)[pid := p1]) ?tb (thread_objects s) MUTEX_BUSY (running_processes s)"
    unfolding sched_is_more[OF s4(6)] sched_isD(2)[OF i3] by (rule sched_is_update(2)[OF i3])
  have i5: "sched_is s s5 ((processes s)[pid := p2]) ?tb (thread_objects s) MUTEX_BUSY (running_processes s)"
    using sched_is_update(1)[OF i4, of pid p2] by (simp add: s5_def)
  have c5: "heap.truncate s5 = heap.truncate s4" by (simp add: s5_def set_process_def)
  have st5: "stores_ok s5" using s4(7) core_heap(3)[OF c5] by (simp add: stores_ok_def set_process_def s5_def)
  note b5 = s4(5)[folded core_budget[OF c5]]
  obtain th s6 where s6: "new_thread s5 = Inr (th, s6)" "th \<noteq> 0" "thread_objects s5 th = None" "alloc_step s5 s6"
    "heap_budget s6 (N - 1 - 1 - 1)" "heap.more s6 = heap.more (s5\<lparr>thread_objects := (thread_objects s5)(th \<mapsto> zero_thread)\<rparr>)"
    "stores_ok s6" by (rule new_thread_block[OF b5 _ st5]) (use N in simp_all)
  let ?th = "(thread_objects s)(th \<mapsto> zero_thread)"
  have i6: "sched_is s s6 ((processes s)[pid := p2]) ?tb ?th MUTEX_BUSY (running_processes s)"
    unfolding sched_is_more[OF s6(6)] sched_isD(3)[OF i5] by (rule sched_is_update(3)[OF i5])
  define s7 where "s7 = set_slot tbl 0 th s6"
  let ?tb7 = "(thread_tables s)(tbl \<mapsto> (replicate MAX_THREADS 0)[0 := th])"
  have i7: "sched_is s s7 ((processes s)[pid := p2]) ?tb7 ?th MUTEX_BUSY (running_processes s)"
    using sched_is_update(5)[OF i6, of tbl] by (simp add: s7_def)
  have c7: "heap.truncate s7 = heap.truncate s6" by (simp add: s7_def set_slot_def)
  have st7: "stores_ok s7"
    using s6(7) core_heap(3)[OF c7] sched_isD[OF i6] sched_isD[OF i7] by (auto simp: stores_ok_def split: if_splits)
  note b7 = s6(5)[folded core_budget[OF c7]]
  have th7: "thread_at s7 th = Inr zero_thread" using sched_isD(3)[OF i7] by (simp add: thread_at_def)
  obtain x s8 where s8: "first_stack (fresh_context entry) s7 = Inr (Some x, s8)" "alloc_step s7 s8" "heap.more s8 = heap.more s7"
    "stores_ok s8" "heap_budget s8 (N - 1 - 1 - 1 - 33)" "stack_set s7 (fresh_context entry) x s8"
    by (rule first_stack_block[OF b7 _ st7, of "fresh_context entry"]) (use N in auto)
  have i8: "sched_is s s8 ((processes s)[pid := p2]) ?tb7 ?th MUTEX_BUSY (running_processes s)"
    using i7 sched_is_more[OF s8(3)] by simp
  define s9 where "s9 = set_process pid (p2\<lparr>valid := 1, thread_count := 1\<rparr>) (set_thread th (x\<lparr>status := THREAD_IDLE\<rparr>) s8)"
  define t where "t = s9\<lparr>running_processes := running_processes s9 + 1, sched_mutex := MUTEX_FREE\<rparr>"
  have i9: "sched_is s s9 ((processes s)[pid := p2\<lparr>valid := 1, thread_count := 1\<rparr>]) ?tb7
      (?th(th \<mapsto> x\<lparr>status := THREAD_IDLE\<rparr>)) MUTEX_BUSY (running_processes s)"
    using sched_is_update(1)[OF sched_is_update(4)[OF i8, of th "x\<lparr>status := THREAD_IDLE\<rparr>"], of pid "p2\<lparr>valid := 1, thread_count := 1\<rparr>"]
    by (simp add: s9_def)
  note iT = sched_is_update(6)[OF i9, where n' = "running_processes s9 + 1" and m' = MUTEX_FREE, folded t_def]
  have p: "p2\<lparr>valid := 1, thread_count := 1\<rparr> = \<lparr>valid = 1, threads = tbl, thread_count = 1, process_cr3 = f\<rparr>"
    by (simp add: p2_def p1_def)
  have c9: "heap.truncate t = heap.truncate s8" by (simp add: t_def s9_def set_process_def set_thread_def)
  note al37 = alloc_step_trans[OF alloc_step_trans[OF s4(4) alloc_step_core[OF c5]] alloc_step_trans[OF s6(4) alloc_step_core[OF c7]]]
  note al = alloc_step_trans[OF al37 alloc_step_trans[OF s8(2) alloc_step_core[OF c9]]]
  have "find_process s0 = Inr (Some pid)" using pa pid by (simp add: find_process_def s0_def)
  then have "create_process entry s = Inr (of_nat pid, t)"
    by (simp only: create_process_def mx acquire_release(1) bnd_simps Let_def prod.case option.case if_False
        s0_def[symmetric] s1(1,2) p1_def[symmetric] s3_def[symmetric] s4(1,2) p2_def[symmetric] s5_def[symmetric]
        s6(1,2) s7_def[symmetric] th7 fresh_context_def[symmetric] s8(1) s9_def[symmetric] cong: run_congs)
      (simp add: unlock_return_def t_def sched_isD(4)[OF i9])
  moreover have "kernel_window t f" using kernel_window_kept[OF s3(2) _ s3(4)] al by (simp add: alloc_step_def)
  moreover have "stores_ok t"
  proof -
    have "thread_tables t = thread_tables s8" "thread_objects t p \<noteq> None \<longleftrightarrow> thread_objects s8 p \<noteq> None" for p
      unfolding sched_isD(2,3)[OF iT] sched_isD(2,3)[OF i8] by simp_all
    then show ?thesis using s8(4) core_heap(3)[OF c9] by (simp add: stores_ok_def)
  qed
  moreover have "heap_budget t (N - 36)" using s8(5) core_budget[OF c9] by simp
  moreover have "stack_set s (fresh_context entry) x t"
    using alloc_step_trans[OF a3 al37] by (intro stack_set_mono[OF s8(6) sched_isD(5)[OF i7] _ core_heap(3)[OF c9]]) (simp add: alloc_step_def)
  ultimately show ?thesis
    using that[of t tbl th f x] s4(2,3) s6(2,3) sched_isD[OF iT] sched_isD[OF i3] sched_isD[OF i5] sched_isD(5)[OF i9]
      alloc_step_trans[OF a3 al] p by simp
qed

section \<open>The first thread\<close>

lemma device_walk:
  assumes "MMIO_REGION \<le> w" and "w < KERNEL_HEAP" and "vmm_get_physical s w \<noteq> None"
  shows "walk (mem s) (root s) [257] \<noteq> None"
proof
  assume "walk (mem s) (root s) [257] = None"
  then have "\<not> present (read64 (mem s) (root s + 8 * 257))" by (simp split: if_splits)
  then have "vmm_get_page s w = 0"
    by (simp add: vmm_get_page_def mmio_slot[OF assms(1,2)] root_def[symmetric] present_def Let_def)
  moreover have "\<not> w < MMIO_REGION" using assms(1) by simp
  ultimately show False using assms(3) by (auto simp: vmm_get_physical_def Let_def)
qed

text \<open>\<open>resched\<close> before any thread runs: nothing is saved.\<close>

lemma resched_first:
  assumes wf: "sched_wf s" and rd: "cpu_sys_ready (cpus s ! 0) = 0" and nx: "next_thread s = Some (i, j)"
  defines "u \<equiv> set_cpu 0 ((cpus s ! 0)\<lparr>cpu_sys_ready := 1\<rparr>) s"
  shows "\<exists>t. slot s i j = Some t \<and> resched old s = Inr (Some (t\<lparr>status := THREAD_BUSY\<rparr>), switched (i, j) u)"
proof -
  have wu: "sched_wf u" unfolding u_def by (rule sched_wf_updates(1)[OF wf])
  have su: "slot u = slot s" by (simp add: u_def slot_other)
  have cu: "current u = current s" using wf by (simp add: u_def current_def set_cpu_def sched_wf_def)
  have nu: "next_thread u = Some (i, j)" using nx by (simp add: next_thread_def cu idle_def su)
  obtain t where t: "slot u i j = Some t" using next_thread_idle[OF nu] by (auto simp: idle_def)
  note rg = slot_range[OF t] and ta = thread_at_slot[OF t]
  let ?v = "run_on 0 (i, j) u" and ?p = "slot_pointer u i j"
  have pv: "slot_pointer ?v = slot_pointer u" by (rule slot_pointer_same[OF same_slots_updates(5)])
  have tv: "thread_at ?v ?p = Inr t" using ta by (simp add: thread_at_def run_on_def set_cpu_def)
  let ?x = "set_thread ?p (t\<lparr>status := THREAD_BUSY\<rparr>) ?v"
  have "sched_wf ?x" using sched_wf_updates(5)[OF sched_wf_updates(3)[OF wu], of 0 "(i, j)" i j] ta by (simp add: pv)
  moreover have "processes ?x = processes u" "cr3 ?x = process_cr3 (processes u ! i)" "lapic_physical ?x = lapic_physical u"
    by (simp_all add: set_thread_def run_on_def set_cpu_def)
  ultimately have "lapic_eoi ?x = Inr (switched (i, j) u)" using lapic_eoi_wf[of ?x i] rg t by (simp add: switched_def)
  then have "resched old s = Inr (Some (t\<lparr>status := THREAD_BUSY\<rparr>), switched (i, j) u)"
    using find_idle_next[OF wu, of 0] rd nu ta tv by (simp add: resched_def flip: u_def)
  then show ?thesis using t su by simp
qed

section \<open>Properties\<close>

text \<open>C28: \<open>create_process\<close>, called in the boot address space with room for its blocks and a free
  slot, returns the number of the first free slot; that slot holds a process with one idle thread
  at the entry point, on a stack of its own if it is the first; no
  other process and no other thread is touched, the lock is free again, and in the new
  address space the kernel finds every device where it was.\<close>

theorem create_process_adds_process:
  assumes "heap_budget s N" and "36 \<le> N" and "stores_ok s" and "sched_mutex s = MUTEX_FREE" and "processes_at s \<noteq> 0"
    and "find (\<lambda>i. valid (processes s ! i) = 0) [0..<MAX_PROCESSES] = Some pid"
    and "bsp_pml4 s = root s + PHYSICAL_MEMORY"
    and "MMIO_REGION \<le> v" and "v < KERNEL_HEAP" and "vmm_get_physical s v \<noteq> None"
  shows "\<exists>f tbl th x t. create_process entry s = Inr (of_nat pid, t) \<and>
    processes t = (processes s)[pid := \<lparr>valid = 1, threads = tbl, thread_count = 1, process_cr3 = f\<rparr>] \<and>
    thread_tables s tbl = None \<and> thread_tables t = (thread_tables s)(tbl \<mapsto> (replicate MAX_THREADS 0)[0 := th]) \<and>
    thread_objects s th = None \<and> thread_objects t = (thread_objects s)(th \<mapsto> x\<lparr>status := THREAD_IDLE\<rparr>) \<and>
    rip x = entry \<and> rflags x = 0x202 \<and> stack_set s (fresh_context entry) x t \<and>
    running_processes t = running_processes s + 1 \<and> sched_mutex t = MUTEX_FREE \<and> same_sched s t \<and> stores_ok t \<and> heap_budget t (N - 36) \<and>
    (\<forall>w. MMIO_REGION \<le> w \<longrightarrow> w < KERNEL_HEAP \<longrightarrow> vmm_get_physical (t\<lparr>cr3 := f\<rparr>) w = vmm_get_physical s w)"
proof -
  obtain f tbl th x t where t: "create_process entry s = Inr (of_nat pid, t)" "tbl \<noteq> 0" "th \<noteq> 0"
    "thread_tables s tbl = None" "thread_objects s th = None"
    "processes t = (processes s)[pid := \<lparr>valid = 1, threads = tbl, thread_count = 1, process_cr3 = f\<rparr>]"
    "thread_tables t = (thread_tables s)(tbl \<mapsto> (replicate MAX_THREADS 0)[0 := th])"
    "thread_objects t = (thread_objects s)(th \<mapsto> x\<lparr>status := THREAD_IDLE\<rparr>)" "stack_set s (fresh_context entry) x t"
    "running_processes t = running_processes s + 1" "sched_mutex t = MUTEX_FREE" "same_sched s t"
    "alloc_step s t" "kernel_window t f" "stores_ok t" "heap_budget t (N - 36)"
    by (rule create_process_result[OF assms(1-7) device_walk[OF assms(8-10)]])
  have x: "rip x = entry" "rflags x = 0x202" using t(9) by (auto simp: stack_set_def fresh_context_def split: if_splits)
  have "vmm_wf t" using t(16) heap_wfD(1) by (auto simp: heap_budget_def heap_ok_def)
  then have "vmm_get_physical (t\<lparr>cr3 := f\<rparr>) w = vmm_get_physical s w" if "MMIO_REGION \<le> w" "w < KERNEL_HEAP" for w
    using kernel_window_translates[OF _ t(14) that] device_kept[OF t(13) that] by simp
  then show ?thesis using t x by blast
qed

section \<open>A machine before the first process\<close>

definition boot_machine :: sched where
  "boot_machine = smp.extend (heap.extend small_heap (heap.more (example_smp\<lparr>cpus := [zero_cpu]\<rparr>)))
    \<lparr>processes_at = 0xFFFF810000000000, processes = replicate MAX_PROCESSES zero_process,
     thread_tables = Map.empty, thread_objects = Map.empty, sched_mutex = MUTEX_FREE, sys_ready = 0, running_processes = 0\<rparr>"

lemma boot_fields:
  "processes_at boot_machine = 0xFFFF810000000000" "processes boot_machine = replicate MAX_PROCESSES zero_process"
  "thread_tables boot_machine = Map.empty" "thread_objects boot_machine = Map.empty" "sched_mutex boot_machine = MUTEX_FREE"
  "running_processes boot_machine = 0" "cpus boot_machine = [zero_cpu]" "lapic_physical boot_machine = 0xFEE00000"
  "heap.truncate boot_machine = small_heap"
  by (simp_all add: boot_machine_def example_smp_def small_heap_def timer.defs smp.defs heap.defs)

lemma boot_machine_device:
  obtains v s where "vmm_create_mmio 0xFEE00000 1 [0x6C] boot_machine = Inr (v, s)"
    "heap_budget s 100" "heap.more s = heap.more boot_machine" "bsp_pml4 s = root s + PHYSICAL_MEMORY"
    "\<forall>i < 4096. MMIO_REGION \<le> v + of_nat i \<and> v + of_nat i < KERNEL_HEAP \<and>
      vmm_get_physical s (v + of_nat i) = Some (0xFEE00000 + of_nat i)"
proof -
  have c: "heap.truncate boot_machine = heap.truncate small_heap" by (simp add: boot_fields(9)) (simp add: small_heap_def heap.defs)
  have "mmio_budget small_heap 900" using small_heap_with(2)[of "\<lambda>_. 0"] by (simp add: small_heap_def)
  then have b: "mmio_budget boot_machine 900" using core_mmio(1)[OF c] by simp
  have "heap_budget small_heap 101" by (rule small_heap_budget) simp
  then have hb: "heap_budget boot_machine 101" using core_budget[OF c] by simp
  obtain v s where s: "vmm_create_mmio 0xFEE00000 1 [0x6C] boot_machine = Inr (v, s)" "mmio_step boot_machine s"
    "vmm_get_page s v = 0xFEE00000 OR (PAGE_PRESENT OR PAGE_WRITE OR PAGE_UNCACHEABLE)"
    "aligned 4096 v" "MMIO_REGION \<le> v" "v < KERNEL_HEAP" "heap_budget s 100"
    by (rule create_mmio_page[OF b, of "[0x6C]" "0xFEE00000"]) (use hb in auto)
  have "aligned 4096 KERNEL_HEAP" by (simp add: aligned_def KERNEL_HEAP_def)
  then have top: "unat v + 4096 \<le> unat KERNEL_HEAP"
    using s(4,6) by (auto simp: aligned_def word_less_nat_alt elim!: dvdE)
  have "MMIO_REGION \<le> v + of_nat i \<and> v + of_nat i < KERNEL_HEAP" if "i < 4096" for i
  proof -
    have "unat (v + of_nat i) = unat v + i" using that top unat_less_size[of KERNEL_HEAP] by (intro unat_add_nat) simp
    then show ?thesis using that top s(5) by (simp add: word_less_nat_alt word_le_nat_alt)
  qed
  moreover have "vmm_get_physical s (v + of_nat i) = Some (0xFEE00000 + of_nat i)" if "i < 4096" for i
    using device_physical[OF s(3-6) that] by (simp add: PAGE_PRESENT_def PAGE_WRITE_def PAGE_UNCACHEABLE_def PAGE_MASK_def)
  moreover have "bsp_pml4 s = root s + PHYSICAL_MEMORY"
    using s(2) core_fields[OF c] by (simp add: mmio_step_def root_def small_heap_def PAGE_MASK_def PHYSICAL_MEMORY_def)
  ultimately show ?thesis using that[of v s] s by (simp add: mmio_step_def)
qed

theorem create_process_adds_process_witness:
  "\<exists>v s t. vmm_create_mmio 0xFEE00000 1 [0x6C] boot_machine = Inr (v, s) \<and>
    create_process 0xFFFFFFFF80100000 s = Inr (0, t) \<and> running_processes t = 1 \<and> valid (processes t ! 0) = 1 \<and>
    vmm_get_physical (t\<lparr>cr3 := process_cr3 (processes t ! 0)\<rparr>) v = Some 0xFEE00000"
proof -
  obtain v s where s: "vmm_create_mmio 0xFEE00000 1 [0x6C] boot_machine = Inr (v, s)"
    "heap_budget s 100" "heap.more s = heap.more boot_machine" "bsp_pml4 s = root s + PHYSICAL_MEMORY"
    "\<forall>i < 4096. MMIO_REGION \<le> v + of_nat i \<and> v + of_nat i < KERNEL_HEAP \<and>
      vmm_get_physical s (v + of_nat i) = Some (0xFEE00000 + of_nat i)"
    by (rule boot_machine_device)
  note f = sched_fields[OF s(3)] boot_fields
  have v: "MMIO_REGION \<le> v" "v < KERNEL_HEAP" "vmm_get_physical s v = Some 0xFEE00000" using s(5)[rule_format, of 0] by simp_all
  have "find (\<lambda>i. valid (processes s ! i) = 0) [0..<MAX_PROCESSES] = Some 0"
    by (simp add: f MAX_PROCESSES_def zero_process_def upt_rec)
  then show ?thesis
    using create_process_adds_process[OF s(2), of 0 v "0xFFFFFFFF80100000"] s(1,4) v
    by (fastforce simp: f stores_ok_def MAX_PROCESSES_def)
qed


section \<open>Starting \<open>kmain_late\<close>\<close>

text \<open>A table with a single process that has a single thread.\<close>

lemma single_process:
  assumes "processes_at t \<noteq> 0" and p: "processes t = (replicate MAX_PROCESSES zero_process)[0 := p]" and v: "valid p \<noteq> 0"
    and tb: "thread_tables t (threads p) = Some ((replicate MAX_THREADS 0)[0 := th])"
    and th: "th \<noteq> 0" "thread_objects t th = Some x" and "cpus t \<noteq> []"
    and "vmm_get_physical (t\<lparr>cr3 := process_cr3 p\<rparr>) (lapic t + LAPIC_EOI) = Some (lapic_physical t + LAPIC_EOI)"
  shows "sched_wf t" and "slot t i j = (if i = 0 \<and> j = 0 then Some x else None)"
    and "current t = (0, 0) \<Longrightarrow> status x = THREAD_IDLE \<Longrightarrow> next_thread t = Some (0, 0)"
proof -
  have pn: "processes t ! i = (if i = 0 then p else zero_process)" if "i < MAX_PROCESSES" for i
    using that by (simp add: p MAX_PROCESSES_def nth_list_update)
  have tn: "(replicate MAX_THREADS 0)[0 := th] ! j = (if j = 0 then th else 0)" if "j < MAX_THREADS" for j
    using that by (simp add: MAX_THREADS_def nth_list_update)
  have z: "valid zero_process = 0" by (simp add: zero_process_def)
  have sp: "slot_pointer t i j = (if i = 0 \<and> j = 0 then th else 0)" for i j
    using v tb by (auto simp: slot_pointer_def pn tn z) (simp_all add: MAX_PROCESSES_def MAX_THREADS_def)
  show sl: "slot t i j = (if i = 0 \<and> j = 0 then Some x else None)" for i j using th by (simp add: slot_def sp)
  have len: "length (processes t) = MAX_PROCESSES" by (simp add: p)
  have "(\<exists>tbl. thread_tables t (threads (processes t ! i)) = Some tbl \<and> length tbl = MAX_THREADS) \<and>
      vmm_get_physical (t\<lparr>cr3 := process_cr3 (processes t ! i)\<rparr>) (lapic t + LAPIC_EOI) = Some (lapic_physical t + LAPIC_EOI)"
    if "i < MAX_PROCESSES" "valid (processes t ! i) \<noteq> 0" for i
    using that tb assms(8) by (auto simp: pn z split: if_splits)
  then show "sched_wf t" unfolding sched_wf_def using assms(1,7) len by (auto simp: sp sl)
  show "next_thread t = Some (0, 0)" if "current t = (0, 0)" "status x = THREAD_IDLE"
  proof -
    obtain xs where "candidates 0 0 = (0, 0) # xs" using candidates_first[of 0 0] by (auto simp: MAX_PROCESSES_def MAX_THREADS_def)
    moreover have "idle t (0, 0)" using that(2) by (simp add: idle_def sl)
    ultimately show ?thesis by (simp add: next_thread_def that(1))
  qed
qed

text \<open>\<open>kmain_late\<close> as the only thread.\<close>

definition late_ready :: "u64 \<Rightarrow> 'a sched_scheme \<Rightarrow> 'a sched_scheme \<Rightarrow> bool" where
  "late_ready entry s t \<longleftrightarrow> sched_wf t \<and> next_thread t = Some (0, 0) \<and> sys_ready t = 1 \<and> cpus t = cpus s \<and> cpu_count t = cpu_count s \<and>
    lapic_physical t = lapic_physical s \<and> ticks t = ticks s \<and> trace t = trace s \<and>
    (\<exists>x. slot t 0 0 = Some (x\<lparr>status := THREAD_IDLE\<rparr>) \<and> stack_set s (fresh_context entry) x t) \<and>
    (\<forall>w. MMIO_REGION \<le> w \<longrightarrow> w < KERNEL_HEAP \<longrightarrow>
      vmm_get_physical (t\<lparr>cr3 := process_cr3 (processes t ! 0)\<rparr>) w = vmm_get_physical s w)"

lemma sched_init_result:
  assumes b: "heap_budget s N" and N: "41 \<le> N" and e: "thread_tables s = Map.empty" "thread_objects s = Map.empty"
    and mx: "sched_mutex s = MUTEX_FREE"
    and r: "bsp_pml4 s = root s + PHYSICAL_MEMORY"
    and eoi: "MMIO_REGION \<le> lapic s + LAPIC_EOI" "lapic s + LAPIC_EOI < KERNEL_HEAP"
      "vmm_get_physical s (lapic s + LAPIC_EOI) = Some (lapic_physical s + LAPIC_EOI)"
    and c: "cpus s \<noteq> []" "current s = (0, 0)"
  shows "\<exists>t. sched_init entry s = Inr t \<and> late_ready entry s t \<and> heap_budget t (N - 41) \<and> stores_ok t \<and>
    sched_mutex t = MUTEX_FREE \<and> (\<exists>p. processes t = (replicate MAX_PROCESSES zero_process)[0 := p] \<and> valid p = 1) \<and>
    (\<forall>i j. (i, j) \<noteq> (0, 0) \<longrightarrow> slot t i j = None)"
proof -
  have pg: "unat (heap_pages (32 * of_nat MAX_PROCESSES)) = 5"
    using heap_pages_unat(1)[of "32 * of_nat MAX_PROCESSES"] by (simp add: MAX_PROCESSES_def)
  obtain ptr s1 where s1: "kcalloc 32 (of_nat MAX_PROCESSES) s = Inr (ptr, s1)" "ptr \<noteq> 0" "alloc_step s s1"
    "heap.more s1 = heap.more s" "heap_budget s1 (N - unat (heap_pages (32 * of_nat MAX_PROCESSES)))"
    by (rule kcalloc_block[OF b, of 32 "of_nat MAX_PROCESSES"]) (use N in \<open>simp_all add: pg, simp add: MAX_PROCESSES_def\<close>)
  note f1 = sched_fields[OF s1(4)]
  define s2 where "s2 = s1\<lparr>processes_at := ptr, processes := replicate MAX_PROCESSES zero_process\<rparr>"
  have c2: "heap.truncate s2 = heap.truncate s1" by (simp add: s2_def heap.truncate_def)
  note f2 = core_fields[OF c2] and h2 = core_heap[OF c2]
  have al2: "alloc_step s s2" using alloc_step_trans[OF s1(3) alloc_step_core[OF c2]] .
  have s2: "heap_budget s2 (N - 5)" "stores_ok s2" "sched_mutex s2 = MUTEX_FREE" "processes_at s2 \<noteq> 0"
    "processes s2 = replicate MAX_PROCESSES zero_process"
    using s1(2,5)[unfolded pg] core_budget[OF c2] e mx f1 by (simp_all add: s2_def stores_ok_def)
  have fd: "find (\<lambda>i. valid (processes s2 ! i) = 0) [0..<MAX_PROCESSES] = Some 0"
    by (simp add: s2(5) MAX_PROCESSES_def zero_process_def upt_rec)
  have ph2: "vmm_get_physical s2 w = vmm_get_physical s w" if "MMIO_REGION \<le> w" "w < KERNEL_HEAP" for w
    by (rule device_kept[OF al2 that])
  have r2: "bsp_pml4 s2 = root s2 + PHYSICAL_MEMORY" using al2 r by (simp add: alloc_step_def root_def)
  have w2: "walk (mem s2) (root s2) [257] \<noteq> None" using device_walk[OF eoi(1,2), of s2] ph2[OF eoi(1,2)] eoi(3) by simp
  obtain f tbl th x t where t: "create_process entry s2 = Inr (of_nat 0, t)" "tbl \<noteq> 0" "th \<noteq> 0"
    "thread_tables s2 tbl = None" "thread_objects s2 th = None"
    "processes t = (processes s2)[0 := \<lparr>valid = 1, threads = tbl, thread_count = 1, process_cr3 = f\<rparr>]"
    "thread_tables t = (thread_tables s2)(tbl \<mapsto> (replicate MAX_THREADS 0)[0 := th])"
    "thread_objects t = (thread_objects s2)(th \<mapsto> x\<lparr>status := THREAD_IDLE\<rparr>)" "stack_set s2 (fresh_context entry) x t"
    "running_processes t = running_processes s2 + 1" "sched_mutex t = MUTEX_FREE" "same_sched s2 t"
    "alloc_step s2 t" "kernel_window t f" "stores_ok t" "heap_budget t (N - 5 - 36)"
    by (rule create_process_result[OF s2(1) _ s2(2-4) fd r2 w2]) (use N in simp)
  let ?p = "\<lparr>valid = 1, threads = tbl, thread_count = 1, process_cr3 = f\<rparr>"
  define u where "u = t\<lparr>sys_ready := 1\<rparr>"
  have cu: "heap.truncate u = heap.truncate t" by (simp add: u_def)
  have same: "processes_at u \<noteq> 0" "cpus u = cpus s" "lapic u = lapic s" "lapic_physical u = lapic_physical s" "ticks u = ticks s"
    "trace u = trace s" "cpu_count u = cpu_count s"
    using t(12) s1(2) f1 by (simp_all add: same_sched_def u_def s2_def)
  have "vmm_wf t" using t(16) heap_wfD(1) by (auto simp: heap_budget_def heap_ok_def)
  then have dev: "vmm_get_physical (t\<lparr>cr3 := f\<rparr>) w = vmm_get_physical s w" if "MMIO_REGION \<le> w" "w < KERNEL_HEAP" for w
    using kernel_window_translates[OF _ t(14) that] device_kept[OF t(13) that] ph2[OF that] by simp
  have devu: "vmm_get_physical (u\<lparr>cr3 := f\<rparr>) w = vmm_get_physical s w" if "MMIO_REGION \<le> w" "w < KERNEL_HEAP" for w
    using dev[OF that] vmm_get_physical_mem[of "u\<lparr>cr3 := f\<rparr>" "t\<lparr>cr3 := f\<rparr>" w] by (simp add: u_def)
  have sp: "sched_wf u" "\<forall>i j. slot u i j = (if i = 0 \<and> j = 0 then Some (x\<lparr>status := THREAD_IDLE\<rparr>) else None)" "current u = (0, 0) \<Longrightarrow> next_thread u = Some (0, 0)"
    using single_process[OF same(1), of ?p th "x\<lparr>status := THREAD_IDLE\<rparr>"] t(3,6-8) s2(5) same(2-4) c(1) eoi(3) devu[OF eoi(1,2)]
    by (simp_all add: u_def)
  have "current u = (0, 0)" using c(2) same(2) by (simp add: current_def)
  then have nx: "next_thread u = Some (0, 0)" by (rule sp(3))
  have "stack_set s (fresh_context entry) x u"
    using al2 f1 core_heap(3)[OF cu] by (intro stack_set_mono[OF t(9)]) (auto simp: alloc_step_def s2_def)
  moreover have "processes u ! 0 = ?p" by (simp add: u_def t(6) s2(5) MAX_PROCESSES_def)
  moreover have run: "sched_init entry s = Inr u"
    using s1(1,2) t(1) by (simp add: sched_init_def u_def flip: s2_def)
  ultimately have "late_ready entry s u" using sp(1,2) nx same devu by (auto simp: late_ready_def u_def)
  moreover have "heap_budget u (N - 41)" "stores_ok u" using t(15,16) core_budget[OF cu] core_heap(3)[OF cu] by (simp_all add: stores_ok_def u_def)
  moreover have "sched_mutex u = MUTEX_FREE" "processes u = (replicate MAX_PROCESSES zero_process)[0 := ?p]"
    using t(6,11) s2(5) by (simp_all add: u_def)
  ultimately show ?thesis using run sp(2) by (intro exI[of _ u]) auto
qed


lemma late_ready_switch:
  assumes l: "late_ready entry s t" and n: "running_processes s = 0" and c: "cpu_sys_ready (cpus s ! 0) = 0" and k: "(ticks s + 1) mod 10 \<noteq> 0"
  obtains p x u where "timer_irq old t = Inr (Some x, u)"
    "x = (fresh_context entry)\<lparr>rsp := p + THREAD_STACK, code_segment := ucast KCODE_SEGMENT, data_segment := ucast KDATA_SEGMENT,
      status := THREAD_BUSY\<rparr>"
    "stack_at s t p"
    "current u = (0, 0)" "trace u = trace s @ [Mmio_Write (lapic_physical s + LAPIC_EOI) 0]"
    "\<forall>w. MMIO_REGION \<le> w \<longrightarrow> w < KERNEL_HEAP \<longrightarrow> vmm_get_physical u w = vmm_get_physical s w"
proof -
  let ?t = "t\<lparr>ticks := ticks t + 1\<rparr>"
  let ?v = "set_cpu 0 ((cpus ?t ! 0)\<lparr>cpu_sys_ready := 1\<rparr>) ?t"
  have wf: "sched_wf ?t" "cpu_sys_ready (cpus ?t ! 0) = 0" and sl: "slot ?t = slot t"
    using l c sched_wf_updates(4) slot_other(5) by (auto simp: late_ready_def)
  have "next_thread ?t = next_thread t" by (simp add: next_thread_def idle_def sl current_def)
  then have nx: "next_thread ?t = Some (0, 0)" using l by (simp add: late_ready_def)
  obtain y where y: "slot t 0 0 = Some (y\<lparr>status := THREAD_IDLE\<rparr>)" "stack_set s (fresh_context entry) y t"
    using l by (auto simp: late_ready_def)
  obtain p where p: "y = (fresh_context entry)\<lparr>rsp := p + THREAD_STACK, code_segment := ucast KCODE_SEGMENT, data_segment := ucast KDATA_SEGMENT\<rparr>"
    "stack_at s t p"
    using y(2) n by (auto simp: stack_set_def)
  have run: "timer_irq old t = Inr (Some (y\<lparr>status := THREAD_BUSY\<rparr>), switched (0, 0) ?v)"
    using resched_first[OF wf nx, of old] y(1) sl l k by (simp add: timer_irq_def late_ready_def Let_def)
  have "sched_wf ?v" "slot ?v 0 0 = Some (y\<lparr>status := THREAD_IDLE\<rparr>)"
    using sched_wf_updates(1)[OF wf(1)] by (simp_all add: slot_other sl y(1))
  note sw = switched_facts[OF this]
  have st: "trace (switched (0, 0) ?v) = trace s @ [Mmio_Write (lapic_physical s + LAPIC_EOI) 0]"
    "cr3 (switched (0, 0) ?v) = process_cr3 (processes t ! 0)" "mem (switched (0, 0) ?v) = mem t"
    using l by (simp_all add: switched_def emit_def set_thread_def run_on_def set_cpu_def late_ready_def)
  have "vmm_get_physical (switched (0, 0) ?v) w = vmm_get_physical (t\<lparr>cr3 := process_cr3 (processes t ! 0)\<rparr>) w" for w
    by (rule vmm_get_physical_mem; unfold st(2,3); simp)
  then show ?thesis using that[OF run _ p(2) _ st(1)] l p(1) sw by (simp add: late_ready_def)
qed

text \<open>C29: the first timer interrupt after \<open>sched_init\<close>, if it is one that schedules, returns to
  \<open>kmain_late\<close>: in kernel mode with interrupts enabled, on a stack of its own made of fresh heap
  memory, as thread 0 of process 0, in an address space in which every device is
  mapped as before, and the interrupt is acknowledged once.\<close>

theorem first_timer_irq_starts_kmain_late:
  assumes "heap_budget s N" and "41 \<le> N" and "thread_tables s = Map.empty" and "thread_objects s = Map.empty" and "sched_mutex s = MUTEX_FREE"
    and "bsp_pml4 s = root s + PHYSICAL_MEMORY"
    and "MMIO_REGION \<le> lapic s + LAPIC_EOI" and "lapic s + LAPIC_EOI < KERNEL_HEAP"
    and "vmm_get_physical s (lapic s + LAPIC_EOI) = Some (lapic_physical s + LAPIC_EOI)"
    and "cpus s \<noteq> []" and "current s = (0, 0)" and "running_processes s = 0" and "cpu_sys_ready (cpus s ! 0) = 0"
    and "(ticks s + 1) mod 10 \<noteq> 0"
  shows "\<exists>p t x u. sched_init kmain_late s = Inr t \<and> timer_irq old t = Inr (Some x, u) \<and>
    x = zero_thread\<lparr>rip := kmain_late, rflags := 0x202, rsp := p + THREAD_STACK, code_segment := ucast KCODE_SEGMENT,
      data_segment := ucast KDATA_SEGMENT, status := THREAD_BUSY\<rparr> \<and>
    stack_at s t p \<and>
    current u = (0, 0) \<and> trace u = trace s @ [Mmio_Write (lapic_physical s + LAPIC_EOI) 0] \<and>
    (\<forall>w. MMIO_REGION \<le> w \<longrightarrow> w < KERNEL_HEAP \<longrightarrow> vmm_get_physical u w = vmm_get_physical s w)"
proof -
  obtain t where t: "sched_init kmain_late s = Inr t" "late_ready kmain_late s t"
    using sched_init_result[OF assms(1-11)] by blast
  obtain p x u where "timer_irq old t = Inr (Some x, u)"
    "x = (fresh_context kmain_late)\<lparr>rsp := p + THREAD_STACK, code_segment := ucast KCODE_SEGMENT, data_segment := ucast KDATA_SEGMENT,
      status := THREAD_BUSY\<rparr>"
    "stack_at s t p"
    "current u = (0, 0)" "trace u = trace s @ [Mmio_Write (lapic_physical s + LAPIC_EOI) 0]"
    "\<forall>w. MMIO_REGION \<le> w \<longrightarrow> w < KERNEL_HEAP \<longrightarrow> vmm_get_physical u w = vmm_get_physical s w"
    by (rule late_ready_switch[OF t(2) assms(12-14)])
  then show ?thesis using t(1) unfolding fresh_context_def by (intro exI[of _ p] exI[of _ t] exI[of _ x] exI[of _ u]) simp
qed

theorem first_timer_irq_starts_kmain_late_witness:
  "\<exists>v s t x u. vmm_create_mmio 0xFEE00000 1 [0x6C] boot_machine = Inr (v, s) \<and>
    sched_init 0xFFFFFFFF80100000 (s\<lparr>lapic := v\<rparr>) = Inr t \<and>
    timer_irq zero_thread t = Inr (Some x, u) \<and> rip x = 0xFFFFFFFF80100000 \<and> current u = (0, 0)"
proof -
  obtain v s where s: "vmm_create_mmio 0xFEE00000 1 [0x6C] boot_machine = Inr (v, s)"
    "heap_budget s 100" "heap.more s = heap.more boot_machine" "bsp_pml4 s = root s + PHYSICAL_MEMORY"
    "\<forall>i < 4096. MMIO_REGION \<le> v + of_nat i \<and> v + of_nat i < KERNEL_HEAP \<and>
      vmm_get_physical s (v + of_nat i) = Some (0xFEE00000 + of_nat i)"
    by (rule boot_machine_device)
  let ?s = "s\<lparr>lapic := v\<rparr>"
  have c: "heap.truncate ?s = heap.truncate s" by (simp add: heap.truncate_def)
  note f = sched_fields[OF s(3)] boot_fields
  have "heap_budget ?s 100" using s(2) core_budget[OF c] by simp
  moreover have "bsp_pml4 ?s = root ?s + PHYSICAL_MEMORY" using s(4) by (simp add: root_def)
  moreover have "MMIO_REGION \<le> v + LAPIC_EOI" "v + LAPIC_EOI < KERNEL_HEAP" "vmm_get_physical ?s (v + LAPIC_EOI) = Some (0xFEE00000 + LAPIC_EOI)"
    using s(5)[rule_format, of "0xB0"] core_heap(8)[OF c] by (simp_all add: LAPIC_EOI_def)
  moreover have "current ?s = (0, 0)" "cpu_sys_ready (cpus ?s ! 0) = 0" by (simp_all add: current_def f zero_cpu_def)
  moreover have "ticks ?s = 0" by (simp add: f) (simp add: boot_machine_def example_smp_def ioapic_machine_def timer.defs smp.defs heap.defs apic.defs)
  ultimately obtain t x u where "sched_init 0xFFFFFFFF80100000 ?s = Inr t" "timer_irq zero_thread t = Inr (Some x, u)"
    "rip x = 0xFFFFFFFF80100000" "current u = (0, 0)"
    using first_timer_irq_starts_kmain_late[of ?s 100 "0xFFFFFFFF80100000" zero_thread] by (simp add: f) fastforce
  then show ?thesis using s(1) by blast
qed

end
