(* ===== verification/Sched_Threads.thy ===== *)
theory Sched_Threads
  imports Sched_Create
begin

text \<open>
  \<open>create_thread\<close>: what it adds to the tables of the scheduler, and which slot it takes.
\<close>

section \<open>The slot\<close>

text \<open>\<open>find_thread\<close> returns the first slot of process 0 that is empty or whose thread is \<open>THREAD_NONE\<close>.\<close>

definition open_slot :: "'a sched_scheme \<Rightarrow> nat \<Rightarrow> bool" where
  "open_slot s j \<longleftrightarrow> (case slot s 0 j of None \<Rightarrow> True | Some t \<Rightarrow> status t = 0)"

lemma find_thread_loop_first:
  assumes wf: "sched_wf s" and v: "valid (processes s ! 0) \<noteq> 0" and "j + n = MAX_THREADS"
  shows "find_thread_loop s (processes s ! 0) j n = Inr (find (open_slot s) [j..<MAX_THREADS])"
  using assms(3)
proof (induction n arbitrary: j)
  case 0
  then show ?case by simp
next
  case (Suc n)
  have j: "j < MAX_THREADS" "[j..<MAX_THREADS] = j # [j + 1..<MAX_THREADS]" using Suc.prems by (simp_all add: upt_rec)
  have tp: "thread_pointer s (processes s ! 0) j = Inr (slot_pointer s 0 j)"
    by (rule thread_pointer_slot[OF wf _ v j(1)]) (simp add: MAX_PROCESSES_def)
  note IH = Suc.IH[of "j + 1"]
  show ?case
  proof (cases "slot s 0 j")
    case None
    then have "slot_pointer s 0 j = 0" using wf unfolding sched_wf_def by blast
    then show ?thesis using tp None by (simp add: j(2) open_slot_def)
  next
    case (Some t)
    then show ?thesis using tp IH Suc.prems thread_at_slot[OF Some] by (simp add: j(2) open_slot_def)
  qed
qed

text \<open>The thread of \<open>create_thread\<close>: kernel threads get a stack, others start at \<open>THREAD_STACK\<close>.\<close>

definition new_context :: "nat \<Rightarrow> u64 \<Rightarrow> u64 \<Rightarrow> thread_t" where
  "new_context pid entry stack = zero_thread\<lparr>rsp := (if pid = 0 then stack else 0) + THREAD_STACK, rflags := 0x202, rip := entry,
     code_segment := ucast (if pid = 0 then KCODE_SEGMENT else UCODE_SEGMENT),
     data_segment := ucast (if pid = 0 then KDATA_SEGMENT else UDATA_SEGMENT), status := THREAD_IDLE\<rparr>"

lemma create_thread_result:
  assumes b: "heap_budget s 34" and st: "stores_ok s" and wf: "sched_wf s" and mx: "sched_mutex s = MUTEX_FREE"
    and cpu: "get_cpu a s = Inr c" "pid = unat (cpu_pid (cpus s ! c))"
    and pid: "pid < MAX_PROCESSES" "valid (processes s ! pid) \<noteq> 0" "valid (processes s ! 0) \<noteq> 0"
    and tid: "find (open_slot s) [0..<MAX_THREADS] = Some tid"
    and tbl: "thread_tables s (threads (processes s ! pid)) = Some tbl" "length tbl = MAX_THREADS"
  obtains th stack t where "create_thread a entry s = Inr (0, t)" "th \<noteq> 0" "thread_objects s th = None"
    "processes t = (processes s)[pid := (processes s ! pid)\<lparr>thread_count := thread_count (processes s ! pid) + 1\<rparr>]"
    "thread_tables t = (thread_tables s)(threads (processes s ! pid) \<mapsto> tbl[tid := th])"
    "thread_objects t = (thread_objects s)(th \<mapsto> new_context pid entry stack)"
    "pid = 0 \<longrightarrow> stack_at s t stack" "running_processes t = running_processes s" "sched_mutex t = MUTEX_FREE" "same_sched s t" "alloc_step s t"
proof -
  let ?p = "processes s ! pid" and ?n = "running_processes s"
  let ?tp = "threads ?p"
  define s0 where "s0 = s\<lparr>sched_mutex := MUTEX_BUSY\<rparr>"
  have c0: "heap.truncate s0 = heap.truncate s" by (simp add: s0_def)
  have i0: "sched_is s s0 (processes s) (thread_tables s) (thread_objects s) MUTEX_BUSY ?n"
    by (simp add: s0_def sched_is_def same_sched_def)
  have ss: "same_slots s s0" by (simp add: same_slots_def s0_def)
  have sl: "slot s0 = slot s" by (rule slot_same[OF ss]) (simp add: s0_def)
  have wf0: "sched_wf s0" by (rule sched_wf_same[OF wf ss]) (use wf in \<open>auto simp: s0_def sched_wf_def slot_def\<close>)
  have st0: "stores_ok s0" using st core_heap(3)[OF c0] by (simp add: stores_ok_def s0_def)
  note b0 = b[folded core_budget[OF c0]]
  have gp: "get_pid a s0 = Inr (cpu_pid (cpus s ! c))"
    using cpu(1) by (simp add: get_pid_def get_cpu_def s0_def)
  have pa: "process_at s0 pid = Inr ?p" using process_at_wf[OF wf0 pid(1)] by (simp add: s0_def)
  have "process_at s0 0 = Inr (processes s ! 0)" using process_at_wf[OF wf0, of 0] by (simp add: s0_def MAX_PROCESSES_def)
  moreover have "open_slot s0 = open_slot s" by (simp add: open_slot_def sl fun_eq_iff)
  ultimately have ft: "find_thread pid s0 = Inr (Some tid)"
    using find_thread_loop_first[OF wf0, of 0 MAX_THREADS] pid(3) tid by (simp add: find_thread_def s0_def)
  have tl: "tid < MAX_THREADS" using find_SomeD[OF tid] by simp
  obtain th s1 where s1: "new_thread s0 = Inr (th, s1)" "th \<noteq> 0" "thread_objects s0 th = None" "alloc_step s0 s1" "heap_budget s1 33"
    "heap.more s1 = heap.more (s0\<lparr>thread_objects := (thread_objects s0)(th \<mapsto> zero_thread)\<rparr>)" "stores_ok s1"
    using new_thread_block[OF b0 _ st0] by auto
  let ?th = "(thread_objects s)(th \<mapsto> zero_thread)" and ?tb = "(thread_tables s)(?tp \<mapsto> tbl[tid := th])"
  have i1: "sched_is s s1 (processes s) (thread_tables s) ?th MUTEX_BUSY ?n"
    unfolding sched_is_more[OF s1(6)] sched_isD(3)[OF i0] by (rule sched_is_update(3)[OF i0])
  have tp: "thread_pointer s1 ?p tid = Inr (tbl ! tid)" using tbl tl sched_isD(2)[OF i1] by (simp add: thread_pointer_def)
  define s2 where "s2 = set_slot ?tp tid th s1"
  have i2: "sched_is s s2 (processes s) ?tb ?th MUTEX_BUSY ?n" unfolding s2_def by (rule sched_is_update(5)[OF i1 tbl(1)])
  have c2: "heap.truncate s2 = heap.truncate s1" by (simp add: s2_def set_slot_def)
  have st2: "stores_ok s2"
    using s1(7) core_heap(3)[OF c2] tbl(1) sched_isD(2,3)[OF i1] sched_isD(2,3)[OF i2] unfolding stores_ok_def by (auto split: if_splits)
  note b2 = s1(5)[folded core_budget[OF c2]]
  note al2 = alloc_step_trans[OF alloc_step_core[OF c0] alloc_step_trans[OF s1(4) alloc_step_core[OF c2]]]
  obtain stack s3 where s3: "pid = 0 \<longrightarrow> kmalloc THREAD_STACK s2 = Inr (stack, s3) \<and> stack \<noteq> 0 \<and> stack_at s2 s3 stack"
    "pid \<noteq> 0 \<longrightarrow> s3 = s2" "alloc_step s2 s3" "heap.more s3 = heap.more s2"
  proof (cases "pid = 0")
    case True
    then show ?thesis using that by (rule_tac stack_block[OF b2 _ st2]) simp_all
  next
    case False
    then show ?thesis using that[of 0 s2] alloc_step_core[of s2 s2] by simp
  qed
  have i3: "sched_is s s3 (processes s) ?tb ?th MUTEX_BUSY ?n" using i2 sched_is_more[OF s3(4)] by simp
  let ?x = "new_context pid entry stack" and ?q = "?p\<lparr>thread_count := thread_count ?p + 1\<rparr>"
  define s4 where "s4 = set_process pid ?q (set_thread th ?x s3)"
  define t where "t = s4\<lparr>sched_mutex := MUTEX_FREE\<rparr>"
  have i4: "sched_is s s4 ((processes s)[pid := ?q]) ?tb (?th(th \<mapsto> ?x)) MUTEX_BUSY ?n"
    unfolding s4_def by (rule sched_is_update(1)[OF sched_is_update(4)[OF i3]])
  have "t = s4\<lparr>running_processes := running_processes s4, sched_mutex := MUTEX_FREE\<rparr>" by (simp add: t_def)
  then have iT: "sched_is s t ((processes s)[pid := ?q]) ?tb (?th(th \<mapsto> ?x)) MUTEX_FREE ?n"
    using sched_is_update(6)[OF i4, where n' = "running_processes s4" and m' = MUTEX_FREE] sched_isD(5)[OF i4] by simp
  have cT: "heap.truncate t = heap.truncate s3" by (simp add: t_def s4_def set_process_def set_thread_def)
  have pid0: "cpu_pid (cpus s ! c) = 0 \<longleftrightarrow> pid = 0" by (simp add: cpu(2) unat_eq_0)
  have fin: "unlock_return 0 s4 = Inr (0, t)" by (simp add: unlock_return_def t_def sched_isD(4)[OF i4])
  let ?y = "\<lambda>cs ds sp. zero_thread\<lparr>code_segment := cs, data_segment := ds, rsp := sp, rflags := 0x202, rip := entry, status := THREAD_IDLE\<rparr>"
  note steps = create_thread_def mx acquire_release(1) s0_def[symmetric] gp cpu(2)[symmetric] pa ft s1(1,2) tp s2_def[symmetric] Let_def
  have "create_thread a entry s = Inr (0, t)"
  proof (cases "pid = 0")
    case True
    then have e: "(cpu_pid (cpus s ! c) = 0) = True" and k: "kmalloc THREAD_STACK s2 = Inr (stack, s3)" "stack \<noteq> 0"
      and x: "?y (ucast KCODE_SEGMENT) (ucast KDATA_SEGMENT) (stack + THREAD_STACK) = ?x"
      using pid0 s3(1) by (simp_all add: new_context_def zero_thread_def)
    show ?thesis by (simp add: steps e k x s4_def[symmetric] fin cong: run_congs)
  next
    case False
    then have e: "(cpu_pid (cpus s ! c) = 0) = False" and k: "s3 = s2"
      and x: "?y (ucast UCODE_SEGMENT) (ucast UDATA_SEGMENT) (rsp zero_thread + THREAD_STACK) = ?x"
      using pid0 s3(2) by (simp_all add: new_context_def zero_thread_def)
    show ?thesis by (simp add: steps e x s4_def[unfolded k, symmetric] fin cong: run_congs)
  qed
  moreover have "pid = 0 \<longrightarrow> stack_at s t stack"
    using s3(1) al2 core_heap(3)[OF cT] by (auto simp: stack_at_def alloc_step_def)
  moreover have "alloc_step s t" using alloc_step_trans[OF al2 alloc_step_trans[OF s3(3) alloc_step_core[OF cT]]] .
  ultimately show ?thesis using that[of t th stack] s1(2,3) sched_isD[OF iT] sched_isD(3)[OF i0] by simp
qed


section \<open>Properties\<close>

text \<open>C30: \<open>create_thread\<close>, called for process \<open>i\<close>, adds an idle thread at the entry point, for process 0
  on a stack of fresh heap memory, and counts it.  It puts the thread into the first slot that is open in the table of
  process 0, whatever that slot of process \<open>i\<close> holds; every other slot of every process keeps its
  thread, and the lock is free again.\<close>

theorem create_thread_takes_slot_of_first_process:
  assumes "heap_budget s 34" and "stores_ok s" and "sched_wf s" and "sched_mutex s = MUTEX_FREE"
    and "get_cpu a s = Inr c" and "i = unat (cpu_pid (cpus s ! c))"
    and "i < MAX_PROCESSES" and "valid (processes s ! i) \<noteq> 0" and "valid (processes s ! 0) \<noteq> 0"
    and "find (open_slot s) [0..<MAX_THREADS] = Some tid"
    and "\<forall>k < MAX_PROCESSES. k \<noteq> i \<longrightarrow> valid (processes s ! k) \<noteq> 0 \<longrightarrow> threads (processes s ! k) \<noteq> threads (processes s ! i)"
  shows "\<exists>stack t. create_thread a entry s = Inr (0, t) \<and> slot t i tid = Some (new_context i entry stack) \<and>
    (i = 0 \<longrightarrow> stack_at s t stack) \<and> (\<forall>k j. (k, j) \<noteq> (i, tid) \<longrightarrow> slot t k j = slot s k j) \<and>
    thread_count (processes t ! i) = thread_count (processes s ! i) + 1 \<and> running_processes t = running_processes s \<and>
    sched_mutex t = MUTEX_FREE \<and> same_sched s t"
proof -
  let ?p = "processes s ! i"
  obtain tbl where tbl: "thread_tables s (threads ?p) = Some tbl" "length tbl = MAX_THREADS"
    using assms(3,7,8) unfolding sched_wf_def by blast
  obtain th stack t where t: "create_thread a entry s = Inr (0, t)" "th \<noteq> 0" "thread_objects s th = None"
    "processes t = (processes s)[i := ?p\<lparr>thread_count := thread_count ?p + 1\<rparr>]"
    "thread_tables t = (thread_tables s)(threads ?p \<mapsto> tbl[tid := th])"
    "thread_objects t = (thread_objects s)(th \<mapsto> new_context i entry stack)"
    "i = 0 \<longrightarrow> stack_at s t stack" "running_processes t = running_processes s" "sched_mutex t = MUTEX_FREE" "same_sched s t" "alloc_step s t"
    by (rule create_thread_result[OF assms(1-10) tbl])
  have len: "length (processes s) = MAX_PROCESSES" using assms(3) by (simp add: sched_wf_def)
  have tl: "tid < MAX_THREADS" using find_SomeD[OF assms(10)] by simp
  have pr: "processes t ! k = (if k = i then ?p\<lparr>thread_count := thread_count ?p + 1\<rparr> else processes s ! k)" if "k < MAX_PROCESSES" for k
    using that len by (simp add: t(4) nth_list_update)
  have sp: "slot_pointer t k j = (if k = i \<and> j = tid then th else slot_pointer s k j)" for k j
    using assms(7,8,11) tbl tl by (auto simp: slot_pointer_def pr t(5) nth_list_update)
  have "slot_pointer s k j \<noteq> th" if "slot_pointer s k j \<noteq> 0" for k j
    using assms(3) that t(3) unfolding sched_wf_def slot_def by metis
  then have "slot t k j = (if k = i \<and> j = tid then Some (new_context i entry stack) else slot s k j)" for k j
    using t(2) by (simp add: slot_def sp t(6))
  then show ?thesis using t(1,7-10) pr[OF assms(7)] by (intro exI[of _ stack] exI[of _ t]) simp
qed

theorem create_thread_takes_slot_of_first_process_witness:
  "\<exists>v s t u x y. vmm_create_mmio 0xFEE00000 1 [0x6C] boot_machine = Inr (v, s) \<and>
    sched_init 0xFFFFFFFF80100000 (s\<lparr>lapic := v, cpu_count := 1\<rparr>) = Inr t \<and>
    create_thread 0 0xFFFFFFFF80200000 t = Inr (0, u) \<and> slot u 0 0 = Some x \<and> rip x = 0xFFFFFFFF80100000 \<and>
    slot u 0 1 = Some y \<and> rip y = 0xFFFFFFFF80200000 \<and> status y = THREAD_IDLE"
proof -
  obtain v s where s: "vmm_create_mmio 0xFEE00000 1 [0x6C] boot_machine = Inr (v, s)"
    "heap_budget s 100" "heap.more s = heap.more boot_machine" "bsp_pml4 s = root s + PHYSICAL_MEMORY"
    "\<forall>i < 4096. MMIO_REGION \<le> v + of_nat i \<and> v + of_nat i < KERNEL_HEAP \<and>
      vmm_get_physical s (v + of_nat i) = Some (0xFEE00000 + of_nat i)"
    by (rule boot_machine_device)
  let ?s = "s\<lparr>lapic := v, cpu_count := 1\<rparr>"
  have c: "heap.truncate ?s = heap.truncate s" by (simp add: heap.truncate_def)
  note f = sched_fields[OF s(3)] boot_fields
  have b: "heap_budget ?s 100" "41 \<le> (100 :: nat)" using s(2) core_budget[OF c] by simp_all
  have e: "thread_tables ?s = Map.empty" "thread_objects ?s = Map.empty" "sched_mutex ?s = MUTEX_FREE" "cpus ?s \<noteq> []"
    "bsp_pml4 ?s = root ?s + PHYSICAL_MEMORY" using s(4) by (simp_all add: f root_def)
  have l: "MMIO_REGION \<le> lapic ?s + LAPIC_EOI" "lapic ?s + LAPIC_EOI < KERNEL_HEAP"
    "vmm_get_physical ?s (lapic ?s + LAPIC_EOI) = Some (lapic_physical ?s + LAPIC_EOI)"
    using s(5)[rule_format, of "0xB0"] core_heap(8)[OF c] by (simp_all add: LAPIC_EOI_def f)
  have cur: "current ?s = (0, 0)" by (simp add: current_def f zero_cpu_def)
  obtain t where t0: "sched_init 0xFFFFFFFF80100000 ?s = Inr t \<and> late_ready 0xFFFFFFFF80100000 ?s t \<and> heap_budget t (100 - 41) \<and> stores_ok t \<and>
    sched_mutex t = MUTEX_FREE \<and> (\<exists>p. processes t = (replicate MAX_PROCESSES zero_process)[0 := p] \<and> valid p = 1) \<and>
    (\<forall>i j. (i, j) \<noteq> (0, 0) \<longrightarrow> slot t i j = None)"
    using sched_init_result[OF b e(1-3,5) l e(4) cur, of "0xFFFFFFFF80100000"] by blast
  have late: "late_ready 0xFFFFFFFF80100000 ?s t" using t0 by blast
  then obtain x where xs: "slot t 0 0 = Some (x\<lparr>status := THREAD_IDLE\<rparr>)" "stack_set ?s (fresh_context 0xFFFFFFFF80100000) x t"
    unfolding late_ready_def by blast
  obtain p where t: "sched_init 0xFFFFFFFF80100000 ?s = Inr t" "late_ready 0xFFFFFFFF80100000 ?s t" "heap_budget t 59" "stores_ok t"
    "sched_mutex t = MUTEX_FREE" "processes t = (replicate MAX_PROCESSES zero_process)[0 := p]" "valid p = 1"
    "\<forall>i j. (i, j) \<noteq> (0, 0) \<longrightarrow> slot t i j = None"
    using t0 by auto
  have x: "rip x = 0xFFFFFFFF80100000" using xs(2) by (auto simp: stack_set_def fresh_context_def split: if_splits)
  have ct: "cpus t = [zero_cpu]" "cpu_count t = 1" "sched_wf t" using late by (simp_all add: late_ready_def f)
  have "find (open_slot t) [0..<MAX_THREADS] = Some 1"
    using t(8) xs(1) by (simp add: open_slot_def MAX_THREADS_def upt_rec THREAD_IDLE_def)
  moreover have "heap_budget t 34" using heap_budget_mono[OF t(3)] by simp
  moreover have "get_cpu 0 t = Inr 0" "unat (cpu_pid (cpus t ! 0)) = 0" by (simp_all add: get_cpu_def ct zero_cpu_def upt_rec)
  moreover have pv: "valid (processes t ! i) \<noteq> 0 \<longleftrightarrow> i = 0" if "i < MAX_PROCESSES" for i
    using that t(6,7) by (simp add: nth_list_update zero_process_def MAX_PROCESSES_def)
  moreover have "0 < MAX_PROCESSES" by (simp add: MAX_PROCESSES_def)
  ultimately obtain stack u where "create_thread 0 0xFFFFFFFF80200000 t = Inr (0, u)" "slot u 0 1 = Some (new_context 0 0xFFFFFFFF80200000 stack)"
    "\<forall>k j. (k, j) \<noteq> (0, 1) \<longrightarrow> slot u k j = slot t k j"
    using create_thread_takes_slot_of_first_process[of t 0 0 0 1 "0xFFFFFFFF80200000"] t(4,5) ct(3) by auto
  moreover from this(3) have "slot u 0 0 = slot t 0 0" by simp
  ultimately show ?thesis using s(1) t(1) x xs(1) by (force simp: new_context_def)
qed

end
