(* ===== verification/Debug_Format.thy ===== *)
theory Debug_Format
  imports Debug
begin

text \<open>
  The directives of \<open>debug_printf\<close>: a format string is the encoding of a list of pieces, and
  the output is the rendering of that list, a plain function of the arguments and the strings
  they point to.
\<close>

section \<open>Formats and their rendering\<close>

datatype conv = Char | Str | Dec | Hex | HEX | LDec | LHex | LHEX

datatype piece =
    Text "u8 list"
  | Directive bool nat conv    \<comment> \<open>zero padding, width (0 for none), conversion\<close>

fun conv_bytes :: "conv \<Rightarrow> u8 list" where
  "conv_bytes Char = [0x63]"
| "conv_bytes Str = [0x73]"
| "conv_bytes Dec = [0x64]"
| "conv_bytes Hex = [0x78]"
| "conv_bytes HEX = [0x58]"
| "conv_bytes LDec = [0x6C, 0x64]"
| "conv_bytes LHex = [0x6C, 0x78]"
| "conv_bytes LHEX = [0x6C, 0x58]"

definition width_bytes :: "bool \<Rightarrow> nat \<Rightarrow> u8 list" where
  "width_bytes zero w = (if zero then [0x30] else []) @ (if w = 0 then [] else digits 10 w)"

fun piece_bytes :: "piece \<Rightarrow> u8 list" where
  "piece_bytes (Text xs) = xs"
| "piece_bytes (Directive zero w c) = [0x25] @ width_bytes zero w @ conv_bytes c"

definition format_bytes :: "piece list \<Rightarrow> u8 list" where
  "format_bytes ps = concat (map piece_bytes ps)"

fun piece_ok :: "piece \<Rightarrow> bool" where
  "piece_ok (Text xs) = (0 \<notin> set xs \<and> 0x25 \<notin> set xs)"
| "piece_ok (Directive zero w c) = (w < 95)"

text \<open>
  The text of an argument.  \<open>S\<close> gives the string at an address.  A 32-bit number is printed as an
  unsigned one, also for \<open>%d\<close>.
\<close>

fun arg_text :: "(u64 \<Rightarrow> u8 list) \<Rightarrow> (u8 list \<Rightarrow> u8 list) \<Rightarrow> conv \<Rightarrow> u64 \<Rightarrow> u8 list" where
  "arg_text S pd Char x = [ucast x]"
| "arg_text S pd Str x = S x"
| "arg_text S pd Dec x = pd (digits 10 (unat (ucast x :: u32)))"
| "arg_text S pd Hex x = map lower_char (pd (digits 16 (unat (ucast x :: u32))))"
| "arg_text S pd HEX x = map upper_char (pd (digits 16 (unat (ucast x :: u32))))"
| "arg_text S pd LDec x = pd (number_text 10 x)"
| "arg_text S pd LHex x = map lower_char (pd (digits 16 (unat x)))"
| "arg_text S pd LHEX x = map upper_char (pd (digits 16 (unat x)))"

definition pad_char :: "bool \<Rightarrow> u8" where
  "pad_char zero = (if zero then 0x30 else 0x20)"

fun render :: "(u64 \<Rightarrow> u8 list) \<Rightarrow> piece list \<Rightarrow> u64 list \<Rightarrow> u8 list" where
  "render S [] args = []"
| "render S (Text xs # ps) args = xs @ render S ps args"
| "render S (Directive zero w c # ps) args =
    arg_text S (\<lambda>xs. padded xs w (pad_char zero)) c (hd args) @ render S ps (tl args)"

text \<open>The arguments that are taken as strings, and how many arguments are taken.\<close>

fun string_args :: "piece list \<Rightarrow> u64 list \<Rightarrow> u64 list" where
  "string_args [] args = []"
| "string_args (Text xs # ps) args = string_args ps args"
| "string_args (Directive zero w c # ps) args =
    (if c = Str then [hd args] else []) @ string_args ps (tl args)"

fun arg_count :: "piece list \<Rightarrow> nat" where
  "arg_count [] = 0"
| "arg_count (Text xs # ps) = arg_count ps"
| "arg_count (Directive zero w c # ps) = Suc (arg_count ps)"

section \<open>Bytes at an address\<close>

definition bytes_at :: "memory \<Rightarrow> u64 \<Rightarrow> u8 list \<Rightarrow> bool" where
  "bytes_at m p xs \<longleftrightarrow> (\<forall>j < length xs. m (p + of_nat j) = xs ! j)"

lemma bytes_at_append:
  "bytes_at m p (xs @ ys) \<longleftrightarrow> bytes_at m p xs \<and> bytes_at m (p + of_nat (length xs)) ys"
proof -
  have "bytes_at m p (xs @ ys) \<longleftrightarrow>
      (\<forall>j < length xs. m (p + of_nat j) = xs ! j) \<and> (\<forall>j < length ys. m (p + of_nat (length xs + j)) = ys ! j)"
    unfolding bytes_at_def
  proof (intro iffI conjI allI impI)
    fix j assume "(\<forall>j < length xs. m (p + of_nat j) = xs ! j) \<and> (\<forall>j < length ys. m (p + of_nat (length xs + j)) = ys ! j)"
      "j < length (xs @ ys)"
    then show "m (p + of_nat j) = (xs @ ys) ! j"
      by (cases "j < length xs") (auto simp: nth_append dest: spec[of _ "j - length xs"])
  next
    fix j assume a: "\<forall>j < length (xs @ ys). m (p + of_nat j) = (xs @ ys) ! j"
    show "m (p + of_nat j) = xs ! j" if "j < length xs" using a[rule_format, of j] that by (simp add: nth_append)
    show "m (p + of_nat (length xs + j)) = ys ! j" if "j < length ys"
      using a[rule_format, of "length xs + j"] that by (simp add: nth_append)
  qed
  then show ?thesis by (simp add: bytes_at_def add.assoc)
qed

lemma bytes_at_simps [simp]:
  "bytes_at m p []" "bytes_at m p (x # xs) \<longleftrightarrow> m p = x \<and> bytes_at m (p + 1) xs"
  using bytes_at_append[of m p "[x]" xs] by (simp_all add: bytes_at_def)

lemma bytes_at_cstr: "cstr m p xs \<longleftrightarrow> length xs < 2 ^ 64 \<and> 0 \<notin> set xs \<and> bytes_at m p (xs @ [0])"
proof -
  have "load m p (length xs + 1) = xs @ [0] \<longleftrightarrow> bytes_at m p (xs @ [0])"
    by (auto simp: bytes_at_def list_eq_iff_nth_eq)
  then show ?thesis by (simp add: cstr_def)
qed

lemma bytes_at_same: "\<forall>j < length xs. m' (p + of_nat j) = m (p + of_nat j) \<Longrightarrow> bytes_at m' p xs = bytes_at m p xs"
  by (simp add: bytes_at_def)

section \<open>Text\<close>

lemma vprintf_chars:
  "quiet s \<Longrightarrow> bytes_at (dmem s) (fmt + of_nat i) xs \<Longrightarrow> 0 \<notin> set xs \<Longrightarrow> 0x25 \<notin> set xs \<Longrightarrow>
    \<forall>j < length xs. fmt + of_nat (i + j) \<noteq> cell s \<Longrightarrow>
    \<exists>t. vprintf_loop font fr fmt (of_nat i) args n s = vprintf_loop font fr fmt (of_nat (i + length xs)) args (n + of_nat (length xs)) t \<and>
      logged s t (crlf xs) {cell s}"
proof (induction xs arbitrary: i n s)
  case Nil
  then show ?case using logged_refl by auto
next
  case (Cons x xs)
  obtain u where u: "debug_putc font x s = Inr u" "logged s u (crlf [x]) {cell s}"
    using debug_putc_quiet[OF Cons.prems(1)] by blast
  note l = loggedD[OF u(2)]
  have off: "fmt + of_nat (Suc i + j) \<noteq> cell s" if "j < length xs" for j
    using Cons.prems(5)[rule_format, of "Suc j"] that by simp
  have "bytes_at (dmem u) (fmt + of_nat (Suc i)) xs = bytes_at (dmem s) (fmt + of_nat (Suc i)) xs"
    using off l(6) by (intro bytes_at_same) (auto simp: algebra_simps)
  then have b: "bytes_at (dmem u) (fmt + of_nat (Suc i)) xs" using Cons.prems(2) by (simp add: algebra_simps)
  obtain t where t: "vprintf_loop font fr fmt (of_nat (Suc i)) args (n + 1) u =
      vprintf_loop font fr fmt (of_nat (Suc i + length xs)) args (n + 1 + of_nat (length xs)) t" "logged u t (crlf xs) {cell s}"
    using Cons.IH[of u "Suc i" "n + 1"] Cons.prems l(1,2) b off by auto
  have "vprintf_loop font fr fmt (of_nat i) args n s = vprintf_loop font fr fmt (of_nat (Suc i)) args (n + 1) u"
    using Cons.prems(2-4) u(1) by (subst vprintf_loop.simps) (simp add: add.commute)
  then show ?case using t logged_trans[OF u(2) t(2)] crlf_Cons[of x xs] by (auto simp: add.assoc)
qed

section \<open>The width\<close>

definition number_block :: "frame \<Rightarrow> u64 set" where
  "number_block fr = {a. unat (a - number fr) < 16}"

definition work :: "frame \<Rightarrow> debug \<Rightarrow> u64 set" where
  "work fr s = scratch fr s \<union> number_block fr"

lemma work_logged: "logged s t out A \<Longrightarrow> work fr t = work fr s"
  by (simp add: work_def frame_logged)

lemma decimal_is_digit: "decimal_char c = is_digit c"
  by (simp add: decimal_char_def is_digit_def word_le_nat_alt)

lemma digits_hd_nonzero: "0 < n \<Longrightarrow> hd (digits 10 n) \<noteq> 0x30"
proof (induction "10 :: nat" n rule: digits.induct)
  case (1 n)
  have ne: "digits 10 m \<noteq> []" for m by (subst digits.simps) simp
  show ?case
  proof (cases "n < 10")
    case True
    then show ?thesis using decimal_digit[of n] 1(2) by (subst digits.simps) (auto simp: word_unat_eq_iff)
  next
    case False
    then have "hd (digits 10 (n div 10)) \<noteq> 0x30" using 1(1) by simp
    then show ?thesis using False ne by (subst digits.simps) simp
  qed
qed

lemma scan_width_spec:
  assumes at: "bytes_at (dmem s) (fmt + i) (width_bytes zero w @ [c])" and c: "\<not> is_digit c" and w: "w < 95"
    and far: "\<forall>j \<le> length (width_bytes zero w). fmt + i + of_nat j \<notin> number_block fr"
  shows "\<exists>m. scan_width fr fmt i s = Inr (i + of_nat (length (width_bytes zero w)), pad_char zero, of_nat w, s\<lparr>dmem := m\<rparr>) \<and>
    (\<forall>a. a \<notin> number_block fr \<longrightarrow> m a = dmem s a)"
proof -
  let ?ds = "if w = 0 then [] else digits 10 w" and ?z = "if zero then 1 else 0 :: nat"
  let ?j = "i + of_nat ?z" and ?n = "length ?ds"
  have wb: "width_bytes zero w = (if zero then [0x30] else []) @ ?ds" "length (width_bytes zero w) = ?z + ?n"
    by (simp_all add: width_bytes_def)
  have z: "zero \<Longrightarrow> dmem s (fmt + i) = 0x30" using at by (simp add: width_bytes_def)
  have at': "bytes_at (dmem s) (fmt + ?j) (?ds @ [c])" using at by (cases zero) (simp_all add: width_bytes_def add.assoc)
  have ne: "digits 10 w \<noteq> []" by (subst digits.simps) simp
  have nz: "\<not> zero \<Longrightarrow> dmem s (fmt + i) \<noteq> 0x30"
  proof (cases "w = 0")
    case False
    assume "\<not> zero"
    then have "dmem s (fmt + i) = hd (digits 10 w)" using at' ne False by (cases "digits 10 w") simp_all
    then show ?thesis using digits_hd_nonzero[of w] False by simp
  next
    case True
    assume "\<not> zero"
    then have "dmem s (fmt + i) = c" using at' True by simp
    then show ?thesis using c by (auto simp: is_digit_def)
  qed
  have zc: "(dmem s (fmt + i) = 0x30) = zero" using z nz by blast
  have stop: "\<not> is_digit (dmem s (fmt + ?j + of_nat ?n))" using at' c unfolding bytes_at_append by simp
  have sw: "scan_width fr fmt i s =
      (if is_digit (dmem s (fmt + ?j)) then
         (case copy_number (dmem s) (number fr) (fmt + ?j) of
            None \<Rightarrow> Inl Diverges
          | Some (m, k) \<Rightarrow>
              if 16 \<le> k then Inl Overrun
              else (case atoi m (number fr) of
                  None \<Rightarrow> Inl Diverges
                | Some v \<Rightarrow> Inr (?j + k, pad_char zero, v, s\<lparr>dmem := m\<rparr>)))
       else Inr (?j, pad_char zero, 0, s))"
    using zc by (cases zero) (auto simp: scan_width_def pad_char_def Let_def split: option.splits)
  show ?thesis
  proof (cases "w = 0")
    case True
    then have "scan_width fr fmt i s = Inr (?j, pad_char zero, 0, s)" using stop unfolding sw by simp
    then show ?thesis using True wb by (intro exI[of _ "dmem s"]) simp
  next
    case False
    have ds: "?ds = digits 10 w" "?n = length (digits 10 w)" using False by simp_all
    have "length (digits 10 w) \<le> 2" using w by (intro digits_length) simp_all
    then have n: "?n \<le> 2" "0 < ?n" using ds ne by simp_all
    have "bytes_at (dmem s) (fmt + ?j) ?ds" using at' unfolding bytes_at_append by simp
    then have eq: "dmem s (fmt + ?j + of_nat k) = ?ds ! k" if "k < ?n" for k
      using that by (simp only: bytes_at_def)
    have dig: "\<forall>k < ?n. is_digit (dmem s (fmt + ?j + of_nat k))"
      using eq digits_decimal(1)[of w] False by (simp add: decimal_is_digit)
    have disj: "fmt + ?j + of_nat k \<noteq> number fr + of_nat l" if "k \<le> ?n" "l < ?n" for k l
    proof
      assume e: "fmt + ?j + of_nat k = number fr + of_nat l"
      have "?z + k \<le> length (width_bytes zero w)" using that(1) wb(2) by linarith
      then have "fmt + i + of_nat (?z + k) \<notin> number_block fr" by (rule far[rule_format])
      moreover have "fmt + i + of_nat (?z + k) = number fr + of_nat l" unfolding e[symmetric] by simp
      ultimately show False using that n by (simp add: number_block_def unat_of_nat)
    qed
    have ld: "load (dmem s) (fmt + ?j) ?n = ?ds" using eq by (intro nth_equalityI) simp_all
    let ?m = "store (dmem s) (number fr) (?ds @ [0])"
    have cp: "copy_number (dmem s) (number fr) (fmt + ?j) = Some (?m, of_nat ?n)"
      using copy_number_spec[OF dig stop _ disj] n unfolding ld by simp
    have "0 \<notin> set (digits 10 w)" using digits_nonzero[of 10 w] by simp
    then have "cstr ?m (number fr) ?ds" using n False by (intro cstr_store) simp_all
    then have cs: "cstr ?m (number fr) ([] @ ?ds)" by simp
    have at: "atoi ?m (number fr) = Some (of_nat w)"
      using atoi_spec[OF cs] digits_decimal[of w] ne False by simp
    have d0: "is_digit (dmem s (fmt + ?j))" using dig[rule_format, of 0] n by simp
    have small: "\<not> 16 \<le> (of_nat ?n :: u64)" using n by (simp add: word_le_nat_alt unat_of_nat)
    have "scan_width fr fmt i s = Inr (?j + of_nat ?n, pad_char zero, of_nat w, s\<lparr>dmem := ?m\<rparr>)"
      using d0 cp at small unfolding sw by simp
    moreover have "?m a = dmem s a" if "a \<notin> number_block fr" for a
      using that n by (intro store_out) (simp add: number_block_def)
    ultimately show ?thesis using wb by (intro exI[of _ ?m]) (simp add: add.assoc)
  qed
qed

section \<open>Numbers\<close>

lemma map_chars_loop:
  assumes "n \<le> 2 ^ 64"
  shows "fold (\<lambda>i m. m(p + of_nat i := f (m (p + of_nat i)))) [0..<n] m = store m p (map f (load m p n))"
  using assms
proof (induction n)
  case (Suc n)
  then have "x = p + of_nat n \<longleftrightarrow> unat (x - p) = n" for x by (intro offset_iff) simp
  moreover have "store m p (map f (load m p n)) (p + of_nat n) = m (p + of_nat n)"
    using Suc.prems by (simp add: store_def unat_of_nat)
  ultimately show ?case using Suc by (auto simp: store_def fun_eq_iff less_Suc_eq)
qed (simp add: load_def)

lemma map_chars_cstr:
  assumes "cstr m p ys"
  shows "map_chars f m p = Some (store m p (map f ys @ [0]))"
proof -
  have n: "length ys < 2 ^ 64" using assms by (simp add: cstr_def)
  have "load m p (length ys) = ys" using cstr_char[OF assms] by (intro nth_equalityI) simp_all
  then have "map_chars f m p = Some (store m p (map f ys))"
    using strlen_cstr[OF assms] n map_chars_loop[of "length ys" p f m] by (simp add: map_chars_def unat_of_nat_small)
  moreover have "store m p (map f ys @ [0]) = (store m p (map f ys))(p + of_nat (length ys) := 0)"
    using store_append[of "map f ys" "[0]" m p] n by (simp add: store_single)
  moreover have "store m p (map f ys) (p + of_nat (length ys)) = 0"
    using cstr_end[OF assms] n by (simp add: store_def unat_of_nat_small)
  ultimately show ?thesis by (simp add: fun_upd_idem)
qed

lemma letters_spec:
  assumes "cstr m p ys"
  shows "Some m = Some (store m p (map id ys @ [0]))"
    and "lowercase m p = Some (store m p (map lower_char ys @ [0]))"
    and "uppercase m p = Some (store m p (map upper_char ys @ [0]))"
  using assms store_same[OF assms] by (simp_all add: lowercase_def uppercase_def map_chars_cstr)

lemma letter_nonzero: "c \<noteq> 0 \<Longrightarrow> lower_char c \<noteq> 0" "c \<noteq> 0 \<Longrightarrow> upper_char c \<noteq> 0"
proof -
  have "c + 0x20 \<noteq> 0" if "c \<le> 0x5A"
  proof -
    have "unat (c + 0x20) = unat c + 0x20" using that by (simp add: unat_word_ariths word_le_nat_alt)
    then show ?thesis by (auto simp: unat_eq_0)
  qed
  then show "c \<noteq> 0 \<Longrightarrow> lower_char c \<noteq> 0" by (simp add: lower_char_def)
  have "c - 0x20 \<noteq> 0" if "0x61 \<le> c" using that by (auto simp: word_le_nat_alt)
  then show "c \<noteq> 0 \<Longrightarrow> upper_char c \<noteq> 0" by (simp add: upper_char_def)
qed

section \<open>One directive\<close>

definition string_at :: "debug \<Rightarrow> u64 set \<Rightarrow> u64 \<Rightarrow> u8 list \<Rightarrow> bool" where
  "string_at s A p xs \<longleftrightarrow> cstr (dmem s) p xs \<and> length xs < 2 ^ 31 \<and> (\<forall>i \<le> length xs. p + of_nat i \<notin> A)"

lemma string_at_logged: "string_at s A p xs \<Longrightarrow> logged s t out A \<Longrightarrow> string_at t A p xs"
  using cstr_logged by (auto simp: string_at_def)

lemma itoa_spec:
  assumes "b = 10 \<or> b = 16"
  shows "itoa m x buffer (of_nat b) = Some (store m buffer (digits b (unat x) @ [0]))"
proof -
  have e: "scast x AND 0xFFFFFFFF = (ucast x :: u64)"
  proof (rule bit_word_eqI)
    have m: "(0xFFFFFFFF :: u64) = mask 32" by (simp add: mask_eq_exp_minus_1)
    fix k assume "k < LENGTH(64)"
    show "bit (scast x AND 0xFFFFFFFF :: u64) k = bit (ucast x :: u64) k"
      unfolding m by (cases "k = 31") (auto simp: bit_simps min_def dest: bit_imp_le_length)
  qed
  have "uint x < 2 ^ 32" using uint_lt2p[of x] by simp
  then have "signed_take_bit 63 (uint x) = uint x"
    by (intro signed_take_bit_int_eq_self) (auto intro: order.trans[of _ 0])
  then have "sint (ucast x :: u64) = uint x"
    using \<open>uint x < 2 ^ 32\<close> by (simp add: sint_uint unsigned_ucast_eq take_bit_int_eq_self)
  then have "\<not> sint (ucast x :: u64) < 0" by simp
  moreover have "unat (ucast x :: u64) = unat x" by (simp add: unsigned_ucast_eq take_bit_nat_eq_self order.strict_trans[OF unsigned_less])
  ultimately have "number_text b (ucast x) = digits b (unat x)" by (simp add: number_text_def)
  then show ?thesis using ltoa_spec[of b m "ucast x" buffer] assms by (auto simp: itoa_def e)
qed

lemmas conv_numbers = itoa_spec[of 10, simplified] itoa_spec[of 16, simplified] ltoa_spec[of 10, simplified] ltoa_spec[of 16, simplified]

text \<open>The zero and the width are read; the conversion after them is still there.\<close>

lemma directive_scan:
  assumes w: "w < 95" and at: "bytes_at (dmem s) (fmt + of_nat i) (piece_bytes (Directive zero w c))"
    and far: "\<forall>j < length (piece_bytes (Directive zero w c)). fmt + of_nat (i + j) \<notin> work fr s"
    and k: "k = i + 1 + length (width_bytes zero w)"
  obtains m where "scan_width fr fmt (of_nat i + 1) s = Inr (of_nat k, pad_char zero, of_nat w, s\<lparr>dmem := m\<rparr>)"
    "logged s (s\<lparr>dmem := m\<rparr>) [] (number_block fr)" "bytes_at m (fmt + of_nat k) (conv_bytes c)"
proof -
  let ?wb = "width_bytes zero w"
  have cb: "conv_bytes c = hd (conv_bytes c) # tl (conv_bytes c)" "\<not> is_digit (hd (conv_bytes c))"
    by (cases c; simp add: is_digit_def)+
  have len: "length (piece_bytes (Directive zero w c)) = 1 + length ?wb + length (conv_bytes c)" by simp
  have a1: "bytes_at (dmem s) (fmt + of_nat (i + 1)) (?wb @ conv_bytes c)" using at by (simp add: algebra_simps)
  then have a2: "bytes_at (dmem s) (fmt + of_nat (i + 1)) (?wb @ [hd (conv_bytes c)])"
    unfolding bytes_at_append by (subst (asm) cb(1)) simp
  have f1: "\<forall>j \<le> length ?wb. fmt + of_nat (i + 1) + of_nat j \<notin> number_block fr"
  proof (intro allI impI)
    fix j assume "j \<le> length ?wb"
    then have "1 + j < length (piece_bytes (Directive zero w c))" unfolding len by (subst cb(1)) simp
    then have "fmt + of_nat (i + (1 + j)) \<notin> work fr s" by (rule far[rule_format])
    then show "fmt + of_nat (i + 1) + of_nat j \<notin> number_block fr" by (simp add: work_def add.assoc)
  qed
  obtain m where m: "scan_width fr fmt (of_nat (i + 1)) s = Inr (of_nat k, pad_char zero, of_nat w, s\<lparr>dmem := m\<rparr>)"
    "\<forall>a. a \<notin> number_block fr \<longrightarrow> m a = dmem s a"
    using scan_width_spec[OF a2 cb(2) w f1] by (auto simp: k algebra_simps)
  have lu: "logged s (s\<lparr>dmem := m\<rparr>) [] (number_block fr)" unfolding logged_def using m(2) by (intro exI[of _ m]) simp
  have "\<forall>j < length (conv_bytes c). m (fmt + of_nat k + of_nat j) = dmem s (fmt + of_nat k + of_nat j)"
  proof (intro allI impI)
    fix j assume "j < length (conv_bytes c)"
    then have "1 + length ?wb + j < length (piece_bytes (Directive zero w c))" unfolding len by simp
    then have "fmt + of_nat (i + (1 + length ?wb + j)) \<notin> work fr s" by (rule far[rule_format])
    moreover have "fmt + of_nat (i + (1 + length ?wb + j)) = fmt + of_nat k + of_nat j" by (simp add: k algebra_simps)
    ultimately have "fmt + of_nat k + of_nat j \<notin> work fr s" by metis
    then show "m (fmt + of_nat k + of_nat j) = dmem s (fmt + of_nat k + of_nat j)" using m(2) by (auto simp: work_def scratch_def)
  qed
  from bytes_at_same[OF this] have "bytes_at m (fmt + of_nat k) (conv_bytes c)"
    using a1 unfolding bytes_at_append k by (simp add: algebra_simps)
  then show ?thesis using that m(1) lu by (simp add: add.commute)
qed

text \<open>A number converted by \<open>cv\<close>, padded, and its letters changed by \<open>f\<close>.\<close>

lemma directive_number:
  fixes zero :: bool
  assumes q: "quiet s" and fr: "frame_ok fr s" and w: "w < 95" and lu: "logged s (s\<lparr>dmem := m\<rparr>) [] (number_block fr)"
    and "cv m = Some (store m (integer_buffer fr) (xs @ [0]))" and "xs \<noteq> [] \<and> length xs \<le> 65 \<and> 0 \<notin> set xs"
    and "\<And>m ys. cstr m (padded_buffer fr) ys \<Longrightarrow> letters m = Some (store m (padded_buffer fr) (map f ys @ [0]))"
    and "\<And>c. c \<noteq> 0 \<Longrightarrow> f c \<noteq> 0"
  defines "ys \<equiv> padded xs w (pad_char zero)"
  shows "\<exists>t. print_number font fr (pad_char zero) (of_nat w) cv letters (s\<lparr>dmem := m\<rparr>) = Inr (of_nat (length (map f ys)), t) \<and>
    logged s t (crlf (map f ys)) (work fr s)"
proof -
  let ?u = "s\<lparr>dmem := m\<rparr>"
  have qu: "quiet ?u" "frame_ok fr ?u" "scratch fr ?u = scratch fr s"
    using loggedD[OF lu] frame_logged[OF lu] q fr by simp_all
  have pc: "pad_char zero \<noteq> 0" by (simp add: pad_char_def)
  have "\<exists>t. print_number font fr (pad_char zero) (of_nat w) cv letters ?u = Inr (of_nat (length ys), t) \<and>
      logged ?u t (crlf (map f ys)) (scratch fr ?u)"
    unfolding ys_def using assms(5,6) by (intro print_number_quiet[OF qu(1,2) w pc _ _ _ _ assms(7,8)]) simp_all
  then obtain t where t: "print_number font fr (pad_char zero) (of_nat w) cv letters ?u = Inr (of_nat (length ys), t)"
    "logged ?u t (crlf (map f ys)) (scratch fr s)" unfolding qu(3) by blast
  have "scratch fr s \<subseteq> work fr s" "number_block fr \<subseteq> work fr s" by (auto simp: work_def scratch_def)
  then show ?thesis using t(1) logged_step[OF lu t(2)] by simp
qed

lemma digits_short:
  assumes "n < 2 ^ 64"
  shows "digits 10 n \<noteq> [] \<and> length (digits 10 n) \<le> 65 \<and> 0 \<notin> set (digits 10 n)"
    and "digits 16 n \<noteq> [] \<and> length (digits 16 n) \<le> 65 \<and> 0 \<notin> set (digits 16 n)"
  using assms digits_length64[of 10 n] digits_length64[of 16 n] digits_nonzero[of 10 n] digits_nonzero[of 16 n]
  by (simp, subst digits.simps, simp)+

lemma directive_spec:
  assumes q: "quiet s" and fr: "frame_ok fr s" and w: "w < 95"
    and at: "bytes_at (dmem s) (fmt + of_nat i) (piece_bytes (Directive zero w c))"
    and far: "\<forall>j < length (piece_bytes (Directive zero w c)). fmt + of_nat (i + j) \<notin> work fr s"
    and str: "c = Str \<Longrightarrow> string_at s (work fr s) x (S x)"
  shows "\<exists>t. directive font fr fmt (of_nat i) (x # args) s =
      Inr (of_nat (i + length (piece_bytes (Directive zero w c))), args,
        of_nat (length (arg_text S (\<lambda>xs. padded xs w (pad_char zero)) c x)), t) \<and>
    logged s t (crlf (arg_text S (\<lambda>xs. padded xs w (pad_char zero)) c x)) (work fr s)"
proof -
  define k where "k = i + 1 + length (width_bytes zero w)"
  obtain m where scan: "scan_width fr fmt (of_nat i + 1) s = Inr (of_nat k, pad_char zero, of_nat w, s\<lparr>dmem := m\<rparr>)"
    and lu: "logged s (s\<lparr>dmem := m\<rparr>) [] (number_block fr)" and cm: "bytes_at m (fmt + of_nat k) (conv_bytes c)"
    using directive_scan[OF w at far k_def] .
  let ?u = "s\<lparr>dmem := m\<rparr>"
  have qu: "quiet ?u" "frame_ok fr ?u" "scratch fr ?u = scratch fr s" "cell ?u = cell s"
    using loggedD[OF lu] frame_logged[OF lu] q fr by simp_all
  have sub: "scratch fr s \<subseteq> work fr s" "number_block fr \<subseteq> work fr s" "{cell s} \<subseteq> work fr s"
    by (auto simp: work_def scratch_def)
  have k2: "fmt + (of_nat k + 1) = fmt + of_nat k + 1" by (simp add: algebra_simps)
  note num = directive_number[OF q fr w lu, where zero = zero and font = font]
  have "unat y < 4294967296" for y :: u32 using unsigned_less[of y] by simp
  from order.strict_trans[OF this] have x32: "unat (ucast x :: u32) < 2 ^ 64" by simp
  have x64: "unat x < 2 ^ 64" using unat_less_size[of x] by simp
  have nt: "number_text 16 x = digits 16 (unat x)" by (simp add: number_text_def)
  note nb = number_text_length[of 10 x, simplified]
  show ?thesis
  proof (cases c)
    case Char
    then have c: "m (fmt + of_nat k) = 0x63" using cm by simp
    obtain t where "debug_putc font (ucast x) ?u = Inr t" "logged ?u t (crlf [ucast x]) {cell s}"
      using debug_putc_quiet[OF qu(1)] qu(4) by metis
    then show ?thesis using Char c scan logged_step[OF lu _ sub(2,3)] by (auto simp: directive_def k_def)
  next
    case Str
    then have c: "m (fmt + of_nat k) = 0x73" using cm by simp
    have "string_at ?u (work fr s) x (S x)" using string_at_logged[OF str[OF Str] logged_mono[OF lu sub(2)]] .
    then have st: "cstr (dmem ?u) x (S x)" "length (S x) < 2 ^ 31" "\<forall>i \<le> length (S x). x + of_nat i \<noteq> cell ?u"
      unfolding string_at_def using sub(3) qu(4) by (blast, blast, metis insert_subset)
    obtain t where "debug_puts font x ?u = Inr (of_nat (length (S x)), t)" "logged ?u t (crlf (S x)) {cell s}"
      using debug_puts_spec[OF qu(1) st(1,3,2), of font] unfolding qu(4) by blast
    then show ?thesis using Str c scan logged_step[OF lu _ sub(2,3)] by (auto simp: directive_def k_def)
  next
    case Dec
    then have c: "m (fmt + of_nat k) = 0x64" using cm by simp
    note t = num[where cv = "\<lambda>m. itoa m (ucast x) (integer_buffer fr) 10" and letters = Some and f = id,
      OF conv_numbers(1) digits_short(1)[OF x32] letters_spec(1), simplified]
    show ?thesis using Dec c scan t by (auto simp: directive_def k_def)
  next
    case Hex
    then have c: "m (fmt + of_nat k) = 0x78" using cm by simp
    note t = num[where cv = "\<lambda>m. itoa m (ucast x) (integer_buffer fr) 16" and letters = "\<lambda>m. lowercase m (padded_buffer fr)" and f = lower_char,
      OF conv_numbers(2) digits_short(2)[OF x32] letters_spec(2) letter_nonzero(1), simplified]
    show ?thesis using Hex c scan t by (auto simp: directive_def k_def)
  next
    case HEX
    then have c: "m (fmt + of_nat k) = 0x58" using cm by simp
    note t = num[where cv = "\<lambda>m. itoa m (ucast x) (integer_buffer fr) 16" and letters = "\<lambda>m. uppercase m (padded_buffer fr)" and f = upper_char,
      OF conv_numbers(2) digits_short(2)[OF x32] letters_spec(3) letter_nonzero(2), simplified]
    show ?thesis using HEX c scan t by (auto simp: directive_def k_def)
  next
    case LDec
    then have c: "m (fmt + of_nat k) = 0x6C" "m (fmt + (of_nat k + 1)) = 0x64" using cm unfolding k2 by simp_all
    note t = num[where cv = "\<lambda>m. ltoa m x (integer_buffer fr) 10" and letters = Some and f = id,
      OF conv_numbers(3) conjI[OF nb(2) conjI[OF nb(1,3)]] letters_spec(1), simplified]
    show ?thesis using LDec c scan t by (auto simp: directive_def k_def)
  next
    case LHex
    then have c: "m (fmt + of_nat k) = 0x6C" "m (fmt + (of_nat k + 1)) = 0x78" using cm unfolding k2 by simp_all
    note t = num[where cv = "\<lambda>m. ltoa m x (integer_buffer fr) 16" and letters = "\<lambda>m. lowercase m (padded_buffer fr)" and f = lower_char,
      OF conv_numbers(4)[of m x, unfolded nt] digits_short(2)[OF x64] letters_spec(2) letter_nonzero(1), simplified]
    show ?thesis using LHex c scan t by (auto simp: directive_def k_def)
  next
    case LHEX
    then have c: "m (fmt + of_nat k) = 0x6C" "m (fmt + (of_nat k + 1)) = 0x58" using cm unfolding k2 by simp_all
    note t = num[where cv = "\<lambda>m. ltoa m x (integer_buffer fr) 16" and letters = "\<lambda>m. uppercase m (padded_buffer fr)" and f = upper_char,
      OF conv_numbers(4)[of m x, unfolded nt] digits_short(2)[OF x64] letters_spec(3) letter_nonzero(2), simplified]
    show ?thesis using LHEX c scan t by (auto simp: directive_def k_def)
  qed
qed

section \<open>A whole format\<close>

lemma string_at_format:
  "string_at s A fmt (format_bytes ps) \<Longrightarrow> bytes_at (dmem s) fmt (format_bytes ps @ [0])"
  by (simp add: string_at_def bytes_at_cstr)

lemma second_char: "hd (width_bytes zero w @ conv_bytes c) \<noteq> 0x25"
proof -
  have "hd (conv_bytes c) \<noteq> 0x25" by (cases c) simp_all
  moreover have "hd (digits 10 w) \<noteq> 0x25"
  proof -
    have "digits 10 w \<noteq> []" by (subst digits.simps) simp
    then have "decimal_char (hd (digits 10 w))" using digits_decimal(1)[of w] by simp
    then show ?thesis by (auto simp: decimal_char_def)
  qed
  moreover have "digits 10 w \<noteq> []" by (subst digits.simps) simp
  ultimately show ?thesis by (auto simp: width_bytes_def)
qed

lemma vprintf_format:
  "quiet s \<Longrightarrow> frame_ok fr s \<Longrightarrow> list_all piece_ok ps \<Longrightarrow>
    bytes_at (dmem s) (fmt + of_nat i) (format_bytes ps @ [0]) \<Longrightarrow>
    \<forall>j \<le> length (format_bytes ps). fmt + of_nat (i + j) \<notin> work fr s \<Longrightarrow> arg_count ps \<le> length args \<Longrightarrow>
    \<forall>p \<in> set (string_args ps args). string_at s (work fr s) p (S p) \<Longrightarrow>
    \<exists>t. vprintf_loop font fr fmt (of_nat i) args n s = Some (Inr (n + of_nat (length (render S ps args)), t)) \<and>
      logged s t (crlf (render S ps args)) (work fr s)"
proof (induction ps arbitrary: i args n s)
  case Nil
  then show ?case using logged_refl by (subst vprintf_loop.simps) (simp add: format_bytes_def)
next
  case (Cons q ps)
  let ?w = "work fr s"
  have sub: "{cell s} \<subseteq> ?w" by (simp add: work_def scratch_def)
  have fb: "format_bytes (q # ps) = piece_bytes q @ format_bytes ps" by (simp add: format_bytes_def)
  let ?i = "i + length (piece_bytes q)"
  have rest: "bytes_at (dmem u) (fmt + of_nat ?i) (format_bytes ps @ [0]) \<and>
      (\<forall>j \<le> length (format_bytes ps). fmt + of_nat (?i + j) \<notin> work fr u) \<and> quiet u \<and> frame_ok fr u \<and> work fr u = ?w"
    if l: "logged s u out ?w" for u out
  proof -
    have far: "fmt + of_nat (?i + j) \<notin> ?w" if "j \<le> length (format_bytes ps)" for j
      using Cons.prems(5)[rule_format, of "length (piece_bytes q) + j"] that by (simp add: fb add.assoc)
    then have "\<forall>j < length (format_bytes ps @ [0]). dmem u (fmt + of_nat ?i + of_nat j) = dmem s (fmt + of_nat ?i + of_nat j)"
      using loggedD(6)[OF l] by (auto simp: add.assoc less_Suc_eq_le)
    from bytes_at_same[OF this] have "bytes_at (dmem u) (fmt + of_nat ?i) (format_bytes ps @ [0])"
      using Cons.prems(4) unfolding fb append_assoc bytes_at_append[of _ _ "piece_bytes q"] by (simp add: add.assoc)
    then show ?thesis using far loggedD(1)[OF l] frame_logged(1)[OF l] work_logged[OF l] Cons.prems(1,2) by simp
  qed
  have at: "bytes_at (dmem s) (fmt + of_nat i) (piece_bytes q)"
    using Cons.prems(4) unfolding fb append_assoc bytes_at_append[of _ _ "piece_bytes q"] by simp
  have far: "\<forall>j < length (piece_bytes q). fmt + of_nat (i + j) \<notin> ?w" using Cons.prems(5) by (simp add: fb)
  show ?case
  proof (cases q)
    case (Text xs)
    then have ok: "0 \<notin> set xs" "0x25 \<notin> set xs" using Cons.prems(3) by simp_all
    have "\<forall>j < length xs. fmt + of_nat (i + j) \<noteq> cell s" using far sub Text by (metis insert_subset piece_bytes.simps(1))
    then obtain u where u: "vprintf_loop font fr fmt (of_nat i) args n s = vprintf_loop font fr fmt (of_nat ?i) args (n + of_nat (length xs)) u"
      "logged s u (crlf xs) {cell s}"
      using vprintf_chars[OF Cons.prems(1) _ ok, of fmt i font fr args n] at Text by auto
    have lu: "logged s u (crlf xs) ?w" using logged_mono[OF u(2) sub] .
    note r = rest[OF lu]
    have "\<forall>p \<in> set (string_args ps args). string_at u (work fr u) p (S p)"
      using Cons.prems(7) string_at_logged[OF _ lu] r Text by auto
    then obtain t where t: "vprintf_loop font fr fmt (of_nat ?i) args (n + of_nat (length xs)) u =
        Some (Inr (n + of_nat (length xs) + of_nat (length (render S ps args)), t))" "logged u t (crlf (render S ps args)) ?w"
      using Cons.IH[of u ?i args "n + of_nat (length xs)"] r Cons.prems(3,6) Text by auto
    show ?thesis using u(1) t(1) logged_step[OF lu t(2)] Text by (simp add: add.assoc)
  next
    case (Directive zero w c)
    obtain x as where args: "args = x # as" using Cons.prems(6) Directive by (cases args) auto
    have w: "w < 95" using Cons.prems(3) Directive by simp
    have str: "c = Str \<Longrightarrow> string_at s ?w x (S x)" using Cons.prems(7) Directive args by simp
    let ?out = "arg_text S (\<lambda>xs. padded xs w (pad_char zero)) c x"
    obtain u where u: "directive font fr fmt (of_nat i) args s = Inr (of_nat ?i, as, of_nat (length ?out), u)" "logged s u (crlf ?out) ?w"
      using directive_spec[where S = S and x = x and c = c, OF Cons.prems(1,2) w at[unfolded Directive] far[unfolded Directive] str, of font as] args Directive by auto
    note r = rest[OF u(2)]
    have "\<forall>p \<in> set (string_args ps as). string_at u (work fr u) p (S p)"
      using Cons.prems(7) string_at_logged[OF _ u(2)] r Directive args by auto
    then obtain t where t: "vprintf_loop font fr fmt (of_nat ?i) as (n + of_nat (length ?out)) u =
        Some (Inr (n + of_nat (length ?out) + of_nat (length (render S ps as)), t))" "logged u t (crlf (render S ps as)) ?w"
      using Cons.IH[of u ?i as "n + of_nat (length ?out)"] r Cons.prems(3,6) Directive args by auto
    have "width_bytes zero w @ conv_bytes c \<noteq> []" by (cases c) simp_all
    then obtain b bs where b: "width_bytes zero w @ conv_bytes c = b # bs" by (cases "width_bytes zero w @ conv_bytes c") auto
    then have "dmem s (fmt + of_nat i) = 0x25" "dmem s (fmt + (of_nat i + 1)) \<noteq> 0x25"
      using at second_char[of zero w c] unfolding Directive by (auto simp: add.assoc)
    then have "vprintf_loop font fr fmt (of_nat i) args n s = vprintf_loop font fr fmt (of_nat ?i) as (n + of_nat (length ?out)) u"
      using u(1) by (subst vprintf_loop.simps) simp
    then show ?thesis using t(1) logged_step[OF u(2) t(2)] Directive args by (simp add: add.assoc)
  qed
qed

section \<open>A whole line\<close>

definition module_text :: "(u64 \<Rightarrow> u8 list) \<Rightarrow> u64 \<Rightarrow> u8 list" where
  "module_text S mo =
    (if mo = 0 then [] else [0x1B, 0x5B, 0x33, 0x35, 0x6D] @ S mo @ [0x3A, 0x1B, 0x5B, 0x30, 0x6D, 0x20])"

definition line_start :: "(u64 \<Rightarrow> u8 list) \<Rightarrow> u32 \<Rightarrow> u64 \<Rightarrow> u64 \<Rightarrow> u8 list" where
  "line_start S level ticks mo = level_colour level @ time_text ticks @ module_text S mo"

lemma scratch_work: "scratch fr s \<subseteq> work fr s" "cell s \<in> work fr s"
  by (auto simp: work_def scratch_def)

lemma print_module_quiet:
  assumes q: "quiet s" and st: "mo \<noteq> 0 \<Longrightarrow> string_at s (work fr s) mo (S mo)"
  shows "\<exists>t. print_module font mo s = Inr t \<and> logged s t (crlf (module_text S mo)) (work fr s)"
proof (cases "mo = 0")
  case True
  then show ?thesis using logged_refl by (simp add: print_module_def module_text_def)
next
  case False
  let ?W = "work fr s"
  have W: "{cell s} \<subseteq> ?W" using scratch_work by simp
  obtain c where c: "debug_lit font [0x1B, 0x5B, 0x33, 0x35, 0x6D] s = Inr c" "logged s c (crlf [0x1B, 0x5B, 0x33, 0x35, 0x6D]) {cell s}"
    using debug_lit_quiet[OF q] by blast
  note lc = logged_mono[OF c(2) W]
  have qc: "quiet c" "cell c = cell s" using loggedD[OF lc] q by simp_all
  have st: "cstr (dmem c) mo (S mo)" "\<forall>i \<le> length (S mo). mo + of_nat i \<noteq> cell c" "length (S mo) < 2 ^ 31"
    using string_at_logged[OF st[OF False] lc] scratch_work(2)[of s fr] qc(2) unfolding string_at_def by metis+
  obtain d where d: "debug_puts font mo c = Inr (of_nat (length (S mo)), d)" "logged c d (crlf (S mo)) {cell s}"
    using debug_puts_spec[OF qc(1) st] qc(2) by auto
  note ld = logged_step[OF lc d(2) order.refl W]
  have qd: "quiet d" "cell d = cell s" using loggedD[OF ld] q by simp_all
  obtain e where e: "debug_lit font [0x3A, 0x1B, 0x5B, 0x30, 0x6D, 0x20] d = Inr e"
      "logged d e (crlf [0x3A, 0x1B, 0x5B, 0x30, 0x6D, 0x20]) {cell s}"
    using debug_lit_quiet[OF qd(1), of font] qd(2) by metis
  have "print_module font mo s = Inr e" using False c(1) d(1) e(1) by (simp add: print_module_def)
  moreover have "logged s e (crlf (module_text S mo)) ?W"
    using logged_step[OF ld e(2) order.refl W] False by (simp only: module_text_def crlf_simps(2) append_assoc if_False)
  ultimately show ?thesis by blast
qed

lemma debug_printf_format:
  assumes q: "quiet s" and fr: "frame_ok fr s" and mx: "e9_mutex s = MUTEX_FREE"
    and mo: "mo \<noteq> 0 \<Longrightarrow> string_at s (work fr s) mo (S mo)"
    and ps: "list_all piece_ok ps" and fmt: "string_at s (work fr s) fmt (format_bytes ps)"
    and args: "arg_count ps \<le> length args" "\<forall>p \<in> set (string_args ps args). string_at s (work fr s) p (S p)"
  shows "\<exists>t. debug_printf font fr level mo fmt args s = Inr (of_nat (length (render S ps args)), t) \<and>
    logged s t (crlf (line_start S level (timer_ticks s) mo @ render S ps args)) (work fr s)"
proof -
  let ?W = "work fr s" and ?s = "s\<lparr>e9_mutex := MUTEX_BUSY\<rparr>"
  have s0: "quiet ?s" "frame_ok fr ?s" "scratch fr ?s = scratch fr s" "work fr ?s = ?W" "timer_ticks ?s = timer_ticks s"
    using q fr by (simp_all add: quiet_def frame_ok_def cell_def scratch_def work_def)
  have st0: "string_at ?s ?W p xs = string_at s ?W p xs" for p xs by (simp add: string_at_def)
  obtain a where a: "debug_lit font (level_colour level) ?s = Inr a" "logged ?s a (crlf (level_colour level)) (scratch fr s)"
    using lit_scratch[OF s0(1), of font _ fr] s0(3) by metis
  have qa: "quiet a" "frame_ok fr a" "scratch fr a = scratch fr s" "timer_ticks a = timer_ticks s"
    using loggedD[OF a(2)] frame_logged[OF a(2)] s0 by simp_all
  obtain b where b: "print_time font fr a = Inr b" "logged a b (crlf (time_text (timer_ticks s))) (scratch fr s)"
    using print_time_quiet[OF qa(1,2), of font] qa(3,4) by auto
  note lb = logged_step[OF a(2) b(2) scratch_work(1) scratch_work(1)]
  have qb: "quiet b" "work fr b = ?W" using loggedD(1)[OF lb] work_logged[OF lb] s0 by simp_all
  have "mo \<noteq> 0 \<Longrightarrow> string_at b (work fr b) mo (S mo)" using string_at_logged[OF _ lb] mo qb(2) st0 by simp
  then obtain e where e: "print_module font mo b = Inr e" "logged b e (crlf (module_text S mo)) ?W"
    using print_module_quiet[OF qb(1), of mo fr S font] qb(2) by auto
  note le = logged_step[OF lb e(2) order.refl order.refl]
  have qe: "quiet e" "frame_ok fr e" "work fr e = ?W" using loggedD(1)[OF le] frame_logged(1)[OF le] work_logged[OF le] s0 by simp_all
  have keep: "string_at e (work fr e) p xs" if "string_at s ?W p xs" for p xs using string_at_logged[OF _ le] that qe(3) st0 by simp
  have far: "\<forall>j \<le> length (format_bytes ps). fmt + of_nat (0 + j) \<notin> work fr e" using fmt qe(3) by (simp add: string_at_def)
  have "bytes_at (dmem e) (fmt + of_nat 0) (format_bytes ps @ [0])" using string_at_format[OF keep[OF fmt]] by simp
  moreover have "\<forall>p \<in> set (string_args ps args). string_at e (work fr e) p (S p)" using args(2) keep by blast
  ultimately obtain f where f: "vprintf_loop font fr fmt 0 args 0 e = Some (Inr (of_nat (length (render S ps args)), f))"
    "logged e f (crlf (render S ps args)) ?W"
    using vprintf_format[OF qe(1,2) ps _ far args(1), of S font 0] qe(3) by auto
  note lf = logged_step[OF le f(2) order.refl order.refl]
  let ?t = "f\<lparr>e9_mutex := release (e9_mutex f)\<rparr>"
  have "debug_printf font fr level mo fmt args s = Inr (of_nat (length (render S ps args)), ?t)"
    using mx a(1) b(1) e(1) f(1) by (simp add: debug_printf_def debug_vprintf_def)
  moreover have "logged s ?t (crlf (line_start S level (timer_ticks s) mo @ render S ps args)) ?W"
  proof -
    obtain m where "f = ?s\<lparr>e9_out := e9_out s @ crlf (line_start S level (timer_ticks s) mo @ render S ps args), dmem := m\<rparr>"
      "\<forall>a. a \<notin> ?W \<longrightarrow> m a = dmem s a"
      using lf unfolding logged_def by (auto simp: line_start_def)
    moreover have "release MUTEX_BUSY = MUTEX_FREE" by simp
    ultimately show ?thesis using mx unfolding logged_def by (intro exI[of _ m]) (simp del: release_def)
  qed
  ultimately show ?thesis by blast
qed

section \<open>Properties\<close>


text \<open>Memory with the module name \<open>mm\<close> and the format \<open>"%s=%04X\n"\<close>.\<close>

definition format_memory :: memory where
  "format_memory = store (store (\<lambda>_. 0) 0x1000 [0x6D, 0x6D, 0]) 0x2000 [0x25, 0x73, 0x3D, 0x25, 0x30, 0x34, 0x58, 0x0A, 0]"

definition format_state :: debug where
  "format_state = log_state\<lparr>dmem := format_memory\<rparr>"

lemma low_not_work:
  assumes "unat a < 0x3000" and "cell s = 0x3000"
  shows "a \<notin> work log_frame s"
proof -
  have "unat (a - of_nat n) = unat a + 2 ^ 64 - n" if "0x3000 \<le> n" "n < 2 ^ 64" for n
    using unat_minus_of_nat[OF that(2), of a] that(1) assms(1) by simp
  from this[of "0x8000"] this[of "0x8100"] this[of "0x8200"] show ?thesis
    using assms by (auto simp: work_def scratch_def block_def number_block_def log_frame_def)
qed

lemma low_string:
  assumes "cstr (dmem s) (of_nat p) xs" and "p + length xs < 0x3000" and "cell s = 0x3000"
  shows "string_at s (work log_frame s) (of_nat p) xs"
proof -
  have "of_nat p + of_nat i \<notin> work log_frame s" if "i \<le> length xs" for i
  proof -
    have "unat (of_nat (p + i) :: u64) = p + i" using that assms(2) by (intro unat_of_nat_small) simp
    then have "of_nat (p + i) \<notin> work log_frame s" using that assms(2) by (intro low_not_work[OF _ assms(3)]) simp
    then show ?thesis by simp
  qed
  then show ?thesis using assms(1,2) by (simp add: string_at_def)
qed


end
