(* ===== verification/Exceptions.thy ===== *)
theory Exceptions
  imports Debug_Format
begin

text \<open>
  The exception handler, \<open>kernel/src/misc/exception.c\<close>: what it writes to the log before it stops
  the processor.
\<close>

section \<open>The handler\<close>

definition exception_text :: "string list" where
  "exception_text =
    [''divide error'', ''debug'', ''non-maskable interrupt'', ''breakpoint'', ''overflow'', ''BOUND range exceeded'',
     ''undefined opcode'', ''device not available'', ''double fault'', ''coprocessor segment overrun'', ''invalid TSS'',
     ''segment not present'', ''stack segment fault'', ''general protection fault'', ''page fault'', ''reserved'',
     ''x87 floating-point exception'', ''alignment check'', ''machine check'', ''SIMD floating-point exception'',
     ''virtualization exception'', ''reserved'', ''reserved'', ''reserved'', ''reserved'', ''reserved'', ''reserved'',
     ''reserved'', ''reserved'', ''reserved'', ''security exception'', ''reserved'']"

text \<open>
  The strings of the messages are in memory; \<open>str\<close> gives the address of each of them, \<open>cr2\<close> is what
  \<open>read_cr2\<close> returns.  A number past the end of the table reads behind it.  \<open>exception_report\<close>
  is the handler up to its endless loop, with the log at that point.
\<close>

definition exception_report ::
  "(nat \<Rightarrow> u8) \<Rightarrow> frame \<Rightarrow> (string \<Rightarrow> u64) \<Rightarrow> u64 \<Rightarrow> u32 \<Rightarrow> u64 \<Rightarrow> u64 \<Rightarrow> debug \<Rightarrow> halt + debug" where
  "exception_report font fr str cr2 nr code pc s =
    (if length exception_text \<le> unat nr then Inl Overrun
     else
       bnd (debug_printf font fr LEVEL_ERROR 0 (str (''Exception 0x%02X at RIP 0x%016lX: %s'' @ [CHR 0x0A]))
         [ucast nr, pc, str (exception_text ! unat nr)] s) (\<lambda>(_, s).
       if nr = 14 then
         bnd (debug_printf font fr LEVEL_ERROR 0 (str (''Error code 0x%08lX: (%s %s %s)'' @ [CHR 0x0A]))
           [code, str (if code AND 4 \<noteq> 0 then ''user'' else ''kernel''), str (if code AND 2 \<noteq> 0 then ''write'' else ''read''),
            str (if code AND 1 \<noteq> 0 then ''present'' else ''non-present'')] s) (\<lambda>(_, s).
         bnd (debug_printf font fr LEVEL_ERROR 0 (str (''Linear address of fault: 0x%016lX'' @ [CHR 0x0A])) [cr2] s) (\<lambda>(_, s).
         Inr s))
       else bnd (debug_printf font fr LEVEL_ERROR 0 (str (''Error code 0x%08lX'' @ [CHR 0x0A])) [code] s) (\<lambda>(_, s). Inr s)))"

definition handle_exception ::
  "(nat \<Rightarrow> u8) \<Rightarrow> frame \<Rightarrow> (string \<Rightarrow> u64) \<Rightarrow> u64 \<Rightarrow> u32 \<Rightarrow> u64 \<Rightarrow> u64 \<Rightarrow> debug \<Rightarrow> halt + debug" where
  "handle_exception font fr str cr2 nr code pc s =
    bnd (exception_report font fr str cr2 nr code pc s) (\<lambda>_. Inl (Panic ''exception''))"

section \<open>The messages as formats\<close>

definition chars :: "string \<Rightarrow> u8 list" where
  "chars cs = map of_char cs"

definition hex_text :: "nat \<Rightarrow> nat \<Rightarrow> u8 list" where
  "hex_text w n = map upper_char (padded (digits 16 n) w 0x30)"

definition exception_pieces :: "piece list" where
  "exception_pieces =
    [Text (chars ''Exception 0x''), Directive True 2 HEX, Text (chars '' at RIP 0x''), Directive True 16 LHEX,
     Text (chars '': ''), Directive False 0 Str, Text [0x0A]]"

definition page_fault_pieces :: "piece list" where
  "page_fault_pieces =
    [Text (chars ''Error code 0x''), Directive True 8 LHEX, Text (chars '': (''), Directive False 0 Str, Text [0x20],
     Directive False 0 Str, Text [0x20], Directive False 0 Str, Text (chars '')'' @ [0x0A])]"

definition address_pieces :: "piece list" where
  "address_pieces = [Text (chars ''Linear address of fault: 0x''), Directive True 16 LHEX, Text [0x0A]]"

definition code_pieces :: "piece list" where
  "code_pieces = [Text (chars ''Error code 0x''), Directive True 8 LHEX, Text [0x0A]]"

lemmas message_pieces = exception_pieces_def page_fault_pieces_def address_pieces_def code_pieces_def

lemma message_bytes:
  "format_bytes exception_pieces = chars (''Exception 0x%02X at RIP 0x%016lX: %s'' @ [CHR 0x0A])"
  "format_bytes page_fault_pieces = chars (''Error code 0x%08lX: (%s %s %s)'' @ [CHR 0x0A])"
  "format_bytes address_pieces = chars (''Linear address of fault: 0x%016lX'' @ [CHR 0x0A])"
  "format_bytes code_pieces = chars (''Error code 0x%08lX'' @ [CHR 0x0A])"
  by (simp_all add: message_pieces format_bytes_def width_bytes_def chars_def digits.simps digit_def)

lemma messages_ok:
  "list_all piece_ok exception_pieces" "list_all piece_ok page_fault_pieces"
  "list_all piece_ok address_pieces" "list_all piece_ok code_pieces"
  by (simp_all add: message_pieces chars_def)

text \<open>The string a pointer points to.\<close>

definition string_of :: "memory \<Rightarrow> u64 \<Rightarrow> u8 list" where
  "string_of m p = load m p (unat (the (strlen m p)))"

lemma string_of_at: "string_at s A p xs \<Longrightarrow> string_of (dmem s) p = xs"
proof -
  assume "string_at s A p xs"
  then have c: "cstr (dmem s) p xs" by (simp add: string_at_def)
  then have "unat (the (strlen (dmem s) p)) = length xs" using strlen_cstr[OF c] by (simp add: cstr_def unat_of_nat_small)
  then show ?thesis using cstr_char[OF c] unfolding string_of_def by (intro nth_equalityI) simp_all
qed

lemma u32_through_u64: "ucast (ucast x :: u64) = x" for x :: u32
  by (rule bit_word_eqI) (auto simp: bit_simps)

section \<open>One message\<close>

definition messages :: "string list" where
  "messages =
    [''Exception 0x%02X at RIP 0x%016lX: %s'' @ [CHR 0x0A], ''Error code 0x%08lX: (%s %s %s)'' @ [CHR 0x0A],
     ''Linear address of fault: 0x%016lX'' @ [CHR 0x0A], ''Error code 0x%08lX'' @ [CHR 0x0A],
     ''user'', ''kernel'', ''write'', ''read'', ''present'', ''non-present''] @ exception_text"

definition line :: "u64 \<Rightarrow> u8 list \<Rightarrow> u8 list" where
  "line ticks text = level_colour LEVEL_ERROR @ time_text ticks @ text @ [0x0A]"


text \<open>The log can take a message; \<open>t\<close> is \<open>s\<close> with the lines \<open>text\<close> written.\<close>

definition reporting :: "frame \<Rightarrow> (string \<Rightarrow> u64) \<Rightarrow> debug \<Rightarrow> bool" where
  "reporting fr str s \<longleftrightarrow> quiet s \<and> frame_ok fr s \<and> e9_mutex s = MUTEX_FREE \<and>
    (\<forall>x \<in> set messages. string_at s (work fr s) (str x) (chars x))"

definition reported :: "frame \<Rightarrow> (string \<Rightarrow> u64) \<Rightarrow> debug \<Rightarrow> u8 list \<Rightarrow> debug \<Rightarrow> bool" where
  "reported fr str s text t \<longleftrightarrow> logged s t (crlf text) (work fr s) \<and> reporting fr str t"

lemma reported_trans:
  assumes "reported fr str s xs t" and "reported fr str t ys u"
  shows "reported fr str s (xs @ ys) u"
proof -
  have l: "logged s t (crlf xs) (work fr s)" "logged t u (crlf ys) (work fr s)"
    using assms work_logged by (auto simp: reported_def)
  show ?thesis using logged_step[OF l order.refl order.refl] assms(2) by (simp add: reported_def)
qed

lemma reported_ticks: "reported fr str s xs t \<Longrightarrow> timer_ticks t = timer_ticks s \<and> reporting fr str t"
  using loggedD(5) by (auto simp: reported_def)

lemma report_format:
  assumes r: "reporting fr str s" and m: "m \<in> set messages" "format_bytes ps = chars m" "list_all piece_ok ps"
    and a: "arg_count ps \<le> length args" "\<forall>p \<in> set (string_args ps args). \<exists>x \<in> set messages. p = str x"
  shows "\<exists>n t. debug_printf font fr LEVEL_ERROR 0 (str m) args s = Inr (n, t) \<and>
    reported fr str s (level_colour LEVEL_ERROR @ time_text (timer_ticks s) @ render (string_of (dmem s)) ps args) t"
proof -
  let ?W = "work fr s" and ?S = "string_of (dmem s)"
  have s: "quiet s" "frame_ok fr s" "e9_mutex s = MUTEX_FREE" "\<forall>x \<in> set messages. string_at s ?W (str x) (chars x)"
    using r by (auto simp: reporting_def)
  have "string_at s ?W (str m) (format_bytes ps)" using s(4) m(1,2) by simp
  moreover have "\<forall>p \<in> set (string_args ps args). string_at s ?W p (?S p)" using a(2) s(4) string_of_at by metis
  ultimately obtain t where t: "debug_printf font fr LEVEL_ERROR 0 (str m) args s = Inr (of_nat (length (render ?S ps args)), t)"
    "logged s t (crlf (line_start ?S LEVEL_ERROR (timer_ticks s) 0 @ render ?S ps args)) ?W"
    using debug_printf_format[OF s(1-3) _ m(3) _ a(1), of 0 ?S "str m" font LEVEL_ERROR] by auto
  have "reporting fr str t"
    using loggedD(1,4)[OF t(2)] frame_logged(1)[OF t(2)] work_logged[OF t(2)] string_at_logged[OF _ t(2)] s
    by (simp add: reporting_def)
  then show ?thesis using t by (auto simp: reported_def line_start_def module_text_def)
qed

lemma report_exception:
  assumes r: "reporting fr str s" and x: "x \<in> set messages"
  shows "\<exists>n t. debug_printf font fr LEVEL_ERROR 0 (str (''Exception 0x%02X at RIP 0x%016lX: %s'' @ [CHR 0x0A])) [ucast nr, pc, str x] s = Inr (n, t) \<and>
    reported fr str s (line (timer_ticks s) (chars ''Exception 0x'' @ hex_text 2 (unat (nr :: u32)) @ chars '' at RIP 0x'' @
      hex_text 16 (unat pc) @ chars '': '' @ chars x)) t"
proof -
  have "string_of (dmem s) (str x) = chars x" using r x string_of_at by (auto simp: reporting_def)
  then show ?thesis
    using report_format[OF r _ message_bytes(1) messages_ok(1), of "[ucast nr, pc, str x]" font] x
    by (simp add: exception_pieces_def messages_def line_def hex_text_def pad_char_def u32_through_u64) blast
qed

lemma report_code:
  assumes "reporting fr str s"
  shows "\<exists>n t. debug_printf font fr LEVEL_ERROR 0 (str (''Error code 0x%08lX'' @ [CHR 0x0A])) [code] s = Inr (n, t) \<and>
    reported fr str s (line (timer_ticks s) (chars ''Error code 0x'' @ hex_text 8 (unat code))) t"
  using report_format[OF assms _ message_bytes(4) messages_ok(4), of "[code]" font]
  by (simp add: code_pieces_def messages_def line_def hex_text_def pad_char_def)

lemma report_address:
  assumes "reporting fr str s"
  shows "\<exists>n t. debug_printf font fr LEVEL_ERROR 0 (str (''Linear address of fault: 0x%016lX'' @ [CHR 0x0A])) [cr2] s = Inr (n, t) \<and>
    reported fr str s (line (timer_ticks s) (chars ''Linear address of fault: 0x'' @ hex_text 16 (unat cr2))) t"
  using report_format[OF assms _ message_bytes(3) messages_ok(3), of "[cr2]" font]
  by (simp add: address_pieces_def messages_def line_def hex_text_def pad_char_def)

lemma report_page_fault:
  assumes r: "reporting fr str s" and x: "x \<in> set messages" "y \<in> set messages" "z \<in> set messages"
  shows "\<exists>n t. debug_printf font fr LEVEL_ERROR 0 (str (''Error code 0x%08lX: (%s %s %s)'' @ [CHR 0x0A]))
      [code, str x, str y, str z] s = Inr (n, t) \<and>
    reported fr str s (line (timer_ticks s) (chars ''Error code 0x'' @ hex_text 8 (unat code) @ chars '': ('' @ chars x @
      chars '' '' @ chars y @ chars '' '' @ chars z @ chars '')'')) t"
proof -
  have S: "string_of (dmem s) (str w) = chars w" if "w \<in> set messages" for w
    using r that string_of_at by (auto simp: reporting_def)
  let ?args = "[code, str x, str y, str z]"
  have "render (string_of (dmem s)) page_fault_pieces ?args = chars ''Error code 0x'' @ hex_text 8 (unat code) @ chars '': ('' @
      chars x @ chars '' '' @ chars y @ chars '' '' @ chars z @ chars '')'' @ [0x0A]"
    using S x by (simp add: page_fault_pieces_def hex_text_def pad_char_def) (simp add: chars_def)
  moreover have "\<forall>p \<in> set (string_args page_fault_pieces ?args). \<exists>x \<in> set messages. p = str x"
    using x by (auto simp: page_fault_pieces_def)
  moreover have "arg_count page_fault_pieces \<le> length ?args" "''Error code 0x%08lX: (%s %s %s)'' @ [CHR 0x0A] \<in> set messages"
    by (simp_all add: page_fault_pieces_def messages_def)
  ultimately show ?thesis
    using report_format[OF r _ message_bytes(2) messages_ok(2), of ?args font] unfolding line_def append_assoc by metis
qed

lemma code_bits: "(code AND 4 \<noteq> 0) = bit code 2" "(code AND 2 \<noteq> 0) = bit code 1" "(code AND 1 \<noteq> 0) = bit code 0" for code :: u64
  using and_exp_eq_0_iff_not_bit[of code 2] and_exp_eq_0_iff_not_bit[of code 1] and_exp_eq_0_iff_not_bit[of code 0] by simp_all

section \<open>Properties\<close>

text \<open>The words for the three low bits of the error code, and the lines after the first one.\<close>

definition who_text :: "u64 \<Rightarrow> string" where "who_text code = (if bit code 2 then ''user'' else ''kernel'')"
definition what_text :: "u64 \<Rightarrow> string" where "what_text code = (if bit code 1 then ''write'' else ''read'')"
definition why_text :: "u64 \<Rightarrow> string" where "why_text code = (if bit code 0 then ''present'' else ''non-present'')"

definition detail_lines :: "u64 \<Rightarrow> u32 \<Rightarrow> u64 \<Rightarrow> u64 \<Rightarrow> u8 list" where
  "detail_lines ticks nr code cr2 =
    (if nr = 14 then
       line ticks (chars ''Error code 0x'' @ hex_text 8 (unat code) @ chars '': ('' @ chars (who_text code) @ chars '' '' @
         chars (what_text code) @ chars '' '' @ chars (why_text code) @ chars '')'') @
       line ticks (chars ''Linear address of fault: 0x'' @ hex_text 16 (unat cr2))
     else line ticks (chars ''Error code 0x'' @ hex_text 8 (unat code)))"

lemma details_reported:
  assumes first: "debug_printf font fr LEVEL_ERROR 0 (str (''Exception 0x%02X at RIP 0x%016lX: %s'' @ [CHR 0x0A]))
      [ucast nr, pc, str (exception_text ! unat nr)] s = Inr (n, u)"
    and ru: "reporting fr str u" and nr: "unat nr < 32"
  shows "\<exists>t. exception_report font fr str cr2 nr code pc s = Inr t \<and> reported fr str u (detail_lines (timer_ticks u) nr code cr2) t"
proof (cases "nr = 14")
  case True
  have w: "who_text code \<in> set messages" "what_text code \<in> set messages" "why_text code \<in> set messages"
    by (simp_all add: messages_def who_text_def what_text_def why_text_def)
  obtain n v where v: "debug_printf font fr LEVEL_ERROR 0 (str (''Error code 0x%08lX: (%s %s %s)'' @ [CHR 0x0A]))
      [code, str (who_text code), str (what_text code), str (why_text code)] u = Inr (n, v)"
    "reported fr str u (line (timer_ticks u) (chars ''Error code 0x'' @ hex_text 8 (unat code) @ chars '': ('' @ chars (who_text code) @
      chars '' '' @ chars (what_text code) @ chars '' '' @ chars (why_text code) @ chars '')'')) v"
    using report_page_fault[OF ru w] by blast
  note tv = reported_ticks[OF v(2)]
  obtain m t where t: "debug_printf font fr LEVEL_ERROR 0 (str (''Linear address of fault: 0x%016lX'' @ [CHR 0x0A])) [cr2] v = Inr (m, t)"
    "reported fr str v (line (timer_ticks v) (chars ''Linear address of fault: 0x'' @ hex_text 16 (unat cr2))) t"
    using report_address[OF conjunct2[OF tv]] by blast
  have "exception_report font fr str cr2 nr code pc s = Inr t"
    using first v(1) t(1) True nr by (simp add: exception_report_def exception_text_def code_bits who_text_def what_text_def why_text_def)
  then show ?thesis using reported_trans[OF v(2) t(2)] True tv by (auto simp: detail_lines_def)
next
  case False
  then show ?thesis using report_code[OF ru, of font code] first nr
    by (auto simp: exception_report_def detail_lines_def) (simp add: exception_text_def)
qed


text \<open>The messages in slots of 64 bytes from address 0 on.\<close>

definition message_address :: "string \<Rightarrow> u64" where
  "message_address x = of_nat (64 * length (takeWhile (\<lambda>y. y \<noteq> x) messages))"

definition message_memory :: memory where
  "message_memory a =
    (let i = unat a div 64; j = unat a mod 64
     in if i < length messages \<and> j < length (messages ! i) then of_char (messages ! i ! j) else 0)"

definition report_state :: debug where
  "report_state = log_state\<lparr>dmem := message_memory\<rparr>"

lemma messages_fit: "length messages = 42" "\<forall>x \<in> set messages. length x < 64 \<and> 0 \<notin> set (chars x)"
  by (simp_all add: messages_def exception_text_def chars_def)

lemma index_less: "x \<in> set xs \<Longrightarrow> length (takeWhile (\<lambda>y. y \<noteq> x) xs) < length xs"
  by (induction xs) auto

lemma message_at:
  assumes "x \<in> set messages"
  shows "string_at report_state (work log_frame report_state) (message_address x) (chars x)"
proof -
  define i where "i = length (takeWhile (\<lambda>y. y \<noteq> x) messages)"
  have i: "i < 42" "messages ! i = x"
    using assms nth_length_takeWhile[of "\<lambda>y. y \<noteq> x" messages] index_less[of x messages] messages_fit(1)
    by (auto simp: i_def)
  have x: "length x < 64" "0 \<notin> set (chars x)" using messages_fit(2) assms by simp_all
  have m: "message_memory (of_nat (64 * i) + of_nat j) = (if j < length x then of_char (x ! j) else 0)" if "j < 64" for j
  proof -
    have "unat (of_nat (64 * i + j) :: u64) = 64 * i + j" using that i by (intro unat_of_nat_small) simp
    then show ?thesis using that i messages_fit(1) by (simp add: message_memory_def)
  qed
  have "cstr message_memory (of_nat (64 * i)) (chars x)"
    using x m by (intro cstrI) (auto simp: chars_def simp del: of_nat_mult)
  then have "cstr (dmem report_state) (of_nat (64 * i)) (chars x)" by (simp add: report_state_def)
  moreover have "cell report_state = 0x3000" by (simp add: report_state_def cell_def log_state_def)
  ultimately show ?thesis
    using low_string[of report_state "64 * i" "chars x"] i x by (simp add: message_address_def i_def chars_def)
qed


end
