(* ===== verification/Boot_Info.thy ===== *)
theory Boot_Info
  imports Debug Machine
begin

text \<open>
  What the boot manager leaves in memory for the kernel, \<open>kernel/src/include/bootmgr.h\<close>: the packed
  structures and how \<open>kmain\<close>, \<open>pmm_init\<close> and \<open>screen_init\<close> read them.  Until the memory manager runs, the
  kernel, its stack and everything it is handed are reached through the direct map.
\<close>

section \<open>Memory through the direct map\<close>

text \<open>The bytes at the addresses of the direct map, and the physical memory that shows given bytes there.\<close>

definition direct_view :: "memory \<Rightarrow> memory" where
  "direct_view m v = m (v - PHYSICAL_MEMORY)"

definition direct_store :: "memory \<Rightarrow> memory" where
  "direct_store n a = n (a + PHYSICAL_MEMORY)"

lemma direct_view_store [simp]: "direct_view (direct_store n) = n" and direct_store_view [simp]: "direct_store (direct_view m) = m"
  by (simp_all add: direct_view_def direct_store_def fun_eq_iff)

text \<open>\<open>memcpy\<close>, byte by byte.\<close>

definition copy_bytes :: "u64 \<Rightarrow> u64 \<Rightarrow> nat \<Rightarrow> memory \<Rightarrow> memory" where
  "copy_bytes dest src n m = fold (\<lambda>i m. m(dest + of_nat i := m (src + of_nat i))) [0..<n] m"

definition read16 :: "memory \<Rightarrow> u64 \<Rightarrow> u16" where "read16 m a = ucast (le_word (load m a 2))"
definition read32 :: "memory \<Rightarrow> u64 \<Rightarrow> u32" where "read32 m a = ucast (le_word (load m a 4))"

section \<open>The structures\<close>

record boot_info_t =
  boot_signature :: "u8 list"
  boot_version :: u32
  boot_uefi :: u64
  boot_e820_map :: u64
  boot_e820_map_size :: u64
  boot_e820_map_entries :: u64
  boot_acpi_rsdp :: u64
  boot_smbios :: u64
  bios_optical :: u64
  bios_bootdisk :: u64
  mbr_partition :: u64
  bios_edd_info :: u64
  boot_vbe_bios_info :: u64
  boot_vbe_mode_info :: u64
  reserved_for_uefi :: "u64 list"

text \<open>\<open>sizeof(boot_info_t)\<close>\<close>

definition boot_info_size :: nat where "boot_info_size = 232"

definition read_boot_info :: "memory \<Rightarrow> u64 \<Rightarrow> boot_info_t" where
  "read_boot_info m a =
    \<lparr>boot_signature = load m a 4, boot_version = read32 m (a + 4), boot_uefi = read64 m (a + 8),
     boot_e820_map = read64 m (a + 16), boot_e820_map_size = read64 m (a + 24), boot_e820_map_entries = read64 m (a + 32),
     boot_acpi_rsdp = read64 m (a + 40), boot_smbios = read64 m (a + 48), bios_optical = read64 m (a + 56),
     bios_bootdisk = read64 m (a + 64), mbr_partition = read64 m (a + 72), bios_edd_info = read64 m (a + 80),
     boot_vbe_bios_info = read64 m (a + 88), boot_vbe_mode_info = read64 m (a + 96),
     reserved_for_uefi = map (\<lambda>i. read64 m (a + 104 + of_nat (8 * i))) [0..<16]\<rparr>"

text \<open>Entry \<open>i\<close> of the memory map: \<open>pmm_init\<close> steps through it by 32 bytes.\<close>

definition read_e820 :: "memory \<Rightarrow> u64 \<Rightarrow> u64 \<Rightarrow> e820_t" where
  "read_e820 m e820_map i =
    (let a = e820_map + i * 32
     in \<lparr>e820_size = read16 m a, e820_base = read64 m (a + 2), e820_length = read64 m (a + 10),
         e820_type = read32 m (a + 18), acpi3_flags = read32 m (a + 22)\<rparr>)"

definition read_mode_info :: "memory \<Rightarrow> u64 \<Rightarrow> vbe_mode_info_t" where
  "read_mode_info m a =
    \<lparr>mode_attributes = read16 m a, mode_window_a = m (a + 2), mode_window_b = m (a + 3),
     mode_granularity = read16 m (a + 4), mode_window_size = read16 m (a + 6),
     mode_segment_a = read16 m (a + 8), mode_segment_b = read16 m (a + 10),
     mode_win_func_ptr = read32 m (a + 12), mode_pitch = read16 m (a + 16),
     mode_width = read16 m (a + 18), mode_height = read16 m (a + 20), mode_w_char = m (a + 22),
     mode_y_char = m (a + 23), mode_planes = m (a + 24), mode_bpp = m (a + 25), mode_banks = m (a + 26),
     mode_memory_model = m (a + 27), mode_bank_size = m (a + 28), mode_image_pages = m (a + 29),
     mode_reserved0 = m (a + 30), mode_red = read16 m (a + 31), mode_green = read16 m (a + 33),
     mode_blue = read16 m (a + 35), mode_reserved = read16 m (a + 37), mode_direct_color = m (a + 39),
     mode_framebuffer = read32 m (a + 40), mode_invisible_vram = read32 m (a + 44),
     mode_invisible_vram_size = read16 m (a + 48), mode_reserved1 = load m (a + 50) 206\<rparr>"

section \<open>The copy is the original\<close>

lemma copy_bytes_load:
  assumes "\<And>i j. i < n \<Longrightarrow> j < n \<Longrightarrow> src + of_nat i \<noteq> dest + of_nat j" and "n < 2 ^ 64"
  shows "copy_bytes dest src n m = store m dest (load m src n)"
proof -
  have "k \<le> n \<Longrightarrow> copy_bytes dest src k m = store m dest (load m src k)" for k
  proof (induction k)
    case 0
    then show ?case by (simp add: copy_bytes_def store_def load_def)
  next
    case (Suc k)
    have src: "store m dest (load m src k) (src + of_nat k) = m (src + of_nat k)"
    proof -
      have "\<not> unat (src + of_nat k - dest) < k"
      proof
        assume "unat (src + of_nat k - dest) < k"
        then show False using assms(1)[of k "unat (src + of_nat k - dest)"] Suc.prems by simp
      qed
      then show ?thesis by (simp add: store_def)
    qed
    have "copy_bytes dest src (Suc k) m =
        (copy_bytes dest src k m)(dest + of_nat k := copy_bytes dest src k m (src + of_nat k))"
      by (simp add: copy_bytes_def)
    then show ?case using Suc src store_snoc[of "load m src k" m dest "m (src + of_nat k)"] assms(2)
      by (simp add: load_snoc)
  qed
  then show ?thesis by simp
qed

lemma load_cong:
  assumes "\<And>k. k < i + n \<Longrightarrow> m' (a + of_nat k) = m (b + of_nat k)"
  shows "load m' (a + of_nat i) n = load m (b + of_nat i) n"
  using assms[of "i + _"] by (auto simp: load_def add.assoc)

text \<open>\<open>boot_info\<close> holds what the boot manager passed, wherever the two are in memory.\<close>

theorem boot_info_copied:
  assumes "\<And>i j. i < boot_info_size \<Longrightarrow> j < boot_info_size \<Longrightarrow> src + of_nat i \<noteq> dest + of_nat j"
  shows "read_boot_info (copy_bytes dest src boot_info_size m) dest = read_boot_info m src"
proof -
  let ?m = "copy_bytes dest src boot_info_size m"
  have b: "?m (dest + of_nat k) = m (src + of_nat k)" if "k < 232" for k
  proof -
    have "unat (of_nat k :: u64) = k" using that by (intro unat_of_nat_small) simp
    then show ?thesis using copy_bytes_load[OF assms] that by (simp add: boot_info_size_def store_def load_def)
  qed
  have ld: "load ?m (dest + of_nat i) n = load m (src + of_nat i) n" if "i + n \<le> 232" for i n
    by (rule load_cong) (use b that in simp)
  have "load ?m (dest + 104 + of_nat (8 * i)) 8 = load m (src + 104 + of_nat (8 * i)) 8" if "i < 16" for i
    using ld[of "104 + 8 * i" 8] that by (simp add: add.assoc)
  then have "map (\<lambda>i. read64 ?m (dest + 104 + of_nat (8 * i))) [0..<16] = map (\<lambda>i. read64 m (src + 104 + of_nat (8 * i))) [0..<16]"
    by (simp add: read64_def)
  then show ?thesis
    using ld[of 0 4] ld[of 4 4] ld[of 8 8] ld[of 16 8] ld[of 24 8] ld[of 32 8] ld[of 40 8] ld[of 48 8] ld[of 56 8]
      ld[of 64 8] ld[of 72 8] ld[of 80 8] ld[of 88 8] ld[of 96 8]
    by (simp add: read_boot_info_def read64_def read32_def)
qed

end
