(* ===== verification/Kernel.thy ===== *)
theory Kernel
  imports Host Sched_Threads Exceptions Boot_Info
begin

text \<open>
  \<open>kmain\<close> of \<open>kernel/src/kmain.c\<close>: the order in which it starts the components, and what it hands from
  one to the next.
\<close>

section \<open>The start of the kernel\<close>

text \<open>
  What \<open>kmain\<close> is given from outside: the pointer in \<open>rdi\<close>, the addresses of variables and of
  entry points in assembly, the font, the devices, and the interpreter.
\<close>

record platform =
  boot_info_tmp :: u64
  boot_info_at :: u64
  plat_font :: "nat \<Rightarrow> u8"
  plat_frame :: frame
  version_text :: u64
  plat_devices :: devices
  int_handlers :: "nat \<Rightarrow> u64"
  pic0_stub :: u64
  pic1_stub :: u64
  spurious_stub :: u64
  timer_irq_stub :: u64
  sci_stub :: u64
  trampoline :: u64
  trampoline_code :: "u8 list"
  late_entry :: u64
  halted :: "sched \<Rightarrow> sched"
  lai_create_namespace :: "u64 \<Rightarrow> sched \<Rightarrow> halt + sched"
  lai_enable :: "u32 \<Rightarrow> sched \<Rightarrow> halt + sched"

text \<open>
  The first three calls: the copy of the boot information, the log, and the screen.  Everything they
  touch is reached through the direct map, so they act on the view of physical memory there.
\<close>

definition kmain_early :: "platform \<Rightarrow> debug \<Rightarrow> sched \<Rightarrow> halt + (boot_info_t \<times> debug \<times> sched)" where
  "kmain_early P dbg s =
    (let m = copy_bytes (boot_info_at P) (boot_info_tmp P) boot_info_size (direct_view (mem s));
         bi = read_boot_info m (boot_info_at P);
         (port_e9, s) = inb (plat_devices P) 0xE9 s
     in bnd (debug_init (plat_font P) (plat_frame P) port_e9 (version_text P) (dbg\<lparr>dmem := m\<rparr>)) (\<lambda>(_, dbg).
        bnd (screen_init (boot_uefi bi \<noteq> 0) (read_mode_info (dmem dbg) (boot_vbe_mode_info bi)) (dmem dbg, dscreen dbg))
          (\<lambda>((m, scr), shown).
        Inr (bi, dbg\<lparr>dmem := m, dscreen := scr, display_debug := shown\<rparr>, s\<lparr>mem := direct_store m\<rparr>))))"

text \<open>
  The results of \<open>acpi_init\<close> and \<open>acpi_install_irq\<close> are not looked at.  At the end the processor
  spins in the state that is the result, until the timer interrupts it.  The log messages of the
  components after \<open>screen_init\<close> are left out.
\<close>

definition kmain :: "platform \<Rightarrow> debug \<Rightarrow> sched \<Rightarrow> halt + (debug \<times> sched)" where
  "kmain P dbg s =
    bnd (kmain_early P dbg s) (\<lambda>(bi, dbg, s).
    bnd (mm_init (read_e820 (direct_view (mem s)) (boot_e820_map bi)) (boot_e820_map_entries bi) s) (\<lambda>s.
    bnd (smp_configure_cpu s) (\<lambda>s.
    bnd (idt_init (int_handlers P) s) (\<lambda>s.
    bnd (screen_setup_buffer (dscreen dbg, s)) (\<lambda>(scr, s).
    bnd (acpi_init (boot_acpi_rsdp bi) s) (\<lambda>(_, s).
    bnd (apic_init (plat_devices P) (pic0_stub P) (pic1_stub P) (spurious_stub P) s) (\<lambda>s.
    bnd (timer_init (plat_devices P) (timer_irq_stub P) s) (\<lambda>s.
    bnd (lai_create_namespace P (acpi_dsdt s) s) (\<lambda>s.
    bnd (acpi_install_irq (plat_devices P) (lai_enable P) (sci_stub P) s) (\<lambda>(_, s).
    bnd (smp_boot (halted P) (plat_devices P) (trampoline P) (trampoline_code P) s) (\<lambda>s.
    bnd (sched_init (late_entry P) s) (\<lambda>s.
    Inr (dbg\<lparr>dscreen := scr\<rparr>, s)))))))))))))"

text \<open>The first thread makes a second one and spins; the second sleeps between interrupts, round after round.\<close>

definition kmain_late :: "u8 \<Rightarrow> u64 \<Rightarrow> 'a sched_scheme \<Rightarrow> halt + 'a sched_scheme" where
  "kmain_late apic_id idle_entry s = bnd (create_thread apic_id idle_entry s) (\<lambda>(_, s). Inr s)"

definition idle_round :: "(sched \<Rightarrow> sched) \<Rightarrow> sched \<Rightarrow> sched" where
  "idle_round hlt s = hlt (emit Sti s)"

end
