(* ===== verification/Spec2Isabelle.thy ===== *)
theory Spec2Isabelle
  imports Mm_Properties Ech_Properties Sched_Properties Mutex_Smp Boot Apic_Init Kernel
begin

text \<open>
  Windozz: a small 64-bit kernel for x86 (\<open>kernel/src\<close>) and the tool that builds its disk images
  (\<open>echfs-utils\<close>).  This development models the C code of both and proves what makes each part
  correct.  This theory only collects the others.

  The program.  \<open>kmain\<close> takes over from the boot manager with a page table that maps the lowest
  addresses and all of physical memory at \<open>0xFFFF800000000000\<close> (the direct map).  It starts, in this order,
  the log and the screen, the physical memory manager (a bitmap of page frames, filled from the
  firmware's map), the virtual memory manager (page tables, device mappings) and the heap above it,
  the descriptor tables, the back buffer of the screen, the ACPI tables, the interrupt controllers
  (found through the MADT), the timer, the interpreter of ACPI bytecode, the other processors, and the
  scheduler, which the timer interrupt drives from then on.  The image tool is a separate program: it reads
  and writes an echidnaFS image, a file of blocks with an allocation table and one table of directory
  entries.

  How the code is translated.  A C function is a definition of the same name on a record with the variables
  it uses; the record of a component extends those of the components it calls (\<open>pmm\<close>, \<open>vmm\<close>, \<open>heap\<close>,
  \<open>machine\<close>, \<open>cpu_tables\<close>, \<open>acpi\<close>, \<open>apic\<close>, \<open>timer\<close>, \<open>smp\<close>, \<open>sched\<close>), so that an
  operation acts on any state that has at least its own fields.  Integers have their C width and wrap.  Code that does
  not return, because it stops with a message, loops for ever, spins on a taken lock, or accesses memory it
  must not, is a value of the type \<open>halt\<close> in theory \<open>Prelude\<close>; \<open>bnd\<close> sequences such operations, \<open>fold_res\<close> is
  a counted loop of them.  A loop that need not end is a \<open>partial_function\<close> and
  becomes \<open>Diverges\<close> where the result is \<open>None\<close>; that the loops end is part of the theorems.  Physical
  memory is a function from addresses to bytes.  A pointer is read and written through the page tables
  (\<open>vread\<close>, \<open>vwrite8\<close>), so that what is mapped where matters.  Port, register and device accesses are
  appended to a trace of events; what a device answers is a function of that trace.

  The theories, from the bottom up.
  \<^item> \<open>Prelude\<close>: machine integers, \<open>halt\<close>, bytes, words and their encodings, alignment.
  \<^item> \<open>Mutex\<close> and \<open>Mutex_Smp\<close> (\<open>include/mutex.h\<close>, \<open>acquire\<close> and \<open>release\<close> of \<open>asm/cpu.asm\<close>): the lock as
    its holder sees it, and its instructions as steps of any number of processors, with mutual exclusion
    by rule induction and the first as an abstraction of the second.
  \<^item> \<open>CString\<close>, \<open>CString_Numbers\<close> (\<open>misc/string.c\<close>): the C library, the digits written by \<open>ltoa\<close>,
    and that \<open>atoi\<close> reads them back.
  \<^item> \<open>Pmm\<close> (\<open>mm/pmm.c\<close>): first fit, the counters after any run of operations, which frames
    \<open>pmm_init\<close> leaves free; the bitmap as a set of frames is an interpretation of the locale \<open>frame_allocator\<close>.
  \<^item> \<open>Vmm\<close>, \<open>Vmm_Tables\<close>, \<open>Vmm_Ranges\<close>, \<open>Vmm_Heap\<close>, \<open>Vmm_Total\<close> (\<open>mm/vmm.c\<close>): the page tables form a
    tree of frames in use, mapping a page updates one entry of the map from pages to frames (the locale
    \<open>page_table\<close>), searches return the first free range, ranges of the heap own their frames, and with enough free
    frames the operations return.
  \<^item> \<open>Heap\<close>, \<open>Heap_Budget\<close>, \<open>Heap_Frame\<close>, \<open>Mmio_Budget\<close>, \<open>Small_Heap\<close>, \<open>Mm_Properties\<close>, \<open>Boot\<close>
    (\<open>mm/mm.c\<close>): the heap, and \<open>mm_init\<close>, which establishes its invariant.  Loops that store
    bytes work in the locale \<open>byte_memory\<close>, with the interpretations \<open>heap_bytes\<close> (contents),
    \<open>heap_stores\<close> (and nothing else changes) and \<open>heap_fills\<close> (nor what was reserved at a given
    state); sequences of allocations in the locale \<open>block_allocator\<close> with the interpretation \<open>kheap\<close>.
  \<^item> \<open>Screen\<close>, \<open>Screen_Buffer\<close> (\<open>gfx/screen.c\<close>): the console stays inside its frame buffer, and the
    back buffer starts as a copy of the picture.
  \<^item> \<open>Debug\<close>, \<open>Debug_Format\<close>, \<open>Exceptions\<close> (\<open>misc/debug.c\<close>, \<open>misc/exception.c\<close>): formatted output equals a
    reference rendering of the format, and what the exception handler reports.
  \<^item> \<open>Machine\<close>, \<open>Descriptors\<close> (\<open>include/io.h\<close>, \<open>firmware/pci.c\<close>, \<open>misc/gdt.c\<close>, \<open>misc/idt.c\<close>): the instructions
    that leave the processor, the segment and interrupt descriptors.
  \<^item> \<open>Acpi\<close>, \<open>Host\<close> (\<open>acpi/\<close>): finding tables, and what the kernel offers to the interpreter.
  \<^item> \<open>Apic\<close>, \<open>Apic_Properties\<close>, \<open>Apic_Init\<close> (\<open>apic/apic.c\<close>, \<open>apic/lapic.c\<close>, \<open>apic/ioapic.c\<close>): the loop over the MADT
    against a reference reading of its bytes, and the whole of \<open>apic_init\<close> down to the register of
    each interrupt line.
  \<^item> \<open>Timer\<close>, \<open>Smpboot\<close> (\<open>firmware/\<close>, \<open>apic/smpboot.c\<close>): the routing and unmasking of the timer's
    line, and the interrupts that start the other processors.
  \<^item> \<open>Sched\<close>, \<open>Sched_Properties\<close>, \<open>Sched_Create\<close>, \<open>Sched_Threads\<close> (\<open>sys/sched.c\<close>): \<open>resched\<close> as a choice in a fixed
    order, its fairness inside one process and its unfairness between processes, and what
    \<open>create_process\<close>, \<open>create_thread\<close> and \<open>sched_init\<close> leave in the tables and in memory.
  \<^item> \<open>Boot_Info\<close>, \<open>Kernel\<close> (\<open>include/bootmgr.h\<close>, \<open>kmain.c\<close>): the boot information and the composition of
    all of the above.
  \<^item> \<open>Ech_Image\<close>, \<open>Ech_Chain\<close>, \<open>Ech_Dir\<close>, \<open>Ech_Cmd\<close>, \<open>Ech_Fs\<close>, \<open>Ech_Format\<close>, \<open>Ech_Properties\<close>
    (\<open>echfs-utils/echfs-utils.c\<close>): the image as bytes, the chains of the allocation table, the directory,
    the commands, the abstract file system they keep well-formed, formatting, and the round trip
    of a file through the image.

  Bounds.  \<open>heap_budget s N\<close> and \<open>mmio_budget s N\<close> say that \<open>N\<close> more pages can be allocated and mapped: each
  page of the heap needs at most itself and three tables, each device page at most three tables.  The
  budgets of the theorems are the pages the code asks for: 705 for the table of device regions, 11 and
  one for each I/O APIC in \<open>apic_init\<close>, and those named in the theorems on processes and threads.  The waiting
  loops of \<open>smp_boot\<close> have no fuel: they end after \<open>patience\<close> (2000) rounds as in the code.  The
  concrete machines of the witnesses have 16 MB of memory; 900 pages of it can be spent.

  Parameters.  What is not C code of the repository is an argument: answers of devices, the state in which a
  halted processor wakes up, the address and bytes of the entry points and of the trampoline in
  assembly, the addresses of strings and stack arrays, the font, the functions of the interpreter,
  and, for the image tool, the host's files, clock and allocations.  Each is instantiated by a
  concrete function in the witnesses.

  Not modelled.  The assembly routines other than the lock: entry stubs, saving registers and the trampoline
  only appear as the addresses above, and \<open>load_context\<close> is the result of \<open>resched\<close>.  The boot
  manager (16-bit assembly), whose page table is a hypothesis on \<open>mm_init\<close>.  The interpreter \<open>lai\<close>, a submodule that
  is not in the repository.  The log messages that the components of the kernel print on the way, and the
  progress messages of the image tool: they change nothing but the log, whose code has
  its own theories.  Caches and the order of memory accesses between processors, except for the lock.
\<close>

end
